(* ===== verification/Prelude.thy ===== *)
theory Prelude
  imports Main "HOL-Library.Word"
begin

text \<open>
  The vocabulary every component of the development shares.

  \<^item> Rust's machine integers are words of their width. The four flavours of arithmetic the
    sources use (\<open>checked_\<close>, \<open>saturating_\<close>, plain wrapping operators, and casts) are functions
    on words of any width.
  \<^item> A fallible Rust call is a value of type \<open>result\<close>: \<open>Ok\<close>, \<open>Err\<close> or \<open>Panic\<close> (a failed
    \<open>assert!\<close>, \<open>expect\<close>, \<open>unwrap\<close> or an index out of bounds).
  \<^item> A function that mutates a state and may fail is of type \<open>('s, 'e, 'a) exec\<close>: it returns its
    result together with the state it leaves behind, also when it fails, because Rust keeps
    the mutations made before an early return.
\<close>

unbundle bit_operations_syntax

named_theorems rust_arith "definitions of the integer operations, to be unfolded together"
named_theorems exec_simps "evaluation of the state-passing combinators"
named_theorems exec_ok "what a successful run of a combinator says of its parts"

section \<open>Machine integers\<close>

type_synonym u8 = "8 word"
type_synonym u16 = "16 word"
type_synonym u32 = "32 word"
type_synonym u64 = "64 word"
type_synonym u128 = "128 word"

definition checked_add :: "'a::len word \<Rightarrow> 'a word \<Rightarrow> 'a word option" where
  "checked_add x y = (if unat x + unat y < 2 ^ LENGTH('a) then Some (x + y) else None)"

definition checked_sub :: "'a::len word \<Rightarrow> 'a word \<Rightarrow> 'a word option" where
  "checked_sub x y = (if y \<le> x then Some (x - y) else None)"

definition checked_mul :: "'a::len word \<Rightarrow> 'a word \<Rightarrow> 'a word option" where
  "checked_mul x y = (if unat x * unat y < 2 ^ LENGTH('a) then Some (x * y) else None)"

definition checked_div :: "'a::len word \<Rightarrow> 'a word \<Rightarrow> 'a word option" where
  "checked_div x y = (if y = 0 then None else Some (x div y))"

definition checked_rem :: "'a::len word \<Rightarrow> 'a word \<Rightarrow> 'a word option" where
  "checked_rem x y = (if y = 0 then None else Some (x mod y))"

definition saturating_add :: "'a::len word \<Rightarrow> 'a word \<Rightarrow> 'a word" where
  "saturating_add x y = (if unat x + unat y < 2 ^ LENGTH('a) then x + y else - 1)"

definition saturating_sub :: "'a::len word \<Rightarrow> 'a word \<Rightarrow> 'a word" where
  "saturating_sub x y = (if y \<le> x then x - y else 0)"

definition saturating_mul :: "'a::len word \<Rightarrow> 'a word \<Rightarrow> 'a word" where
  "saturating_mul x y = (if unat x * unat y < 2 ^ LENGTH('a) then x * y else - 1)"

definition saturating_pow :: "'a::len word \<Rightarrow> nat \<Rightarrow> 'a word" where
  "saturating_pow x n = (if unat x ^ n < 2 ^ LENGTH('a) then x ^ n else - 1)"

lemmas rust_arith_defs [rust_arith] =
  checked_add_def checked_sub_def checked_mul_def checked_div_def checked_rem_def
  saturating_add_def saturating_sub_def saturating_mul_def saturating_pow_def

lemma unat_lt_exp: "unat (x :: 'a::len word) < 2 ^ LENGTH('a)"
  by (rule unsigned_less)

lemma unat_max_word: "unat (- 1 :: 'a::len word) = 2 ^ LENGTH('a) - 1"
  by (simp add: unsigned_minus_1_eq_mask mask_eq_exp_minus_1)

lemma min_exp_pred: "\<not> n < 2 ^ k \<Longrightarrow> min n (2 ^ k - 1) = (2 ^ k - 1 :: nat)"
  by simp

lemma checked_add_Some_iff:
  "checked_add x y = Some z \<longleftrightarrow> unat z = unat x + unat (y :: 'a::len word)"
proof
  assume "checked_add x y = Some z"
  then show "unat z = unat x + unat y"
    by (auto simp: checked_add_def unat_word_ariths split: if_splits)
next
  assume z: "unat z = unat x + unat y"
  then have "unat x + unat y < 2 ^ LENGTH('a)"
    using unat_lt_exp [of z] by simp
  moreover from this have "z = x + y"
    using z by (simp add: word_unat_eq_iff unat_word_ariths)
  ultimately show "checked_add x y = Some z"
    by (simp add: checked_add_def)
qed

lemma checked_sub_Some_iff:
  "checked_sub x y = Some z \<longleftrightarrow> unat x = unat z + unat (y :: 'a::len word)"
proof
  assume "checked_sub x y = Some z"
  then have "y \<le> x" and "z = x - y"
    by (auto simp: checked_sub_def split: if_splits)
  then show "unat x = unat z + unat y"
    by (simp add: unat_sub_if' word_le_nat_alt)
next
  assume z: "unat x = unat z + unat y"
  then have "y \<le> x"
    by (simp add: word_le_nat_alt)
  moreover from this have "z = x - y"
    using z by (simp add: word_unat_eq_iff unat_sub_if' word_le_nat_alt)
  ultimately show "checked_sub x y = Some z"
    by (simp add: checked_sub_def)
qed

lemma checked_sub_None_iff: "checked_sub x y = None \<longleftrightarrow> x < (y :: 'a::len word)"
  by (auto simp: checked_sub_def)

lemma checked_add_None_iff:
  "checked_add x y = None \<longleftrightarrow> 2 ^ LENGTH('a) \<le> unat x + unat (y :: 'a::len word)"
  by (auto simp: checked_add_def)

lemma unat_saturating_add:
  "unat (saturating_add x y) = min (unat x + unat y) (2 ^ LENGTH('a) - 1)"
  for x y :: "'a::len word"
  by (cases "unat x + unat y < 2 ^ LENGTH('a)")
    (simp_all add: saturating_add_def unat_word_ariths unat_max_word min_exp_pred)

lemma unat_saturating_sub: "unat (saturating_sub x y) = unat x - unat (y :: 'a::len word)"
  by (auto simp: saturating_sub_def unat_sub_if' word_le_nat_alt)

lemma unat_saturating_mul:
  "unat (saturating_mul x y) = min (unat x * unat y) (2 ^ LENGTH('a) - 1)"
  for x y :: "'a::len word"
  by (cases "unat x * unat y < 2 ^ LENGTH('a)")
    (simp_all add: saturating_mul_def unat_word_ariths unat_max_word min_exp_pred)

lemma saturating_add_ge: "x \<le> saturating_add x (y :: 'a::len word)"
proof -
  have "unat x \<le> 2 ^ LENGTH('a) - 1"
    using unat_lt_exp [of x] by linarith
  then show ?thesis
    by (simp add: word_le_nat_alt unat_saturating_add)
qed

lemma saturating_add_0 [simp]: "saturating_add x 0 = (x :: 'a::len word)"
  using unat_lt_exp [of x] by (simp add: saturating_add_def)

section \<open>Bits and casts, read as natural numbers\<close>

lemma and_80_nat: "x < 256 \<Longrightarrow> ((x::nat) AND 0x80 = 0) = (x < 128)"
proof -
  assume a: "x < 256"
  have "(x AND 2 ^ 7 = 0) \<longleftrightarrow> even (x div 2 ^ 7)"
    using and_exp_eq_0_iff_not_bit[of x 7] by (simp only: bit_iff_odd not_not) 
  also have "\<dots> \<longleftrightarrow> x < 128"
  proof (cases "x < 128")
    case False
    then have "x div 2 ^ 7 = 1" using a by (intro div_nat_eqI) auto
    with False show ?thesis by simp
  qed simp
  finally show ?thesis by simp
qed

lemma or_push_bit_nat: "(x::nat) < 2 ^ k \<Longrightarrow> x OR push_bit k y = x + y * 2 ^ k"
proof -
  assume "x < 2 ^ k"
  then have x: "take_bit k x = x" by (rule take_bit_nat_eq_self)
  have "take_bit k x AND push_bit k y = 0"
    by (rule bit_eqI) (simp add: bit_and_iff bit_take_bit_iff bit_push_bit_iff)
  then have "x + push_bit k y = x OR push_bit k y"
    unfolding x by (rule disjunctive_add_eq_or)
  then show ?thesis by (simp add: push_bit_eq_mult)
qed

lemma or_80_nat: "x < 128 \<Longrightarrow> (x::nat) OR 0x80 = x + 128"
  using or_push_bit_nat[of x 7 1] by (simp add: push_bit_eq_mult)

lemma mask_7_nat: "(0x7f::nat) = mask 7" by (simp add: mask_eq_exp_minus_1)

lemma and_7f_nat: "(x::nat) AND 0x7f = x mod 128"
  unfolding mask_7_nat take_bit_eq_mask[symmetric] take_bit_eq_mod by simp

lemma unat_drop_bit: "unat (drop_bit n (x :: 'a::len word)) = unat x div 2 ^ n"
  by (subst unat_drop_bit_eq) (rule drop_bit_eq_div)

lemma unat_ucast_mod: "unat (ucast (x :: 'a::len word) :: 'b::len word) = unat x mod 2 ^ LENGTH('b)"
  by (simp add: unsigned_ucast_eq take_bit_eq_mod)

lemma unat_ucast_up:
  "LENGTH('a) \<le> LENGTH('b) \<Longrightarrow> unat (ucast (x :: 'a::len word) :: 'b::len word) = unat x"
proof -
  assume "LENGTH('a) \<le> LENGTH('b)"
  then have "(2::nat) ^ LENGTH('a) \<le> 2 ^ LENGTH('b)" by simp
  with unat_lt_exp [of x] have "unat x < 2 ^ LENGTH('b)" by (rule less_le_trans)
  then show ?thesis by (simp add: unat_ucast_mod)
qed

lemma unat_and_7f_8: "unat ((x::u8) AND 0x7f) = unat x mod 128"
  by (simp add: unsigned_and_eq and_7f_nat)

lemma unat_and_7f_16: "unat ((x::u16) AND 0x7f) = unat x mod 128"
  by (simp add: unsigned_and_eq and_7f_nat)

lemma unat_and_7f_32: "unat ((x::u32) AND 0x7f) = unat x mod 128"
  by (simp add: unsigned_and_eq and_7f_nat)

lemma unat_and_80_32: "unat x < 256 \<Longrightarrow> ((x::u32) AND 0x80 = 0) = (unat x < 128)"
  by (simp add: word_unat_eq_iff unsigned_and_eq and_80_nat)

lemma unat_of_nat_lt: "n < 2 ^ LENGTH('a) \<Longrightarrow> unat (of_nat n :: 'a::len word) = n"
  by (simp only: unat_of_nat mod_less)

lemma unat_power_2_u64: "c < 64 \<Longrightarrow> unat ((2 :: u64) ^ c) = 2 ^ c"
proof -
  assume "c < 64"
  then have "(2::nat) ^ c < 2 ^ LENGTH(64)" by (intro power_strict_increasing) simp_all
  then have "unat (of_nat (2 ^ c) :: u64) = 2 ^ c" by (rule unat_of_nat_lt)
  then show ?thesis by simp
qed

lemma drop_bit_7_of_nat: "drop_bit 7 v = (of_nat (unat v div 128) :: 'a::len word)"
proof -
  have "unat v div 128 < 2 ^ LENGTH('a)"
    using unat_lt_exp [of v] by (rule le_less_trans [OF div_le_dividend])
  then show ?thesis by (simp only: word_unat_eq_iff unat_drop_bit unat_of_nat_lt) simp
qed

section \<open>Number of binary digits\<close>

fun bit_length :: "nat \<Rightarrow> nat" where
  "bit_length n = (if n = 0 then 0 else Suc (bit_length (n div 2)))"

declare bit_length.simps [simp del]

lemma bit_length_0_1 [simp]: "bit_length 0 = 0" "bit_length (Suc 0) = 1"
  by (simp_all add: bit_length.simps)

lemma bit_length_bounds:
  "n < 2 ^ bit_length n" "0 < n \<Longrightarrow> 2 ^ (bit_length n - 1) \<le> n"
proof (induction n rule: bit_length.induct)
  case (1 n)
  { case 1
    show ?case
    proof (cases "n = 0")
      case False
      then have "n div 2 < 2 ^ bit_length (n div 2)" using "1.IH"(1) by blast
      then show ?thesis using False by (simp add: bit_length.simps [of n])
    qed simp
  next
    case 2
    show ?case
    proof (cases "n div 2 = 0")
      case True
      then show ?thesis using 2 by (simp add: bit_length.simps [of n] bit_length.simps [of 0])
    next
      case False
      then have "2 ^ (bit_length (n div 2) - 1) \<le> n div 2" using "1.IH"(2) 2 by simp
      moreover have "0 < bit_length (n div 2)" using False by (subst bit_length.simps) simp
      ultimately have "2 ^ bit_length (n div 2) \<le> n"
        by (cases "bit_length (n div 2)") auto
      then show ?thesis using 2 by (simp add: bit_length.simps [of n])
    qed
  }
qed

section \<open>Slices and iterators\<close>

text \<open>The last element (\<open>last\<close>, \<open>next_back\<close>), \<open>get\<close>, and the first and last position of an element.\<close>

definition next_back :: "'a list \<Rightarrow> 'a option" where
  "next_back xs = (if xs = [] then None else Some (last xs))"

definition vec_get :: "'a list \<Rightarrow> nat \<Rightarrow> 'a option" where
  "vec_get xs i = (if i < length xs then Some (xs ! i) else None)"

fun position :: "('a \<Rightarrow> bool) \<Rightarrow> 'a list \<Rightarrow> nat option" where
  "position P [] = None"
| "position P (x # xs) = (if P x then Some 0 else map_option Suc (position P xs))"

definition rposition :: "('a \<Rightarrow> bool) \<Rightarrow> 'a list \<Rightarrow> nat option" where
  "rposition P xs = map_option (\<lambda>i. length xs - 1 - i) (position P (rev xs))"

lemma vec_get_Some_iff: "vec_get xs i = Some x \<longleftrightarrow> i < length xs \<and> x = xs ! i"
  by (auto simp: vec_get_def)

lemma vec_get_None_iff [simp]: "vec_get xs i = None \<longleftrightarrow> length xs \<le> i"
  by (auto simp: vec_get_def)

lemma position_Some_iff:
  "position P xs = Some i \<longleftrightarrow> i < length xs \<and> P (xs ! i) \<and> (\<forall>j < i. \<not> P (xs ! j))"
proof (induction xs arbitrary: i)
  case (Cons x xs)
  then show ?case by (cases i) (auto simp: less_Suc_eq_0_disj)
qed simp

section \<open>Results\<close>

datatype ('a, 'e) result = Ok 'a | Err 'e | Panic

definition ok_or :: "'a option \<Rightarrow> 'e \<Rightarrow> ('a, 'e) result" where
  "ok_or x e = (case x of Some a \<Rightarrow> Ok a | None \<Rightarrow> Err e)"

text \<open>\<open>expect\<close> is \<open>Option::expect\<close> (and \<open>unwrap\<close>): \<open>None\<close> panics.\<close>

definition expect :: "'a option \<Rightarrow> ('a, 'e) result" where
  "expect x = (case x of Some a \<Rightarrow> Ok a | None \<Rightarrow> Panic)"

definition is_ok :: "('a, 'e) result \<Rightarrow> bool" where
  "is_ok r = (case r of Ok _ \<Rightarrow> True | _ \<Rightarrow> False)"

fun and_then :: "('a, 'e) result \<Rightarrow> ('a \<Rightarrow> ('b, 'e) result) \<Rightarrow> ('b, 'e) result" where
  "and_then (Ok a) f = f a"
| "and_then (Err e) f = Err e"
| "and_then Panic f = Panic"

fun map_err :: "('e \<Rightarrow> 'f) \<Rightarrow> ('a, 'e) result \<Rightarrow> ('a, 'f) result" where
  "map_err f (Ok a) = Ok a"
| "map_err f (Err e) = Err (f e)"
| "map_err f Panic = Panic"

lemma ok_or_Ok_iff [simp]: "ok_or x e = Ok a \<longleftrightarrow> x = Some a"
  by (auto simp: ok_or_def split: option.splits)

lemma ok_or_Err_iff [simp]: "ok_or x e = Err e' \<longleftrightarrow> x = None \<and> e' = e"
  by (auto simp: ok_or_def split: option.splits)

lemma ok_or_simps [simp]: "ok_or (Some a) e = Ok a" "ok_or None e = Err e"
  by (simp_all add: ok_or_def)

lemma ok_or_not_Panic [simp]: "ok_or x e \<noteq> Panic" "Panic \<noteq> ok_or x e"
  by (auto simp: ok_or_def split: option.splits)

lemma expect_simps [simp]: "expect (Some a) = Ok a" "expect None = Panic"
  by (simp_all add: expect_def)

lemma expect_Ok_iff [simp]: "expect x = Ok a \<longleftrightarrow> x = Some a"
  by (cases x) simp_all

lemma is_ok_simps [simp]: "is_ok (Ok a)" "\<not> is_ok (Err e)" "\<not> is_ok Panic"
  by (simp_all add: is_ok_def)

lemma is_ok_iff: "is_ok r \<longleftrightarrow> (\<exists>a. r = Ok a)"
  by (cases r) simp_all

lemma and_then_Ok_iff [simp]:
  "and_then r f = Ok b \<longleftrightarrow> (\<exists>a. r = Ok a \<and> f a = Ok b)"
  by (cases r) auto

lemma and_then_Panic_iff [simp]: "and_then r f = Panic \<longleftrightarrow> r = Panic \<or> (\<exists>a. r = Ok a \<and> f a = Panic)"
  by (cases r) auto

lemma map_err_Ok_iff [simp]: "map_err f r = Ok a \<longleftrightarrow> r = Ok a"
  by (cases r) auto

section \<open>State passing with failure\<close>

type_synonym ('s, 'e, 'a) exec = "'s \<Rightarrow> ('a, 'e) result \<times> 's"

definition ret :: "'a \<Rightarrow> ('s, 'e, 'a) exec" where
  "ret a s = (Ok a, s)"

definition throw :: "'e \<Rightarrow> ('s, 'e, 'a) exec" where
  "throw e s = (Err e, s)"

definition panic :: "('s, 'e, 'a) exec" where
  "panic s = (Panic, s)"

definition lift :: "('a, 'e) result \<Rightarrow> ('s, 'e, 'a) exec" where
  "lift r s = (r, s)"

definition gets :: "('s \<Rightarrow> 'a) \<Rightarrow> ('s, 'e, 'a) exec" where
  "gets f s = (Ok (f s), s)"

definition modify :: "('s \<Rightarrow> 's) \<Rightarrow> ('s, 'e, unit) exec" where
  "modify f s = (Ok (), f s)"

definition bind_exec :: "('s, 'e, 'a) exec \<Rightarrow> ('a \<Rightarrow> ('s, 'e, 'b) exec) \<Rightarrow> ('s, 'e, 'b) exec" where
  "bind_exec m f s =
     (case m s of (Ok a, s') \<Rightarrow> f a s' | (Err e, s') \<Rightarrow> (Err e, s') | (Panic, s') \<Rightarrow> (Panic, s'))"

text \<open>\<open>require c e\<close> is the guard \<open>if !c { return Err(e) }\<close>.\<close>

definition require :: "bool \<Rightarrow> 'e \<Rightarrow> ('s, 'e, unit) exec" where
  "require c e = (if c then ret () else throw e)"

text \<open>\<open>and_finally m c\<close> runs \<open>c\<close> on the state that \<open>m\<close> leaves, however \<open>m\<close> ends:
  the destructor of a guard that goes out of scope.\<close>

definition and_finally :: "('s, 'e, 'a) exec \<Rightarrow> ('s \<Rightarrow> 's) \<Rightarrow> ('s, 'e, 'a) exec" where
  "and_finally m c s = (case m s of (r, s') \<Rightarrow> (r, c s'))"

text \<open>\<open>outcome m\<close> runs \<open>m\<close> and hands its result on as a value, for \<open>.is_ok()\<close> and \<open>.and()\<close>.\<close>

definition outcome :: "('s, 'e, 'a) exec \<Rightarrow> ('s, 'f, ('a, 'e) result) exec" where
  "outcome m s = (case m s of (r, s') \<Rightarrow> (Ok r, s'))"

lemma exec_eval [exec_simps]:
  "ret a s = (Ok a, s)"
  "throw e s = (Err e, s)"
  "panic s = (Panic, s)"
  "lift r s = (r, s)"
  "gets f s = (Ok (f s), s)"
  "modify g s = (Ok (), g s)"
  "require c e s = (if c then (Ok (), s) else (Err e, s))"
  by (simp_all add: ret_def throw_def panic_def lift_def gets_def modify_def require_def)

lemma bind_exec_eval [exec_simps]:
  "m s = (Ok a, s') \<Longrightarrow> bind_exec m f s = f a s'"
  "m s = (Err e, s') \<Longrightarrow> bind_exec m f s = (Err e, s')"
  "m s = (Panic, s') \<Longrightarrow> bind_exec m f s = (Panic, s')"
  by (simp_all add: bind_exec_def)

lemma bind_exec_Ok_iff [exec_ok]:
  "bind_exec m f s = (Ok b, t) \<longleftrightarrow> (\<exists>a s'. m s = (Ok a, s') \<and> f a s' = (Ok b, t))"
  by (auto simp: bind_exec_def split: prod.splits result.splits)

lemma exec_Ok_iff [exec_ok]:
  "ret a s = (Ok b, t) \<longleftrightarrow> b = a \<and> t = s"
  "throw e s = (Ok b, t) \<longleftrightarrow> False"
  "panic s = (Ok b, t) \<longleftrightarrow> False"
  "lift r s = (Ok b, t) \<longleftrightarrow> r = Ok b \<and> t = s"
  "gets f s = (Ok c, t) \<longleftrightarrow> c = f s \<and> t = s"
  "modify g s = (Ok u, t) \<longleftrightarrow> t = g s"
  "require c' e s = (Ok u, t) \<longleftrightarrow> c' \<and> t = s"
  by (auto simp: exec_simps)

lemma and_finally_Ok_iff [exec_ok]:
  "and_finally m c s = (Ok b, t) \<longleftrightarrow> (\<exists>s'. m s = (Ok b, s') \<and> t = c s')"
  by (auto simp: and_finally_def split: prod.splits)

lemma outcome_Ok_iff [exec_ok]:
  "outcome m s = (Ok r, t) \<longleftrightarrow> m s = (r, t)"
  by (auto simp: outcome_def split: prod.splits)

end
