(* ===== verification/Codec.thy ===== *)
theory Codec
  imports Prelude
begin

text \<open>
  The contract between the compact encodings and their users: a codec writes a value as bytes
  and reads it back from the front of any byte string, and reads only what it would have
  written. Vectors of encoded elements follow from the contract.
\<close>

text \<open>
  The errors that a \<open>Deserialize\<close> implementation builds with \<open>de::Error::invalid_length\<close>,
  \<open>de::Error::invalid_value\<close> and \<open>custom\<close>.
\<close>

datatype Unexpected = Unsigned u64 | Other string

datatype serde_error = InvalidLength nat string | InvalidValue Unexpected string | CustomError string

text \<open>The contract.\<close>

locale stream_codec =
  fixes enc :: "'a \<Rightarrow> u8 list"
    and dec :: "u8 list \<Rightarrow> ('a \<times> u8 list, 'e) result"
  assumes dec_enc: "dec (enc x @ rest) = Ok (x, rest)"

text \<open>A codec is canonical when a decoded prefix is the encoding of the decoded value.\<close>

locale canonical_codec = stream_codec enc dec
  for enc :: "'a \<Rightarrow> u8 list" and dec :: "u8 list \<Rightarrow> ('a \<times> u8 list, 'e) result" +
  assumes enc_dec: "dec bs = Ok (x, rest) \<Longrightarrow> bs = enc x @ rest"

text \<open>A sequence of elements, one after the other, and the reader of a given number of them.\<close>

fun read_elems :: "(u8 list \<Rightarrow> ('a \<times> u8 list, 'e) result) \<Rightarrow> nat \<Rightarrow> u8 list \<Rightarrow> ('a list \<times> u8 list, 'e) result" where
  "read_elems dec 0 bs = Ok ([], bs)"
| "read_elems dec (Suc n) bs =
     and_then (dec bs) (\<lambda>(x, bs').
     and_then (read_elems dec n bs') (\<lambda>(xs, bs''). Ok (x # xs, bs'')))"

context stream_codec
begin

lemma enc_prefix_free: "enc x @ r = enc y @ s \<Longrightarrow> x = y \<and> r = s"
  by (metis dec_enc result.inject(1) prod.inject)

lemma enc_inj: "enc x = enc y \<Longrightarrow> x = y"
  using enc_prefix_free [of x "[]" y "[]"] by simp

lemma read_elems_enc:
  "read_elems dec (length xs) (concat (map enc xs) @ rest) = Ok (xs, rest)"
  by (induction xs) (simp_all add: dec_enc)

end

context canonical_codec
begin

lemma read_elems_canonical:
  "read_elems dec n bs = Ok (xs, rest) \<Longrightarrow> length xs = n \<and> bs = concat (map enc xs) @ rest"
  by (induction n arbitrary: bs xs) (auto dest!: enc_dec)

lemma dec_Ok_iff: "dec bs = Ok (x, rest) \<longleftrightarrow> bs = enc x @ rest"
  using dec_enc enc_dec by blast

end

end
