(* ===== verification/Short_Vec.thy ===== *)
theory Short_Vec
  imports Codec
begin

text \<open>
  The compact encoding of vectors with a small length, \<open>sdk/program/src/short_vec.rs\<close>: a 16-bit
  length in one to three bytes, followed by the elements. The serde \<open>Serializer\<close> and \<open>SeqAccess\<close> that the code drives are byte sequences here:
  \<open>serialize_element\<close> of a \<open>u8\<close> appends a byte, \<open>next_element::<u8>\<close> takes the next one.
\<close>

section \<open>ShortU16\<close>

lemma drop_bit_7_decreases:
  "drop_bit 7 x \<noteq> 0 \<Longrightarrow> unat (drop_bit 7 x) < unat (x :: 'a::len word)"
proof -
  assume "drop_bit 7 x \<noteq> 0"
  then have "unat x \<noteq> 0"
    by (cases "x = 0") (auto simp: unat_eq_0)
  then show "unat (drop_bit 7 x) < unat x"
    by (subst unat_drop_bit) simp
qed

function shortu16_serialize :: "u16 \<Rightarrow> u8 list" where
  "shortu16_serialize rem_val =
     (let elem = (ucast (rem_val AND 0x7f) :: u8);
          rem_val' = drop_bit 7 rem_val
      in if rem_val' = 0 then [elem]
         else (elem OR 0x80) # shortu16_serialize rem_val')"
  by pat_completeness auto
termination
  by (relation "measure unat") (auto intro: drop_bit_7_decreases)

declare shortu16_serialize.simps [simp del]

datatype VisitStatus = Done u16 | More u16

datatype VisitError = TooLong nat | TooShort nat | Overflow u32 | Alias | ByteThreeContinues

definition MAX_ENCODING_LENGTH :: nat where
  "MAX_ENCODING_LENGTH = 3"

definition checked_shl :: "u32 \<Rightarrow> u32 \<Rightarrow> u32 option" where
  "checked_shl x s = (if unat s < 32 then Some (push_bit (unat s) x) else None)"

definition visit_byte :: "u8 \<Rightarrow> u16 \<Rightarrow> nat \<Rightarrow> (VisitStatus, VisitError) result" where
  "visit_byte elem val nth_byte =
     (if elem = 0 \<and> nth_byte \<noteq> 0 then Err Alias
      else
        let val = (ucast val :: u32);
            elem = (ucast elem :: u32);
            elem_val = elem AND 0x7f;
            elem_done = (elem AND 0x80 = 0)
        in if MAX_ENCODING_LENGTH \<le> nth_byte then Err (TooLong (nth_byte + 1))
           else if nth_byte = MAX_ENCODING_LENGTH - 1 \<and> \<not> elem_done then Err ByteThreeContinues
           else
             let shift = saturating_mul
                   (if nth_byte < 2 ^ 32 then of_nat nth_byte else - 1 :: u32) 7;
                 elem_val = (case checked_shl elem_val shift of Some v \<Rightarrow> v | None \<Rightarrow> - 1);
                 new_val = val OR elem_val
             in if new_val < 2 ^ 16
                then if elem_done then Ok (Done (ucast new_val)) else Ok (More (ucast new_val))
                else Err (Overflow new_val))"

text \<open>\<open>ShortU16Visitor::visit_seq\<close>, with the bytes that the decoder leaves unread.\<close>

fun shortu16_visit_loop :: "nat \<Rightarrow> u16 \<Rightarrow> nat \<Rightarrow> u8 list \<Rightarrow> (u16 \<times> u8 list, VisitError) result" where
  "shortu16_visit_loop 0 val nth_byte bs = Err ByteThreeContinues"
| "shortu16_visit_loop (Suc k) val nth_byte [] = Err (TooShort (nth_byte + 1))"
| "shortu16_visit_loop (Suc k) val nth_byte (elem # bs) =
     and_then (visit_byte elem val nth_byte)
       (\<lambda>st. case st of Done new_val \<Rightarrow> Ok (new_val, bs)
                     | More new_val \<Rightarrow> shortu16_visit_loop k new_val (nth_byte + 1) bs)"

definition shortu16_visit_seq :: "u8 list \<Rightarrow> (u16 \<times> u8 list, VisitError) result" where
  "shortu16_visit_seq bs = shortu16_visit_loop MAX_ENCODING_LENGTH 0 0 bs"

fun into_de_error :: "VisitError \<Rightarrow> serde_error" where
  "into_de_error (TooLong len) = InvalidLength len ''three or fewer bytes''"
| "into_de_error (TooShort len) = InvalidLength len ''more bytes''"
| "into_de_error (Overflow val) =
     InvalidValue (Unsigned (ucast val)) ''a value in the range [0, 65535]''"
| "into_de_error Alias = InvalidValue (Other ''alias encoding'') ''strict form encoding''"
| "into_de_error ByteThreeContinues =
     InvalidValue (Other ''continue signal on byte-three'')
       ''a terminal signal on or before byte-three''"

definition shortu16_deserialize :: "u8 list \<Rightarrow> (u16 \<times> u8 list, serde_error) result" where
  "shortu16_deserialize bs = map_err into_de_error (shortu16_visit_seq bs)"

text \<open>
  \<open>short_vec::serialize\<close> and \<open>ShortVecVisitor::visit_seq\<close>, over the encoding of the elements.
\<close>

definition short_vec_serialize :: "('a \<Rightarrow> u8 list) \<Rightarrow> 'a list \<Rightarrow> (u8 list, serde_error) result" where
  "short_vec_serialize enc elements =
     (if 65535 < length elements then Err (CustomError ''length larger than u16'')
      else Ok (shortu16_serialize (of_nat (length elements)) @ concat (map enc elements)))"

definition short_vec_deserialize ::
  "(u8 list \<Rightarrow> ('a \<times> u8 list, serde_error) result) \<Rightarrow> u8 list \<Rightarrow> ('a list \<times> u8 list, serde_error) result" where
  "short_vec_deserialize dec bs =
     and_then (shortu16_deserialize bs) (\<lambda>(short_len, bs'). read_elems dec (unat short_len) bs')"

text \<open>\<open>decode_shortu16_len\<close>: the value and the number of bytes it took.\<close>

fun decode_shortu16_loop :: "u8 list \<Rightarrow> u16 \<Rightarrow> nat \<Rightarrow> (nat \<times> nat, unit) result" where
  "decode_shortu16_loop [] val nth_byte = Err ()"
| "decode_shortu16_loop (byte # bs) val nth_byte =
     (case visit_byte byte val nth_byte of
        Ok (More new_val) \<Rightarrow> decode_shortu16_loop bs new_val (nth_byte + 1)
      | Ok (Done new_val) \<Rightarrow> Ok (unat new_val, nth_byte + 1)
      | _ \<Rightarrow> Err ())"

definition decode_shortu16_len :: "u8 list \<Rightarrow> (nat \<times> nat, unit) result" where
  "decode_shortu16_len bytes = decode_shortu16_loop (take MAX_ENCODING_LENGTH bytes) 0 0"

section \<open>ShortU16 read as numbers\<close>

text \<open>
  On the states the decoders reach (\<open>nb\<close> bytes read, their value below \<open>2 ^ (7 * nb)\<close>) the bit
  operations of \<open>visit_byte\<close> are arithmetic.
\<close>

lemma visit_byte_nat:
  assumes n: "nb \<le> 2" and v: "unat val < 2 ^ (7 * nb)"
  shows "visit_byte elem val nb =
    (if elem = 0 \<and> nb \<noteq> 0 then Err Alias
     else if nb = 2 \<and> 128 \<le> unat elem then Err ByteThreeContinues
     else let n = unat val + (unat elem mod 128) * 2 ^ (7 * nb) in
       if n < 65536 then if unat elem < 128 then Ok (Done (of_nat n)) else Ok (More (of_nat n))
       else Err (Overflow (of_nat n)))"
proof -
  have e: "unat elem < 256" using unat_lt_exp [of elem] by simp
  have n012: "nb = 0 \<or> nb = 1 \<or> nb = 2" using n by linarith
  have shift: "saturating_mul (of_nat nb :: u32) 7 = of_nat (7 * nb)"
    using n012 by (auto simp: saturating_mul_def)
  have sh: "unat (of_nat (7 * nb) :: u32) = 7 * nb"
    using n012 by auto
  have dn: "((ucast elem :: u32) AND 0x80 = 0) = (unat elem < 128)"
    using e by (simp add: unat_and_80_32 unat_ucast_up)
  define m where "m = unat elem mod 128"
  have m: "m < 128" by (simp add: m_def)
  have k: "(2::nat) ^ (7 * nb) \<le> 16384" using n012 by auto
  have "m * 2 ^ (7 * nb) \<le> 127 * 16384" using m k by (intro mult_le_mono) auto
  then have pb: "unat (push_bit (7 * nb) ((ucast elem :: u32) AND 0x7f)) = m * 2 ^ (7 * nb)"
    by (simp only: unsigned_push_bit_eq)
      (simp add: push_bit_eq_mult take_bit_eq_mod unat_and_7f_32 unat_ucast_up flip: m_def)
  define nv where "nv = (ucast val :: u32) OR push_bit (7 * nb) ((ucast elem :: u32) AND 0x7f)"
  have nv: "unat nv = unat val + m * 2 ^ (7 * nb)"
    using or_push_bit_nat [OF v, of m] pb
    by (simp add: nv_def unsigned_or_eq unat_ucast_up push_bit_eq_mult)
  have lt: "(nv < 2 ^ 16) = (unat nv < 65536)" by (simp add: word_less_nat_alt)
  have c1: "(ucast nv :: u16) = of_nat (unat nv)" by (simp add: word_unat_eq_iff unat_ucast_mod unat_of_nat)
  have c2: "nv = of_nat (unat nv)" by simp
  have shl: "checked_shl ((ucast elem :: u32) AND 0x7f) (of_nat (7 * nb)) = Some (push_bit (7 * nb) ((ucast elem :: u32) AND 0x7f))"
    using sh n by (simp add: checked_shl_def)
  have n32: "nb < 2 ^ 32" using n by simp
  have e1: "visit_byte elem val nb = (if elem = 0 \<and> nb \<noteq> 0 then Err Alias
     else if nb = 2 \<and> 128 \<le> unat elem then Err ByteThreeContinues
     else if unat nv < 65536 then if unat elem < 128 then Ok (Done (ucast nv)) else Ok (More (ucast nv))
       else Err (Overflow nv))"
    using n by (simp only: visit_byte_def Let_def n32 if_True shift shl option.case nv_def [symmetric] dn lt)
      (simp add: MAX_ENCODING_LENGTH_def)
  show ?thesis
    unfolding e1 Let_def m_def [symmetric] nv [symmetric] c1 using c2 by simp
qed

lemma shortu16_serialize_nat:
  "shortu16_serialize v =
     (if unat v < 128 then [of_nat (unat v)]
      else of_nat (unat v mod 128 + 128) # shortu16_serialize (of_nat (unat v div 128)))"
proof -
  have v: "unat v < 65536" using unat_lt_exp [of v] by simp
  have z: "(drop_bit 7 v = 0) = (unat v < 128)"
    by (simp only: word_unat_eq_iff unat_drop_bit) (simp add: div_eq_0_iff)
  have e1: "(ucast (v AND 0x7f) :: u8) = of_nat (unat v mod 128)"
    by (simp add: word_unat_eq_iff unat_ucast_mod unat_of_nat unat_and_7f_16)
  have e2: "(ucast (v AND 0x7f) :: u8) OR 0x80 = of_nat (unat v mod 128 + 128)"
    by (subst word_unat_eq_iff, subst unat_of_nat_lt)
      (simp_all add: unsigned_or_eq unat_ucast_mod unat_and_7f_16 or_80_nat)
  show ?thesis
    by (subst shortu16_serialize.simps) (simp only: Let_def z e1 [symmetric] e2 drop_bit_7_of_nat [symmetric] split: if_split, simp add: e1)
qed

lemma shortu16_visit_loop_serialize:
  assumes "nb \<le> 2" "unat val < 2 ^ (7 * nb)" "unat val + unat r * 2 ^ (7 * nb) < 65536"
    "nb = 0 \<or> r \<noteq> 0"
  shows "shortu16_visit_loop (3 - nb) val nb (shortu16_serialize r @ rest) =
    Ok (of_nat (unat val + unat r * 2 ^ (7 * nb)), rest)"
  using assms
proof (induction r arbitrary: val nb rule: shortu16_serialize.induct)
  case (1 r)
  have k: "3 - nb = Suc (2 - nb)" using "1.prems"(1) by simp
  show ?case
  proof (cases "unat r < 128")
    case True
    have u: "unat (of_nat (unat r) :: u8) = unat r" using True by (intro unat_of_nat_lt) simp
    have nz: "((of_nat (unat r) :: u8) = 0 \<and> nb \<noteq> 0) = False"
      using "1.prems"(4) u by (metis unat_eq_0 unat_0)
    have nt: "(nb = 2 \<and> 128 \<le> unat r) = False" using True by simp
    have "visit_byte (of_nat (unat r)) val nb = Ok (Done (of_nat (unat val + unat r * 2 ^ (7 * nb))))"
      using visit_byte_nat [OF "1.prems"(1,2), of "of_nat (unat r)"] True "1.prems"(3)
      unfolding u nz nt Let_def by simp
    then show ?thesis
      using True k by (subst shortu16_serialize_nat) simp
  next
    case False
    let ?e = "of_nat (unat r mod 128 + 128) :: u8"
    have u: "unat ?e = unat r mod 128 + 128"
      by (simp only: unat_of_nat) simp
    have nz: "?e \<noteq> 0" using u by auto
    let ?val = "of_nat (unat val + (unat r mod 128) * 2 ^ (7 * nb)) :: u16"
    have "(unat r mod 128 + 128) mod 128 = unat r mod 128" by simp
    moreover have "unat val + (unat r mod 128) * 2 ^ (7 * nb) \<le> unat val + unat r * 2 ^ (7 * nb)"
      by simp
    then have lt: "unat val + (unat r mod 128) * 2 ^ (7 * nb) < 65536" using "1.prems"(3) by linarith
    moreover have nb: "nb \<noteq> 2"
    proof
      assume "nb = 2"
      then show False using "1.prems"(3) False by simp
    qed
    ultimately have vb: "visit_byte ?e val nb = Ok (More ?val)"
      using visit_byte_nat [OF "1.prems"(1,2), of ?e] nz unfolding u by (simp add: Let_def)
    have uval: "unat ?val = unat val + (unat r mod 128) * 2 ^ (7 * nb)"
      using lt by (simp only: unat_of_nat) simp
    have d: "drop_bit 7 r = of_nat (unat r div 128)" by (rule drop_bit_7_of_nat)
    have ud: "unat (drop_bit 7 r) = unat r div 128" by (subst unat_drop_bit) simp
    have dz: "drop_bit 7 r \<noteq> 0" using False ud by (metis div_eq_0_iff unat_0 zero_neq_numeral)
    have sum: "unat ?val + unat (drop_bit 7 r) * 2 ^ (7 * Suc nb) = unat val + unat r * 2 ^ (7 * nb)"
    proof -
      have "unat r = unat r mod 128 + unat r div 128 * 128" by simp
      then have "unat r * 2 ^ (7 * nb) = (unat r mod 128) * 2 ^ (7 * nb) + unat r div 128 * (128 * 2 ^ (7 * nb))"
        by (metis add_mult_distrib mult.assoc)
      then show ?thesis unfolding uval ud by (simp add: power_add)
    qed
    have b: "unat ?val < 2 ^ (7 * Suc nb)"
    proof -
      have "unat r mod 128 \<le> 127" by (simp add: less_Suc_eq_le [symmetric])
      then have "unat r mod 128 * 2 ^ (7 * nb) \<le> 127 * 2 ^ (7 * nb)" by (rule mult_le_mono1)
      moreover have "(2::nat) ^ (7 * Suc nb) = 128 * 2 ^ (7 * nb)" by (simp add: power_add)
      ultimately show ?thesis unfolding uval using "1.prems"(2) by linarith
    qed
    have ih0: "shortu16_visit_loop (3 - Suc nb) ?val (Suc nb) (shortu16_serialize (drop_bit 7 r) @ rest) =
      Ok (of_nat (unat ?val + unat (drop_bit 7 r) * 2 ^ (7 * Suc nb)), rest)"
      by (rule "1.IH" [OF refl refl dz]) (use "1.prems" nb b dz sum in \<open>simp_all\<close>)
    have k': "3 - Suc nb = 2 - nb" by simp
    have ih: "shortu16_visit_loop (2 - nb) ?val (Suc nb) (shortu16_serialize (of_nat (unat r div 128)) @ rest) =
      Ok (of_nat (unat val + unat r * 2 ^ (7 * nb)), rest)"
      by (rule ih0 [unfolded sum, unfolded k' d])
    show ?thesis
      by (subst shortu16_serialize_nat) (simp only: False if_False append_Cons k shortu16_visit_loop.simps vb and_then.simps VisitStatus.case ih add_Suc_right Suc_eq_plus1 [symmetric])
  qed
qed

lemma shortu16_roundtrip: "shortu16_visit_seq (shortu16_serialize v @ rest) = Ok (v, rest)"
  using shortu16_visit_loop_serialize [of 0 0 v rest] unat_lt_exp [of v]
  by (simp add: shortu16_visit_seq_def MAX_ENCODING_LENGTH_def)

lemma visit_byte_Ok:
  assumes "visit_byte e val nb = Ok st" "nb \<le> 2" "unat val < 2 ^ (7 * nb)"
  obtains v where "unat v = unat val + unat e mod 128 * 2 ^ (7 * nb)" "nb = 0 \<or> e \<noteq> 0"
    "st = (if unat e < 128 then Done v else More v)" "unat e < 128 \<or> nb < 2"
proof -
  define n where "n = unat val + unat e mod 128 * 2 ^ (7 * nb)"
  note vb = assms(1) [unfolded visit_byte_nat [OF assms(2,3)] Let_def n_def [symmetric]]
  define w :: u16 where "w = of_nat n"
  have *: "n < 65536" "nb = 0 \<or> e \<noteq> 0" "unat e < 128 \<or> nb < 2"
    "st = (if unat e < 128 then Done w else More w)"
    using vb assms(2) by (auto split: if_splits simp: w_def)
  then have "unat w = n" unfolding w_def by (intro unat_of_nat_lt) simp
  then show ?thesis using * by (intro that [of w]) (simp_all add: n_def)
qed

lemma visit_byte_Done:
  assumes "visit_byte e val nb = Ok (Done v)" "nb \<le> 2" "unat val < 2 ^ (7 * nb)"
  shows "unat e < 128" "unat v = unat val + unat e * 2 ^ (7 * nb)" "nb = 0 \<or> e \<noteq> 0"
  by (rule visit_byte_Ok [OF assms], simp split: if_splits)+

lemma visit_byte_More:
  assumes "visit_byte e val nb = Ok (More v)" "nb \<le> 2" "unat val < 2 ^ (7 * nb)"
  shows "128 \<le> unat e" "unat v = unat val + (unat e - 128) * 2 ^ (7 * nb)" "nb < 2"
proof -
  obtain w where w: "unat w = unat val + unat e mod 128 * 2 ^ (7 * nb)"
    "More v = (if unat e < 128 then Done w else More w)" "unat e < 128 \<or> nb < 2"
    by (rule visit_byte_Ok [OF assms])
  show e: "128 \<le> unat e" and "nb < 2" using w by (auto split: if_splits)
  have "unat e mod 128 = unat e - 128" using e unat_lt_exp [of e] by (simp add: le_mod_geq)
  then show "unat v = unat val + (unat e - 128) * 2 ^ (7 * nb)" using w e by simp
qed

lemma shortu16_visit_loop_canonical:
  assumes "shortu16_visit_loop (3 - nb) val nb bs = Ok (v, rest)" "nb \<le> 2" "unat val < 2 ^ (7 * nb)"
  shows "\<exists>r. unat v = unat val + unat r * 2 ^ (7 * nb) \<and> bs = shortu16_serialize r @ rest \<and> (nb = 0 \<or> r \<noteq> 0)"
  using assms
proof (induction bs arbitrary: val nb)
  case Nil
  then show ?case by (cases "3 - nb") auto
next
  case (Cons e bs)
  have k: "3 - nb = Suc (2 - nb)" using Cons.prems by simp
  from Cons.prems(1) obtain st where st: "visit_byte e val nb = Ok st"
    unfolding k by auto
  show ?case
  proof (cases st)
    case (Done v')
    note d = visit_byte_Done [OF st [unfolded Done] Cons.prems(2,3)]
    have u: "unat (ucast e :: u16) = unat e" by (simp add: unat_ucast_up)
    have "shortu16_serialize (ucast e) = [e]"
      using d(1) by (subst shortu16_serialize_nat) (simp add: u)
    moreover have "v' = v" "bs = rest" using Cons.prems(1) st Done unfolding k by auto
    moreover have "nb = 0 \<or> (ucast e :: u16) \<noteq> 0" using d(3) u by (metis unat_0 unat_eq_0)
    ultimately show ?thesis using d(2) u by (intro exI [of _ "ucast e"]) simp
  next
    case (More v')
    note d = visit_byte_More [OF st [unfolded More] Cons.prems(2,3)]
    have e: "unat e < 256" using unat_lt_exp [of e] by simp
    have lp: "shortu16_visit_loop (3 - Suc nb) v' (Suc nb) bs = Ok (v, rest)"
      using Cons.prems(1) st More unfolding k by simp
    have P: "(2::nat) ^ (7 * Suc nb) = 128 * 2 ^ (7 * nb)" by (simp add: power_add)
    have "(unat e - 128) * 2 ^ (7 * nb) \<le> 127 * 2 ^ (7 * nb)" using e by (intro mult_le_mono1) simp
    then have "unat v' < 2 ^ (7 * Suc nb)" unfolding P d(2) using Cons.prems(3) by linarith
    then obtain r where r: "unat v = unat v' + unat r * 2 ^ (7 * Suc nb)"
      "bs = shortu16_serialize r @ rest" "r \<noteq> 0"
      using Cons.IH [OF lp] d(3) by auto
    define q where "q = unat e - 128 + unat r * 128"
    have v: "unat v = unat val + q * 2 ^ (7 * nb)"
      unfolding r(1) d(2) P q_def by (simp add: algebra_simps)
    have "q * 1 \<le> q * 2 ^ (7 * nb)" by (intro mult_le_mono2) simp
    moreover have "unat v < 65536" using unat_lt_exp [of v] by simp
    ultimately have q: "q < 65536" using v by linarith
    then have uq: "unat (of_nat q :: u16) = q" by (intro unat_of_nat_lt) simp
    have "0 < unat r" using r(3) by (simp add: unat_gt_0)
    then have q1: "128 \<le> q" by (simp add: q_def)
    have "(unat e - 128 + unat r * 128) mod 128 = unat e - 128" "(unat e - 128 + unat r * 128) div 128 = unat r"
      using e by simp_all
    then have qm: "q mod 128 + 128 = unat e" "q div 128 = unat r" using d(1) by (simp_all add: q_def)
    have "shortu16_serialize (of_nat q) = e # shortu16_serialize r"
      using q1 by (subst shortu16_serialize_nat) (simp only: uq qm, simp)
    then show ?thesis
      using v uq r(2) q1 by (intro exI [of _ "of_nat q"]) auto
  qed
qed

lemma shortu16_canonical:
  assumes "shortu16_visit_seq bs = Ok (v, rest)"
  shows "bs = shortu16_serialize v @ rest"
proof -
  obtain r where "unat v = unat r" and "bs = shortu16_serialize r @ rest"
    using shortu16_visit_loop_canonical [of 0 0 bs v rest] assms
    by (auto simp: shortu16_visit_seq_def MAX_ENCODING_LENGTH_def)
  moreover from this(1) have "v = r" by (simp add: word_unat_eq_iff)
  ultimately show ?thesis by simp
qed

lemma shortu16_visit_loop_length:
  "shortu16_visit_loop k v n bs = Ok (w, rest) \<Longrightarrow> length rest \<le> length bs"
proof (induction k v n bs rule: shortu16_visit_loop.induct)
  case (3 k val nb e bs)
  then show ?case by (cases "visit_byte e val nb") (auto split: VisitStatus.splits intro: le_SucI)
qed simp_all

lemma decode_shortu16_loop_visit:
  "decode_shortu16_loop (take k bs) val nb =
     (case shortu16_visit_loop k val nb bs of
        Ok (v, rest) \<Rightarrow> Ok (unat v, nb + (length bs - length rest)) | _ \<Rightarrow> Err ())"
proof (induction k val nb bs rule: shortu16_visit_loop.induct)
  case (3 k val nb e bs)
  then show ?case
    by (cases "visit_byte e val nb")
      (auto split: result.splits VisitStatus.splits simp: Suc_diff_le shortu16_visit_loop_length)
qed simp_all

section \<open>ShortU16 and ShortVec as codecs\<close>

interpretation shortu16: canonical_codec shortu16_serialize shortu16_deserialize
  by unfold_locales
    (auto simp: shortu16_deserialize_def shortu16_roundtrip dest: shortu16_canonical)

lemma shortu16_visit_Ok_iff:
  "shortu16_visit_seq bs = Ok (v, rest) \<longleftrightarrow> bs = shortu16_serialize v @ rest"
  using shortu16_roundtrip shortu16_canonical by blast

text \<open>
  C23: the ShortU16 decoder accepts exactly the encodings: it returns a value and leaves \<open>rest\<close> if and
  only if the input is that value's encoding followed by \<open>rest\<close>. So decoding undoes encoding, and
  no value has a second (aliased) encoding that the decoder takes.
\<close>

theorem shortu16_deserialize_exact:
  "shortu16_deserialize bs = Ok (v, rest) \<longleftrightarrow> bs = shortu16_serialize v @ rest"
  by (rule shortu16.dec_Ok_iff)

text \<open>
  C24: \<open>decode_shortu16_len\<close>, the second decoder of the same format, returns a length and a number of
  bytes exactly when the input starts with the encoding of that length and that number is the
  encoding's size.
\<close>

theorem decode_shortu16_len_exact:
  "decode_shortu16_len bytes = Ok (n, k) \<longleftrightarrow>
     (\<exists>v rest. bytes = shortu16_serialize v @ rest \<and> n = unat v \<and> k = length (shortu16_serialize v))"
proof -
  have "decode_shortu16_len bytes =
     (case shortu16_visit_seq bytes of
        Ok (v, rest) \<Rightarrow> Ok (unat v, length bytes - length rest) | _ \<Rightarrow> Err ())"
    by (simp add: decode_shortu16_len_def shortu16_visit_seq_def decode_shortu16_loop_visit
        split: result.splits)
  then show ?thesis
    by (cases "shortu16_visit_seq bytes")
      (fastforce simp: shortu16_visit_Ok_iff shortu16_roundtrip)+
qed

text \<open>
  C25: a \<open>ShortVec\<close> over elements with a canonical encoding is decoded exactly from its own encoding:
  the decoder returns \<open>xs\<close> and leaves \<open>rest\<close> if and only if the serializer accepts \<open>xs\<close> (at most
  65535 elements) and the input is its output followed by \<open>rest\<close>.
\<close>

theorem short_vec_exact:
  assumes "canonical_codec enc dec"
  shows "short_vec_deserialize dec bs = Ok (xs, rest) \<longleftrightarrow>
    (\<exists>out. short_vec_serialize enc xs = Ok out \<and> bs = out @ rest)"
proof -
  have len: "unat (of_nat n :: u16) = n" if "n \<le> 65535" for n
    using that by (simp add: unat_of_nat_lt)
  show ?thesis (is "?L \<longleftrightarrow> ?R")
  proof
    assume ?L
    then obtain v bs' where v: "bs = shortu16_serialize v @ bs'"
      and r: "read_elems dec (unat v) bs' = Ok (xs, rest)"
      by (auto simp: short_vec_deserialize_def shortu16.dec_Ok_iff)
    have n: "length xs = unat v" and b: "bs' = concat (map enc xs) @ rest"
      using canonical_codec.read_elems_canonical [OF assms r] by simp_all
    have "length xs \<le> 65535" using unat_lt_exp [of v] n by simp
    moreover have "of_nat (length xs) = v" by (simp add: n)
    ultimately show ?R by (simp add: short_vec_serialize_def v b)
  next
    assume ?R
    then have "length xs \<le> 65535"
      and "bs = shortu16_serialize (of_nat (length xs)) @ concat (map enc xs) @ rest"
      by (auto simp: short_vec_serialize_def split: if_splits)
    then show ?L
      using stream_codec.read_elems_enc [OF canonical_codec.axioms(1) [OF assms], of xs rest]
      by (simp add: short_vec_deserialize_def shortu16.dec_enc len)
  qed
qed

theorem short_vec_exact_witness:
  "short_vec_deserialize shortu16_deserialize [2, 5, 0x80, 1, 9] = Ok ([5, 128], [9]) \<longleftrightarrow>
    (\<exists>out. short_vec_serialize shortu16_serialize [5, 128] = Ok out \<and> [2, 5, 0x80, 1, 9] = out @ [9])"
  by (rule short_vec_exact [OF shortu16.canonical_codec_axioms])

end
