(* ===== verification/Varint.thy ===== *)
theory Varint
  imports Codec
begin

text \<open>
  Integers of variable size, \<open>sdk/program/src/serde_varint.rs\<close>: the code that \<open>impl_var_int!\<close>
  generates for \<open>u16\<close>, \<open>u32\<close> and \<open>u64\<close>, over the width of the integer.
\<close>

section \<open>Encoder and decoder\<close>

lemma drop_bit_7_decreases_ge:
  "0x80 \<le> unat x \<Longrightarrow> unat (drop_bit 7 x) < unat (x :: 'a::len word)"
  by (subst unat_drop_bit) simp

function varint_serialize :: "'a::len word \<Rightarrow> u8 list" where
  "varint_serialize x =
     (if 0x80 \<le> unat x
      then (ucast ((x AND 0x7F) OR 0x80) :: u8) # varint_serialize (drop_bit 7 x)
      else [ucast x])"
  by pat_completeness auto
termination
  by (relation "measure unat") (auto intro: drop_bit_7_decreases_ge)

declare varint_serialize.simps [simp del]

function varint_visit_loop ::
  "'a::len word \<Rightarrow> nat \<Rightarrow> u8 list \<Rightarrow> ('a word \<times> u8 list, serde_error) result" where
  "varint_visit_loop out shift bs =
     (if shift < LENGTH('a) then
        (case bs of
           [] \<Rightarrow> Err (CustomError ''Invalid Sequence'')
         | byte # bs' \<Rightarrow>
             let out' = out OR push_bit shift (ucast (byte AND 0x7F)) in
             if byte AND 0x80 = 0 then
               if (ucast (drop_bit shift out') :: u8) \<noteq> byte
               then Err (CustomError ''Last Byte Truncated'')
               else if byte = 0 \<and> (shift \<noteq> 0 \<or> out' \<noteq> 0)
               then Err (CustomError ''Invalid Trailing Zeros'')
               else Ok (out', bs')
             else varint_visit_loop out' (shift + 7) bs')
      else Err (CustomError ''Left Shift Overflows''))"
  by pat_completeness auto
termination
  by (relation "measure (\<lambda>(out, shift, bs). length bs)") auto

declare varint_visit_loop.simps [simp del]

definition varint_deserialize :: "u8 list \<Rightarrow> ('a::len word \<times> u8 list, serde_error) result" where
  "varint_deserialize bs = varint_visit_loop 0 0 bs"

section \<open>The encoding read as numbers\<close>

lemma unat_or_push_bit:
  assumes "unat out < 2 ^ s" and "s \<le> LENGTH('a)"
  shows "unat ((out :: 'a::len word) OR push_bit s x) =
    unat out + (unat x mod 2 ^ (LENGTH('a) - s)) * 2 ^ s"
proof -
  have "(unat x * 2 ^ s) mod 2 ^ LENGTH('a) = (unat x mod 2 ^ (LENGTH('a) - s)) * 2 ^ s"
    by (metis assms(2) le_add_diff_inverse2 mod_mult_mult2 power_add)
  then have "unat (push_bit s x) = push_bit s (unat x mod 2 ^ (LENGTH('a) - s))"
    by (simp only: unsigned_push_bit_eq) (simp add: push_bit_eq_mult take_bit_eq_mod)
  then show ?thesis
    using assms(1) by (simp only: unsigned_or_eq or_push_bit_nat)
qed

lemma ucast_80_zero_iff: "(b :: u8) AND 0x80 = 0 \<longleftrightarrow> unat b < 128"
proof -
  have "unat b < 256" using unat_lt_exp [of b] by simp
  moreover have "unat (b AND 0x80) = unat b AND 128" by (simp add: unsigned_and_eq)
  ultimately show ?thesis by (simp add: and_80_nat word_unat_eq_iff)
qed

lemma varint_serialize_nat:
  assumes "8 \<le> LENGTH('a::len)"
  shows "varint_serialize (x :: 'a word) =
    (if 128 \<le> unat x then of_nat (unat x mod 128 + 128) # varint_serialize (of_nat (unat x div 128) :: 'a word)
     else [of_nat (unat x)])"
proof -
  have p: "(256::nat) \<le> 2 ^ LENGTH('a)"
    using power_increasing [of 8 "LENGTH('a)" "2::nat"] assms by simp
  have c: "unat (0x7F :: 'a word) = 0x7F" "unat (0x80 :: 'a word) = 0x80"
    using unat_of_nat_lt [where 'a='a and n=127] unat_of_nat_lt [where 'a='a and n=128] p by simp_all
  have "unat ((x AND 0x7F) OR 0x80) = unat x mod 128 + 128"
    by (simp only: unsigned_or_eq unsigned_and_eq c and_7f_nat or_80_nat) 
  then have b: "(ucast ((x AND 0x7F) OR 0x80) :: u8) = of_nat (unat x mod 128 + 128)"
    by (metis of_nat_unat)
  have d: "drop_bit 7 x = of_nat (unat x div 128)"
    by (rule drop_bit_7_of_nat)
  show ?thesis
    by (subst varint_serialize.simps) (simp only: b d of_nat_unat)
qed

lemma varint_serialize_digit:
  fixes r :: "'a::len word"
  assumes L: "8 \<le> LENGTH('a)" and b: "128 \<le> unat b" and r: "r \<noteq> 0"
    and k: "unat b mod 128 + 128 * unat r < 2 ^ LENGTH('a)"
  shows "varint_serialize (of_nat (unat b mod 128 + 128 * unat r) :: 'a word) = b # varint_serialize r"
proof -
  define k where "k = unat b mod 128 + 128 * unat r"
  have uk: "unat (of_nat k :: 'a word) = k"
    unfolding k_def using k by (rule unat_of_nat_lt)
  have "unat b < 256" using unat_lt_exp [of b] by simp
  then have "unat b mod 128 + 128 = unat b" using b by (simp add: le_mod_geq)
  moreover have "k mod 128 = unat b mod 128" by (simp add: k_def)
  ultimately have "k mod 128 + 128 = unat b" by simp
  moreover have "k div 128 = unat r" by (simp add: k_def)
  moreover have "0 < unat r" using r by (simp add: unat_gt_0)
  then have "128 \<le> k" by (simp add: k_def)
  ultimately show ?thesis
    unfolding k_def [symmetric] by (subst varint_serialize_nat [OF L]) (simp add: uk)
qed

lemma varint_visit_loop_Cons:
  fixes out :: "'a::len word"
  assumes L: "8 \<le> LENGTH('a)" and s: "s < LENGTH('a)" and out: "unat out < 2 ^ s"
  shows "varint_visit_loop out s (b # bs) =
    (let n = unat out + (unat b mod 128) mod 2 ^ (LENGTH('a) - s) * 2 ^ s in
     if unat b < 128 then
       if 2 ^ (LENGTH('a) - s) \<le> unat b then Err (CustomError ''Last Byte Truncated'')
       else if b = 0 \<and> (s \<noteq> 0 \<or> n \<noteq> 0) then Err (CustomError ''Invalid Trailing Zeros'')
       else Ok (of_nat n, bs)
     else varint_visit_loop (of_nat n) (s + 7) bs)"
proof -
  define m where "m = (unat b mod 128) mod 2 ^ (LENGTH('a) - s)"
  define n where "n = unat out + m * 2 ^ s"
  have low: "unat (ucast (b AND 0x7F) :: 'a word) = unat b mod 128"
    using L by (simp add: unat_ucast_up unat_and_7f_8)
  have o: "unat (out OR push_bit s (ucast (b AND 0x7F))) = n"
    using unat_or_push_bit [OF out, of "ucast (b AND 0x7F)"] s by (simp add: low n_def m_def)
  then have o': "out OR push_bit s (ucast (b AND 0x7F)) = of_nat n"
    by (metis word_unat_eq_iff unat_of_nat_lt unat_lt_exp)
  have n: "unat (of_nat n :: 'a word) = n"
    using o o' by simp
  have "unat (drop_bit s (of_nat n :: 'a word)) = m"
    using out by (simp only: unat_drop_bit n) (simp add: n_def)
  moreover have "m < 256"
    using mod_less_eq_dividend [of "unat b mod 128" "2 ^ (LENGTH('a) - s)"]
      mod_less_divisor [of 128 "unat b"] unfolding m_def by linarith
  ultimately have t: "unat (ucast (drop_bit s (of_nat n :: 'a word)) :: u8) = m"
    by (simp add: unat_ucast_mod)
  have trunc: "(ucast (drop_bit s (of_nat n :: 'a word)) :: u8) \<noteq> b \<longleftrightarrow> 2 ^ (LENGTH('a) - s) \<le> unat b"
    if "unat b < 128"
  proof -
    have "unat b mod 2 ^ (LENGTH('a) - s) = unat b \<longleftrightarrow> unat b < 2 ^ (LENGTH('a) - s)"
      by (metis mod_less mod_less_divisor zero_less_numeral zero_less_power)
    then show ?thesis using that by (auto simp: word_unat_eq_iff t m_def)
  qed
  have z: "(of_nat n :: 'a word) = 0 \<longleftrightarrow> n = 0"
    using n by (metis unat_eq_0)
  show ?thesis
    unfolding m_def [symmetric] n_def [symmetric]
    by (subst varint_visit_loop.simps) (simp only: Let_def list.case o' s ucast_80_zero_iff trunc z if_True cong: if_cong)
qed

text \<open>A number as its low seven bits and the rest, at bit position \<open>s\<close>.\<close>

lemma digit_split: "(r::nat) * 2 ^ s = (r mod 128) * 2 ^ s + (r div 128) * 2 ^ (s + 7)"
proof -
  have "r * 2 ^ s = (r mod 128 + 128 * (r div 128)) * 2 ^ s" by simp
  also have "\<dots> = (r mod 128) * 2 ^ s + (r div 128) * 2 ^ (s + 7)"
    by (simp only: add_mult_distrib power_add) simp
  finally show ?thesis .
qed

lemma digit_bound: "(m::nat) < 2 ^ s \<Longrightarrow> d < 2 ^ k \<Longrightarrow> m + d * 2 ^ s < 2 ^ (s + k)"
proof -
  assume m: "m < 2 ^ s" and "d < 2 ^ k"
  then have "Suc d * 2 ^ s \<le> 2 ^ k * 2 ^ s" by (intro mult_right_mono) simp_all
  then have "2 ^ s + d * 2 ^ s \<le> 2 ^ (s + k)" by (simp add: power_add mult.commute)
  with m show ?thesis by linarith
qed

lemma varint_visit_serialize:
  fixes out r :: "'a::len word"
  assumes L: "8 \<le> LENGTH('a)"
  shows "s < LENGTH('a) \<Longrightarrow> unat out < 2 ^ s \<Longrightarrow> unat out + unat r * 2 ^ s < 2 ^ LENGTH('a) \<Longrightarrow>
    s = 0 \<or> r \<noteq> 0 \<Longrightarrow>
    varint_visit_loop out s (varint_serialize r @ rest) = Ok (of_nat (unat out + unat r * 2 ^ s), rest)"
proof (induction "unat r" arbitrary: r out s rule: less_induct)
  case less
  have "unat r * 2 ^ s < 2 ^ (LENGTH('a) - s) * 2 ^ s"
    using less.prems(1,3) by (simp flip: power_add)
  then have fit: "unat r < 2 ^ (LENGTH('a) - s)" by simp
  show ?case
  proof (cases "unat r < 128")
    case True
    moreover have "unat (of_nat (unat r) :: u8) = unat r"
      using True by (intro unat_of_nat_lt) simp
    moreover have "(of_nat (unat r) :: u8) = 0 \<longleftrightarrow> r = 0"
      using calculation(2) by (metis unat_eq_0)
    ultimately show ?thesis
      using less.prems fit
      by (subst varint_serialize_nat [OF L])
        (auto simp: varint_visit_loop_Cons [OF L] Let_def simp del: of_nat_unat of_nat_add of_nat_mult)
  next
    case False
    define b where "b = (of_nat (unat r mod 128 + 128) :: u8)"
    define r' where "r' = (of_nat (unat r div 128) :: 'a word)"
    define out' where "out' = (of_nat (unat out + (unat r mod 128) * 2 ^ s) :: 'a word)"
    have ub: "unat b = unat r mod 128 + 128"
      unfolding b_def using mod_less_divisor [of 128 "unat r"]
      by (intro unat_of_nat_lt) simp
    have ur: "unat r' = unat r div 128"
      unfolding r'_def using unat_lt_exp [of r] div_le_dividend [of "unat r" 128]
      by (intro unat_of_nat_lt) linarith
    note split = digit_split [of "unat r" s]
    have "(2::nat) ^ (s + 7) \<le> unat r * 2 ^ s" using False by (simp add: power_add)
    then have "(2::nat) ^ (s + 7) < 2 ^ LENGTH('a)" using less.prems(3) by linarith
    then have s7: "s + 7 < LENGTH('a)" by simp
    have uo: "unat out' = unat out + (unat r mod 128) * 2 ^ s"
      unfolding out'_def using less.prems(3) by (intro unat_of_nat_lt) (simp add: split)
    have o7: "unat out' < 2 ^ (s + 7)"
      unfolding uo using less.prems(2) by (rule digit_bound) simp
    have "varint_visit_loop out s (varint_serialize r @ rest) =
      varint_visit_loop out s (b # varint_serialize r' @ rest)"
      using False by (subst varint_serialize_nat [OF L]) (simp add: b_def r'_def)
    also have "\<dots> = varint_visit_loop out' (s + 7) (varint_serialize r' @ rest)"
      using less.prems(1,2) fit le_less_trans [OF mod_less_eq_dividend fit, of 128]
      by (simp add: varint_visit_loop_Cons [OF L] Let_def ub out'_def)
    also have "\<dots> = Ok (of_nat (unat out' + unat r' * 2 ^ (s + 7)), rest)"
    proof (rule less.hyps [OF _ s7 o7])
      show "unat r' < unat r" using False by (simp add: ur)
      show "unat out' + unat r' * 2 ^ (s + 7) < 2 ^ LENGTH('a)"
        using less.prems(3) by (simp add: uo ur split)
      have "unat r' \<noteq> 0" using False by (simp add: ur div_greater_zero_iff)
      then show "s + 7 = 0 \<or> r' \<noteq> 0" by (auto simp: unat_eq_0)
    qed
    also have "unat out' + unat r' * 2 ^ (s + 7) = unat out + unat r * 2 ^ s"
      by (simp add: uo ur split)
    finally show ?thesis .
  qed
qed

lemma varint_visit_canonical:
  fixes out v :: "'a::len word"
  assumes L: "8 \<le> LENGTH('a)"
  shows "varint_visit_loop out s bs = Ok (v, rest) \<Longrightarrow> unat out < 2 ^ s \<Longrightarrow>
    \<exists>r :: 'a word. (s = 0 \<or> r \<noteq> 0) \<and> unat v = unat out + unat r * 2 ^ s \<and> bs = varint_serialize r @ rest"
proof (induction bs arbitrary: out s)
  case Nil
  then show ?case by (subst (asm) varint_visit_loop.simps) (simp split: if_splits)
next
  case (Cons b bs)
  have s: "s < LENGTH('a)"
    using Cons.prems(1) by (subst (asm) varint_visit_loop.simps) (simp split: if_splits)
  define n where "n = unat out + (unat b mod 128) mod 2 ^ (LENGTH('a) - s) * 2 ^ s"
  note step = Cons.prems(1) [unfolded varint_visit_loop_Cons [OF L s Cons.prems(2)] n_def [symmetric] Let_def]
  have nL: "n < 2 ^ LENGTH('a)"
    using digit_bound [OF Cons.prems(2), of "(unat b mod 128) mod 2 ^ (LENGTH('a) - s)" "LENGTH('a) - s"] s
    by (simp add: n_def)
  show ?case
  proof (cases "unat b < 128")
    case True
    then have fit: "unat b < 2 ^ (LENGTH('a) - s)" and z: "\<not> (b = 0 \<and> (s \<noteq> 0 \<or> n \<noteq> 0))"
      and v: "v = of_nat n" and r: "rest = bs"
      using step by (auto split: if_splits)
    define r where "r = (ucast b :: 'a word)"
    have ur: "unat r = unat b" unfolding r_def using L by (simp add: unat_ucast_up)
    have "varint_serialize r = [b]"
      using True by (subst varint_serialize_nat [OF L]) (simp add: ur)
    moreover have "unat v = unat out + unat r * 2 ^ s"
      using True fit by (simp only: v unat_of_nat_lt [OF nL]) (simp add: n_def ur)
    moreover have "s = 0 \<or> r \<noteq> 0"
      using z ur by (metis unat_eq_0)
    ultimately show ?thesis using r by auto
  next
    case False
    then have step': "varint_visit_loop (of_nat n :: 'a word) (s + 7) bs = Ok (v, rest)"
      using step by simp
    then have s7: "s + 7 < LENGTH('a)"
      by (subst (asm) varint_visit_loop.simps) (simp split: if_splits)
    have "unat b mod 128 < 2 ^ (LENGTH('a) - s)"
      using s7 power_increasing [of 7 "LENGTH('a) - s" "2::nat"]
      by (intro less_le_trans [OF mod_less_divisor]) simp_all
    then have n: "n = unat out + (unat b mod 128) * 2 ^ s" by (simp add: n_def)
    have un: "unat (of_nat n :: 'a word) = n" using nL by (rule unat_of_nat_lt)
    have "unat (of_nat n :: 'a word) < 2 ^ (s + 7)"
      unfolding un unfolding n by (rule digit_bound [OF Cons.prems(2)]) simp
    from Cons.IH [OF step' this] obtain r' :: "'a word" where r': "r' \<noteq> 0"
      and v: "unat v = n + unat r' * 2 ^ (s + 7)" and bs: "bs = varint_serialize r' @ rest"
      unfolding un by auto
    define k where "k = unat b mod 128 + 128 * unat r'"
    have vk: "unat v = unat out + k * 2 ^ s"
      unfolding v n using digit_split [of k s] by (simp add: k_def)
    then have "k \<le> unat v"
      by (metis le_add2 le_trans mult_le_mono2 mult.right_neutral one_le_power one_le_numeral)
    then have k: "k < 2 ^ LENGTH('a)" using unat_lt_exp [of v] by linarith
    have "varint_serialize (of_nat k :: 'a word) = b # varint_serialize r'"
      using varint_serialize_digit [OF L _ r' k [unfolded k_def]] False by (simp add: k_def)
    moreover have "(of_nat k :: 'a word) \<noteq> 0"
      using unat_of_nat_lt [OF k] r' by (auto simp: k_def simp flip: unat_eq_0)
    ultimately show ?thesis
      using vk unat_of_nat_lt [OF k] bs by (intro exI [of _ "of_nat k"]) simp
  qed
qed

section \<open>The contract\<close>

lemma varint_codec:
  assumes "8 \<le> LENGTH('a::len)"
  shows "canonical_codec (varint_serialize :: 'a word \<Rightarrow> _) varint_deserialize"
proof
  fix x :: "'a word" and rest
  show "varint_deserialize (varint_serialize x @ rest) = Ok (x, rest)"
    using varint_visit_serialize [OF assms, of 0 0 x rest] unat_lt_exp [of x]
    by (simp add: varint_deserialize_def)
next
  fix x :: "'a word" and bs rest
  assume "varint_deserialize bs = Ok (x, rest)"
  from varint_visit_canonical [OF assms this [unfolded varint_deserialize_def]]
  show "bs = varint_serialize x @ rest"
    by (auto simp flip: word_unat_eq_iff)
qed

interpretation varint64: canonical_codec "varint_serialize :: u64 \<Rightarrow> u8 list" varint_deserialize
  by (rule varint_codec) simp

interpretation varint32: canonical_codec "varint_serialize :: u32 \<Rightarrow> u8 list" varint_deserialize
  by (rule varint_codec) simp

interpretation varint16: canonical_codec "varint_serialize :: u16 \<Rightarrow> u8 list" varint_deserialize
  by (rule varint_codec) simp

text \<open>
  C26: for \<open>u16\<close>, \<open>u32\<close> and \<open>u64\<close> the variable-size decoder accepts exactly the encodings: no value
  is lost to truncation of the last byte or to a shift overflow, and trailing zeros or bits beyond
  the integer's width are refused.
\<close>

theorem varint_deserialize_exact:
  "(varint_deserialize bs = Ok (x64 :: u64, rest) \<longleftrightarrow> bs = varint_serialize x64 @ rest) \<and>
   (varint_deserialize bs = Ok (x32 :: u32, rest) \<longleftrightarrow> bs = varint_serialize x32 @ rest) \<and>
   (varint_deserialize bs = Ok (x16 :: u16, rest) \<longleftrightarrow> bs = varint_serialize x16 @ rest)"
  by (simp add: varint64.dec_Ok_iff varint32.dec_Ok_iff varint16.dec_Ok_iff)

end
