(* ===== verification/Sdk_Types.thy ===== *)
theory Sdk_Types
  imports Prelude
begin

text \<open>
  Types of the SDK (\<open>sdk/program/src\<close>) that the programs and the runtime share: keys and hashes,
  slots and epochs, the clock sysvar, the instruction errors.

  A \<open>Pubkey\<close> or \<open>Hash\<close> is an array of 32 bytes that the code compares and copies; it is a 256-bit
  word here, the all-zero array (\<open>Pubkey::default()\<close>) being \<open>0\<close>. \<open>UnixTimestamp\<close> is an \<open>i64\<close>
  that the code only stores and compares; it is the integer it denotes.
\<close>

type_synonym Pubkey = "256 word"
type_synonym Hash = "256 word"
type_synonym Slot = u64
type_synonym Epoch = u64
type_synonym UnixTimestamp = int

datatype InstructionError =
    GenericError
  | InvalidArgument
  | InvalidInstructionData
  | InvalidAccountData
  | AccountDataTooSmall
  | InsufficientFunds
  | IncorrectProgramId
  | MissingRequiredSignature
  | AccountAlreadyInitialized
  | UninitializedAccount
  | UnbalancedInstruction
  | ModifiedProgramId
  | ExternalAccountLamportSpend
  | ExternalAccountDataModified
  | ReadonlyLamportChange
  | ReadonlyDataModified
  | DuplicateAccountIndex
  | ExecutableModified
  | RentEpochModified
  | NotEnoughAccountKeys
  | AccountDataSizeChanged
  | AccountNotExecutable
  | AccountBorrowFailed
  | AccountBorrowOutstanding
  | DuplicateAccountOutOfSync
  | Custom u32
  | InvalidError
  | ExecutableDataModified
  | ExecutableLamportChange
  | ExecutableAccountNotRentExempt
  | UnsupportedProgramId
  | CallDepth
  | MissingAccount
  | ReentrancyNotAllowed
  | MaxSeedLengthExceeded
  | InvalidSeeds
  | InvalidRealloc
  | ComputationalBudgetExceeded
  | PrivilegeEscalation
  | ProgramEnvironmentSetupFailure
  | ProgramFailedToComplete
  | ProgramFailedToCompile
  | Immutable
  | IncorrectAuthority
  | BorshIoError string
  | AccountNotRentExempt
  | InvalidAccountOwner
  | ArithmeticOverflow
  | UnsupportedSysvar
  | IllegalOwner
  | MaxAccountsDataAllocationsExceeded
  | MaxAccountsExceeded
  | MaxInstructionTraceLengthExceeded
  | BuiltinProgramsMustConsumeComputeUnits

section \<open>Error codes\<close>

text \<open>
  The codes by which a program reports an error as a \<open>u64\<close> (\<open>program_error.rs\<close>): builtin errors
  occupy the upper 32 bits, custom ones the lower.
\<close>

definition BUILTIN_BIT_SHIFT :: nat where
  "BUILTIN_BIT_SHIFT = 32"

definition to_builtin :: "u64 \<Rightarrow> u64" where
  "to_builtin e = push_bit BUILTIN_BIT_SHIFT e"

abbreviation CUSTOM_ZERO :: u64 where
  "CUSTOM_ZERO \<equiv> to_builtin 1"

abbreviation INVALID_ARGUMENT :: u64 where
  "INVALID_ARGUMENT \<equiv> to_builtin 2"

abbreviation INVALID_INSTRUCTION_DATA :: u64 where
  "INVALID_INSTRUCTION_DATA \<equiv> to_builtin 3"

abbreviation INVALID_ACCOUNT_DATA :: u64 where
  "INVALID_ACCOUNT_DATA \<equiv> to_builtin 4"

abbreviation ACCOUNT_DATA_TOO_SMALL :: u64 where
  "ACCOUNT_DATA_TOO_SMALL \<equiv> to_builtin 5"

abbreviation INSUFFICIENT_FUNDS :: u64 where
  "INSUFFICIENT_FUNDS \<equiv> to_builtin 6"

abbreviation INCORRECT_PROGRAM_ID :: u64 where
  "INCORRECT_PROGRAM_ID \<equiv> to_builtin 7"

abbreviation MISSING_REQUIRED_SIGNATURES :: u64 where
  "MISSING_REQUIRED_SIGNATURES \<equiv> to_builtin 8"

abbreviation ACCOUNT_ALREADY_INITIALIZED :: u64 where
  "ACCOUNT_ALREADY_INITIALIZED \<equiv> to_builtin 9"

abbreviation UNINITIALIZED_ACCOUNT :: u64 where
  "UNINITIALIZED_ACCOUNT \<equiv> to_builtin 10"

abbreviation NOT_ENOUGH_ACCOUNT_KEYS :: u64 where
  "NOT_ENOUGH_ACCOUNT_KEYS \<equiv> to_builtin 11"

abbreviation ACCOUNT_BORROW_FAILED :: u64 where
  "ACCOUNT_BORROW_FAILED \<equiv> to_builtin 12"

abbreviation MAX_SEED_LENGTH_EXCEEDED :: u64 where
  "MAX_SEED_LENGTH_EXCEEDED \<equiv> to_builtin 13"

abbreviation INVALID_SEEDS :: u64 where
  "INVALID_SEEDS \<equiv> to_builtin 14"

abbreviation BORSH_IO_ERROR :: u64 where
  "BORSH_IO_ERROR \<equiv> to_builtin 15"

abbreviation ACCOUNT_NOT_RENT_EXEMPT :: u64 where
  "ACCOUNT_NOT_RENT_EXEMPT \<equiv> to_builtin 16"

abbreviation UNSUPPORTED_SYSVAR :: u64 where
  "UNSUPPORTED_SYSVAR \<equiv> to_builtin 17"

abbreviation ILLEGAL_OWNER :: u64 where
  "ILLEGAL_OWNER \<equiv> to_builtin 18"

abbreviation MAX_ACCOUNTS_DATA_ALLOCATIONS_EXCEEDED :: u64 where
  "MAX_ACCOUNTS_DATA_ALLOCATIONS_EXCEEDED \<equiv> to_builtin 19"

abbreviation INVALID_ACCOUNT_DATA_REALLOC :: u64 where
  "INVALID_ACCOUNT_DATA_REALLOC \<equiv> to_builtin 20"

abbreviation MAX_INSTRUCTION_TRACE_LENGTH_EXCEEDED :: u64 where
  "MAX_INSTRUCTION_TRACE_LENGTH_EXCEEDED \<equiv> to_builtin 21"

abbreviation BUILTIN_PROGRAMS_MUST_CONSUME_COMPUTE_UNITS :: u64 where
  "BUILTIN_PROGRAMS_MUST_CONSUME_COMPUTE_UNITS \<equiv> to_builtin 22"

abbreviation INVALID_ACCOUNT_OWNER :: u64 where
  "INVALID_ACCOUNT_OWNER \<equiv> to_builtin 23"

abbreviation ARITHMETIC_OVERFLOW :: u64 where
  "ARITHMETIC_OVERFLOW \<equiv> to_builtin 24"

abbreviation IMMUTABLE :: u64 where
  "IMMUTABLE \<equiv> to_builtin 25"

abbreviation INCORRECT_AUTHORITY :: u64 where
  "INCORRECT_AUTHORITY \<equiv> to_builtin 26"

lemmas builtin_code_defs = to_builtin_def BUILTIN_BIT_SHIFT_def

text \<open>\<open>InstructionError::from\<close> for an error enum, given the \<open>to_u64\<close> of the enum's value.\<close>

definition instruction_error_from :: "u64 \<Rightarrow> InstructionError" where
  "instruction_error_from error =
     (if error = CUSTOM_ZERO then Custom 0
      else if error = INVALID_ARGUMENT then InvalidArgument
      else if error = INVALID_INSTRUCTION_DATA then InvalidInstructionData
      else if error = INVALID_ACCOUNT_DATA then InvalidAccountData
      else if error = ACCOUNT_DATA_TOO_SMALL then AccountDataTooSmall
      else if error = INSUFFICIENT_FUNDS then InsufficientFunds
      else if error = INCORRECT_PROGRAM_ID then IncorrectProgramId
      else if error = MISSING_REQUIRED_SIGNATURES then MissingRequiredSignature
      else if error = ACCOUNT_ALREADY_INITIALIZED then AccountAlreadyInitialized
      else if error = UNINITIALIZED_ACCOUNT then UninitializedAccount
      else if error = NOT_ENOUGH_ACCOUNT_KEYS then NotEnoughAccountKeys
      else if error = ACCOUNT_BORROW_FAILED then AccountBorrowFailed
      else if error = MAX_SEED_LENGTH_EXCEEDED then MaxSeedLengthExceeded
      else if error = INVALID_SEEDS then InvalidSeeds
      else if error = BORSH_IO_ERROR then BorshIoError ''Unknown''
      else if error = ACCOUNT_NOT_RENT_EXEMPT then AccountNotRentExempt
      else if error = UNSUPPORTED_SYSVAR then UnsupportedSysvar
      else if error = ILLEGAL_OWNER then IllegalOwner
      else if error = MAX_ACCOUNTS_DATA_ALLOCATIONS_EXCEEDED then MaxAccountsDataAllocationsExceeded
      else if error = INVALID_ACCOUNT_DATA_REALLOC then InvalidRealloc
      else if error = MAX_INSTRUCTION_TRACE_LENGTH_EXCEEDED then MaxInstructionTraceLengthExceeded
      else if error = BUILTIN_PROGRAMS_MUST_CONSUME_COMPUTE_UNITS then BuiltinProgramsMustConsumeComputeUnits
      else if error = INVALID_ACCOUNT_OWNER then InvalidAccountOwner
      else if error = ARITHMETIC_OVERFLOW then ArithmeticOverflow
      else if error = IMMUTABLE then Immutable
      else if error = INCORRECT_AUTHORITY then IncorrectAuthority
      else if drop_bit BUILTIN_BIT_SHIFT error = 0 then Custom (ucast error)
      else InvalidError)"

lemma builtin_code_high:
  "unat e < 2 ^ 32 \<Longrightarrow> 2 ^ 32 \<le> unat c \<Longrightarrow> (e = c) = False" for e c :: u64
  by auto

lemma instruction_error_from_custom:
  assumes "unat e < 2 ^ 32"
  shows "instruction_error_from e = Custom (ucast e)"
proof -
  have "drop_bit 32 e = 0"
    using assms by (simp only: word_unat_eq_iff unat_drop_bit) simp
  then show ?thesis
    by (simp add: instruction_error_from_def builtin_code_defs builtin_code_high [OF assms])
qed

section \<open>Features\<close>

text \<open>
  The runtime features that the modelled code asks about. A \<open>FeatureSet\<close> answers
  \<open>is_active(&feature_set::<name>::id())\<close>.
\<close>

datatype feature =
    TimelyVoteCredits
  | DeprecateUnusedLegacyVotePlumbing
  | VoteStateAddVoteLatency
  | AllowCommissionDecreaseAtAnyTime
  | CommissionUpdatesOnlyAllowedInFirstHalfOfEpoch

type_synonym FeatureSet = "feature \<Rightarrow> bool"

section \<open>Sysvars\<close>

record Clock =
  clock_slot :: Slot
  clock_epoch_start_timestamp :: UnixTimestamp
  clock_epoch :: Epoch
  clock_leader_schedule_epoch :: Epoch
  clock_unix_timestamp :: UnixTimestamp

text \<open>\<open>UnixTimestamp\<close> values are those of an \<open>i64\<close>.\<close>

definition is_i64 :: "int \<Rightarrow> bool" where
  "is_i64 i \<longleftrightarrow> - (2 ^ 63) \<le> i \<and> i < 2 ^ 63"

end
