(* ===== verification/Program_Error.thy ===== *)
theory Program_Error
  imports Sdk_Types
begin

text \<open>
  How an error crosses the boundary between a program and the runtime
  (\<open>sdk/program/src/program_error.rs\<close>): a program's \<open>ProgramError\<close> becomes the \<open>u64\<close> the program
  returns, the runtime reads that code as an \<open>InstructionError\<close>, and a caller turns the
  instruction error back into a \<open>ProgramError\<close>.
\<close>

datatype ProgramError =
    Custom u32
  | InvalidArgument
  | InvalidInstructionData
  | InvalidAccountData
  | AccountDataTooSmall
  | InsufficientFunds
  | IncorrectProgramId
  | MissingRequiredSignature
  | AccountAlreadyInitialized
  | UninitializedAccount
  | NotEnoughAccountKeys
  | AccountBorrowFailed
  | MaxSeedLengthExceeded
  | InvalidSeeds
  | BorshIoError string
  | AccountNotRentExempt
  | UnsupportedSysvar
  | IllegalOwner
  | MaxAccountsDataAllocationsExceeded
  | InvalidRealloc
  | MaxInstructionTraceLengthExceeded
  | BuiltinProgramsMustConsumeComputeUnits
  | InvalidAccountOwner
  | ArithmeticOverflow
  | Immutable
  | IncorrectAuthority

fun u64_of_program_error :: "ProgramError \<Rightarrow> u64" where
  "u64_of_program_error ProgramError.InvalidArgument = INVALID_ARGUMENT"
| "u64_of_program_error ProgramError.InvalidInstructionData = INVALID_INSTRUCTION_DATA"
| "u64_of_program_error ProgramError.InvalidAccountData = INVALID_ACCOUNT_DATA"
| "u64_of_program_error ProgramError.AccountDataTooSmall = ACCOUNT_DATA_TOO_SMALL"
| "u64_of_program_error ProgramError.InsufficientFunds = INSUFFICIENT_FUNDS"
| "u64_of_program_error ProgramError.IncorrectProgramId = INCORRECT_PROGRAM_ID"
| "u64_of_program_error ProgramError.MissingRequiredSignature = MISSING_REQUIRED_SIGNATURES"
| "u64_of_program_error ProgramError.AccountAlreadyInitialized = ACCOUNT_ALREADY_INITIALIZED"
| "u64_of_program_error ProgramError.UninitializedAccount = UNINITIALIZED_ACCOUNT"
| "u64_of_program_error ProgramError.NotEnoughAccountKeys = NOT_ENOUGH_ACCOUNT_KEYS"
| "u64_of_program_error ProgramError.AccountBorrowFailed = ACCOUNT_BORROW_FAILED"
| "u64_of_program_error ProgramError.MaxSeedLengthExceeded = MAX_SEED_LENGTH_EXCEEDED"
| "u64_of_program_error ProgramError.InvalidSeeds = INVALID_SEEDS"
| "u64_of_program_error (ProgramError.BorshIoError msg) = BORSH_IO_ERROR"
| "u64_of_program_error ProgramError.AccountNotRentExempt = ACCOUNT_NOT_RENT_EXEMPT"
| "u64_of_program_error ProgramError.UnsupportedSysvar = UNSUPPORTED_SYSVAR"
| "u64_of_program_error ProgramError.IllegalOwner = ILLEGAL_OWNER"
| "u64_of_program_error ProgramError.MaxAccountsDataAllocationsExceeded = MAX_ACCOUNTS_DATA_ALLOCATIONS_EXCEEDED"
| "u64_of_program_error ProgramError.InvalidRealloc = INVALID_ACCOUNT_DATA_REALLOC"
| "u64_of_program_error ProgramError.MaxInstructionTraceLengthExceeded = MAX_INSTRUCTION_TRACE_LENGTH_EXCEEDED"
| "u64_of_program_error ProgramError.BuiltinProgramsMustConsumeComputeUnits = BUILTIN_PROGRAMS_MUST_CONSUME_COMPUTE_UNITS"
| "u64_of_program_error ProgramError.InvalidAccountOwner = INVALID_ACCOUNT_OWNER"
| "u64_of_program_error ProgramError.ArithmeticOverflow = ARITHMETIC_OVERFLOW"
| "u64_of_program_error ProgramError.Immutable = IMMUTABLE"
| "u64_of_program_error ProgramError.IncorrectAuthority = INCORRECT_AUTHORITY"
| "u64_of_program_error (ProgramError.Custom error) = (if error = 0 then CUSTOM_ZERO else ucast error)"

definition program_error_of_u64 :: "u64 \<Rightarrow> ProgramError" where
  "program_error_of_u64 error =
     (if error = CUSTOM_ZERO then ProgramError.Custom 0
      else if error = INVALID_ARGUMENT then ProgramError.InvalidArgument
      else if error = INVALID_INSTRUCTION_DATA then ProgramError.InvalidInstructionData
      else if error = INVALID_ACCOUNT_DATA then ProgramError.InvalidAccountData
      else if error = ACCOUNT_DATA_TOO_SMALL then ProgramError.AccountDataTooSmall
      else if error = INSUFFICIENT_FUNDS then ProgramError.InsufficientFunds
      else if error = INCORRECT_PROGRAM_ID then ProgramError.IncorrectProgramId
      else if error = MISSING_REQUIRED_SIGNATURES then ProgramError.MissingRequiredSignature
      else if error = ACCOUNT_ALREADY_INITIALIZED then ProgramError.AccountAlreadyInitialized
      else if error = UNINITIALIZED_ACCOUNT then ProgramError.UninitializedAccount
      else if error = NOT_ENOUGH_ACCOUNT_KEYS then ProgramError.NotEnoughAccountKeys
      else if error = ACCOUNT_BORROW_FAILED then ProgramError.AccountBorrowFailed
      else if error = MAX_SEED_LENGTH_EXCEEDED then ProgramError.MaxSeedLengthExceeded
      else if error = INVALID_SEEDS then ProgramError.InvalidSeeds
      else if error = BORSH_IO_ERROR then ProgramError.BorshIoError ''Unknown''
      else if error = ACCOUNT_NOT_RENT_EXEMPT then ProgramError.AccountNotRentExempt
      else if error = UNSUPPORTED_SYSVAR then ProgramError.UnsupportedSysvar
      else if error = ILLEGAL_OWNER then ProgramError.IllegalOwner
      else if error = MAX_ACCOUNTS_DATA_ALLOCATIONS_EXCEEDED then ProgramError.MaxAccountsDataAllocationsExceeded
      else if error = INVALID_ACCOUNT_DATA_REALLOC then ProgramError.InvalidRealloc
      else if error = MAX_INSTRUCTION_TRACE_LENGTH_EXCEEDED then ProgramError.MaxInstructionTraceLengthExceeded
      else if error = BUILTIN_PROGRAMS_MUST_CONSUME_COMPUTE_UNITS then ProgramError.BuiltinProgramsMustConsumeComputeUnits
      else if error = INVALID_ACCOUNT_OWNER then ProgramError.InvalidAccountOwner
      else if error = ARITHMETIC_OVERFLOW then ProgramError.ArithmeticOverflow
      else if error = IMMUTABLE then ProgramError.Immutable
      else if error = INCORRECT_AUTHORITY then ProgramError.IncorrectAuthority
      else ProgramError.Custom (ucast error))"

fun program_error_try_from :: "InstructionError \<Rightarrow> (ProgramError, InstructionError) result" where
  "program_error_try_from (InstructionError.Custom err) = Ok (ProgramError.Custom err)"
| "program_error_try_from InstructionError.InvalidArgument = Ok ProgramError.InvalidArgument"
| "program_error_try_from InstructionError.InvalidInstructionData = Ok ProgramError.InvalidInstructionData"
| "program_error_try_from InstructionError.InvalidAccountData = Ok ProgramError.InvalidAccountData"
| "program_error_try_from InstructionError.AccountDataTooSmall = Ok ProgramError.AccountDataTooSmall"
| "program_error_try_from InstructionError.InsufficientFunds = Ok ProgramError.InsufficientFunds"
| "program_error_try_from InstructionError.IncorrectProgramId = Ok ProgramError.IncorrectProgramId"
| "program_error_try_from InstructionError.MissingRequiredSignature = Ok ProgramError.MissingRequiredSignature"
| "program_error_try_from InstructionError.AccountAlreadyInitialized = Ok ProgramError.AccountAlreadyInitialized"
| "program_error_try_from InstructionError.UninitializedAccount = Ok ProgramError.UninitializedAccount"
| "program_error_try_from InstructionError.NotEnoughAccountKeys = Ok ProgramError.NotEnoughAccountKeys"
| "program_error_try_from InstructionError.AccountBorrowFailed = Ok ProgramError.AccountBorrowFailed"
| "program_error_try_from InstructionError.MaxSeedLengthExceeded = Ok ProgramError.MaxSeedLengthExceeded"
| "program_error_try_from InstructionError.InvalidSeeds = Ok ProgramError.InvalidSeeds"
| "program_error_try_from (InstructionError.BorshIoError err) = Ok (ProgramError.BorshIoError err)"
| "program_error_try_from InstructionError.AccountNotRentExempt = Ok ProgramError.AccountNotRentExempt"
| "program_error_try_from InstructionError.UnsupportedSysvar = Ok ProgramError.UnsupportedSysvar"
| "program_error_try_from InstructionError.IllegalOwner = Ok ProgramError.IllegalOwner"
| "program_error_try_from InstructionError.MaxAccountsDataAllocationsExceeded = Ok ProgramError.MaxAccountsDataAllocationsExceeded"
| "program_error_try_from InstructionError.InvalidRealloc = Ok ProgramError.InvalidRealloc"
| "program_error_try_from InstructionError.MaxInstructionTraceLengthExceeded = Ok ProgramError.MaxInstructionTraceLengthExceeded"
| "program_error_try_from InstructionError.BuiltinProgramsMustConsumeComputeUnits = Ok ProgramError.BuiltinProgramsMustConsumeComputeUnits"
| "program_error_try_from InstructionError.InvalidAccountOwner = Ok ProgramError.InvalidAccountOwner"
| "program_error_try_from InstructionError.ArithmeticOverflow = Ok ProgramError.ArithmeticOverflow"
| "program_error_try_from InstructionError.Immutable = Ok ProgramError.Immutable"
| "program_error_try_from InstructionError.IncorrectAuthority = Ok ProgramError.IncorrectAuthority"
| "program_error_try_from error = Err error"

section \<open>Round trips\<close>

lemma unat_ucast_u32_lt: "unat (ucast (e :: u32) :: u64) < 2 ^ 32"
  using unat_lt_exp [of e] by (simp add: unat_ucast_up)

lemma ucast_ucast_u32: "ucast (ucast (e :: u32) :: u64) = e"
  using unat_lt_exp [of e] by (simp add: word_unat_eq_iff unat_ucast_mod)

lemma program_error_of_custom:
  "e \<noteq> 0 \<Longrightarrow> program_error_of_u64 (ucast e) = ProgramError.Custom e"
  by (simp add: program_error_of_u64_def builtin_code_defs builtin_code_high [OF unat_ucast_u32_lt]
      ucast_ucast_u32)

lemma instruction_error_of_custom:
  "e \<noteq> 0 \<Longrightarrow> instruction_error_from (ucast (e :: u32)) = InstructionError.Custom e"
  by (simp add: instruction_error_from_custom [OF unat_ucast_u32_lt] ucast_ucast_u32)

text \<open>
  C27: a program error survives the crossing to the runtime and back: the code a program returns is
  never zero (the code of success); read by the runtime as an instruction error and converted
  back it is the program's error again, and so it is when read directly as a program error. Only
  the message of a Borsh error is lost.
\<close>

theorem program_error_roundtrip:
  "u64_of_program_error pe \<noteq> 0 \<and>
   program_error_try_from (instruction_error_from (u64_of_program_error pe)) =
     Ok (program_error_of_u64 (u64_of_program_error pe)) \<and>
   program_error_of_u64 (u64_of_program_error pe) =
     (case pe of ProgramError.BorshIoError msg \<Rightarrow> ProgramError.BorshIoError ''Unknown'' | _ \<Rightarrow> pe)"
proof (cases pe)
  case (Custom e)
  have "(ucast e :: u64) \<noteq> 0" if "e \<noteq> 0"
    using that by (simp add: word_unat_eq_iff unat_ucast_up)
  then show ?thesis
    using Custom program_error_of_custom [of e] instruction_error_of_custom [of e]
    by (cases "e = 0")
      (simp_all add: program_error_of_u64_def instruction_error_from_def builtin_code_defs)
qed (simp_all add: program_error_of_u64_def instruction_error_from_def builtin_code_defs)

end
