(* ===== verification/BTree_Map.thy ===== *)
theory BTree_Map
  imports Prelude
begin

text \<open>
  The standard library's \<open>BTreeMap\<close>, as far as the vote program uses it: an association list in
  strictly ascending key order, which is the order the map iterates in. The locale
  \<open>ordered_map\<close> states what its users rely on; the association list implements it.
\<close>

type_synonym ('k, 'v) btree = "('k \<times> 'v) list"

definition btree_inv :: "('k::linorder, 'v) btree \<Rightarrow> bool" where
  "btree_inv m \<longleftrightarrow> sorted_wrt (<) (map fst m)"

definition btree_get :: "('k, 'v) btree \<Rightarrow> 'k \<Rightarrow> 'v option" where
  "btree_get m k = map_of m k"

fun btree_insert :: "'k::linorder \<Rightarrow> 'v \<Rightarrow> ('k, 'v) btree \<Rightarrow> ('k, 'v) btree" where
  "btree_insert k v [] = [(k, v)]"
| "btree_insert k v ((k', v') # m) =
     (if k < k' then (k, v) # (k', v') # m
      else if k = k' then (k, v) # m
      else (k', v') # btree_insert k v m)"

definition btree_remove :: "'k \<Rightarrow> ('k, 'v) btree \<Rightarrow> ('k, 'v) btree" where
  "btree_remove k m = filter (\<lambda>(k', v). k' \<noteq> k) m"

text \<open>\<open>range(..k)\<close>: the entries with a key below \<open>k\<close>, in ascending order.\<close>

definition btree_below :: "'k::linorder \<Rightarrow> ('k, 'v) btree \<Rightarrow> ('k \<times> 'v) list" where
  "btree_below k m = takeWhile (\<lambda>(k', v). k' < k) m"

text \<open>\<open>iter().next()\<close> and \<open>iter().next_back()\<close>.\<close>

definition next_front :: "'a list \<Rightarrow> 'a option" where
  "next_front xs = (case xs of [] \<Rightarrow> None | x # _ \<Rightarrow> Some x)"

lemma sorted_last_max:
  fixes xs :: "('k::linorder \<times> 'v) list"
  shows "sorted_wrt (<) (map fst xs) \<Longrightarrow> p \<in> set xs \<Longrightarrow> fst p \<le> fst (last xs)"
  by (induction xs rule: rev_induct) (auto simp: sorted_wrt_append)

section \<open>What a user of an ordered map relies on\<close>

locale ordered_map =
  fixes inv :: "'m \<Rightarrow> bool"
    and get :: "'m \<Rightarrow> 'k::linorder \<Rightarrow> 'v option"
    and ins :: "'k \<Rightarrow> 'v \<Rightarrow> 'm \<Rightarrow> 'm"
    and rm :: "'k \<Rightarrow> 'm \<Rightarrow> 'm"
    and below :: "'k \<Rightarrow> 'm \<Rightarrow> ('k \<times> 'v) list"
  assumes inv_ins: "inv m \<Longrightarrow> inv (ins k v m)"
    and inv_rm: "inv m \<Longrightarrow> inv (rm k m)"
    and get_ins: "inv m \<Longrightarrow> get (ins k v m) = (get m)(k \<mapsto> v)"
    and get_rm: "inv m \<Longrightarrow> get (rm k m) = (get m)(k := None)"
    and below_sorted: "inv m \<Longrightarrow> sorted_wrt (<) (map fst (below k m))"
    and set_below: "inv m \<Longrightarrow> set (below k m) = {(k', v). k' < k \<and> get m k' = Some v}"
begin

text \<open>Removing the keys of a list, one after the other.\<close>

lemma inv_rm_all: "inv m \<Longrightarrow> inv (fold rm ks m)"
  by (induction ks arbitrary: m) (simp_all add: inv_rm)

lemma get_rm_all: "inv m \<Longrightarrow> get (fold rm ks m) = (\<lambda>k. if k \<in> set ks then None else get m k)"
  by (induction ks arbitrary: m) (auto simp: inv_rm get_rm fun_eq_iff)

lemma get_purge:
  assumes "inv m"
  shows "get (fold rm (map fst (below e m)) m) = (\<lambda>k. if k < e then None else get m k)"
proof -
  have "k \<in> set (map fst (below e m)) \<longleftrightarrow> k < e \<and> get m k \<noteq> None" for k
    by (force simp: set_below [OF assms])
  then show ?thesis by (auto simp: get_rm_all [OF assms] fun_eq_iff)
qed

text \<open>The last entry below a key is the entry of the greatest such key.\<close>

lemma next_back_below:
  assumes "inv m"
  shows "next_back (below e m) = Some (k, v) \<longleftrightarrow>
    k < e \<and> get m k = Some v \<and> (\<forall>k'. k < k' \<and> k' < e \<longrightarrow> get m k' = None)"
    (is "?L \<longleftrightarrow> ?R")
proof
  have top: "fst p \<le> fst (last (below e m))" if "p \<in> set (below e m)" for p
    using below_sorted [OF assms, of e] that by (rule sorted_last_max)
  {
    assume ?L
    then have ne: "below e m \<noteq> []" and l: "last (below e m) = (k, v)"
      by (auto simp: next_back_def split: if_splits)
    from ne have "(k, v) \<in> set (below e m)" using last_in_set l by metis
    moreover have "get m k' = None" if "k < k'" "k' < e" for k'
      using top [of "(k', the (get m k'))"] that l by (cases "get m k'") (auto simp: set_below [OF assms])
    ultimately show ?R by (auto simp: set_below [OF assms])
  next
    assume R: ?R
    then have mem: "(k, v) \<in> set (below e m)" by (simp add: set_below [OF assms])
    obtain k' v' where l: "last (below e m) = (k', v')" by fastforce
    then have "(k', v') \<in> set (below e m)" using mem last_in_set by (metis list.set_cases list.discI)
    moreover have "k \<le> k'" using top [OF mem] l by simp
    ultimately have "k' = k \<and> v' = v" using R by (auto simp: set_below [OF assms] order_le_less)
    then show ?L using l mem by (auto simp: next_back_def)
  }
qed

lemma next_back_below_None:
  "inv m \<Longrightarrow> next_back (below e m) = None \<longleftrightarrow> (\<forall>k < e. get m k = None)"
  using set_below [of m e] by (auto simp: next_back_def set_empty [symmetric] simp del: set_empty)

end

section \<open>The association list implements it\<close>

lemma keys_btree_insert: "fst ` set (btree_insert k v m) = insert k (fst ` set m)"
  by (induction m rule: btree_insert.induct [case_names Nil Cons]) auto

lemma btree_inv_insert: "btree_inv m \<Longrightarrow> btree_inv (btree_insert k v m)"
proof (induction k v m rule: btree_insert.induct)
  case (2 k v k' v' m)
  have "x \<in> insert k (fst ` set m) \<Longrightarrow> k' < x" if "k' < k" for x
    using 2(2) that by (auto simp: btree_inv_def)
  then show ?case
    using 2 keys_btree_insert [of k v m] by (auto simp: btree_inv_def)
qed (simp add: btree_inv_def)

lemma btree_get_insert: "btree_inv m \<Longrightarrow> btree_get (btree_insert k v m) = (btree_get m)(k \<mapsto> v)"
  by (induction k v m rule: btree_insert.induct) (auto simp: btree_inv_def btree_get_def fun_eq_iff)

lemma btree_inv_remove: "btree_inv m \<Longrightarrow> btree_inv (btree_remove k m)"
  by (induction m) (auto simp: btree_inv_def btree_remove_def)

lemma btree_get_remove: "btree_get (btree_remove k m) = (btree_get m)(k := None)"
  by (induction m) (auto simp: btree_get_def btree_remove_def fun_eq_iff)

lemma btree_inv_distinct: "btree_inv m \<Longrightarrow> distinct (map fst m)"
  by (simp add: btree_inv_def strict_sorted_iff)

lemma btree_below_filter: "btree_inv m \<Longrightarrow> btree_below k m = filter (\<lambda>(k', v). k' < k) m"
proof (induction m)
  case (Cons a m)
  then have "fst a < k \<or> filter (\<lambda>(k', v). k' < k) m = []"
    by (fastforce simp: btree_inv_def filter_empty_conv)
  with Cons show ?case by (auto simp: btree_inv_def btree_below_def)
qed (simp add: btree_below_def)

lemma btree_below_sorted: "btree_inv m \<Longrightarrow> sorted_wrt (<) (map fst (btree_below k m))"
  by (induction m) (auto simp: btree_inv_def btree_below_def dest: set_takeWhileD)

lemma set_btree_below:
  "btree_inv m \<Longrightarrow> set (btree_below k m) = {(k', v). k' < k \<and> btree_get m k' = Some v}"
  by (auto simp: btree_below_filter btree_get_def btree_inv_distinct dest: map_of_SomeD)

interpretation btree: ordered_map btree_inv btree_get btree_insert btree_remove btree_below
  by unfold_locales
    (simp_all only: btree_inv_insert btree_inv_remove btree_get_insert btree_get_remove
      btree_below_sorted set_btree_below)

lemma btree_last_key:
  assumes "btree_inv m" and "next_back m = Some (k, v)"
  shows "btree_get m k = Some v" and "btree_get m k' \<noteq> None \<Longrightarrow> k' \<le> k"
proof -
  have l: "m \<noteq> []" "last m = (k, v)"
    using assms(2) by (auto simp: next_back_def split: if_splits)
  then show "btree_get m k = Some v"
    using assms(1) last_in_set [OF l(1)] by (simp add: btree_get_def btree_inv_distinct)
  assume "btree_get m k' \<noteq> None"
  then have "k' \<in> fst ` set m"
    by (auto simp: btree_get_def map_of_eq_None_iff)
  then obtain p where "p \<in> set m" "k' = fst p" by auto
  then show "k' \<le> k"
    using sorted_last_max [OF assms(1) [unfolded btree_inv_def], of p] l by simp
qed

lemma btree_get_empty: "btree_inv m \<Longrightarrow> m = [] \<longleftrightarrow> btree_get m = Map.empty"
  by (cases m) (auto simp: btree_get_def fun_eq_iff)

end
