(* ===== verification/Authorized_Voters.thy ===== *)
theory Authorized_Voters
  imports Sdk_Types BTree_Map
begin

text \<open>
  The authorized voters of a vote account by epoch, \<open>sdk/program/src/vote/authorized_voters.rs\<close>.
  The map holds an entry only for the epochs in which the voter was set or looked up; the voter
  of any other epoch is that of the latest entry before it.
\<close>

type_synonym AuthorizedVoters = "(Epoch, Pubkey) btree"

definition av_new :: "Epoch \<Rightarrow> Pubkey \<Rightarrow> AuthorizedVoters" where
  "av_new epoch pubkey = btree_insert epoch pubkey []"

definition get_or_calculate_authorized_voter_for_epoch ::
  "AuthorizedVoters \<Rightarrow> Epoch \<Rightarrow> (Pubkey \<times> bool) option" where
  "get_or_calculate_authorized_voter_for_epoch av epoch =
     (case btree_get av epoch of
        None \<Rightarrow> map_option (\<lambda>(_, pubkey). (pubkey, False)) (next_back (btree_below epoch av))
      | Some pubkey \<Rightarrow> Some (pubkey, True))"

definition av_get_authorized_voter :: "AuthorizedVoters \<Rightarrow> Epoch \<Rightarrow> Pubkey option" where
  "av_get_authorized_voter av epoch =
     map_option fst (get_or_calculate_authorized_voter_for_epoch av epoch)"

definition get_and_cache_authorized_voter_for_epoch ::
  "AuthorizedVoters \<Rightarrow> Epoch \<Rightarrow> Pubkey option \<times> AuthorizedVoters" where
  "get_and_cache_authorized_voter_for_epoch av epoch =
     (case get_or_calculate_authorized_voter_for_epoch av epoch of
        None \<Rightarrow> (None, av)
      | Some (pubkey, existed) \<Rightarrow>
          (Some pubkey, if \<not> existed then btree_insert epoch pubkey av else av))"

definition av_insert :: "Epoch \<Rightarrow> Pubkey \<Rightarrow> AuthorizedVoters \<Rightarrow> AuthorizedVoters" where
  "av_insert epoch authorized_voter av = btree_insert epoch authorized_voter av"

text \<open>The expired keys are removed one by one; a map left empty fails the assertion.\<close>

definition purge_authorized_voters :: "Epoch \<Rightarrow> (AuthorizedVoters, 'e, bool) exec" where
  "purge_authorized_voters current_epoch av =
     (let expired_keys = map fst (btree_below current_epoch av);
          av' = fold btree_remove expired_keys av
      in if av' \<noteq> [] then (Ok True, av') else (Panic, av'))"

definition av_is_empty :: "AuthorizedVoters \<Rightarrow> bool" where
  "av_is_empty av \<longleftrightarrow> av = []"

definition av_first :: "AuthorizedVoters \<Rightarrow> (Epoch \<times> Pubkey) option" where
  "av_first av = next_front av"

definition av_last :: "AuthorizedVoters \<Rightarrow> (Epoch \<times> Pubkey) option" where
  "av_last av = next_back av"

definition av_len :: "AuthorizedVoters \<Rightarrow> nat" where
  "av_len av = length av"

definition av_contains :: "AuthorizedVoters \<Rightarrow> Epoch \<Rightarrow> bool" where
  "av_contains av epoch \<longleftrightarrow> btree_get av epoch \<noteq> None"

section \<open>The voter of an epoch\<close>

abbreviation av_inv :: "AuthorizedVoters \<Rightarrow> bool" where
  "av_inv \<equiv> btree_inv"

lemma av_get_Some_iff:
  assumes "av_inv av"
  shows "av_get_authorized_voter av epoch = Some pubkey \<longleftrightarrow>
    (\<exists>k \<le> epoch. btree_get av k = Some pubkey \<and> (\<forall>k'. k < k' \<and> k' \<le> epoch \<longrightarrow> btree_get av k' = None))"
proof (cases "btree_get av epoch")
  case None
  have "av_get_authorized_voter av epoch = Some pubkey \<longleftrightarrow>
      (\<exists>k. next_back (btree_below epoch av) = Some (k, pubkey))"
    using None
    by (auto simp: av_get_authorized_voter_def get_or_calculate_authorized_voter_for_epoch_def)
  also have "\<dots> \<longleftrightarrow> (\<exists>k < epoch. btree_get av k = Some pubkey \<and>
      (\<forall>k'. k < k' \<and> k' < epoch \<longrightarrow> btree_get av k' = None))"
    by (auto simp: btree.next_back_below [OF assms])
  also have "\<dots> \<longleftrightarrow> (\<exists>k \<le> epoch. btree_get av k = Some pubkey \<and>
      (\<forall>k'. k < k' \<and> k' \<le> epoch \<longrightarrow> btree_get av k' = None))"
    using None by (auto simp: le_less)
  finally show ?thesis .
next
  case (Some p)
  then show ?thesis
    by (auto simp: av_get_authorized_voter_def get_or_calculate_authorized_voter_for_epoch_def le_less)
qed

lemma av_get_None_iff:
  "av_inv av \<Longrightarrow> av_get_authorized_voter av epoch = None \<longleftrightarrow> (\<forall>k \<le> epoch. btree_get av k = None)"
  by (auto simp: av_get_authorized_voter_def get_or_calculate_authorized_voter_for_epoch_def
      btree.next_back_below_None le_less split: option.splits)

text \<open>
  Caching the voter of an epoch changes the voter of no epoch; dropping the entries below an epoch
  that has an entry changes the voter of no epoch from it on.
\<close>

lemma option_eq_by_Some: "(\<And>p. x = Some p \<longleftrightarrow> y = Some p) \<Longrightarrow> x = y"
  by (cases x; cases y) auto

lemma av_get_cache:
  assumes inv: "av_inv av" and e: "av_get_authorized_voter av e = Some p"
  shows "av_get_authorized_voter (btree_insert e p av) epoch = av_get_authorized_voter av epoch"
proof (rule option_eq_by_Some)
  fix q
  obtain k0 where k0: "k0 \<le> e" "btree_get av k0 = Some p"
    "\<And>k'. k0 < k' \<Longrightarrow> k' \<le> e \<Longrightarrow> btree_get av k' = None"
    using e by (auto simp: av_get_Some_iff [OF inv])
  show "av_get_authorized_voter (btree_insert e p av) epoch = Some q \<longleftrightarrow>
    av_get_authorized_voter av epoch = Some q" (is "?L \<longleftrightarrow> ?R")
  proof
    assume ?L
    then obtain k where k: "k \<le> epoch" "((btree_get av)(e \<mapsto> p)) k = Some q"
      "\<And>k'. k < k' \<Longrightarrow> k' \<le> epoch \<Longrightarrow> ((btree_get av)(e \<mapsto> p)) k' = None"
      by (auto simp: av_get_Some_iff [OF btree.inv_ins [OF inv]] btree.get_ins [OF inv])
    then have none: "btree_get av k' = None" if "k < k'" "k' \<le> epoch" for k'
      using that by (metis fun_upd_apply option.distinct(1))
    show ?R
    proof (cases "k = e")
      case True
      then show ?thesis
        unfolding av_get_Some_iff [OF inv] using k k0 none
        by (intro exI [of _ k0]) (auto, metis leI)
    next
      case False
      then show ?thesis
        unfolding av_get_Some_iff [OF inv] using k none
        by (intro exI [of _ k]) simp
    qed
  next
    assume ?R
    then obtain k where k: "k \<le> epoch" "btree_get av k = Some q"
      "\<And>k'. k < k' \<Longrightarrow> k' \<le> epoch \<Longrightarrow> btree_get av k' = None"
      by (auto simp: av_get_Some_iff [OF inv])
    show ?L
    proof (cases "k \<le> e \<and> e \<le> epoch")
      case True
      then have "\<not> k < k0" using k(3) [of k0] k0(1,2) order_trans [of k0 e epoch] by auto
      moreover have "\<not> k0 < k" using k0(3) [of k] k(2) True by auto
      ultimately have "k = k0" by simp
      then show ?thesis
        unfolding av_get_Some_iff [OF btree.inv_ins [OF inv]] btree.get_ins [OF inv]
        using k k0 True by (intro exI [of _ e]) auto
    next
      case False
      then show ?thesis
        unfolding av_get_Some_iff [OF btree.inv_ins [OF inv]] btree.get_ins [OF inv]
        using k k0 by (intro exI [of _ k]) auto
    qed
  qed
qed

lemma av_get_purge:
  assumes inv: "av_inv av" and e: "e \<le> epoch" "btree_get av e \<noteq> None"
    and inv': "av_inv av'" and get: "btree_get av' = (\<lambda>k. if k < e then None else btree_get av k)"
  shows "av_get_authorized_voter av' epoch = av_get_authorized_voter av epoch"
proof (rule option_eq_by_Some)
  fix q
  have "(k \<le> epoch \<and> btree_get av' k = Some q \<and> (\<forall>k'. k < k' \<and> k' \<le> epoch \<longrightarrow> btree_get av' k' = None)) \<longleftrightarrow>
      (k \<le> epoch \<and> btree_get av k = Some q \<and> (\<forall>k'. k < k' \<and> k' \<le> epoch \<longrightarrow> btree_get av k' = None))" for k
  proof (cases "k < e")
    case True
    then show ?thesis using e by (auto simp: get)
  next
    case False
    then have "btree_get av' k' = btree_get av k'" if "k \<le> k'" for k'
      using that by (auto simp: get dest: le_less_trans)
    then show ?thesis by (metis order_less_imp_le order_refl)
  qed
  then show "av_get_authorized_voter av' epoch = Some q \<longleftrightarrow> av_get_authorized_voter av epoch = Some q"
    unfolding av_get_Some_iff [OF inv] av_get_Some_iff [OF inv'] by blast
qed

section \<open>The operations keep the order of the map\<close>

lemma av_inv_new: "av_inv (av_new epoch pubkey)"
  by (simp add: av_new_def btree_inv_def)

lemma get_and_cache_Some:
  assumes inv: "av_inv av" and c: "get_and_cache_authorized_voter_for_epoch av e = (Some p, av')"
  shows "av_inv av'" and "av_get_authorized_voter av e = Some p" and "btree_get av' e = Some p"
    and "av_get_authorized_voter av' epoch = av_get_authorized_voter av epoch"
    and "btree_get av' = (btree_get av)(e \<mapsto> p)"
proof -
  have g: "av_get_authorized_voter av e = Some p"
    and av': "av' = av \<and> btree_get av e = Some p \<or> av' = btree_insert e p av"
    using c
    by (auto simp: get_and_cache_authorized_voter_for_epoch_def av_get_authorized_voter_def
        get_or_calculate_authorized_voter_for_epoch_def split: option.splits if_splits)
  then show "av_inv av'" "av_get_authorized_voter av e = Some p" "btree_get av' e = Some p"
    "av_get_authorized_voter av' epoch = av_get_authorized_voter av epoch"
    "btree_get av' = (btree_get av)(e \<mapsto> p)"
    using inv av_get_cache [OF inv g]
    by (auto simp: btree.inv_ins [OF inv] btree.get_ins [OF inv])
qed

lemma purge_authorized_voters_Ok:
  assumes inv: "av_inv av" and e: "btree_get av e \<noteq> None"
  obtains av' where "purge_authorized_voters e av = (Ok True, av')" and "av_inv av'"
    and "btree_get av' = (\<lambda>k. if k < e then None else btree_get av k)"
    and "\<And>epoch. e \<le> epoch \<Longrightarrow> av_get_authorized_voter av' epoch = av_get_authorized_voter av epoch"
proof -
  define av' where "av' = fold btree_remove (map fst (btree_below e av)) av"
  have inv': "av_inv av'"
    unfolding av'_def using inv by (rule btree.inv_rm_all)
  have get: "btree_get av' = (\<lambda>k. if k < e then None else btree_get av k)"
    unfolding av'_def using inv by (rule btree.get_purge)
  have "av' \<noteq> []"
    using e get btree_get_empty [OF inv'] by (auto simp: fun_eq_iff)
  then have "purge_authorized_voters e av = (Ok True, av')"
    by (simp add: purge_authorized_voters_def av'_def Let_def)
  then show thesis
    using that inv' get av_get_purge [OF inv _ e inv' get] by blast
qed

end
