(* ===== verification/Search.thy ===== *)
theory Search
  imports Prelude
begin

text \<open>
  \<open>binary_search_by\<close> of the standard library, on the positions of a sequence: the range
  \<open>[left, right)\<close> is halved until the comparison returns \<open>Equal\<close> (\<open>Ok\<close> of the position) or the
  range is empty (\<open>Err\<close> of the position where an element would be inserted).
\<close>

datatype ordering = Less | Equal | Greater

definition cmp :: "'a::linorder \<Rightarrow> 'a \<Rightarrow> ordering" where
  "cmp x y = (if x < y then Less else if x = y then Equal else Greater)"

lemma cmp_iff [simp]:
  "cmp x y = Less \<longleftrightarrow> x < y" "cmp x y = Equal \<longleftrightarrow> x = y" "cmp x y = Greater \<longleftrightarrow> y < x"
  by (auto simp: cmp_def)

function binary_search_loop :: "(nat \<Rightarrow> ordering) \<Rightarrow> nat \<Rightarrow> nat \<Rightarrow> (nat, nat) result" where
  "binary_search_loop f left right =
     (if left < right then
        let mid = left + (right - left) div 2 in
        (case f mid of
           Equal \<Rightarrow> Ok mid
         | Less \<Rightarrow> binary_search_loop f (mid + 1) right
         | Greater \<Rightarrow> binary_search_loop f left mid)
      else Err left)"
  by pat_completeness auto
termination
  by (relation "measure (\<lambda>(f, left, right). right - left)") (auto simp: less_diff_conv)

declare binary_search_loop.simps [simp del]

definition binary_search_by :: "('a \<Rightarrow> ordering) \<Rightarrow> 'a list \<Rightarrow> (nat, nat) result" where
  "binary_search_by f xs = binary_search_loop (\<lambda>i. f (xs ! i)) 0 (length xs)"

text \<open>
  A comparison suits a sequence when it is \<open>Less\<close> on a prefix, \<open>Greater\<close> on a suffix and
  \<open>Equal\<close> in between.
\<close>

definition search_ordered :: "(nat \<Rightarrow> ordering) \<Rightarrow> nat \<Rightarrow> bool" where
  "search_ordered f n \<longleftrightarrow>
     (\<forall>i j. i < j \<and> j < n \<longrightarrow> (f j = Less \<longrightarrow> f i = Less) \<and> (f i = Greater \<longrightarrow> f j = Greater))"

lemma binary_search_loop_spec:
  assumes "search_ordered f n" and "right \<le> n"
    and "\<forall>k < left. f k = Less" and "\<forall>k. right \<le> k \<and> k < n \<longrightarrow> f k = Greater" and "left \<le> right"
  shows "case binary_search_loop f left right of
      Ok i \<Rightarrow> i < n \<and> f i = Equal
    | Err i \<Rightarrow> i \<le> n \<and> (\<forall>k < i. f k = Less) \<and> (\<forall>k. i \<le> k \<and> k < n \<longrightarrow> f k = Greater)
    | Panic \<Rightarrow> False"
  using assms
proof (induction f left right rule: binary_search_loop.induct)
  case (1 f left right)
  show ?case
  proof (cases "left < right")
    case True
    define mid where "mid = left + (right - left) div 2"
    have mid: "left \<le> mid" "mid < right" "mid < n" using True "1.prems"(2) by (auto simp: mid_def)
    show ?thesis
    proof (cases "f mid")
      case Equal
      then show ?thesis
        using True mid by (subst binary_search_loop.simps) (simp add: mid_def [symmetric])
    next
      case Less
      have "\<forall>k < mid + 1. f k = Less"
        using "1.prems"(1) Less mid by (auto simp: search_ordered_def less_Suc_eq)
      then show ?thesis
        using "1.IH"(1) [OF True mid_def Less "1.prems"(1,2) _ "1.prems"(4)] True Less mid
        by (subst binary_search_loop.simps) (simp add: mid_def [symmetric])
    next
      case Greater
      have "\<forall>k. mid \<le> k \<and> k < n \<longrightarrow> f k = Greater"
        using "1.prems"(1) Greater mid by (auto simp: search_ordered_def le_less)
      then show ?thesis
        using "1.IH"(2) [OF True mid_def Greater "1.prems"(1) _ "1.prems"(3)] True Greater mid
        by (subst binary_search_loop.simps) (simp add: mid_def [symmetric])
    qed
  next
    case False
    then show ?thesis
      using "1.prems" by (subst binary_search_loop.simps) auto
  qed
qed

text \<open>What a search returns, on a suitably ordered list.\<close>

lemma binary_search_by_cases:
  assumes "search_ordered (\<lambda>i. f (xs ! i)) (length xs)"
  obtains (found) i where "binary_search_by f xs = Ok i" and "i < length xs" and "f (xs ! i) = Equal"
    | (missing) i where "binary_search_by f xs = Err i" and "i \<le> length xs"
        and "\<forall>k < i. f (xs ! k) = Less" and "\<forall>k. i \<le> k \<and> k < length xs \<longrightarrow> f (xs ! k) = Greater"
proof -
  have "case binary_search_by f xs of
      Ok i \<Rightarrow> i < length xs \<and> f (xs ! i) = Equal
    | Err i \<Rightarrow> i \<le> length xs \<and> (\<forall>k < i. f (xs ! k) = Less) \<and>
        (\<forall>k. i \<le> k \<and> k < length xs \<longrightarrow> f (xs ! k) = Greater)
    | Panic \<Rightarrow> False"
    unfolding binary_search_by_def by (rule binary_search_loop_spec [OF assms]) auto
  then show thesis
    using found missing by (cases "binary_search_by f xs") auto
qed

lemma is_ok_binary_search:
  assumes "search_ordered (\<lambda>i. f (xs ! i)) (length xs)"
  shows "is_ok (binary_search_by f xs) \<longleftrightarrow> (\<exists>x \<in> set xs. f x = Equal)"
  using assms
proof (cases rule: binary_search_by_cases)
  case (found i)
  then show ?thesis by (auto simp: set_conv_nth)
next
  case (missing i)
  then have "f (xs ! k) \<noteq> Equal" if "k < length xs" for k
    using that by (cases "k < i") auto
  then show ?thesis using missing(1) by (auto simp: set_conv_nth)
qed

end
