(* ===== verification/Vote_State.thy ===== *)
theory Vote_State
  imports Authorized_Voters Search
begin

text \<open>
  The state of a vote account, \<open>sdk/program/src/vote/state/mod.rs\<close>: the tower of lockouts, the
  epoch credits, the history of authorized voters, and the operations on them. A \<open>VecDeque\<close> or
  \<open>Vec\<close> is a list, front first.
\<close>

section \<open>Data\<close>

definition MAX_LOCKOUT_HISTORY :: nat where
  "MAX_LOCKOUT_HISTORY = 31"

definition INITIAL_LOCKOUT :: u64 where
  "INITIAL_LOCKOUT = 2"

definition MAX_EPOCH_CREDITS_HISTORY :: nat where
  "MAX_EPOCH_CREDITS_HISTORY = 64"

definition VOTE_CREDITS_GRACE_SLOTS :: u8 where
  "VOTE_CREDITS_GRACE_SLOTS = 2"

definition VOTE_CREDITS_MAXIMUM_PER_SLOT :: u8 where
  "VOTE_CREDITS_MAXIMUM_PER_SLOT = 16"

definition VOTE_CREDITS_MAXIMUM_PER_SLOT_OLD :: u8 where
  "VOTE_CREDITS_MAXIMUM_PER_SLOT_OLD = 8"

datatype VoteError =
    VoteTooOld
  | SlotsMismatch
  | SlotHashMismatch
  | EmptySlots
  | TimestampTooOld
  | TooSoonToReauthorize
  | LockoutConflict
  | NewVoteStateLockoutMismatch
  | SlotsNotOrdered
  | ConfirmationsNotOrdered
  | ZeroConfirmations
  | ConfirmationTooLarge
  | RootRollBack
  | ConfirmationRollBack
  | SlotSmallerThanRoot
  | TooManyVotes
  | VotesTooOldAllFiltered
  | RootOnDifferentFork
  | ActiveVoteAccountClose
  | CommissionUpdateTooLate

fun vote_error_to_u64 :: "VoteError \<Rightarrow> u64" where
  "vote_error_to_u64 VoteTooOld = 0"
| "vote_error_to_u64 SlotsMismatch = 1"
| "vote_error_to_u64 SlotHashMismatch = 2"
| "vote_error_to_u64 EmptySlots = 3"
| "vote_error_to_u64 TimestampTooOld = 4"
| "vote_error_to_u64 TooSoonToReauthorize = 5"
| "vote_error_to_u64 LockoutConflict = 6"
| "vote_error_to_u64 NewVoteStateLockoutMismatch = 7"
| "vote_error_to_u64 SlotsNotOrdered = 8"
| "vote_error_to_u64 ConfirmationsNotOrdered = 9"
| "vote_error_to_u64 ZeroConfirmations = 10"
| "vote_error_to_u64 ConfirmationTooLarge = 11"
| "vote_error_to_u64 RootRollBack = 12"
| "vote_error_to_u64 ConfirmationRollBack = 13"
| "vote_error_to_u64 SlotSmallerThanRoot = 14"
| "vote_error_to_u64 TooManyVotes = 15"
| "vote_error_to_u64 VotesTooOldAllFiltered = 16"
| "vote_error_to_u64 RootOnDifferentFork = 17"
| "vote_error_to_u64 ActiveVoteAccountClose = 18"
| "vote_error_to_u64 CommissionUpdateTooLate = 19"

text \<open>\<open>VoteError::into\<close>: the conversion of an error enum to an \<open>InstructionError\<close>.\<close>

definition vote_error_into :: "VoteError \<Rightarrow> InstructionError" where
  "vote_error_into e = instruction_error_from (vote_error_to_u64 e)"

record Vote =
  vote_slots :: "Slot list"
  vote_hash :: Hash
  vote_timestamp :: "UnixTimestamp option"

definition vote_new :: "Slot list \<Rightarrow> Hash \<Rightarrow> Vote" where
  "vote_new slots hash = \<lparr>vote_slots = slots, vote_hash = hash, vote_timestamp = None\<rparr>"

definition vote_last_voted_slot :: "Vote \<Rightarrow> Slot option" where
  "vote_last_voted_slot v = next_back (vote_slots v)"

record Lockout =
  slot :: Slot
  confirmation_count :: u32

definition new_with_confirmation_count :: "Slot \<Rightarrow> u32 \<Rightarrow> Lockout" where
  "new_with_confirmation_count s c = \<lparr>slot = s, confirmation_count = c\<rparr>"

definition lockout_new :: "Slot \<Rightarrow> Lockout" where
  "lockout_new s = new_with_confirmation_count s 1"

text \<open>\<open>u64::pow\<close> wraps around.\<close>

definition lockout :: "Lockout \<Rightarrow> u64" where
  "lockout l = INITIAL_LOCKOUT ^ unat (confirmation_count l)"

definition last_locked_out_slot :: "Lockout \<Rightarrow> Slot" where
  "last_locked_out_slot l = saturating_add (slot l) (lockout l)"

definition is_locked_out_at_slot :: "Lockout \<Rightarrow> Slot \<Rightarrow> bool" where
  "is_locked_out_at_slot l s \<longleftrightarrow> s \<le> last_locked_out_slot l"

definition increase_confirmation_count :: "Lockout \<Rightarrow> u32 \<Rightarrow> Lockout" where
  "increase_confirmation_count l by_count =
     l\<lparr>confirmation_count := saturating_add (confirmation_count l) by_count\<rparr>"

record LandedVote =
  latency :: u8
  lv_lockout :: Lockout

definition lv_slot :: "LandedVote \<Rightarrow> Slot" where
  "lv_slot v = slot (lv_lockout v)"

definition lv_confirmation_count :: "LandedVote \<Rightarrow> u32" where
  "lv_confirmation_count v = confirmation_count (lv_lockout v)"

definition landed_vote_from :: "Lockout \<Rightarrow> LandedVote" where
  "landed_vote_from l = \<lparr>latency = 0, lv_lockout = l\<rparr>"

record VoteStateUpdate =
  vsu_lockouts :: "Lockout list"
  vsu_root :: "Slot option"
  vsu_hash :: Hash
  vsu_timestamp :: "UnixTimestamp option"

definition vsu_from :: "(Slot \<times> u32) list \<Rightarrow> VoteStateUpdate" where
  "vsu_from recent_slots =
     \<lparr>vsu_lockouts = map (\<lambda>(s, c). new_with_confirmation_count s c) recent_slots,
      vsu_root = None, vsu_hash = 0, vsu_timestamp = None\<rparr>"

definition vsu_new :: "Lockout list \<Rightarrow> Slot option \<Rightarrow> Hash \<Rightarrow> VoteStateUpdate" where
  "vsu_new lockouts root hash =
     \<lparr>vsu_lockouts = lockouts, vsu_root = root, vsu_hash = hash, vsu_timestamp = None\<rparr>"

definition vsu_slots :: "VoteStateUpdate \<Rightarrow> Slot list" where
  "vsu_slots u = map slot (vsu_lockouts u)"

definition vsu_last_voted_slot :: "VoteStateUpdate \<Rightarrow> Slot option" where
  "vsu_last_voted_slot u = map_option slot (next_back (vsu_lockouts u))"

record VoteInit =
  init_node_pubkey :: Pubkey
  init_authorized_voter :: Pubkey
  init_authorized_withdrawer :: Pubkey
  init_commission :: u8

datatype VoteAuthorize = Voter | Withdrawer

record VoteAuthorizeWithSeedArgs =
  ws_authorization_type :: VoteAuthorize
  ws_current_authority_derived_key_owner :: Pubkey
  ws_current_authority_derived_key_seed :: "u8 list"
  ws_new_authority :: Pubkey

record VoteAuthorizeCheckedWithSeedArgs =
  cws_authorization_type :: VoteAuthorize
  cws_current_authority_derived_key_owner :: Pubkey
  cws_current_authority_derived_key_seed :: "u8 list"

record BlockTimestamp =
  bt_slot :: Slot
  bt_timestamp :: UnixTimestamp

subsection \<open>The ring of prior voters\<close>

definition MAX_ITEMS :: nat where
  "MAX_ITEMS = 32"

record 'i CircBuf =
  buf :: "'i list"
  idx :: u64
  is_empty :: bool

definition circbuf_default :: "'i \<Rightarrow> 'i CircBuf" where
  "circbuf_default d = \<lparr>buf = replicate MAX_ITEMS d, idx = of_nat (MAX_ITEMS - 1), is_empty = True\<rparr>"

definition circbuf_append :: "'i \<Rightarrow> 'i CircBuf \<Rightarrow> ('i CircBuf, 'e) result" where
  "circbuf_append item c =
     and_then (expect (Option.bind (checked_add (idx c) 1) (\<lambda>i. checked_rem i (of_nat MAX_ITEMS))))
       (\<lambda>i. if unat i < length (buf c)
             then Ok (c\<lparr>idx := i, buf := (buf c)[unat i := item], is_empty := False\<rparr>)
             else Panic)"

definition circbuf_last :: "'i CircBuf \<Rightarrow> ('i option, 'e) result" where
  "circbuf_last c =
     (if \<not> is_empty c
      then if unat (idx c) < length (buf c) then Ok (Some (buf c ! unat (idx c))) else Panic
      else Ok None)"

subsection \<open>The vote state\<close>

type_synonym PriorVoter = "Pubkey \<times> Epoch \<times> Epoch"
type_synonym EpochCredits = "(Epoch \<times> u64 \<times> u64) list"

record VoteState =
  node_pubkey :: Pubkey
  authorized_withdrawer :: Pubkey
  commission :: u8
  votes :: "LandedVote list"
  root_slot :: "Slot option"
  authorized_voters :: AuthorizedVoters
  prior_voters :: "PriorVoter CircBuf"
  epoch_credits :: EpochCredits
  last_timestamp :: BlockTimestamp

definition vote_state_default :: VoteState where
  "vote_state_default =
     \<lparr>node_pubkey = 0, authorized_withdrawer = 0, commission = 0, votes = [], root_slot = None,
      authorized_voters = [], prior_voters = circbuf_default (0, 0, 0), epoch_credits = [],
      last_timestamp = \<lparr>bt_slot = 0, bt_timestamp = 0\<rparr>\<rparr>"

definition vote_state_new :: "VoteInit \<Rightarrow> Clock \<Rightarrow> VoteState" where
  "vote_state_new vote_init clock =
     vote_state_default
       \<lparr>node_pubkey := init_node_pubkey vote_init,
        authorized_voters := av_new (clock_epoch clock) (init_authorized_voter vote_init),
        authorized_withdrawer := init_authorized_withdrawer vote_init,
        commission := init_commission vote_init\<rparr>"

definition get_authorized_voter :: "VoteState \<Rightarrow> Epoch \<Rightarrow> Pubkey option" where
  "get_authorized_voter vs epoch = av_get_authorized_voter (authorized_voters vs) epoch"

definition vote_state_size_of :: nat where
  "vote_state_size_of = 3762"

section \<open>Operations\<close>

text \<open>
  \<open>commission_split\<close>: the voter's and the stakers' share of a reward, in 128-bit arithmetic.
\<close>

definition commission_split :: "VoteState \<Rightarrow> u64 \<Rightarrow> (u64 \<times> u64 \<times> bool, 'e) result" where
  "commission_split vs on =
     (let split = min (commission vs) 100 in
      if split = 0 then Ok (0, on, False)
      else if split = 100 then Ok (on, 0, False)
      else
        let on' = (ucast on :: u128) in
        and_then (expect (checked_mul on' (ucast split))) (\<lambda>m.
        and_then (expect (checked_sub 100 split)) (\<lambda>rest.
        and_then (expect (checked_mul on' (ucast rest))) (\<lambda>t.
          Ok (ucast (m div 100), ucast (t div 100), True)))))"

definition contains_slot :: "VoteState \<Rightarrow> Slot \<Rightarrow> bool" where
  "contains_slot vs candidate_slot =
     is_ok (binary_search_by (\<lambda>vote. cmp (lv_slot vote) candidate_slot) (votes vs))"

definition last_lockout :: "VoteState \<Rightarrow> Lockout option" where
  "last_lockout vs = map_option lv_lockout (next_back (votes vs))"

definition last_voted_slot :: "VoteState \<Rightarrow> Slot option" where
  "last_voted_slot vs = map_option slot (last_lockout vs)"

definition nth_recent_lockout :: "VoteState \<Rightarrow> nat \<Rightarrow> Lockout option" where
  "nth_recent_lockout vs pos =
     (if pos < length (votes vs)
      then Some (lv_lockout (votes vs ! (length (votes vs) - pos - 1))) else None)"

definition tower :: "VoteState \<Rightarrow> Slot list" where
  "tower vs = map lv_slot (votes vs)"

definition current_epoch :: "VoteState \<Rightarrow> Epoch" where
  "current_epoch vs = (if epoch_credits vs = [] then 0 else fst (last (epoch_credits vs)))"

definition credits :: "VoteState \<Rightarrow> u64" where
  "credits vs = (if epoch_credits vs = [] then 0 else fst (snd (last (epoch_credits vs))))"

text \<open>\<open>pop_expired_votes\<close>: the loop over the back of the deque.\<close>

function pop_expired_loop :: "Slot \<Rightarrow> LandedVote list \<Rightarrow> LandedVote list" where
  "pop_expired_loop next_vote_slot vs =
     (case next_back vs of
        None \<Rightarrow> vs
      | Some vote \<Rightarrow>
          if \<not> is_locked_out_at_slot (lv_lockout vote) next_vote_slot
          then pop_expired_loop next_vote_slot (butlast vs) else vs)"
  by pat_completeness auto
termination
  by (relation "measure (length o snd)") (auto simp: next_back_def split: if_splits)

declare pop_expired_loop.simps [simp del]

definition pop_expired_votes :: "Slot \<Rightarrow> VoteState \<Rightarrow> VoteState" where
  "pop_expired_votes next_vote_slot vs = vs\<lparr>votes := pop_expired_loop next_vote_slot (votes vs)\<rparr>"

definition double_lockouts :: "VoteState \<Rightarrow> VoteState" where
  "double_lockouts vs =
     (let stack_depth = length (votes vs) in
      vs\<lparr>votes := map (\<lambda>(i, v).
             if i + unat (lv_confirmation_count v) < stack_depth
             then v\<lparr>lv_lockout := increase_confirmation_count (lv_lockout v) 1\<rparr> else v)
           (enumerate 0 (votes vs))\<rparr>)"

definition compute_vote_latency :: "Slot \<Rightarrow> Slot \<Rightarrow> u8" where
  "compute_vote_latency voted_for_slot current_slot =
     ucast (min (saturating_sub current_slot voted_for_slot) 255)"

definition credits_for_vote_at_index :: "VoteState \<Rightarrow> nat \<Rightarrow> bool \<Rightarrow> bool \<Rightarrow> u64" where
  "credits_for_vote_at_index vs index timely_vote_credits deprecate_unused_legacy_vote_plumbing =
     (let lat = (if index < length (votes vs) then latency (votes vs ! index) else 0);
          max_credits = (if deprecate_unused_legacy_vote_plumbing then VOTE_CREDITS_MAXIMUM_PER_SLOT
                         else VOTE_CREDITS_MAXIMUM_PER_SLOT_OLD)
      in if lat = 0 \<or> deprecate_unused_legacy_vote_plumbing \<and> \<not> timely_vote_credits then 1
         else case checked_sub lat VOTE_CREDITS_GRACE_SLOTS of
             None \<Rightarrow> ucast max_credits
           | Some diff \<Rightarrow>
               if diff = 0 then ucast max_credits
               else case checked_sub max_credits diff of
                   None \<Rightarrow> 1
                 | Some c \<Rightarrow> if c = 0 then 1 else ucast c)"

definition increment_credits :: "Epoch \<Rightarrow> u64 \<Rightarrow> VoteState \<Rightarrow> VoteState" where
  "increment_credits epoch new_credits vs =
     (let ec = epoch_credits vs;
          ec = (if ec = [] then [(epoch, 0, 0)]
                else if epoch \<noteq> fst (last ec) then
                  let (_, c, prev_credits) = last ec;
                      ec = (if c \<noteq> prev_credits then ec @ [(epoch, c, c)]
                            else butlast ec @ [(epoch, c, prev_credits)])
                  in if MAX_EPOCH_CREDITS_HISTORY < length ec then tl ec else ec
                else ec);
          (e, c, prev_credits) = last ec
      in vs\<lparr>epoch_credits := butlast ec @ [(e, saturating_add c new_credits, prev_credits)]\<rparr>)"

definition process_next_vote_slot :: "Slot \<Rightarrow> Epoch \<Rightarrow> Slot \<Rightarrow> bool \<Rightarrow> bool \<Rightarrow> VoteState \<Rightarrow> VoteState" where
  "process_next_vote_slot next_vote_slot epoch current_slot timely_vote_credits
       deprecate_unused_legacy_vote_plumbing vs =
     (if (case last_voted_slot vs of None \<Rightarrow> False | Some last_slot \<Rightarrow> next_vote_slot \<le> last_slot)
      then vs
      else
        let vs = pop_expired_votes next_vote_slot vs;
            landed_vote =
              \<lparr>latency = (if timely_vote_credits \<or> \<not> deprecate_unused_legacy_vote_plumbing
                          then compute_vote_latency next_vote_slot current_slot else 0),
               lv_lockout = lockout_new next_vote_slot\<rparr>;
            vs = (if length (votes vs) = MAX_LOCKOUT_HISTORY then
                    let c = credits_for_vote_at_index vs 0 timely_vote_credits
                              deprecate_unused_legacy_vote_plumbing;
                        oldest = hd (votes vs)
                    in increment_credits epoch c
                         (vs\<lparr>votes := tl (votes vs), root_slot := Some (lv_slot oldest)\<rparr>)
                  else vs)
        in double_lockouts (vs\<lparr>votes := votes vs @ [landed_vote]\<rparr>))"

definition process_timestamp :: "Slot \<Rightarrow> UnixTimestamp \<Rightarrow> (VoteState, VoteError, unit) exec" where
  "process_timestamp s timestamp vs =
     (let bt = \<lparr>bt_slot = s, bt_timestamp = timestamp\<rparr> in
      if (s < bt_slot (last_timestamp vs) \<or> timestamp < bt_timestamp (last_timestamp vs)) \<or>
         s = bt_slot (last_timestamp vs) \<and> bt \<noteq> last_timestamp vs \<and> bt_slot (last_timestamp vs) \<noteq> 0
      then (Err TimestampTooOld, vs)
      else (Ok (), vs\<lparr>last_timestamp := bt\<rparr>))"

definition get_and_update_authorized_voter :: "Epoch \<Rightarrow> (VoteState, InstructionError, Pubkey) exec" where
  "get_and_update_authorized_voter cur_epoch vs =
     (case get_and_cache_authorized_voter_for_epoch (authorized_voters vs) cur_epoch of
        (None, av) \<Rightarrow> (Err InvalidAccountData, vs\<lparr>authorized_voters := av\<rparr>)
      | (Some pubkey, av) \<Rightarrow>
          (case purge_authorized_voters cur_epoch av of
             (r, av') \<Rightarrow> (and_then r (\<lambda>_. Ok pubkey), vs\<lparr>authorized_voters := av'\<rparr>)))"

definition set_new_authorized_voter ::
  "Pubkey \<Rightarrow> Epoch \<Rightarrow> Epoch \<Rightarrow> (Pubkey \<Rightarrow> (unit, InstructionError) result) \<Rightarrow>
   (VoteState, InstructionError, unit) exec" where
  "set_new_authorized_voter authorized_pubkey cur_epoch target_epoch verify =
     bind_exec (get_and_update_authorized_voter cur_epoch) (\<lambda>epoch_authorized_voter.
     bind_exec (lift (verify epoch_authorized_voter)) (\<lambda>_.
     bind_exec (gets authorized_voters) (\<lambda>av.
     bind_exec (require (\<not> av_contains av target_epoch) (vote_error_into TooSoonToReauthorize)) (\<lambda>_.
     bind_exec (lift (ok_or (av_last av) InvalidAccountData)) (\<lambda>(latest_epoch, latest_authorized_pubkey).
     bind_exec
       (if latest_authorized_pubkey \<noteq> authorized_pubkey then
          bind_exec (gets prior_voters) (\<lambda>pv.
          bind_exec (lift (circbuf_last pv)) (\<lambda>range.
          let epoch_of_last_authorized_switch = (case range of None \<Rightarrow> 0 | Some (_, _, e) \<Rightarrow> e) in
          if latest_epoch < target_epoch then
            bind_exec
              (lift (circbuf_append
                 (latest_authorized_pubkey, epoch_of_last_authorized_switch, target_epoch) pv)) (\<lambda>pv'.
            modify (\<lambda>vs. vs\<lparr>prior_voters := pv'\<rparr>))
          else panic))
        else ret ()) (\<lambda>_.
     modify (\<lambda>vs. vs\<lparr>authorized_voters := av_insert target_epoch authorized_pubkey (authorized_voters vs)\<rparr>)))))))"

end
