(* ===== verification/Vote_Authority.thy ===== *)
theory Vote_Authority
  imports Vote_State
begin

text \<open>
  Who may vote: reading, caching and changing the authorized voter of a vote state, the ring of
  prior voters, and the timestamp of a vote.
\<close>

section \<open>The ring of prior voters\<close>

definition circbuf_ok :: "'i CircBuf \<Rightarrow> bool" where
  "circbuf_ok c \<longleftrightarrow> length (buf c) = MAX_ITEMS \<and> unat (idx c) < MAX_ITEMS"

lemma circbuf_default_ok: "circbuf_ok (circbuf_default d)"
  by (simp add: circbuf_ok_def circbuf_default_def MAX_ITEMS_def)

lemma circbuf_append_ok:
  assumes "circbuf_ok c"
  shows "\<exists>c'. circbuf_append x c = Ok c' \<and> circbuf_ok c' \<and> circbuf_last c' = Ok (Some x) \<and>
    unat (idx c') = (unat (idx c) + 1) mod MAX_ITEMS \<and> buf c' = (buf c)[unat (idx c') := x]"
proof -
  have i: "unat (idx c) < 32" "length (buf c) = 32" using assms by (simp_all add: circbuf_ok_def MAX_ITEMS_def)
  then have p: "unat (idx c + 1) = unat (idx c) + 1" by (simp add: unat_word_ariths)
  have "checked_add (idx c) 1 = Some (idx c + 1)" using i by (simp add: checked_add_def)
  moreover have "unat ((idx c + 1) mod 32) = (unat (idx c) + 1) mod 32" by (simp add: unat_mod p)
  moreover have "(unat (idx c) + 1) mod 32 < 32" by simp
  ultimately show ?thesis
    using i by (simp add: circbuf_append_def checked_rem_def MAX_ITEMS_def circbuf_ok_def circbuf_last_def)
qed

section \<open>The authorized voter\<close>

lemma get_and_cache_result:
  "fst (get_and_cache_authorized_voter_for_epoch av epoch) = av_get_authorized_voter av epoch"
  by (simp add: get_and_cache_authorized_voter_for_epoch_def av_get_authorized_voter_def
      split: option.split prod.split)

lemma get_and_update_None:
  assumes "get_authorized_voter vs epoch = None"
  shows "get_and_update_authorized_voter epoch vs = (Err InvalidAccountData, vs)"
proof -
  have "get_and_cache_authorized_voter_for_epoch (authorized_voters vs) epoch = (None, authorized_voters vs)"
    using assms
    by (auto simp: get_and_cache_authorized_voter_for_epoch_def get_authorized_voter_def
        av_get_authorized_voter_def split: option.split)
  then show ?thesis by (simp add: get_and_update_authorized_voter_def)
qed

lemma get_and_update_Some:
  assumes inv: "av_inv (authorized_voters vs)" and p: "get_authorized_voter vs epoch = Some p"
  obtains av where "get_and_update_authorized_voter epoch vs = (Ok p, vs\<lparr>authorized_voters := av\<rparr>)"
    and "av_inv av"
    and "btree_get av = (\<lambda>k. if k < epoch then None else ((btree_get (authorized_voters vs))(epoch \<mapsto> p)) k)"
    and "\<And>e. epoch \<le> e \<Longrightarrow> av_get_authorized_voter av e = get_authorized_voter vs e"
proof -
  obtain av' where c: "get_and_cache_authorized_voter_for_epoch (authorized_voters vs) epoch = (Some p, av')"
    using get_and_cache_result [of "authorized_voters vs" epoch] p
    by (cases "get_and_cache_authorized_voter_for_epoch (authorized_voters vs) epoch")
      (simp add: get_authorized_voter_def)
  note c' = get_and_cache_Some [OF inv c]
  have "btree_get av' epoch \<noteq> None" using c'(3) by simp
  then obtain av where "purge_authorized_voters epoch av' = (Ok True :: (bool, InstructionError) result, av)"
    "av_inv av"
    "btree_get av = (\<lambda>k. if k < epoch then None else btree_get av' k)"
    "\<And>e. epoch \<le> e \<Longrightarrow> av_get_authorized_voter av e = av_get_authorized_voter av' e"
    using purge_authorized_voters_Ok [OF c'(1)] by blast
  then show thesis
    using that [of av] c c' by (simp add: get_and_update_authorized_voter_def get_authorized_voter_def
        cong: if_cong)
qed

lemma av_get_below_purged:
  assumes "av_inv av" and "btree_get av = (\<lambda>k. if k < epoch then None else f k)" and "e < epoch"
  shows "av_get_authorized_voter av e = None"
  using assms by (auto simp: av_get_None_iff dest: le_less_trans)

text \<open>
  C32: looking up the authorized voter of the current epoch never panics. It returns the voter of the
  latest entry up to that epoch and afterwards every epoch from the current one on has the voter it
  had before, while the entries of earlier epochs are gone; without such an entry it fails and
  changes nothing.
\<close>

theorem get_and_update_authorized_voter_spec:
  assumes inv: "av_inv (authorized_voters vs)"
  shows "case get_and_update_authorized_voter epoch vs of
      (Ok pubkey, vs') \<Rightarrow> get_authorized_voter vs epoch = Some pubkey \<and> av_inv (authorized_voters vs') \<and>
        vs' = vs\<lparr>authorized_voters := authorized_voters vs'\<rparr> \<and>
        (\<forall>e \<ge> epoch. get_authorized_voter vs' e = get_authorized_voter vs e) \<and>
        (\<forall>e < epoch. get_authorized_voter vs' e = None)
    | (Err err, vs') \<Rightarrow> err = InvalidAccountData \<and> vs' = vs \<and> get_authorized_voter vs epoch = None
    | (Panic, vs') \<Rightarrow> False"
proof (cases "get_authorized_voter vs epoch")
  case None
  then show ?thesis by (simp add: get_and_update_None)
next
  case (Some p)
  obtain av where av: "get_and_update_authorized_voter epoch vs = (Ok p, vs\<lparr>authorized_voters := av\<rparr>)"
    "av_inv av"
    "btree_get av = (\<lambda>k. if k < epoch then None else ((btree_get (authorized_voters vs))(epoch \<mapsto> p)) k)"
    "\<And>e. epoch \<le> e \<Longrightarrow> av_get_authorized_voter av e = get_authorized_voter vs e"
    by (rule get_and_update_Some [OF inv Some]) blast
  then show ?thesis
    using Some av_get_below_purged [OF av(2,3)] by (simp add: get_authorized_voter_def)
qed

text \<open>A vote state with two scheduled voters, for the witnesses.\<close>

definition sample_voters :: VoteState where
  "sample_voters = vote_state_default\<lparr>authorized_voters := [(3, 11), (7, 22)]\<rparr>"

lemma sample_voters_inv: "av_inv (authorized_voters sample_voters)"
  by (simp add: sample_voters_def btree_inv_def)

lemma sample_voters_eval:
  "get_authorized_voter sample_voters 5 = Some 11" "get_authorized_voter sample_voters 9 = Some 22"
  by (simp_all add: sample_voters_def get_authorized_voter_def av_get_authorized_voter_def
      get_or_calculate_authorized_voter_for_epoch_def btree_get_def btree_below_def next_back_def)

theorem get_and_update_authorized_voter_spec_witness:
  "\<exists>vs'. get_and_update_authorized_voter 5 sample_voters = (Ok 11, vs') \<and>
     get_authorized_voter vs' 9 = Some 22 \<and> get_authorized_voter vs' 4 = None"
  using get_and_update_authorized_voter_spec [OF sample_voters_inv, of 5]
  by (auto simp: sample_voters_eval split: prod.splits result.splits)

section \<open>Changing the authorized voter\<close>

lemma get_and_update_again:
  assumes inv: "av_inv (authorized_voters vs)" and p: "btree_get (authorized_voters vs) epoch = Some p"
    and low: "\<And>k. k < epoch \<Longrightarrow> btree_get (authorized_voters vs) k = None"
  shows "get_and_update_authorized_voter epoch vs = (Ok p, vs)"
proof -
  have "set (btree_below epoch (authorized_voters vs)) = {}"
    using low by (auto simp: set_btree_below [OF inv])
  then have "btree_below epoch (authorized_voters vs) = []" by simp
  moreover have "authorized_voters vs \<noteq> []" using p by (auto simp: btree_get_def)
  ultimately show ?thesis
    using p by (simp add: get_and_update_authorized_voter_def get_and_cache_authorized_voter_for_epoch_def
        get_or_calculate_authorized_voter_for_epoch_def purge_authorized_voters_def)
qed

text \<open>What a successful run of \<open>set_new_authorized_voter\<close> did.\<close>

lemma set_new_authorized_voter_Ok:
  assumes inv: "av_inv (authorized_voters vs)"
    and ok: "set_new_authorized_voter new_voter cur_epoch target_epoch verify vs = (Ok (), vs')"
  obtains voter av where "get_authorized_voter vs cur_epoch = Some voter" and "verify voter = Ok ()"
    and "get_and_update_authorized_voter cur_epoch vs = (Ok voter, vs\<lparr>authorized_voters := av\<rparr>)"
    and "btree_get av target_epoch = None"
    and "authorized_voters vs' = btree_insert target_epoch new_voter av"
proof -
  obtain voter vs1 where g: "get_and_update_authorized_voter cur_epoch vs = (Ok voter, vs1)"
    and "verify voter = Ok ()" "btree_get (authorized_voters vs1) target_epoch = None"
    and "authorized_voters vs' = btree_insert target_epoch new_voter (authorized_voters vs1)"
    using ok unfolding set_new_authorized_voter_def
    by (auto simp: exec_ok av_contains_def av_insert_def Let_def split: if_splits prod.splits)
  moreover have "get_authorized_voter vs cur_epoch = Some voter"
    and "vs1 = vs\<lparr>authorized_voters := authorized_voters vs1\<rparr>"
    using g get_and_update_None [of vs cur_epoch] get_and_update_Some [OF inv, of cur_epoch]
    by (cases "get_authorized_voter vs cur_epoch"; force)+
  ultimately show thesis using that [of voter "authorized_voters vs1"] by metis
qed

lemma av_get_insert_above:
  "av_inv av \<Longrightarrow> e < target \<Longrightarrow> av_get_authorized_voter (btree_insert target v av) e = av_get_authorized_voter av e"
  by (rule option_eq_by_Some)
    (auto simp: av_get_Some_iff btree.inv_ins btree.get_ins)

text \<open>
  C16: a successful change of the authorized voter was approved for the voter of the current epoch
  and takes effect at the target epoch only: epochs from the target on have the new voter, those
  before it (from the current one on) the voter they had. A second change for the same target
  epoch fails.
\<close>

theorem set_new_authorized_voter_spec:
  assumes inv: "av_inv (authorized_voters vs)" and cur: "cur_epoch \<le> target_epoch"
    and later: "\<And>e. target_epoch < e \<Longrightarrow> btree_get (authorized_voters vs) e = None"
    and ok: "set_new_authorized_voter new_voter cur_epoch target_epoch verify vs = (Ok (), vs')"
  shows "(\<exists>voter. get_authorized_voter vs cur_epoch = Some voter \<and> verify voter = Ok ()) \<and>
    av_inv (authorized_voters vs') \<and>
    (\<forall>e \<ge> target_epoch. get_authorized_voter vs' e = Some new_voter) \<and>
    (\<forall>e. cur_epoch \<le> e \<and> e < target_epoch \<longrightarrow> get_authorized_voter vs' e = get_authorized_voter vs e) \<and>
    set_new_authorized_voter other cur_epoch target_epoch (\<lambda>_. Ok ()) vs' =
      (Err (vote_error_into TooSoonToReauthorize), vs')"
proof -
  obtain voter av where v: "get_authorized_voter vs cur_epoch = Some voter" "verify voter = Ok ()"
    and g: "get_and_update_authorized_voter cur_epoch vs = (Ok voter, vs\<lparr>authorized_voters := av\<rparr>)"
    and t: "btree_get av target_epoch = None"
    and av': "authorized_voters vs' = btree_insert target_epoch new_voter av"
    by (rule set_new_authorized_voter_Ok [OF inv ok])
  obtain av1 where g1: "get_and_update_authorized_voter cur_epoch vs = (Ok voter, vs\<lparr>authorized_voters := av1\<rparr>)"
    and inv1: "av_inv av1"
    and get1: "btree_get av1 = (\<lambda>k. if k < cur_epoch then None else ((btree_get (authorized_voters vs))(cur_epoch \<mapsto> voter)) k)"
    and same1: "\<And>e. cur_epoch \<le> e \<Longrightarrow> av_get_authorized_voter av1 e = get_authorized_voter vs e"
    by (rule get_and_update_Some [OF inv v(1)]) blast
  have "vs\<lparr>authorized_voters := av1\<rparr> = vs\<lparr>authorized_voters := av\<rparr>" using g g1 by simp
  then have "av1 = av" by (metis VoteState.select_convs(6) VoteState.update_convs(6) VoteState.surjective)
  note inv_av = inv1 [unfolded this] and get_av = get1 [unfolded this] and same = same1 [unfolded this]
  have inv': "av_inv (authorized_voters vs')" unfolding av' using inv_av by (rule btree.inv_ins)
  have get': "btree_get (authorized_voters vs') = (btree_get av)(target_epoch \<mapsto> new_voter)"
    unfolding av' using inv_av by (rule btree.get_ins)
  have lt: "cur_epoch < target_epoch" using t cur by (auto simp: get_av le_less)
  have "get_authorized_voter vs' e = Some new_voter" if "target_epoch \<le> e" for e
    unfolding get_authorized_voter_def av_get_Some_iff [OF inv'] get'
    using that lt later by (intro exI [of _ target_epoch]) (auto simp: get_av)
  moreover have "get_authorized_voter vs' e = get_authorized_voter vs e" if "cur_epoch \<le> e" "e < target_epoch" for e
    using av_get_insert_above [OF inv_av that(2)] same [OF that(1)] by (simp add: get_authorized_voter_def av')
  moreover have "get_and_update_authorized_voter cur_epoch vs' = (Ok voter, vs')"
    using lt by (intro get_and_update_again [OF inv']) (auto simp: get' get_av dest: less_trans)
  then have "set_new_authorized_voter other cur_epoch target_epoch (\<lambda>_. Ok ()) vs' =
      (Err (vote_error_into TooSoonToReauthorize), vs')"
    by (simp add: set_new_authorized_voter_def exec_simps av_contains_def get')
  ultimately show ?thesis using v inv' by blast
qed

theorem set_new_authorized_voter_spec_witness:
  "\<exists>vs'. set_new_authorized_voter 33 5 8 (\<lambda>p. if p = 11 then Ok () else Err MissingRequiredSignature) sample_voters
      = (Ok (), vs') \<and> get_authorized_voter vs' 8 = Some 33"
proof -
  let ?verify = "\<lambda>p. if p = 11 then Ok () else Err MissingRequiredSignature"
  have "fst (set_new_authorized_voter 33 5 8 ?verify sample_voters) = Ok ()"
    by (simp add: set_new_authorized_voter_def get_and_update_authorized_voter_def
        get_and_cache_authorized_voter_for_epoch_def get_or_calculate_authorized_voter_for_epoch_def
        purge_authorized_voters_def btree_remove_def btree_below_def btree_get_def next_back_def
        sample_voters_def exec_simps av_contains_def av_last_def vote_state_default_def circbuf_last_def
        circbuf_default_def circbuf_append_def checked_add_def checked_rem_def MAX_ITEMS_def)
  then obtain vs' where ok: "set_new_authorized_voter 33 5 8 ?verify sample_voters = (Ok (), vs')"
    by (cases "set_new_authorized_voter 33 5 8 ?verify sample_voters") simp
  moreover have "btree_get (authorized_voters sample_voters) e = None" if "8 < e" for e
    using that by (auto simp: sample_voters_def btree_get_def)
  ultimately show ?thesis
    using set_new_authorized_voter_spec [OF sample_voters_inv _ _ ok] by auto
qed

section \<open>Timestamps\<close>

text \<open>
  A timestamp is accepted only if neither its slot nor its time is before the last one, and a
  different time for the slot of the last timestamp is refused (except at slot 0). Accepting it
  records it; refusing it changes nothing.
\<close>

lemma process_timestamp_spec:
  "process_timestamp s timestamp vs =
    (let last = last_timestamp vs in
     if bt_slot last \<le> s \<and> bt_timestamp last \<le> timestamp \<and>
        (s = bt_slot last \<and> s \<noteq> 0 \<longrightarrow> timestamp = bt_timestamp last)
     then (Ok (), vs\<lparr>last_timestamp := \<lparr>bt_slot = s, bt_timestamp = timestamp\<rparr>\<rparr>)
     else (Err TimestampTooOld, vs))"
  by (cases "last_timestamp vs") (auto simp: process_timestamp_def Let_def not_less)

end
