(* ===== verification/Vote_Tower.thy ===== *)
theory Vote_Tower
  imports Vote_State
begin

text \<open>
  The tower of lockouts: its invariant, that the operations of \<open>VoteState\<close> keep it, and what
  processing a vote does to it.
\<close>

section \<open>Lockouts as numbers\<close>

abbreviation conf :: "LandedVote \<Rightarrow> nat" where
  "conf v \<equiv> unat (lv_confirmation_count v)"

lemma unat_last_locked_out_slot:
  "unat (confirmation_count l) < 64 \<Longrightarrow>
   unat (last_locked_out_slot l) = min (unat (slot l) + 2 ^ unat (confirmation_count l)) (2 ^ 64 - 1)"
  by (simp add: last_locked_out_slot_def lockout_def INITIAL_LOCKOUT_def unat_saturating_add
      unat_power_2_u64)

lemma last_locked_out_mono:
  assumes "slot l = slot l'" and "unat (confirmation_count l) \<le> unat (confirmation_count l')"
    and "unat (confirmation_count l') < 64"
  shows "last_locked_out_slot l \<le> last_locked_out_slot l'"
proof -
  have "(2::nat) ^ unat (confirmation_count l) \<le> 2 ^ unat (confirmation_count l')"
    using assms(2) by (intro power_increasing) simp_all
  then show ?thesis
    using assms by (simp add: word_le_nat_alt unat_last_locked_out_slot min_le_iff_disj)
qed

section \<open>The invariant\<close>

text \<open>
  At most 31 votes, slots strictly ascending, confirmations strictly descending and between 1 and
  31, and every vote cast while its predecessor was still locked out.
\<close>

definition tower_ok :: "LandedVote list \<Rightarrow> bool" where
  "tower_ok vs \<longleftrightarrow> length vs \<le> MAX_LOCKOUT_HISTORY \<and>
     (\<forall>v \<in> set vs. 1 \<le> conf v \<and> conf v \<le> MAX_LOCKOUT_HISTORY) \<and>
     sorted_wrt (\<lambda>v w. lv_slot v < lv_slot w \<and> conf w < conf v) vs \<and>
     successively (\<lambda>v w. is_locked_out_at_slot (lv_lockout v) (lv_slot w)) vs"

text \<open>
  The root precedes the tower, where the root 0 of a tower that has none yet does not exclude a vote
  for slot 0; a tower without votes has no root.
\<close>

definition root_ok :: "Slot option \<Rightarrow> LandedVote list \<Rightarrow> bool" where
  "root_ok root vs \<longleftrightarrow> (case root of None \<Rightarrow> True | Some r \<Rightarrow> vs \<noteq> [] \<and> (\<forall>v \<in> set vs. r < lv_slot v \<or> r = 0))"

definition tower_inv :: "VoteState \<Rightarrow> bool" where
  "tower_inv vs \<longleftrightarrow> tower_ok (votes vs) \<and> root_ok (root_slot vs) (votes vs)"

lemma tower_ok_append: "tower_ok (xs @ ys) \<Longrightarrow> tower_ok xs \<and> tower_ok ys"
  by (auto simp: tower_ok_def sorted_wrt_append successively_append_iff)

lemma tower_ok_tl: "tower_ok vs \<Longrightarrow> tower_ok (tl vs)"
  by (cases vs) (auto dest: tower_ok_append [of "[_]", simplified])

text \<open>A vote has at least as many confirmations as there are votes from it to the top.\<close>

lemma tower_ok_conf_ge: "tower_ok vs \<Longrightarrow> i < length vs \<Longrightarrow> length vs - i \<le> conf (vs ! i)"
proof (induction vs arbitrary: i)
  case (Cons v vs)
  then have ok: "tower_ok vs" using tower_ok_tl [of "v # vs"] by simp
  show ?case
  proof (cases i)
    case 0
    have "length vs < conf v"
    proof (cases vs)
      case Nil
      then show ?thesis using Cons.prems by (simp add: tower_ok_def)
    next
      case (Cons w ws)
      then have "length vs \<le> conf w" using Cons.IH [OF ok, of 0] by simp
      moreover have "conf w < conf v" using Cons \<open>tower_ok (v # vs)\<close> by (simp add: tower_ok_def)
      ultimately show ?thesis by simp
    qed
    then show ?thesis using 0 by simp
  next
    case (Suc j)
    then show ?thesis using Cons.IH [OF ok, of j] Cons.prems by simp
  qed
qed simp

section \<open>The steps of process_next_vote_slot\<close>

lemma pop_expired_loop_prefix:
  "\<exists>dropped. vs = pop_expired_loop s vs @ dropped \<and>
     (\<forall>v \<in> set dropped. \<not> is_locked_out_at_slot (lv_lockout v) s) \<and>
     (pop_expired_loop s vs \<noteq> [] \<longrightarrow> is_locked_out_at_slot (lv_lockout (last (pop_expired_loop s vs))) s)"
proof (induction vs rule: rev_induct)
  case Nil
  show ?case by (subst (1 2 3) pop_expired_loop.simps) (simp add: next_back_def)
next
  case (snoc v vs)
  show ?case
  proof (cases "is_locked_out_at_slot (lv_lockout v) s")
    case True
    then have "pop_expired_loop s (vs @ [v]) = vs @ [v]"
      by (subst pop_expired_loop.simps) (simp add: next_back_def)
    then show ?thesis using True by simp
  next
    case False
    then have eq: "pop_expired_loop s (vs @ [v]) = pop_expired_loop s vs"
      by (subst pop_expired_loop.simps) (simp add: next_back_def)
    obtain dropped where d: "vs = pop_expired_loop s vs @ dropped"
      "\<forall>v \<in> set dropped. \<not> is_locked_out_at_slot (lv_lockout v) s"
      "pop_expired_loop s vs \<noteq> [] \<longrightarrow> is_locked_out_at_slot (lv_lockout (last (pop_expired_loop s vs))) s"
      using snoc by auto
    then have "vs @ [v] = pop_expired_loop s (vs @ [v]) @ (dropped @ [v])" by (simp add: eq)
    then show ?thesis using d False by (intro exI [of _ "dropped @ [v]"]) (simp add: eq)
  qed
qed

lemma pop_expired_loop_append: "\<exists>dropped. vs = pop_expired_loop s vs @ dropped"
  using pop_expired_loop_prefix [of vs s] by blast

lemma pop_expired_full_iff:
  assumes "length vs \<le> 31"
  shows "length (pop_expired_loop s vs) = 31 \<longleftrightarrow>
    length vs = 31 \<and> is_locked_out_at_slot (lv_lockout (last vs)) s"
proof
  assume full: "length (pop_expired_loop s vs) = 31"
  obtain dropped where d: "vs = pop_expired_loop s vs @ dropped"
    and l: "pop_expired_loop s vs \<noteq> [] \<longrightarrow> is_locked_out_at_slot (lv_lockout (last (pop_expired_loop s vs))) s"
    using pop_expired_loop_prefix [of vs s] by blast
  have "length vs = 31 + length dropped" using arg_cong [OF d, of length] full by simp
  then have "dropped = []" and len: "length vs = 31" using assms by simp_all
  then have "pop_expired_loop s vs = vs" using d by simp
  then show "length vs = 31 \<and> is_locked_out_at_slot (lv_lockout (last vs)) s"
    using l len by auto
next
  assume "length vs = 31 \<and> is_locked_out_at_slot (lv_lockout (last vs)) s"
  then show "length (pop_expired_loop s vs) = 31"
    by (subst pop_expired_loop.simps) (auto simp: next_back_def)
qed

text \<open>\<open>double_lockouts\<close> on one vote at index \<open>i\<close> of a stack of depth \<open>n\<close>.\<close>

definition double_vote :: "nat \<Rightarrow> nat \<Rightarrow> LandedVote \<Rightarrow> LandedVote" where
  "double_vote n i v = (if i + conf v < n
     then v\<lparr>lv_lockout := increase_confirmation_count (lv_lockout v) 1\<rparr> else v)"

lemma double_lockouts_nth:
  "votes (double_lockouts vs) = map (\<lambda>i. double_vote (length (votes vs)) i (votes vs ! i)) [0..<length (votes vs)]"
  by (rule nth_equalityI) (simp_all add: double_lockouts_def double_vote_def nth_enumerate_eq Let_def)

lemma double_vote_slot [simp]: "lv_slot (double_vote n i v) = lv_slot v"
  by (simp add: double_vote_def lv_slot_def increase_confirmation_count_def)

lemma double_vote_latency [simp]: "latency (double_vote n i v) = latency v"
  by (simp add: double_vote_def)

lemma conf_double_vote:
  assumes "conf v \<le> 31"
  shows "conf (double_vote n i v) = (if i + conf v < n then conf v + 1 else conf v)"
  using assms by (simp add: double_vote_def lv_confirmation_count_def increase_confirmation_count_def
      unat_saturating_add)

lemma tower_ok_nth:
  "tower_ok vs \<longleftrightarrow> length vs \<le> 31 \<and>
     (\<forall>i < length vs. 1 \<le> conf (vs ! i) \<and> conf (vs ! i) \<le> 31) \<and>
     (\<forall>i j. i < j \<and> j < length vs \<longrightarrow> lv_slot (vs ! i) < lv_slot (vs ! j) \<and> conf (vs ! j) < conf (vs ! i)) \<and>
     (\<forall>i. Suc i < length vs \<longrightarrow> is_locked_out_at_slot (lv_lockout (vs ! i)) (lv_slot (vs ! Suc i)))"
  unfolding tower_ok_def MAX_LOCKOUT_HISTORY_def all_set_conv_all_nth sorted_wrt_iff_nth_less
    successively_conv_nth by blast

lemma is_locked_out_double_vote:
  assumes "conf v \<le> 31" and "is_locked_out_at_slot (lv_lockout v) s"
  shows "is_locked_out_at_slot (lv_lockout (double_vote n i v)) s"
proof -
  have "last_locked_out_slot (lv_lockout v) \<le> last_locked_out_slot (lv_lockout (double_vote n i v))"
    using assms(1) double_vote_slot [of n i v] conf_double_vote [of v n i]
    by (intro last_locked_out_mono) (auto simp: lv_slot_def lv_confirmation_count_def)
  then show ?thesis using assms(2) by (auto simp: is_locked_out_at_slot_def)
qed

text \<open>Pushing a vote and doubling the lockouts, on a tower with room for it.\<close>

definition push_vote :: "LandedVote list \<Rightarrow> LandedVote \<Rightarrow> LandedVote list" where
  "push_vote vs w = map (\<lambda>i. double_vote (Suc (length vs)) i ((vs @ [w]) ! i)) [0..<Suc (length vs)]"

lemma push_vote_nth:
  "i \<le> length vs \<Longrightarrow> push_vote vs w ! i = double_vote (Suc (length vs)) i ((vs @ [w]) ! i)"
  by (simp add: push_vote_def del: upt_Suc)

lemma length_push_vote [simp]: "length (push_vote vs w) = Suc (length vs)"
  by (simp add: push_vote_def)

lemma double_lockouts_push: "votes (double_lockouts (vs\<lparr>votes := ws @ [w]\<rparr>)) = push_vote ws w"
  by (simp add: double_lockouts_nth push_vote_def del: upt_Suc)

lemma conf_push_vote:
  assumes ok: "tower_ok vs" and w: "conf w = 1" and i: "i \<le> length vs"
  shows "conf (push_vote vs w ! i) = max (conf ((vs @ [w]) ! i)) (Suc (length vs) - i)"
proof (cases "i < length vs")
  case True
  then have "length vs - i \<le> conf (vs ! i)" and "conf (vs ! i) \<le> 31"
    using tower_ok_conf_ge [OF ok True] ok by (simp_all add: tower_ok_nth)
  then show ?thesis
    using True by (auto simp: push_vote_nth conf_double_vote nth_append)
next
  case False
  then show ?thesis using i w by (simp add: push_vote_nth conf_double_vote nth_append)
qed

lemma max_strict_mono: "a < c \<Longrightarrow> b < d \<Longrightarrow> max a b < max c (d :: nat)"
  by (simp add: max_def)

lemma push_vote_ordered:
  assumes ok: "tower_ok vs" and w: "conf w = 1"
    and last: "vs \<noteq> [] \<Longrightarrow> lv_slot (last vs) < lv_slot w"
    and ij: "i < j" "j \<le> length vs"
  shows "lv_slot (push_vote vs w ! i) < lv_slot (push_vote vs w ! j)"
    and "conf (push_vote vs w ! j) < conf (push_vote vs w ! i)"
proof -
  note ok' = ok [unfolded tower_ok_nth]
  have "lv_slot ((vs @ [w]) ! i) < lv_slot ((vs @ [w]) ! j) \<and>
    conf (push_vote vs w ! j) < conf (push_vote vs w ! i)"
  proof (cases "j < length vs")
    case True
    then show ?thesis
      using ok' ij max_strict_mono [of "conf (vs ! j)" "conf (vs ! i)"]
        diff_less_mono2 [of i j "Suc (length vs)"]
      by (simp only: conf_push_vote [OF ok w] nth_append) simp
  next
    case False
    then have j: "j = length vs" using ij by simp
    have l: "last vs = vs ! (length vs - 1)"
      using ij j by (intro last_conv_nth) auto
    have "i = length vs - 1 \<or> i < length vs - 1 \<and> length vs - 1 < length vs"
      using ij j by linarith
    then have "lv_slot (vs ! i) \<le> lv_slot (last vs)"
      using ok' by (auto simp: l order_less_imp_le)
    moreover have "lv_slot (last vs) < lv_slot w" using last ij j by fastforce
    ultimately have "lv_slot (vs ! i) < lv_slot w" by (rule le_less_trans)
    then show ?thesis
      using ij j w by (auto simp: conf_push_vote [OF ok w] nth_append less_max_iff_disj)
  qed
  then show "lv_slot (push_vote vs w ! i) < lv_slot (push_vote vs w ! j)"
    "conf (push_vote vs w ! j) < conf (push_vote vs w ! i)"
    using ij by (simp_all add: push_vote_nth)
qed

lemma push_vote_adjacent:
  assumes ok: "tower_ok vs" and w: "conf w = 1"
    and last: "vs \<noteq> [] \<Longrightarrow> is_locked_out_at_slot (lv_lockout (last vs)) (lv_slot w)"
    and i: "i < length vs"
  shows "is_locked_out_at_slot (lv_lockout (push_vote vs w ! i)) (lv_slot (push_vote vs w ! Suc i))"
proof -
  have "is_locked_out_at_slot (lv_lockout (vs ! i)) (lv_slot ((vs @ [w]) ! Suc i))"
  proof (cases "Suc i < length vs")
    case False
    then have l: "Suc i = length vs" using i by linarith
    moreover from l have "vs \<noteq> []" by auto
    moreover from this have "last vs = vs ! i" using last_conv_nth [of vs] l by (metis diff_Suc_1)
    ultimately show ?thesis using last i by (simp add: nth_append)
  qed (use ok in \<open>simp add: tower_ok_nth nth_append\<close>)
  moreover have "conf (vs ! i) \<le> 31" using ok i by (simp add: tower_ok_nth)
  ultimately show ?thesis
    using i by (simp add: push_vote_nth nth_append is_locked_out_double_vote)
qed

lemma tower_ok_push:
  assumes ok: "tower_ok vs" and room: "length vs < 31" and w: "conf w = 1"
    and last: "vs \<noteq> [] \<Longrightarrow> lv_slot (last vs) < lv_slot w"
      "vs \<noteq> [] \<Longrightarrow> is_locked_out_at_slot (lv_lockout (last vs)) (lv_slot w)"
  shows "tower_ok (push_vote vs w)"
proof -
  have "1 \<le> conf ((vs @ [w]) ! i) \<and> conf ((vs @ [w]) ! i) \<le> 31" if "i \<le> length vs" for i
    using that ok w by (auto simp: tower_ok_nth nth_append)
  then have "1 \<le> conf (push_vote vs w ! i) \<and> conf (push_vote vs w ! i) \<le> 31" if "i \<le> length vs" for i
    using that room by (fastforce simp: conf_push_vote [OF ok w] le_max_iff_disj)
  then show ?thesis
    using room push_vote_ordered [OF ok w last(1)] push_vote_adjacent [OF ok w last(2)]
    unfolding tower_ok_nth length_push_vote by (auto simp: less_Suc_eq_le)
qed

section \<open>Processing a vote\<close>

lemma increment_credits_frame [simp]:
  "votes (increment_credits e c vs) = votes vs"
  "root_slot (increment_credits e c vs) = root_slot vs"
  "authorized_voters (increment_credits e c vs) = authorized_voters vs"
  by (simp_all add: increment_credits_def Let_def split: prod.splits)

definition accepts_vote :: "VoteState \<Rightarrow> Slot \<Rightarrow> bool" where
  "accepts_vote vs s \<longleftrightarrow> votes vs = [] \<or> lv_slot (last (votes vs)) < s"

lemma accepts_vote_iff:
  "(case last_voted_slot vs of None \<Rightarrow> False | Some l \<Rightarrow> s \<le> l) \<longleftrightarrow> \<not> accepts_vote vs s"
  by (auto simp: accepts_vote_def last_voted_slot_def last_lockout_def next_back_def lv_slot_def)

definition kept_votes :: "Slot \<Rightarrow> LandedVote list \<Rightarrow> LandedVote list" where
  "kept_votes s vs = (let p = pop_expired_loop s vs in if length p = 31 then tl p else p)"

lemma process_next_vote_slot_votes:
  assumes "accepts_vote vs s"
  obtains w where "lv_slot w = s" and "conf w = 1"
    and "votes (process_next_vote_slot s e cur t d vs) = push_vote (kept_votes s (votes vs)) w"
    and "root_slot (process_next_vote_slot s e cur t d vs) =
      (if length (pop_expired_loop s (votes vs)) = 31 then Some (lv_slot (hd (pop_expired_loop s (votes vs))))
       else root_slot vs)"
proof -
  define w where "w = \<lparr>latency = (if t \<or> \<not> d then compute_vote_latency s cur else 0), lv_lockout = lockout_new s\<rparr>"
  have "lv_slot w = s" "conf w = 1"
    by (simp_all add: w_def lv_slot_def lv_confirmation_count_def lockout_new_def
        new_with_confirmation_count_def)
  moreover have "votes (process_next_vote_slot s e cur t d vs) = push_vote (kept_votes s (votes vs)) w"
    unfolding process_next_vote_slot_def accepts_vote_iff Let_def w_def [symmetric]
    using assms
    by (simp add: pop_expired_votes_def kept_votes_def MAX_LOCKOUT_HISTORY_def Let_def
        double_lockouts_push)
  moreover have "root_slot (process_next_vote_slot s e cur t d vs) =
      (if length (pop_expired_loop s (votes vs)) = 31 then Some (lv_slot (hd (pop_expired_loop s (votes vs))))
       else root_slot vs)"
    unfolding process_next_vote_slot_def accepts_vote_iff Let_def
    using assms
    by (simp add: pop_expired_votes_def MAX_LOCKOUT_HISTORY_def double_lockouts_def Let_def)
  ultimately show thesis using that by blast
qed

lemma process_next_vote_slot_ignored:
  "\<not> accepts_vote vs s \<Longrightarrow> process_next_vote_slot s e cur t d vs = vs"
  unfolding process_next_vote_slot_def accepts_vote_iff by simp

lemma kept_votes_ok:
  assumes ok: "tower_ok vs"
  shows "tower_ok (kept_votes s vs)" and "length (kept_votes s vs) < 31"
    and "kept_votes s vs \<noteq> [] \<Longrightarrow> is_locked_out_at_slot (lv_lockout (last (kept_votes s vs))) s"
    and "set (kept_votes s vs) \<subseteq> set vs"
proof -
  let ?p = "pop_expired_loop s vs"
  obtain dropped where d: "vs = ?p @ dropped"
    and l: "?p \<noteq> [] \<Longrightarrow> is_locked_out_at_slot (lv_lockout (last ?p)) s"
    using pop_expired_loop_prefix [of vs s] by blast
  have "tower_ok (?p @ dropped)" using ok by (simp only: d [symmetric])
  then have p: "tower_ok ?p" by (rule tower_ok_append [THEN conjunct1])
  then have "length ?p \<le> 31" by (simp add: tower_ok_nth)
  then show "length (kept_votes s vs) < 31" by (simp add: kept_votes_def Let_def)
  show "tower_ok (kept_votes s vs)" using p by (simp add: kept_votes_def Let_def tower_ok_tl)
  show "is_locked_out_at_slot (lv_lockout (last (kept_votes s vs))) s" if "kept_votes s vs \<noteq> []"
    using that l by (cases ?p) (auto simp: kept_votes_def Let_def split: if_splits)
  have "set (?p @ dropped) = set vs" by (simp only: d [symmetric])
  then have "set ?p \<subseteq> set vs" by auto
  then show "set (kept_votes s vs) \<subseteq> set vs"
    by (cases ?p) (auto simp: kept_votes_def Let_def)
qed

lemma tower_ok_slots_le_last: "tower_ok vs \<Longrightarrow> v \<in> set vs \<Longrightarrow> lv_slot v \<le> lv_slot (last vs)"
  by (induction vs rule: rev_induct) (auto simp: tower_ok_def sorted_wrt_append)

lemma set_push_vote_slots: "lv_slot ` set (push_vote vs w) = lv_slot ` set (vs @ [w])"
proof -
  have "map lv_slot (push_vote vs w) = map lv_slot (vs @ [w])"
    by (rule nth_equalityI) (simp_all add: push_vote_nth less_Suc_eq_le nth_append)
  then show ?thesis by (metis list.set_map)
qed

lemma accepts_vote_above:
  "tower_ok (votes vs) \<Longrightarrow> accepts_vote vs s \<Longrightarrow> v \<in> set (votes vs) \<Longrightarrow> lv_slot v < s"
  using tower_ok_slots_le_last [of "votes vs" v] by (auto simp: accepts_vote_def dest: le_less_trans)

lemma root_ok_push:
  assumes inv: "tower_inv vs" and acc: "accepts_vote vs s" and w: "lv_slot w = s"
  defines "p \<equiv> pop_expired_loop s (votes vs)" and "k \<equiv> kept_votes s (votes vs)"
  shows "root_ok (if length p = 31 then Some (lv_slot (hd p)) else root_slot vs) (push_vote k w)"
proof -
  have ok: "tower_ok (votes vs)" using inv by (simp add: tower_inv_def)
  obtain dropped where d: "votes vs = p @ dropped"
    using pop_expired_loop_append [of "votes vs" s] p_def by metis
  have "r < x \<or> r = 0" if r: "(if length p = 31 then Some (lv_slot (hd p)) else root_slot vs) = Some r"
    and x: "x \<in> lv_slot ` set (k @ [w])" for r x
  proof (cases "length p = 31")
    case True
    then obtain h hs where h: "p = h # hs" by (cases p) auto
    then have "k = hs" using True by (simp add: kept_votes_def k_def p_def)
    moreover have "h \<in> set (votes vs)" "sorted_wrt (\<lambda>v w. lv_slot v < lv_slot w \<and> conf w < conf v) (h # hs)"
      using ok d h by (auto simp: tower_ok_def sorted_wrt_append)
    ultimately show ?thesis using r x h True w accepts_vote_above [OF ok acc, of h] by auto
  next
    case False
    then have "votes vs \<noteq> []" "\<forall>v \<in> set (votes vs). r < lv_slot v \<or> r = 0"
      using inv r by (auto simp: tower_inv_def root_ok_def)
    moreover from this have "r < s \<or> r = 0"
      using accepts_vote_above [OF ok acc] last_in_set by (metis less_trans)
    ultimately show ?thesis using x w kept_votes_ok(4) [OF ok, of s] by (auto simp: k_def)
  qed
  moreover have "lv_slot v \<in> lv_slot ` set (k @ [w])" if "v \<in> set (push_vote k w)" for v
    using that set_push_vote_slots [of k w] by blast
  moreover have "push_vote k w \<noteq> []" by (simp flip: length_0_conv)
  ultimately show ?thesis by (simp add: root_ok_def split: option.split)
qed

text \<open>Processing a vote keeps the tower well formed.\<close>

lemma process_next_vote_slot_inv:
  assumes inv: "tower_inv vs"
  shows "tower_inv (process_next_vote_slot s epoch current_slot timely deprecate vs)"
    (is "tower_inv ?vs'")
proof (cases "accepts_vote vs s")
  case True
  have ok: "tower_ok (votes vs)" using inv by (simp add: tower_inv_def)
  let ?k = "kept_votes s (votes vs)" and ?p = "pop_expired_loop s (votes vs)"
  obtain w where w: "lv_slot w = s" "conf w = 1" and v': "votes ?vs' = push_vote ?k w"
    and r': "root_slot ?vs' = (if length ?p = 31 then Some (lv_slot (hd ?p)) else root_slot vs)"
    using process_next_vote_slot_votes [OF True, of epoch current_slot timely deprecate] .
  note k = kept_votes_ok [OF ok, of s]
  have "lv_slot (last ?k) < s" if "?k \<noteq> []"
    using accepts_vote_above [OF ok True] k(4) last_in_set [OF that] by blast
  then have "tower_ok (push_vote ?k w)"
    using w k(3) by (intro tower_ok_push [OF k(1,2)]) simp_all
  moreover have "root_ok (root_slot ?vs') (push_vote ?k w)"
    unfolding r' using root_ok_push [OF inv True w(1)] .
  ultimately show ?thesis by (simp add: tower_inv_def v')
qed (simp add: process_next_vote_slot_ignored inv)

text \<open>A tower of three votes over a root, for the witnesses.\<close>

definition sample_tower :: VoteState where
  "sample_tower = vote_state_default
     \<lparr>votes := map landed_vote_from
        [new_with_confirmation_count 1 3, new_with_confirmation_count 2 2, new_with_confirmation_count 5 1],
      root_slot := Some 0\<rparr>"

lemmas sample_tower_eval =
  sample_tower_def landed_vote_from_def new_with_confirmation_count_def lv_slot_def
  lv_confirmation_count_def is_locked_out_at_slot_def last_locked_out_slot_def lockout_def
  INITIAL_LOCKOUT_def saturating_add_def MAX_LOCKOUT_HISTORY_def

lemma sample_tower_inv: "tower_inv sample_tower"
  by (simp add: tower_inv_def tower_ok_def root_ok_def sample_tower_eval)

lemma push_vote_keeps:
  assumes ok: "tower_ok vs" and w: "conf w = 1" and v: "v \<in> set vs"
  shows "\<exists>v' \<in> set (push_vote vs w). lv_slot v' = lv_slot v \<and> conf v \<le> conf v'"
proof -
  obtain i where i: "i < length vs" "v = vs ! i" using v by (auto simp: in_set_conv_nth)
  have "push_vote vs w ! i \<in> set (push_vote vs w)" using i by (intro nth_mem) simp
  moreover have "lv_slot (push_vote vs w ! i) = lv_slot v" using i by (simp add: push_vote_nth nth_append)
  moreover have "conf v \<le> conf (push_vote vs w ! i)"
    using i by (simp add: conf_push_vote [OF ok w] nth_append)
  ultimately show ?thesis by blast
qed

lemma push_vote_new: "\<exists>v' \<in> set (push_vote vs w). lv_slot v' = lv_slot w"
proof -
  have "lv_slot w \<in> lv_slot ` set (push_vote vs w)" by (simp add: set_push_vote_slots)
  then show ?thesis by auto
qed

text \<open>
  C3: processing a vote for a new slot respects every lockout. The slot is in the new tower, and a
  vote of the old tower that is still locked out at the slot is in the new tower with at least its
  former confirmations, unless it is the oldest of a full tower, with all 31 confirmations, and has
  become the root.
\<close>

theorem process_next_vote_slot_lockouts:
  fixes epoch current_slot :: u64 and timely deprecate :: bool
  assumes inv: "tower_inv vs" and new: "accepts_vote vs s"
  defines "vs' \<equiv> process_next_vote_slot s epoch current_slot timely deprecate vs"
  shows "s \<in> set (tower vs') \<and>
    (\<forall>v \<in> set (votes vs). is_locked_out_at_slot (lv_lockout v) s \<longrightarrow>
       (\<exists>v' \<in> set (votes vs'). lv_slot v' = lv_slot v \<and> conf v \<le> conf v') \<or>
       root_slot vs' = Some (lv_slot v) \<and> conf v = 31)"
proof -
  have ok: "tower_ok (votes vs)" using inv by (simp add: tower_inv_def)
  define p where "p = pop_expired_loop s (votes vs)"
  define k where "k = kept_votes s (votes vs)"
  obtain w where w: "lv_slot w = s" "conf w = 1" and v': "votes vs' = push_vote k w"
    and r': "root_slot vs' = (if length p = 31 then Some (lv_slot (hd p)) else root_slot vs)"
    unfolding vs'_def k_def p_def
    using process_next_vote_slot_votes [OF new, of epoch current_slot timely deprecate] .
  obtain dropped where d: "votes vs = p @ dropped"
    and out: "\<forall>v \<in> set dropped. \<not> is_locked_out_at_slot (lv_lockout v) s"
    using pop_expired_loop_prefix [of "votes vs" s] unfolding p_def by blast
  have kok: "tower_ok k" unfolding k_def by (rule kept_votes_ok(1) [OF ok])
  have pok: "tower_ok p" using ok d tower_ok_append by metis
  have "(\<exists>v' \<in> set (votes vs'). lv_slot v' = lv_slot v \<and> conf v \<le> conf v') \<or>
       root_slot vs' = Some (lv_slot v) \<and> conf v = 31" if pv: "v \<in> set p" for v
  proof (cases "v \<in> set k")
    case True
    then show ?thesis unfolding v' using push_vote_keeps [OF kok w(2)] by blast
  next
    case False
    have k: "k = (if length p = 31 then tl p else p)"
      by (simp add: k_def kept_votes_def p_def)
    have l: "length p = 31" using False pv by (auto simp: k split: if_splits)
    then obtain hs where h: "p = v # hs" using False pv k by (cases p) auto
    have "31 \<le> conf v" "conf v \<le> 31"
      using tower_ok_conf_ge [OF pok, of 0] pok l h by (auto simp: tower_ok_def MAX_LOCKOUT_HISTORY_def)
    then have "conf v = 31" by simp
    then show ?thesis using r' l h by simp
  qed
  moreover have "s \<in> set (tower vs')"
    using push_vote_new [of k w] w(1) by (simp add: tower_def v' image_iff) metis
  ultimately show ?thesis using d out by auto
qed

theorem process_next_vote_slot_lockouts_witness:
  "7 \<in> set (tower (process_next_vote_slot 7 0 8 True True sample_tower)) \<and>
   is_locked_out_at_slot (lv_lockout (votes sample_tower ! 0)) 7"
proof -
  have "accepts_vote sample_tower 7" by (simp add: accepts_vote_def sample_tower_eval)
  then show ?thesis
    using process_next_vote_slot_lockouts [OF sample_tower_inv, of 7 0 8 True True]
    by (simp add: sample_tower_eval)
qed

text \<open>
  C18: the root only moves forward, and only to the oldest vote of a full tower: after a vote the
  root is the former root, or the oldest slot of the former tower, which is above it (or the former
  root was 0).
\<close>

theorem process_next_vote_slot_root:
  fixes s epoch current_slot :: u64 and timely deprecate :: bool
  assumes inv: "tower_inv vs"
  defines "vs' \<equiv> process_next_vote_slot s epoch current_slot timely deprecate vs"
  shows "root_slot vs' = root_slot vs \<or>
    length (votes vs) = 31 \<and> root_slot vs' = Some (lv_slot (hd (votes vs))) \<and>
    (case root_slot vs of None \<Rightarrow> True | Some r \<Rightarrow> r < lv_slot (hd (votes vs)) \<or> r = 0)"
proof (cases "accepts_vote vs s")
  case True
  let ?p = "pop_expired_loop s (votes vs)"
  obtain w where r': "root_slot vs' = (if length ?p = 31 then Some (lv_slot (hd ?p)) else root_slot vs)"
    unfolding vs'_def
    using process_next_vote_slot_votes [OF True, of epoch current_slot timely deprecate] by blast
  have "length (votes vs) \<le> 31" using inv by (simp add: tower_inv_def tower_ok_nth)
  moreover obtain dropped where d: "votes vs = ?p @ dropped" using pop_expired_loop_append by metis
  moreover have "length (votes vs) = length ?p + length dropped" by (metis d length_append)
  ultimately have "?p = votes vs" if "length ?p = 31" using that by simp
  then show ?thesis
    using r' inv by (auto simp: tower_inv_def root_ok_def split: option.splits)
next
  case False
  then show ?thesis by (simp add: vs'_def process_next_vote_slot_ignored)
qed

theorem process_next_vote_slot_root_witness:
  "root_slot sample_tower = Some 0 \<and>
   root_slot (process_next_vote_slot 7 0 8 True True sample_tower) = Some 0"
  using process_next_vote_slot_root [OF sample_tower_inv, of 7 0 8 True True]
  by (simp add: sample_tower_eval)

section \<open>Searching the tower\<close>

lemma tower_slots_sorted: "tower_ok vs \<Longrightarrow> i < j \<Longrightarrow> j < length vs \<Longrightarrow> lv_slot (vs ! i) < lv_slot (vs ! j)"
  by (simp add: tower_ok_nth)

lemma tower_search_ordered:
  "tower_ok vs \<Longrightarrow> search_ordered (\<lambda>i. cmp (lv_slot (vs ! i)) s) (length vs)"
  by (auto simp: search_ordered_def dest!: tower_slots_sorted)

lemma contains_slot_tower: "tower_ok (votes vs) \<Longrightarrow> contains_slot vs s \<longleftrightarrow> s \<in> set (tower vs)"
  by (auto simp: contains_slot_def is_ok_binary_search tower_search_ordered tower_def)

text \<open>
  C28: on a well-formed tower the binary search of \<open>contains_slot\<close> finds exactly the slots of the tower.
\<close>

theorem contains_slot_iff:
  assumes "tower_inv vs"
  shows "contains_slot vs s \<longleftrightarrow> s \<in> set (tower vs)"
  using assms by (simp add: tower_inv_def contains_slot_tower)

theorem contains_slot_iff_witness:
  "contains_slot sample_tower 5 \<and> \<not> contains_slot sample_tower 4"
  using contains_slot_iff [OF sample_tower_inv] by (simp add: tower_def sample_tower_eval)

end
