(* ===== verification/Vote_Rewards.thy ===== *)
theory Vote_Rewards
  imports Vote_Tower
begin

text \<open>
  What a vote account earns: the credits of a rooted vote, the history of credits by epoch, and
  the split of a reward between the voter and the stakers.
\<close>

section \<open>Credits of a vote\<close>

text \<open>The credits for a vote of latency \<open>lat\<close> when at most \<open>m\<close> are given, as numbers.\<close>

definition latency_credits :: "nat \<Rightarrow> nat \<Rightarrow> nat" where
  "latency_credits m lat = (if lat = 0 then 1 else max 1 (m - (lat - 2)))"

lemma credits_for_vote_at_index_nat:
  assumes "i < length (votes vs)"
  shows "unat (credits_for_vote_at_index vs i timely deprecate) =
    (if deprecate \<and> \<not> timely then 1
     else latency_credits (if deprecate then 16 else 8) (unat (latency (votes vs ! i))))"
proof -
  define lat where "lat = latency (votes vs ! i)"
  define m :: u8 where "m = (if deprecate then 16 else 8)"
  have m: "unat m = (if deprecate then 16 else 8)" "m \<noteq> 0" by (simp_all add: m_def)
  have sub: "unat (m - (lat - 2)) = unat m - (unat lat - 2)" if "2 \<le> lat" "lat - 2 \<le> m"
    using that by (simp add: unat_sub_if' word_le_nat_alt)
  have z: "(x = 0) = (unat x = 0)" for x :: u8 by (simp add: unat_eq_0)
  have u: "unat (ucast x :: u64) = unat x" for x :: u8 by (simp add: unat_ucast_up)
  have def: "credits_for_vote_at_index vs i timely deprecate =
      (if lat = 0 \<or> deprecate \<and> \<not> timely then 1
       else case checked_sub lat 2 of None \<Rightarrow> ucast m
         | Some diff \<Rightarrow> if diff = 0 then ucast m
             else case checked_sub m diff of None \<Rightarrow> 1 | Some c \<Rightarrow> if c = 0 then 1 else ucast c)"
    unfolding credits_for_vote_at_index_def lat_def m_def VOTE_CREDITS_GRACE_SLOTS_def
      VOTE_CREDITS_MAXIMUM_PER_SLOT_def VOTE_CREDITS_MAXIMUM_PER_SLOT_OLD_def Let_def
    by (simp only: assms if_True)
  show ?thesis
  proof (cases "lat = 0 \<or> deprecate \<and> \<not> timely")
    case True
    then show ?thesis by (auto simp: def latency_credits_def lat_def [symmetric])
  next
    case False
    have "unat lat \<noteq> 0" using False by (simp add: unat_eq_0)
    then show ?thesis
      using False m(1)
      by (auto simp: def latency_credits_def lat_def [symmetric] u checked_sub_None_iff checked_sub_Some_iff
          z word_less_nat_alt split: option.splits)
  qed
qed

section \<open>The history of credits\<close>

text \<open>
  At most 64 entries \<open>(epoch, credits, prev_credits)\<close> in ascending order of epochs, each starting
  from the credits the one before it ended with.
\<close>

definition credits_ok :: "EpochCredits \<Rightarrow> bool" where
  "credits_ok ec \<longleftrightarrow> length ec \<le> MAX_EPOCH_CREDITS_HISTORY \<and>
     (\<forall>(e, c, p) \<in> set ec. p \<le> c) \<and>
     sorted_wrt (<) (map fst ec) \<and>
     successively (\<lambda>(e, c, p) (e', c', p'). p' = c) ec"

lemma credits_ok_snoc:
  "credits_ok (xs @ [(e, c, p)]) \<longleftrightarrow> credits_ok xs \<and> length xs < 64 \<and> p \<le> c \<and>
     (\<forall>e' \<in> fst ` set xs. e' < e) \<and> (xs \<noteq> [] \<longrightarrow> p = fst (snd (last xs)))"
  by (auto simp: credits_ok_def MAX_EPOCH_CREDITS_HISTORY_def sorted_wrt_append successively_append_iff
      split: prod.splits)

lemma credits_ok_tl: "credits_ok xs \<Longrightarrow> credits_ok (tl xs)"
  by (cases xs) (auto simp: credits_ok_def successively_Cons)

lemma credits_ok_snoc_mono:
  "credits_ok (xs @ [(e, c, p)]) \<Longrightarrow> e \<le> e' \<Longrightarrow> credits_ok (xs @ [(e', saturating_add c n, p)])"
  using saturating_add_ge [of c n] by (auto simp: credits_ok_snoc dest: less_le_trans order_trans)

text \<open>The entry for the current epoch, opened if need be.\<close>

definition open_epoch :: "Epoch \<Rightarrow> EpochCredits \<Rightarrow> EpochCredits" where
  "open_epoch epoch ec =
     (if ec = [] then [(epoch, 0, 0)]
      else if epoch \<noteq> fst (last ec) then
        let (_, c, prev_credits) = last ec;
            ec = (if c \<noteq> prev_credits then ec @ [(epoch, c, c)] else butlast ec @ [(epoch, c, prev_credits)])
        in if MAX_EPOCH_CREDITS_HISTORY < length ec then tl ec else ec
      else ec)"

lemma increment_credits_open:
  assumes "open_epoch epoch (epoch_credits vs) = ys @ [(e, c, p)]"
  shows "epoch_credits (increment_credits epoch n vs) = ys @ [(e, saturating_add c n, p)]"
  unfolding increment_credits_def open_epoch_def [symmetric] Let_def
  using assms [unfolded open_epoch_def Let_def] by simp

lemma open_epoch_ok:
  assumes ok: "credits_ok ec" and e: "ec \<noteq> [] \<Longrightarrow> fst (last ec) \<le> epoch"
  obtains ys p where
    "open_epoch epoch ec = ys @ [(epoch, if ec = [] then 0 else fst (snd (last ec)), p)]"
    and "credits_ok (open_epoch epoch ec)"
proof (cases ec rule: rev_cases)
  case Nil
  then show ?thesis
    using that [of "[]" 0] by (simp add: open_epoch_def credits_ok_def MAX_EPOCH_CREDITS_HISTORY_def)
next
  case (snoc xs a)
  obtain e0 c0 p0 where a: "a = (e0, c0, p0)" by (cases a)
  have ok': "credits_ok (xs @ [(e0, c0, p0)])" and le: "e0 \<le> epoch" using ok e by (simp_all add: snoc a)
  show ?thesis
  proof (cases "epoch = e0 \<or> c0 = p0")
    case True
    then have "open_epoch epoch ec = xs @ [(epoch, c0, p0)]"
      using ok' by (auto simp: open_epoch_def snoc a credits_ok_snoc MAX_EPOCH_CREDITS_HISTORY_def)
    then show ?thesis
      using that [of xs p0] credits_ok_snoc_mono [OF ok' le, of 0] by (simp add: snoc a)
  next
    case False
    define ys where "ys = (if 64 < length (ec @ [(epoch, c0, c0)]) then tl ec else ec)"
    have "open_epoch epoch ec = ys @ [(epoch, c0, c0)]"
      using False by (cases xs) (simp_all add: open_epoch_def ys_def snoc a MAX_EPOCH_CREDITS_HISTORY_def)
    moreover have "credits_ok (ys @ [(epoch, c0, c0)])"
    proof -
      have "length ec \<le> 64" using ok by (simp add: credits_ok_def MAX_EPOCH_CREDITS_HISTORY_def)
      moreover have "set ys \<subseteq> set ec" by (auto simp: ys_def snoc dest: list.set_sel(2) [rotated])
      moreover have "ys \<noteq> [] \<longrightarrow> last ys = a" by (auto simp: ys_def snoc last_tl)
      moreover have "\<forall>e' \<in> fst ` set ec. e' < epoch"
        using ok' le False by (auto simp: snoc a credits_ok_snoc dest: less_le_trans)
      ultimately show ?thesis
        using ok credits_ok_tl [OF ok] by (auto simp: credits_ok_snoc ys_def a)
    qed
    ultimately show ?thesis using that [of ys c0] by (simp add: snoc a)
  qed
qed

lemma increment_credits_spec:
  assumes ok: "credits_ok (epoch_credits vs)" and e: "current_epoch vs \<le> epoch"
  shows "credits_ok (epoch_credits (increment_credits epoch n vs)) \<and>
    credits (increment_credits epoch n vs) = saturating_add (credits vs) n \<and>
    current_epoch (increment_credits epoch n vs) = epoch"
proof -
  obtain ys p where o: "open_epoch epoch (epoch_credits vs) = ys @ [(epoch, credits vs, p)]"
    and ok': "credits_ok (open_epoch epoch (epoch_credits vs))"
    by (rule open_epoch_ok [OF ok, of epoch])
      (use e in \<open>auto simp: current_epoch_def credits_def\<close>)
  have "epoch_credits (increment_credits epoch n vs) = ys @ [(epoch, saturating_add (credits vs) n, p)]"
    by (rule increment_credits_open [OF o])
  then show ?thesis
    using credits_ok_snoc_mono [OF ok' [unfolded o] order_refl, of n]
    by (simp add: credits_def current_epoch_def)
qed

text \<open>
  C29: awarding credits keeps the history well formed (at most 64 epochs in order, each entry
  starting where the last one ended), adds the credits to the total, saturating, and files them
  under the current epoch.
\<close>

theorem increment_credits_ok:
  assumes "credits_ok (epoch_credits vs)" and "current_epoch vs \<le> epoch"
  shows "credits_ok (epoch_credits (increment_credits epoch n vs)) \<and>
    credits (increment_credits epoch n vs) = saturating_add (credits vs) n \<and>
    current_epoch (increment_credits epoch n vs) = epoch"
  using assms by (rule increment_credits_spec)

theorem increment_credits_ok_witness:
  "credits (increment_credits 5 10 (vote_state_default\<lparr>epoch_credits := [(3, 40, 20)]\<rparr>)) = 50"
proof -
  let ?vs = "vote_state_default\<lparr>epoch_credits := [(3, 40, 20)]\<rparr>"
  have "credits_ok (epoch_credits ?vs)" "current_epoch ?vs \<le> 5"
    by (simp_all add: credits_ok_def MAX_EPOCH_CREDITS_HISTORY_def current_epoch_def)
  from increment_credits_ok [OF this, of 10] show ?thesis
    by (simp add: credits_def saturating_add_def)
qed

text \<open>
  C30: a vote earns credits exactly when it roots the oldest vote of a full tower whose newest vote has
  not expired. The total then grows by the credits of the vote that became the root, at least 1 and
  at most 16 of them and fewer the later that vote landed; otherwise the history of credits is
  unchanged.
\<close>

theorem process_next_vote_slot_credits:
  fixes s epoch current_slot :: u64 and timely deprecate :: bool
  assumes inv: "tower_inv vs" and ok: "credits_ok (epoch_credits vs)" and e: "current_epoch vs \<le> epoch"
  defines "vs' \<equiv> process_next_vote_slot s epoch current_slot timely deprecate vs"
    and "c \<equiv> (if deprecate \<and> \<not> timely then 1
              else latency_credits (if deprecate then 16 else 8) (unat (latency (hd (votes vs)))))"
  shows "credits_ok (epoch_credits vs') \<and>
    (if length (votes vs) = 31 \<and> accepts_vote vs s \<and> is_locked_out_at_slot (lv_lockout (last (votes vs))) s
     then root_slot vs' = Some (lv_slot (hd (votes vs))) \<and>
       unat (credits vs') = min (unat (credits vs) + c) (2 ^ 64 - 1) \<and> 1 \<le> c \<and> c \<le> 16
     else epoch_credits vs' = epoch_credits vs)"
proof (cases "accepts_vote vs s")
  case True
  let ?p = "pop_expired_loop s (votes vs)"
  obtain dropped where d: "votes vs = ?p @ dropped" using pop_expired_loop_append by metis
  have len: "length (votes vs) \<le> 31" "length (votes vs) = length ?p + length dropped"
    using inv d by (simp_all add: tower_inv_def tower_ok_nth) (metis length_append)
  obtain w where r': "root_slot vs' = (if length ?p = 31 then Some (lv_slot (hd ?p)) else root_slot vs)"
    unfolding vs'_def
    using process_next_vote_slot_votes [OF True, of epoch current_slot timely deprecate] by blast
  have ec: "epoch_credits vs' = (if length ?p = 31
      then epoch_credits (increment_credits epoch
        (credits_for_vote_at_index (vs\<lparr>votes := ?p\<rparr>) 0 timely deprecate)
        (vs\<lparr>votes := tl ?p, root_slot := Some (lv_slot (hd ?p))\<rparr>)) else epoch_credits vs)"
    unfolding vs'_def process_next_vote_slot_def accepts_vote_iff Let_def using True
    by (simp add: pop_expired_votes_def MAX_LOCKOUT_HISTORY_def double_lockouts_def Let_def)
  show ?thesis
  proof (cases "length ?p = 31")
    case full: True
    then have p: "?p = votes vs" and ne: "votes vs \<noteq> []" using len d by auto
    define n where "n = credits_for_vote_at_index (vs\<lparr>votes := ?p\<rparr>) 0 timely deprecate"
    define u where "u = vs\<lparr>votes := tl ?p, root_slot := Some (lv_slot (hd ?p))\<rparr>"
    have n: "unat n = c"
      using ne credits_for_vote_at_index_nat [of 0 vs timely deprecate] by (simp add: n_def p c_def hd_conv_nth)
    have c: "1 \<le> c" "c \<le> 16" by (auto simp: c_def latency_credits_def)
    have u: "credits_ok (epoch_credits u)" "current_epoch u \<le> epoch" "credits u = credits vs"
      using ok e by (simp_all add: u_def current_epoch_def credits_def split: if_splits)
    have ec': "epoch_credits vs' = epoch_credits (increment_credits epoch n u)"
      unfolding n_def u_def by (subst ec) (simp only: full if_True simp_thms)
    then have "credits vs' = credits (increment_credits epoch n u)" by (simp add: credits_def)
    then have "credits vs' = saturating_add (credits vs) n" "credits_ok (epoch_credits vs')"
      using increment_credits_spec [OF u(1,2), of n] u(3) ec' by simp_all
    then show ?thesis
      using r' p n c True pop_expired_full_iff [OF len(1), of s, THEN iffD1, OF full]
      by (simp add: unat_saturating_add)
  next
    case False
    then have "epoch_credits vs' = epoch_credits vs" by (subst ec) (simp only: if_False)
    then show ?thesis using False ok pop_expired_full_iff [OF len(1), of s] by auto
  qed
next
  case False
  then show ?thesis by (simp add: vs'_def process_next_vote_slot_ignored ok)
qed

theorem process_next_vote_slot_credits_witness:
  "tower_inv sample_tower \<and> current_epoch sample_tower = 0 \<and>
   credits_ok (epoch_credits (process_next_vote_slot 7 0 8 True True sample_tower))"
proof -
  have ec: "epoch_credits sample_tower = []" by (simp add: sample_tower_def vote_state_default_def)
  then have "credits_ok (epoch_credits sample_tower)" "current_epoch sample_tower \<le> 0"
    by (simp_all add: credits_ok_def current_epoch_def)
  from process_next_vote_slot_credits [OF sample_tower_inv this, of 7 8 True True] ec
  show ?thesis by (simp add: sample_tower_inv current_epoch_def)
qed

section \<open>Commission\<close>

text \<open>
  C31: the commission split never panics. With the commission capped at 100 percent, the voter and
  the stakers get their percentage of the reward, each rounded down; together they get no more than
  the reward and lose at most one lamport of it. The flag is set when both percentages are
  positive.
\<close>

theorem commission_split_exact:
  "\<exists>m t. let c = min (unat (commission vs)) 100 in
     commission_split vs on = Ok (m, t, 0 < c \<and> c < 100) \<and>
     unat m = unat on * c div 100 \<and> unat t = unat on * (100 - c) div 100 \<and>
     unat m + unat t \<le> unat on \<and> unat on \<le> unat m + unat t + 1"
proof -
  define split where "split = min (commission vs) 100"
  define c where "c = unat split"
  have c: "c = min (unat (commission vs)) 100"
    by (simp add: c_def split_def min_def word_le_nat_alt)
  then have c100: "c \<le> 100" by simp
  have bound: "unat on * k div 100 \<le> unat on" if "k \<le> 100" for k
    using div_le_mono [OF mult_le_mono2 [OF that, of "unat on"], of 100] by simp
  have sum: "unat on * c div 100 + unat on * (100 - c) div 100 \<le> unat on \<and>
      unat on \<le> unat on * c div 100 + unat on * (100 - c) div 100 + 1"
  proof -
    have "unat on * c + unat on * (100 - c) = unat on * 100"
      using c100 by (simp flip: add_mult_distrib2)
    then show ?thesis by linarith
  qed
  have mul: "checked_mul (ucast on :: u128) (ucast k) = Some (ucast on * ucast k)"
    and val: "unat (ucast ((ucast on * ucast k :: u128) div 100) :: u64) = unat on * unat k div 100"
    if k: "unat k \<le> 100" for k :: u8
  proof -
    have u: "unat (ucast on :: u128) = unat on" "unat (ucast k :: u128) = unat k"
      by (simp_all add: unat_ucast_up)
    have "unat on * unat k \<le> 2 ^ 64 * 100"
      using unat_lt_exp [of on] k by (intro mult_le_mono) simp_all
    then have lt: "unat on * unat k < 2 ^ 128" by (rule le_less_trans) simp
    then show "checked_mul (ucast on :: u128) (ucast k) = Some (ucast on * ucast k)"
      by (simp add: checked_mul_def u)
    have "unat (ucast on * ucast k :: u128) = unat on * unat k"
      using lt by (simp only: unat_word_ariths u) simp
    then show "unat (ucast ((ucast on * ucast k :: u128) div 100) :: u64) = unat on * unat k div 100"
      using bound [OF k] unat_lt_exp [of on] by (simp add: unat_ucast_mod unat_div)
  qed
  show ?thesis
  proof (cases "c = 0 \<or> c = 100")
    case True
    then have "split = 0 \<or> split = 100" by (auto simp: c_def word_unat_eq_iff)
    then show ?thesis
      by (auto simp: commission_split_def split_def [symmetric] c [symmetric] c_def)
  next
    case False
    then have s: "split \<noteq> 0" "split \<noteq> 100" by (auto simp: c_def)
    have r: "checked_sub 100 split = Some (100 - split)" "unat (100 - split) = 100 - c"
      using c100 by (simp_all add: checked_sub_def c_def word_le_nat_alt unat_sub_if')
    show ?thesis
      unfolding c [symmetric] Let_def
      using False c100 s r sum mul [of split] mul [of "100 - split"] val [of split] val [of "100 - split"]
      by (simp add: commission_split_def split_def [symmetric] Let_def c_def)
  qed
qed

end
