(* ===== verification/Slot_Sysvars.thy ===== *)
theory Slot_Sysvars
  imports Sdk_Types Search
begin

text \<open>
  The two sysvars that record recent slots: \<open>sdk/program/src/slot_hashes.rs\<close>, the hashes of the last
  512 slots, newest first, and \<open>sdk/program/src/slot_history.rs\<close>, a ring of \<open>2^20\<close> bits.
\<close>

section \<open>SlotHashes\<close>

type_synonym SlotHash = "Slot \<times> Hash"

definition SLOT_HASHES_MAX_ENTRIES :: nat where
  "SLOT_HASHES_MAX_ENTRIES = 512"

definition slot_hashes_search :: "Slot \<Rightarrow> SlotHash list \<Rightarrow> (nat, nat) result" where
  "slot_hashes_search slot sh = binary_search_by (\<lambda>entry. cmp slot (fst entry)) sh"

definition slot_hashes_add :: "Slot \<Rightarrow> Hash \<Rightarrow> SlotHash list \<Rightarrow> SlotHash list" where
  "slot_hashes_add slot hash sh =
     take SLOT_HASHES_MAX_ENTRIES
       (case slot_hashes_search slot sh of
          Ok index \<Rightarrow> sh[index := (slot, hash)]
        | Err index \<Rightarrow> take index sh @ (slot, hash) # drop index sh
        | Panic \<Rightarrow> sh)"

definition slot_hashes_position :: "SlotHash list \<Rightarrow> Slot \<Rightarrow> nat option" where
  "slot_hashes_position sh slot =
     (case slot_hashes_search slot sh of Ok index \<Rightarrow> Some index | _ \<Rightarrow> None)"

definition slot_hashes_get :: "SlotHash list \<Rightarrow> Slot \<Rightarrow> Hash option" where
  "slot_hashes_get sh slot =
     (case slot_hashes_search slot sh of Ok index \<Rightarrow> Some (snd (sh ! index)) | _ \<Rightarrow> None)"

text \<open>\<open>SlotHashes::new\<close> sorts by descending slot, with a stable sort.\<close>

definition slot_hashes_new :: "SlotHash list \<Rightarrow> SlotHash list" where
  "slot_hashes_new slot_hashes = rev (sort_key fst (rev slot_hashes))"

definition slot_hashes_ok :: "SlotHash list \<Rightarrow> bool" where
  "slot_hashes_ok sh \<longleftrightarrow> sorted_wrt (\<lambda>a b. fst b < fst a) sh \<and> length sh \<le> SLOT_HASHES_MAX_ENTRIES"

lemma slot_hashes_ordered:
  "sorted_wrt (\<lambda>a b. fst b < fst a) sh \<Longrightarrow>
   search_ordered (\<lambda>i. cmp slot (fst (sh ! i))) (length sh)"
  by (auto simp: search_ordered_def sorted_wrt_iff_nth_less) (meson less_trans)+

lemma desc_distinct: "sorted_wrt (\<lambda>a b. fst b < fst a) sh \<Longrightarrow> distinct (map fst (sh :: SlotHash list))"
  by (induction sh) auto

lemma desc_map_of:
  "sorted_wrt (\<lambda>a b. fst b < fst a) sh \<Longrightarrow> i < length sh \<Longrightarrow> map_of sh (fst (sh ! i)) = Some (snd (sh ! i))"
  for sh :: "SlotHash list"
  using desc_distinct by (metis map_of_eq_Some_iff nth_mem prod.collapse)

text \<open>The list before \<open>add\<close> truncates it.\<close>

definition slot_hashes_put :: "Slot \<Rightarrow> Hash \<Rightarrow> SlotHash list \<Rightarrow> SlotHash list" where
  "slot_hashes_put slot hash sh =
     (case slot_hashes_search slot sh of
        Ok index \<Rightarrow> sh[index := (slot, hash)]
      | Err index \<Rightarrow> take index sh @ (slot, hash) # drop index sh
      | Panic \<Rightarrow> sh)"

lemma slot_hashes_put_split:
  assumes desc: "sorted_wrt (\<lambda>a b. fst b < fst a) sh"
  obtains A M B where "sh = A @ M @ B" and "slot_hashes_put slot hash sh = A @ (slot, hash) # B"
    and "\<And>a. a \<in> set A \<Longrightarrow> slot < fst a" and "\<And>b. b \<in> set B \<Longrightarrow> fst b < slot"
    and "\<And>m. m \<in> set M \<Longrightarrow> fst m = slot"
  using slot_hashes_ordered [OF desc, of slot]
proof (cases rule: binary_search_by_cases)
  case (found i)
  then have s: "fst (sh ! i) = slot" by simp
  have sh: "sh = take i sh @ [sh ! i] @ drop (Suc i) sh"
    using found(2) by (simp add: id_take_nth_drop)
  have "sorted_wrt (\<lambda>a b. fst b < fst a) (take i sh @ [sh ! i] @ drop (Suc i) sh)"
    using desc sh by simp
  then show ?thesis
    using that [OF sh] found s
    by (simp add: sorted_wrt_append slot_hashes_put_def slot_hashes_search_def upd_conv_take_nth_drop)
next
  case (missing i)
  have "slot < fst (sh ! k)" if "k < i" for k
    using missing(3) that by simp
  moreover have "fst (sh ! k) < slot" if "i \<le> k" "k < length sh" for k
    using missing(4) that by simp
  ultimately have "slot < fst a" if "a \<in> set (take i sh)" for a
    using that by (auto simp: in_set_conv_nth)
  moreover have "fst b < slot" if "b \<in> set (drop i sh)" for b
    using that \<open>\<And>k. i \<le> k \<Longrightarrow> k < length sh \<Longrightarrow> fst (sh ! k) < slot\<close>
    by (auto simp: in_set_conv_nth less_diff_conv add.commute)
  ultimately show ?thesis
    using that [of "take i sh" "[]" "drop i sh"] missing(1)
    by (simp add: slot_hashes_put_def slot_hashes_search_def)
qed

lemma slot_hashes_put_sorted:
  assumes desc: "sorted_wrt (\<lambda>a b. fst b < fst a) sh"
  shows "sorted_wrt (\<lambda>a b. fst b < fst a) (slot_hashes_put slot hash sh)"
    and "map_of (slot_hashes_put slot hash sh) = (map_of sh)(slot \<mapsto> hash)"
proof -
  obtain A M B where sh: "sh = A @ M @ B" and put: "slot_hashes_put slot hash sh = A @ (slot, hash) # B"
    and A: "\<And>a. a \<in> set A \<Longrightarrow> slot < fst a" and B: "\<And>b. b \<in> set B \<Longrightarrow> fst b < slot"
    and M: "\<And>m. m \<in> set M \<Longrightarrow> fst m = slot"
    by (rule slot_hashes_put_split [OF desc, of slot hash]) blast
  show "sorted_wrt (\<lambda>a b. fst b < fst a) (slot_hashes_put slot hash sh)"
    unfolding put using desc [unfolded sh] A B by (auto simp: sorted_wrt_append)
  have "map_of A slot = None" using A by (force simp: map_of_eq_None_iff)
  moreover have "map_of M x = None" if "x \<noteq> slot" for x
    using M that by (force simp: map_of_eq_None_iff)
  ultimately show "map_of (slot_hashes_put slot hash sh) = (map_of sh)(slot \<mapsto> hash)"
    unfolding put unfolding sh by (auto simp: fun_eq_iff map_add_def split: option.split)
qed

lemma slot_hashes_add_put: "slot_hashes_add slot hash sh = take 512 (slot_hashes_put slot hash sh)"
  by (simp add: slot_hashes_add_def slot_hashes_put_def SLOT_HASHES_MAX_ENTRIES_def)

lemma slot_hashes_get_desc:
  assumes desc: "sorted_wrt (\<lambda>a b. fst b < fst a) sh"
  shows "slot_hashes_get sh slot = map_of sh slot"
  using slot_hashes_ordered [OF desc, of slot]
proof (cases rule: binary_search_by_cases)
  case (found i)
  then have s: "fst (sh ! i) = slot" by simp
  then show ?thesis
    using desc_map_of [OF desc found(2)] by (simp add: s slot_hashes_get_def slot_hashes_search_def found(1))
next
  case (missing i)
  have "slot \<noteq> fst (sh ! k)" if "k < length sh" for k
    using missing(3,4) that by (metis cmp_iff(1,3) less_irrefl not_less)
  then have "\<forall>e \<in> set sh. slot \<noteq> fst e" by (simp add: all_set_conv_all_nth)
  then have "slot \<notin> fst ` set sh" by blast
  then have "map_of sh slot = None" by (simp add: map_of_eq_None_iff)
  then show ?thesis
    using missing(1) by (simp add: slot_hashes_get_def slot_hashes_search_def)
qed

lemma map_of_butlast:
  "distinct (map fst xs) \<Longrightarrow> xs \<noteq> [] \<Longrightarrow> map_of (butlast xs) = (map_of xs)(fst (last xs) := None)"
  by (induction xs rule: rev_induct) (auto simp: fun_eq_iff map_add_def map_of_eq_None_iff split: option.split)

lemma slot_hashes_put_full:
  assumes desc: "sorted_wrt (\<lambda>a b. fst b < fst a) sh" and new: "slot \<notin> dom (map_of sh)" and sh: "sh \<noteq> []"
  shows "butlast (slot_hashes_put slot hash sh) = sh \<and> slot < fst (last sh) \<or>
    last (slot_hashes_put slot hash sh) = last sh \<and> fst (last sh) < slot"
    and "length (slot_hashes_put slot hash sh) = Suc (length sh)"
proof -
  obtain A M B where split: "sh = A @ M @ B" and p: "slot_hashes_put slot hash sh = A @ (slot, hash) # B"
    and A: "\<And>a. a \<in> set A \<Longrightarrow> slot < fst a" and B: "\<And>b. b \<in> set B \<Longrightarrow> fst b < slot"
    and M: "\<And>m. m \<in> set M \<Longrightarrow> fst m = slot"
    by (rule slot_hashes_put_split [OF desc, of slot hash]) blast
  have "M = []" using M new split by (cases M) (auto simp: dom_map_of_conv_image_fst)
  then show "length (slot_hashes_put slot hash sh) = Suc (length sh)" unfolding p by (simp add: split)
  show "butlast (slot_hashes_put slot hash sh) = sh \<and> slot < fst (last sh) \<or>
    last (slot_hashes_put slot hash sh) = last sh \<and> fst (last sh) < slot"
    using A [of "last A"] B [of "last B"] sh \<open>M = []\<close> unfolding p by (cases "B = []") (auto simp: split butlast_append)
qed

lemma slot_hashes_put_known:
  assumes desc: "sorted_wrt (\<lambda>a b. fst b < fst a) sh" and old: "slot \<in> dom (map_of sh)"
  shows "length (slot_hashes_put slot hash sh) = length sh"
proof -
  note put = slot_hashes_put_sorted [OF desc, of slot hash]
  have "fst ` set (slot_hashes_put slot hash sh) = fst ` set sh"
    using arg_cong [OF put(2), of dom] old by (auto simp: dom_map_of_conv_image_fst)
  then show ?thesis
    using distinct_card [OF desc_distinct [OF put(1)]] distinct_card [OF desc_distinct [OF desc]] by simp
qed

lemma slot_hashes_add_full:
  assumes desc: "sorted_wrt (\<lambda>a b. fst b < fst a) sh" and full: "length sh = 512" and new: "slot \<notin> dom (map_of sh)"
  shows "if slot < fst (last sh) then slot_hashes_add slot hash sh = sh
    else map_of (slot_hashes_add slot hash sh) = (map_of sh)(slot \<mapsto> hash, fst (last sh) := None)"
proof -
  let ?put = "slot_hashes_put slot hash sh"
  note put = slot_hashes_put_sorted [OF desc, of slot hash]
  have "sh \<noteq> []" using full by auto
  note cut = slot_hashes_put_full [OF desc new this, of hash]
  have add: "slot_hashes_add slot hash sh = butlast ?put"
    using cut(2) full by (simp add: slot_hashes_add_put butlast_conv_take)
  have "?put \<noteq> []" using cut(2) by auto
  from map_of_butlast [OF desc_distinct [OF put(1)] this] show ?thesis
    using cut(1) put(2) unfolding add by auto
qed

text \<open>
  C33: the slot hashes stay in strictly descending order of slots and at most 512. While there is room,
  and also in a full list that has the slot, adding a slot sets its hash and keeps every other. A slot
  that a full list does not have takes the place of the oldest; if it is older than all, it is dropped and
  the list stays as it is. A slot newer than all is put in front.
\<close>

theorem slot_hashes_add_spec:
  assumes ok: "slot_hashes_ok sh"
  shows "slot_hashes_ok (slot_hashes_add slot hash sh) \<and>
    (length sh < 512 \<or> slot \<in> dom (slot_hashes_get sh) \<longrightarrow>
       slot_hashes_get (slot_hashes_add slot hash sh) = (slot_hashes_get sh)(slot \<mapsto> hash)) \<and>
    (length sh = 512 \<and> slot \<notin> dom (slot_hashes_get sh) \<longrightarrow>
       (if slot < fst (last sh) then slot_hashes_add slot hash sh = sh
        else slot_hashes_get (slot_hashes_add slot hash sh) =
          (slot_hashes_get sh)(slot \<mapsto> hash, fst (last sh) := None))) \<and>
    ((\<forall>e \<in> set sh. fst e < slot) \<longrightarrow> slot_hashes_add slot hash sh = take 512 ((slot, hash) # sh))"
proof -
  have desc: "sorted_wrt (\<lambda>a b. fst b < fst a) sh" and len: "length sh \<le> 512"
    using ok by (simp_all add: slot_hashes_ok_def SLOT_HASHES_MAX_ENTRIES_def)
  let ?put = "slot_hashes_put slot hash sh" and ?add = "slot_hashes_add slot hash sh"
  note put = slot_hashes_put_sorted [OF desc, of slot hash]
  note get = slot_hashes_get_desc [OF desc, abs_def]
  obtain A M B where sh: "sh = A @ M @ B" and p: "?put = A @ (slot, hash) # B"
    and A: "\<And>a. a \<in> set A \<Longrightarrow> slot < fst a" and M: "\<And>m. m \<in> set M \<Longrightarrow> fst m = slot"
    by (rule slot_hashes_put_split [OF desc, of slot hash]) blast
  have sorted: "sorted_wrt (\<lambda>a b. fst b < fst a) ?add"
    using sorted_wrt_take [OF put(1)] by (simp add: slot_hashes_add_put)
  note get' = slot_hashes_get_desc [OF sorted, abs_def]
  have "slot_hashes_ok ?add"
    using sorted by (simp add: slot_hashes_ok_def slot_hashes_add_put SLOT_HASHES_MAX_ENTRIES_def)
  moreover have "slot_hashes_get ?add = (slot_hashes_get sh)(slot \<mapsto> hash)"
    if "length sh < 512 \<or> slot \<in> dom (slot_hashes_get sh)"
  proof -
    have "length ?put \<le> Suc (length sh)" unfolding p by (simp add: sh)
    then have "length ?put \<le> 512" using that slot_hashes_put_known [OF desc, of slot hash] len unfolding get by linarith
    then show ?thesis using put(2) unfolding get get' by (simp add: slot_hashes_add_put fun_eq_iff)
  qed
  moreover have "if slot < fst (last sh) then ?add = sh
      else slot_hashes_get ?add = (slot_hashes_get sh)(slot \<mapsto> hash, fst (last sh) := None)"
    if "length sh = 512 \<and> slot \<notin> dom (slot_hashes_get sh)"
    using that slot_hashes_add_full [OF desc, of slot hash] unfolding get get' by auto
  moreover have "?add = take 512 ((slot, hash) # sh)" if new: "\<forall>e \<in> set sh. fst e < slot"
  proof -
    have "A = []" using new A sh by (cases A) (auto dest: less_asym)
    moreover have "M = []" using new M sh by (cases M) auto
    ultimately show ?thesis unfolding slot_hashes_add_put p by (simp add: sh)
  qed
  ultimately show ?thesis by blast
qed

theorem slot_hashes_add_spec_witness:
  "slot_hashes_ok [(9, 1), (4, 2)] \<and> slot_hashes_get (slot_hashes_add 7 3 [(9, 1), (4, 2)]) 7 = Some 3"
proof -
  have ok: "slot_hashes_ok [(9, 1), (4, 2)]"
    by (simp add: slot_hashes_ok_def SLOT_HASHES_MAX_ENTRIES_def)
  with slot_hashes_add_spec [OF ok, of 7 3] show ?thesis by simp
qed

section \<open>SlotHistory\<close>

text \<open>
  The bit vector is the \<open>BitVec<u64>\<close> of the \<open>bv\<close> crate: its operations are the parameter \<open>bv\<close>, and
  \<open>bitvec_laws\<close> is what their documentation says of indices within the vector.
\<close>

record 'bv BitVec_ops =
  bv_new_fill :: "bool \<Rightarrow> u64 \<Rightarrow> 'bv"
  bv_len :: "'bv \<Rightarrow> u64"
  bv_get :: "'bv \<Rightarrow> u64 \<Rightarrow> bool"
  bv_set :: "'bv \<Rightarrow> u64 \<Rightarrow> bool \<Rightarrow> 'bv"
  bv_set_block :: "'bv \<Rightarrow> nat \<Rightarrow> u64 \<Rightarrow> 'bv"

definition bitvec_laws :: "'bv BitVec_ops \<Rightarrow> bool" where
  "bitvec_laws bv \<longleftrightarrow>
     (\<forall>v n. bv_len bv (bv_new_fill bv v n) = n) \<and>
     (\<forall>v n i. i < n \<longrightarrow> bv_get bv (bv_new_fill bv v n) i = v) \<and>
     (\<forall>b i v. bv_len bv (bv_set bv b i v) = bv_len bv b) \<and>
     (\<forall>b i j v. i < bv_len bv b \<and> j < bv_len bv b \<longrightarrow>
        bv_get bv (bv_set bv b i v) j = (if j = i then v else bv_get bv b j)) \<and>
     (\<forall>b k w. bv_len bv (bv_set_block bv b k w) = bv_len bv b) \<and>
     (\<forall>b k w j. 64 * Suc k \<le> unat (bv_len bv b) \<and> j < bv_len bv b \<longrightarrow>
        bv_get bv (bv_set_block bv b k w) j =
          (if unat j div 64 = k then bit w (unat j mod 64) else bv_get bv b j))"

record 'bv SlotHistory =
  bits :: 'bv
  next_slot :: Slot

definition SLOT_HISTORY_MAX_ENTRIES :: u64 where
  "SLOT_HISTORY_MAX_ENTRIES = 1024 * 1024"

datatype Check = Future | TooOld | Found | NotFound

definition slot_history_default :: "'bv BitVec_ops \<Rightarrow> 'bv SlotHistory" where
  "slot_history_default bv =
     \<lparr>bits = bv_set bv (bv_new_fill bv False SLOT_HISTORY_MAX_ENTRIES) 0 True, next_slot = 1\<rparr>"

definition slot_history_add :: "'bv BitVec_ops \<Rightarrow> Slot \<Rightarrow> 'bv SlotHistory \<Rightarrow> 'bv SlotHistory" where
  "slot_history_add bv slot h =
     (let bs = (if next_slot h < slot \<and> SLOT_HISTORY_MAX_ENTRIES \<le> slot - next_slot h
                then fold (\<lambda>i b. bv_set_block bv b i 0) [0..<unat SLOT_HISTORY_MAX_ENTRIES div 64] (bits h)
                else fold (\<lambda>skipped b. bv_set bv b (of_nat skipped mod SLOT_HISTORY_MAX_ENTRIES) False)
                       [unat (next_slot h)..<unat slot] (bits h))
      in \<lparr>bits = bv_set bv bs (slot mod SLOT_HISTORY_MAX_ENTRIES) True, next_slot = slot + 1\<rparr>)"

definition oldest :: "'bv SlotHistory \<Rightarrow> Slot" where
  "oldest h = saturating_sub (next_slot h) SLOT_HISTORY_MAX_ENTRIES"

definition newest :: "'bv SlotHistory \<Rightarrow> Slot" where
  "newest h = next_slot h - 1"

definition slot_history_check :: "'bv BitVec_ops \<Rightarrow> 'bv SlotHistory \<Rightarrow> Slot \<Rightarrow> Check" where
  "slot_history_check bv h slot =
     (if newest h < slot then Future
      else if slot < oldest h then TooOld
      else if bv_get bv (bits h) (slot mod SLOT_HISTORY_MAX_ENTRIES) then Found
      else NotFound)"

text \<open>A history over a vector of the right length, the bit of a slot, and the slots recorded.\<close>

definition slot_history_ok :: "'bv BitVec_ops \<Rightarrow> 'bv SlotHistory \<Rightarrow> bool" where
  "slot_history_ok bv h \<longleftrightarrow> bv_len bv (bits h) = SLOT_HISTORY_MAX_ENTRIES \<and> next_slot h \<noteq> 0"

abbreviation slot_bit :: "'bv BitVec_ops \<Rightarrow> 'bv SlotHistory \<Rightarrow> Slot \<Rightarrow> bool" where
  "slot_bit bv h s \<equiv> bv_get bv (bits h) (s mod SLOT_HISTORY_MAX_ENTRIES)"

definition recorded :: "'bv BitVec_ops \<Rightarrow> 'bv SlotHistory \<Rightarrow> Slot set" where
  "recorded bv h = {s. s < next_slot h \<and> unat (next_slot h) \<le> unat s + 2 ^ 20 \<and> slot_bit bv h s}"

lemma mod_max_entries_lt [simp]: "s mod SLOT_HISTORY_MAX_ENTRIES < SLOT_HISTORY_MAX_ENTRIES"
  by (simp add: word_less_nat_alt unat_mod SLOT_HISTORY_MAX_ENTRIES_def)

lemma mod_max_entries_eq_iff:
  "s mod SLOT_HISTORY_MAX_ENTRIES = r mod SLOT_HISTORY_MAX_ENTRIES \<longleftrightarrow> unat s mod 2 ^ 20 = unat r mod 2 ^ 20"
  by (simp add: word_unat_eq_iff unat_mod SLOT_HISTORY_MAX_ENTRIES_def)

lemma fold_set_false:
  assumes "bitvec_laws bv" and "\<forall>k \<in> set ks. f k < bv_len bv b"
  shows "bv_len bv (fold (\<lambda>k b. bv_set bv b (f k) False) ks b) = bv_len bv b"
    and "i < bv_len bv b \<Longrightarrow>
      bv_get bv (fold (\<lambda>k b. bv_set bv b (f k) False) ks b) i \<longleftrightarrow> bv_get bv b i \<and> i \<notin> f ` set ks"
  using assms(2) by (induction ks arbitrary: b) (use assms(1) in \<open>auto simp: bitvec_laws_def\<close>)

lemma fold_set_block_0:
  assumes "bitvec_laws bv" and "64 * n \<le> unat (bv_len bv b)"
  shows "bv_len bv (fold (\<lambda>k b. bv_set_block bv b k 0) [0..<n] b) = bv_len bv b"
    and "i < bv_len bv b \<Longrightarrow>
      bv_get bv (fold (\<lambda>k b. bv_set_block bv b k 0) [0..<n] b) i \<longleftrightarrow> bv_get bv b i \<and> n \<le> unat i div 64"
  using assms(2) by (induction n) (use assms(1) in \<open>auto simp: bitvec_laws_def\<close>)

text \<open>Two slots less than \<open>2^20\<close> apart have different bits.\<close>

lemma mod_window_inj:
  assumes "(x::nat) < y" and "y < x + n"
  shows "x mod n \<noteq> y mod n"
proof
  assume "x mod n = y mod n"
  then have "n dvd y - x" using assms by (metis mod_eq_dvd_iff_nat less_imp_le)
  then show False using assms by (auto dest: dvd_imp_le)
qed

lemma skipped_bits:
  fixes slot :: Slot
  assumes s: "unat s < unat slot" "unat slot < unat s + 2 ^ 20"
  shows "s mod SLOT_HISTORY_MAX_ENTRIES \<in> (\<lambda>k. of_nat k mod SLOT_HISTORY_MAX_ENTRIES) ` {n..<unat slot} \<longleftrightarrow>
    n \<le> unat s"
proof
  assume "n \<le> unat s"
  then show "s mod SLOT_HISTORY_MAX_ENTRIES \<in> (\<lambda>k. of_nat k mod SLOT_HISTORY_MAX_ENTRIES) ` {n..<unat slot}"
    using s by (intro image_eqI [of _ _ "unat s"]) simp_all
next
  assume "s mod SLOT_HISTORY_MAX_ENTRIES \<in> (\<lambda>k. of_nat k mod SLOT_HISTORY_MAX_ENTRIES) ` {n..<unat slot}"
  then obtain k where k: "n \<le> k" "k < unat slot"
    "s mod SLOT_HISTORY_MAX_ENTRIES = of_nat k mod SLOT_HISTORY_MAX_ENTRIES" by auto
  have "unat (of_nat k :: u64) = k" by (rule unat_of_nat_lt [OF less_trans [OF k(2) unat_lt_exp]])
  then have "unat s mod 2 ^ 20 = k mod 2 ^ 20" using k(3) by (simp only: mod_max_entries_eq_iff)
  then show "n \<le> unat s"
    using mod_window_inj [of "unat s" k "2 ^ 20"] k s by (cases "unat s < k") auto
qed

lemma slot_history_add_ok:
  assumes bv: "bitvec_laws bv" and ok: "slot_history_ok bv h"
  shows "bv_len bv (bits (slot_history_add bv slot h)) = SLOT_HISTORY_MAX_ENTRIES"
  using ok bv fold_set_false(1) [OF bv, of _ "\<lambda>k. of_nat k mod SLOT_HISTORY_MAX_ENTRIES" "bits h"]
    fold_set_block_0(1) [OF bv, of "unat SLOT_HISTORY_MAX_ENTRIES div 64" "bits h"]
  by (simp add: slot_history_add_def slot_history_ok_def Let_def bitvec_laws_def)

lemma bits_slot_history_add:
  assumes bv: "bitvec_laws bv" and ok: "slot_history_ok bv h"
    and le: "unat (next_slot h) \<le> unat slot"
    and s: "unat s \<le> unat slot" "unat slot < unat s + 2 ^ 20"
  shows "slot_bit bv (slot_history_add bv slot h) s \<longleftrightarrow>
    s = slot \<or> unat s < unat (next_slot h) \<and> slot_bit bv h s"
proof -
  let ?n = "SLOT_HISTORY_MAX_ENTRIES"
  let ?cleared = "fold (\<lambda>i b. bv_set_block bv b i 0) [0..<unat ?n div 64] (bits h)"
  let ?skipped = "fold (\<lambda>k b. bv_set bv b (of_nat k mod ?n) False) [unat (next_slot h)..<unat slot] (bits h)"
  have len: "bv_len bv (bits h) = ?n" using ok by (simp add: slot_history_ok_def)
  note block = fold_set_block_0 [OF bv, of "unat ?n div 64" "bits h", unfolded len, simplified]
  note skip = fold_set_false [OF bv, of "[unat (next_slot h)..<unat slot]" "\<lambda>k. of_nat k mod ?n" "bits h",
      unfolded len, simplified]
  have set: "bv_get bv (bv_set bv b (slot mod ?n) True) (s mod ?n) \<longleftrightarrow>
      s mod ?n = slot mod ?n \<or> bv_get bv b (s mod ?n)" if "bv_len bv b = ?n" for b
    using bv that by (simp add: bitvec_laws_def)
  show ?thesis
  proof (cases "s = slot")
    case False
    then have sl: "unat s < unat slot" using s by (simp add: word_unat_eq_iff)
    then have ne: "s mod ?n \<noteq> slot mod ?n"
      unfolding mod_max_entries_eq_iff using s(2) by (rule mod_window_inj)
    show ?thesis
    proof (cases "next_slot h < slot \<and> ?n \<le> slot - next_slot h")
      case True
      then have "2 ^ 20 \<le> unat slot - unat (next_slot h)"
        using le by (simp add: SLOT_HISTORY_MAX_ENTRIES_def word_le_nat_alt unat_sub_if' split: if_splits)
      then have "\<not> unat s < unat (next_slot h)" using s by linarith
      moreover have "unat (s mod ?n) div 64 < unat ?n div 64"
        using mod_less_divisor [of "2 ^ 20" "unat s"]
        by (simp add: SLOT_HISTORY_MAX_ENTRIES_def unat_mod)
      then have "\<not> bv_get bv ?cleared (s mod ?n)" by (simp add: block(2))
      ultimately show ?thesis
        using True False ne set [OF block(1)] by (simp add: slot_history_add_def)
    next
      case fill: False
      then show ?thesis
        using False ne skipped_bits [OF sl s(2), of "unat (next_slot h)"] skip set [OF skip(1)]
        by (auto simp: slot_history_add_def Let_def)
    qed
  qed (use set [OF block(1)] set [OF skip(1)] in \<open>simp add: slot_history_add_def Let_def\<close>)
qed

lemma recorded_check: "next_slot h \<noteq> 0 \<Longrightarrow> slot_history_check bv h s = Found \<longleftrightarrow> s \<in> recorded bv h"
proof -
  assume "next_slot h \<noteq> 0"
  then have "1 \<le> unat (next_slot h)" by (simp add: Suc_le_eq unat_gt_0)
  then have "newest h < s \<longleftrightarrow> \<not> s < next_slot h"
    by (auto simp: newest_def word_less_nat_alt unat_sub_if' word_le_nat_alt)
  moreover have "s < oldest h \<longleftrightarrow> \<not> unat (next_slot h) \<le> unat s + 2 ^ 20"
    by (auto simp: oldest_def word_less_nat_alt unat_saturating_sub SLOT_HISTORY_MAX_ENTRIES_def)
  ultimately show ?thesis by (auto simp: slot_history_check_def recorded_def)
qed

text \<open>
  C21: the ring of bits implements the set of the slots added last. Adding a slot that is not older than
  the next expected one (and not the largest \<open>u64\<close>) adds it to the set and forgets the slots that
  are \<open>2^20\<close> or more behind it, and \<open>check\<close> finds exactly the slots of the set.
\<close>

theorem slot_history_add_refines:
  assumes bv: "bitvec_laws bv" and ok: "slot_history_ok bv h"
    and new: "next_slot h \<le> slot" and max: "slot \<noteq> - 1"
  shows "slot_history_ok bv (slot_history_add bv slot h) \<and>
    recorded bv (slot_history_add bv slot h) = insert slot {s \<in> recorded bv h. unat slot < unat s + 2 ^ 20} \<and>
    (slot_history_check bv (slot_history_add bv slot h) s = Found \<longleftrightarrow>
       s \<in> recorded bv (slot_history_add bv slot h))"
proof -
  have "unat slot < 2 ^ 64 - 1"
    using max unat_lt_exp [of slot] by (auto simp: word_unat_eq_iff unat_max_word)
  then have next': "unat (slot + 1) = unat slot + 1" by (simp add: unat_word_ariths)
  have le: "unat (next_slot h) \<le> unat slot" using new by (simp add: word_le_nat_alt)
  have "next_slot (slot_history_add bv slot h) = slot + 1" by (simp add: slot_history_add_def Let_def)
  then have "s \<in> recorded bv (slot_history_add bv slot h) \<longleftrightarrow>
      unat s \<le> unat slot \<and> unat slot < unat s + 2 ^ 20 \<and> slot_bit bv (slot_history_add bv slot h) s" for s
    using next' by (auto simp: recorded_def word_less_nat_alt)
  moreover have "s \<in> recorded bv h \<longleftrightarrow>
      unat s < unat (next_slot h) \<and> unat (next_slot h) \<le> unat s + 2 ^ 20 \<and> slot_bit bv h s" for s
    by (simp add: recorded_def word_less_nat_alt)
  ultimately have "recorded bv (slot_history_add bv slot h) =
      insert slot {s \<in> recorded bv h. unat slot < unat s + 2 ^ 20}"
    using bits_slot_history_add [OF bv ok le] le by (auto simp: set_eq_iff)
  moreover have "next_slot (slot_history_add bv slot h) \<noteq> 0"
    using next' by (auto simp: slot_history_add_def Let_def)
  ultimately show ?thesis
    using slot_history_add_ok [OF bv ok] by (simp add: recorded_check slot_history_ok_def)
qed

text \<open>Bit vectors as a length and a function from indices.\<close>

definition fun_bitvec :: "(u64 \<times> (u64 \<Rightarrow> bool)) BitVec_ops" where
  "fun_bitvec = \<lparr>bv_new_fill = (\<lambda>v n. (n, \<lambda>_. v)), bv_len = fst, bv_get = snd,
     bv_set = (\<lambda>(n, f) i v. (n, f(i := v))),
     bv_set_block = (\<lambda>(n, f) k w. (n, \<lambda>j. if unat j div 64 = k then bit w (unat j mod 64) else f j))\<rparr>"

theorem slot_history_add_refines_witness:
  "bitvec_laws fun_bitvec \<and>
   slot_history_check fun_bitvec (slot_history_add fun_bitvec 5 (slot_history_default fun_bitvec)) 5 = Found"
proof -
  have "bitvec_laws fun_bitvec" by (auto simp: bitvec_laws_def fun_bitvec_def)
  moreover have "slot_history_ok fun_bitvec (slot_history_default fun_bitvec)"
    by (simp add: slot_history_ok_def slot_history_default_def fun_bitvec_def)
  ultimately show ?thesis
    using slot_history_add_refines [of fun_bitvec "slot_history_default fun_bitvec" 5 5]
    by (simp add: slot_history_default_def)
qed

end
