(* ===== verification/Vote_Update.thy ===== *)
theory Vote_Update
  imports Vote_Rewards Slot_Sysvars
begin

text \<open>
  Processing votes against the history of the bank, \<open>programs/vote/src/vote_state/mod.rs\<close>: the
  checks of a vote's slots and hash, the checks of a proposed tower, and the replacement of the
  tower. \<open>slot_hashes\<close> is the content of the \<open>SlotHashes\<close> sysvar, newest slot first.
\<close>

section \<open>Vote transactions\<close>

datatype VoteTransaction =
    VT_Vote Vote
  | VT_VoteStateUpdate VoteStateUpdate
  | VT_CompactVoteStateUpdate VoteStateUpdate

fun vt_slots :: "VoteTransaction \<Rightarrow> Slot list" where
  "vt_slots (VT_Vote vote) = vote_slots vote"
| "vt_slots (VT_VoteStateUpdate u) = vsu_slots u"
| "vt_slots (VT_CompactVoteStateUpdate u) = vsu_slots u"

text \<open>\<open>slot(i)\<close> indexes without a check: out of range it panics.\<close>

fun vt_slot :: "VoteTransaction \<Rightarrow> nat \<Rightarrow> (Slot, 'e) result" where
  "vt_slot (VT_Vote vote) i = (if i < length (vote_slots vote) then Ok (vote_slots vote ! i) else Panic)"
| "vt_slot (VT_VoteStateUpdate u) i =
     (if i < length (vsu_lockouts u) then Ok (slot (vsu_lockouts u ! i)) else Panic)"
| "vt_slot (VT_CompactVoteStateUpdate u) i =
     (if i < length (vsu_lockouts u) then Ok (slot (vsu_lockouts u ! i)) else Panic)"

fun vt_len :: "VoteTransaction \<Rightarrow> nat" where
  "vt_len (VT_Vote vote) = length (vote_slots vote)"
| "vt_len (VT_VoteStateUpdate u) = length (vsu_lockouts u)"
| "vt_len (VT_CompactVoteStateUpdate u) = length (vsu_lockouts u)"

fun vt_is_empty :: "VoteTransaction \<Rightarrow> bool" where
  "vt_is_empty (VT_Vote vote) \<longleftrightarrow> vote_slots vote = []"
| "vt_is_empty (VT_VoteStateUpdate u) \<longleftrightarrow> vsu_lockouts u = []"
| "vt_is_empty (VT_CompactVoteStateUpdate u) \<longleftrightarrow> vsu_lockouts u = []"

fun vt_hash :: "VoteTransaction \<Rightarrow> Hash" where
  "vt_hash (VT_Vote vote) = vote_hash vote"
| "vt_hash (VT_VoteStateUpdate u) = vsu_hash u"
| "vt_hash (VT_CompactVoteStateUpdate u) = vsu_hash u"

fun vt_timestamp :: "VoteTransaction \<Rightarrow> UnixTimestamp option" where
  "vt_timestamp (VT_Vote vote) = vote_timestamp vote"
| "vt_timestamp (VT_VoteStateUpdate u) = vsu_timestamp u"
| "vt_timestamp (VT_CompactVoteStateUpdate u) = vsu_timestamp u"

fun vt_set_timestamp :: "UnixTimestamp option \<Rightarrow> VoteTransaction \<Rightarrow> VoteTransaction" where
  "vt_set_timestamp ts (VT_Vote vote) = VT_Vote (vote\<lparr>vote_timestamp := ts\<rparr>)"
| "vt_set_timestamp ts (VT_VoteStateUpdate u) = VT_VoteStateUpdate (u\<lparr>vsu_timestamp := ts\<rparr>)"
| "vt_set_timestamp ts (VT_CompactVoteStateUpdate u) = VT_CompactVoteStateUpdate (u\<lparr>vsu_timestamp := ts\<rparr>)"

fun vt_last_voted_slot :: "VoteTransaction \<Rightarrow> Slot option" where
  "vt_last_voted_slot (VT_Vote vote) = vote_last_voted_slot vote"
| "vt_last_voted_slot (VT_VoteStateUpdate u) = vsu_last_voted_slot u"
| "vt_last_voted_slot (VT_CompactVoteStateUpdate u) = vsu_last_voted_slot u"

definition vt_last_voted_slot_hash :: "VoteTransaction \<Rightarrow> (Slot \<times> Hash) option" where
  "vt_last_voted_slot_hash vt = map_option (\<lambda>s. (s, vt_hash vt)) (vt_last_voted_slot vt)"

section \<open>Checking the slots of a vote\<close>

text \<open>The two-pointer loop: \<open>i\<close> runs over the vote's slots, \<open>j\<close> down the slot hashes.\<close>

function check_slots_loop ::
  "Slot option \<Rightarrow> Slot list \<Rightarrow> SlotHash list \<Rightarrow> nat \<Rightarrow> nat \<Rightarrow> nat \<times> nat" where
  "check_slots_loop last_slot vslots slot_hashes i j =
     (if i < length vslots \<and> 0 < j then
        if (case last_slot of None \<Rightarrow> False | Some l \<Rightarrow> vslots ! i \<le> l)
        then check_slots_loop last_slot vslots slot_hashes (i + 1) j
        else if vslots ! i \<noteq> fst (slot_hashes ! (j - 1))
        then check_slots_loop last_slot vslots slot_hashes i (j - 1)
        else check_slots_loop last_slot vslots slot_hashes (i + 1) (j - 1)
      else (i, j))"
  by pat_completeness auto
termination
  by (relation "measure (\<lambda>(l, vs, sh, i, j). (length vs - i) + j)") auto

declare check_slots_loop.simps [simp del]

definition check_slots_are_valid ::
  "VoteState \<Rightarrow> Slot list \<Rightarrow> Hash \<Rightarrow> SlotHash list \<Rightarrow> (unit, VoteError) result" where
  "check_slots_are_valid vs vslots hash slot_hashes =
     (let (i, j) = check_slots_loop (last_voted_slot vs) vslots slot_hashes 0 (length slot_hashes) in
      if j = length slot_hashes then Err VoteTooOld
      else if i \<noteq> length vslots then Err SlotsMismatch
      else if snd (slot_hashes ! j) \<noteq> hash then Err SlotHashMismatch
      else Ok ())"

definition process_vote_unfiltered ::
  "Slot list \<Rightarrow> Vote \<Rightarrow> SlotHash list \<Rightarrow> Epoch \<Rightarrow> Slot \<Rightarrow> bool \<Rightarrow> bool \<Rightarrow> (VoteState, VoteError, unit) exec" where
  "process_vote_unfiltered vslots vote slot_hashes epoch current_slot timely deprecate =
     bind_exec (gets (\<lambda>vs. check_slots_are_valid vs vslots (vote_hash vote) slot_hashes)) (\<lambda>r.
     bind_exec (lift r) (\<lambda>_.
     modify (fold (\<lambda>s. process_next_vote_slot s epoch current_slot timely deprecate) vslots)))"

definition process_vote ::
  "Vote \<Rightarrow> SlotHash list \<Rightarrow> Epoch \<Rightarrow> Slot \<Rightarrow> bool \<Rightarrow> bool \<Rightarrow> (VoteState, VoteError, unit) exec" where
  "process_vote vote slot_hashes epoch current_slot timely deprecate =
     (if vote_slots vote = [] then throw EmptySlots
      else
        let earliest_slot_in_history = (case next_back slot_hashes of Some (s, _) \<Rightarrow> s | None \<Rightarrow> 0);
            vslots = filter (\<lambda>s. earliest_slot_in_history \<le> s) (vote_slots vote)
        in if vslots = [] then throw VotesTooOldAllFiltered
           else process_vote_unfiltered vslots vote slot_hashes epoch current_slot timely deprecate)"

definition process_vote_unchecked :: "Vote \<Rightarrow> (VoteState, VoteError, unit) exec" where
  "process_vote_unchecked vote =
     (if vote_slots vote = [] then throw EmptySlots
      else
        let slot_hashes = map (\<lambda>x. (x, vote_hash vote)) (rev (vote_slots vote)) in
        bind_exec (gets current_epoch) (\<lambda>epoch.
        process_vote_unfiltered (vote_slots vote) vote slot_hashes epoch 0 True True))"

definition process_slot_vote_unchecked :: "Slot \<Rightarrow> VoteState \<Rightarrow> VoteState" where
  "process_slot_vote_unchecked s vs = snd (process_vote_unchecked (vote_new [s] 0) vs)"

definition process_slot_votes_unchecked :: "Slot list \<Rightarrow> VoteState \<Rightarrow> VoteState" where
  "process_slot_votes_unchecked slots vs = fold process_slot_vote_unchecked slots vs"

section \<open>Checking the slots of a proposed tower\<close>

text \<open>
  The loop over the proposed slots (starting with the root, while \<open>root_to_check\<close> is set) and, from
  the oldest on, the slot hashes. It returns the two indices and the indices of the proposed votes
  to drop.
\<close>

function update_slots_loop ::
  "VoteState \<Rightarrow> Lockout list \<Rightarrow> SlotHash list \<Rightarrow> Slot \<Rightarrow> Slot option \<Rightarrow> nat \<Rightarrow> nat \<Rightarrow> nat list \<Rightarrow>
   (nat \<times> nat \<times> nat list, VoteError) result" where
  "update_slots_loop vs lockouts slot_hashes earliest root_to_check index slot_hashes_index to_filter =
     (if index < length lockouts \<and> 0 < slot_hashes_index then
        let proposed_vote_slot = (case root_to_check of Some root \<Rightarrow> root | None \<Rightarrow> slot (lockouts ! index)) in
        if root_to_check = None \<and> 0 < index \<and> proposed_vote_slot \<le> slot (lockouts ! (index - 1))
        then Err SlotsNotOrdered
        else
          let ancestor_slot = fst (slot_hashes ! (slot_hashes_index - 1)) in
          case cmp proposed_vote_slot ancestor_slot of
            Less \<Rightarrow>
              if slot_hashes_index = length slot_hashes then
                if \<not> proposed_vote_slot < earliest then Panic
                else
                  let to_filter' = (if \<not> contains_slot vs proposed_vote_slot \<and> root_to_check = None
                                    then to_filter @ [index] else to_filter) in
                  (case root_to_check of
                     Some new_proposed_root \<Rightarrow>
                       if new_proposed_root \<noteq> proposed_vote_slot \<or> \<not> new_proposed_root < earliest then Panic
                       else update_slots_loop vs lockouts slot_hashes earliest None index
                              slot_hashes_index to_filter'
                   | None \<Rightarrow> update_slots_loop vs lockouts slot_hashes earliest None (index + 1)
                              slot_hashes_index to_filter')
              else if root_to_check \<noteq> None then Err RootOnDifferentFork
              else Err SlotsMismatch
          | Greater \<Rightarrow> update_slots_loop vs lockouts slot_hashes earliest root_to_check index
                         (slot_hashes_index - 1) to_filter
          | Equal \<Rightarrow>
              (if root_to_check \<noteq> None
               then update_slots_loop vs lockouts slot_hashes earliest None index slot_hashes_index to_filter
               else update_slots_loop vs lockouts slot_hashes earliest None (index + 1)
                      (slot_hashes_index - 1) to_filter)
      else Ok (index, slot_hashes_index, to_filter))"
  by pat_completeness auto
termination
  by (relation "measure (\<lambda>(vs, ls, sh, e, r, i, j, f). (length ls - i) + j + (if r = None then 0 else 1))")
    auto

declare update_slots_loop.simps [simp del]

text \<open>\<open>retain\<close> with the running indices of its closure.\<close>

fun retain_loop :: "nat list \<Rightarrow> nat \<Rightarrow> nat \<Rightarrow> 'a list \<Rightarrow> 'a list" where
  "retain_loop to_filter index filter_votes_index [] = []"
| "retain_loop to_filter index filter_votes_index (x # xs) =
     (if filter_votes_index = length to_filter
      then x # retain_loop to_filter (index + 1) filter_votes_index xs
      else if index = to_filter ! filter_votes_index
      then retain_loop to_filter (index + 1) (filter_votes_index + 1) xs
      else x # retain_loop to_filter (index + 1) filter_votes_index xs)"

text \<open>
  The proposed root, replaced by the latest known slot up to it when it is too old to be checked.
\<close>

definition adjust_root :: "VoteState \<Rightarrow> Slot \<Rightarrow> Slot option \<Rightarrow> Slot option" where
  "adjust_root vs earliest root =
     (case root of
        None \<Rightarrow> None
      | Some proposed_root \<Rightarrow>
          if proposed_root < earliest then
            (case find (\<lambda>vote. lv_slot vote \<le> proposed_root) (rev (votes vs)) of
               Some vote \<Rightarrow> Some (lv_slot vote)
             | None \<Rightarrow> root_slot vs)
          else Some proposed_root)"

definition check_update_vote_state_slots_are_valid ::
  "VoteState \<Rightarrow> SlotHash list \<Rightarrow> (VoteStateUpdate, VoteError, unit) exec" where
  "check_update_vote_state_slots_are_valid vs slot_hashes u =
     (case next_back (vsu_lockouts u) of
        None \<Rightarrow> (Err EmptySlots, u)
      | Some l \<Rightarrow>
          let last_slot = slot l in
          if (case next_back (votes vs) of None \<Rightarrow> False | Some v \<Rightarrow> last_slot \<le> lv_slot v)
          then (Err VoteTooOld, u)
          else case next_back slot_hashes of
              None \<Rightarrow> (Err SlotsMismatch, u)
            | Some (earliest, _) \<Rightarrow>
                if last_slot < earliest then (Err VoteTooOld, u)
                else
                  let u' = u\<lparr>vsu_root := adjust_root vs earliest (vsu_root u)\<rparr> in
                  case update_slots_loop vs (vsu_lockouts u') slot_hashes earliest (vsu_root u') 0
                         (length slot_hashes) [] of
                    Err e \<Rightarrow> (Err e, u')
                  | Panic \<Rightarrow> (Panic, u')
                  | Ok (index, slot_hashes_index, to_filter) \<Rightarrow>
                      if index \<noteq> length (vsu_lockouts u') then (Err SlotsMismatch, u')
                      else if \<not> slot_hashes_index < length slot_hashes then (Panic, u')
                      else if last_slot \<noteq> fst (slot_hashes ! slot_hashes_index) then (Panic, u')
                      else if snd (slot_hashes ! slot_hashes_index) \<noteq> vsu_hash u'
                      then (Err SlotHashMismatch, u')
                      else (Ok (), u'\<lparr>vsu_lockouts := retain_loop to_filter 0 0 (vsu_lockouts u')\<rparr>))"

section \<open>Replacing the tower\<close>

text \<open>The loop that checks the proposed votes, with the vote before them.\<close>

fun check_new_votes :: "Slot option \<Rightarrow> LandedVote option \<Rightarrow> LandedVote list \<Rightarrow> (unit, VoteError) result" where
  "check_new_votes new_root previous_vote [] = Ok ()"
| "check_new_votes new_root previous_vote (vote # rest) =
     (if lv_confirmation_count vote = 0 then Err ZeroConfirmations
      else if of_nat MAX_LOCKOUT_HISTORY < lv_confirmation_count vote then Err ConfirmationTooLarge
      else if (case new_root of Some root \<Rightarrow> lv_slot vote \<le> root \<and> root \<noteq> 0 | None \<Rightarrow> False)
      then Err SlotSmallerThanRoot
      else
        case previous_vote of
          None \<Rightarrow> check_new_votes new_root (Some vote) rest
        | Some previous \<Rightarrow>
            if lv_slot vote \<le> lv_slot previous then Err SlotsNotOrdered
            else if lv_confirmation_count previous \<le> lv_confirmation_count vote then Err ConfirmationsNotOrdered
            else if last_locked_out_slot (lv_lockout previous) < lv_slot vote
            then Err NewVoteStateLockoutMismatch
            else check_new_votes new_root (Some vote) rest)"

text \<open>
  The loop over the votes of the current state up to the new root: their number and the credits
  earned for them. The third argument is the rest of the votes.
\<close>

fun root_votes_loop ::
  "VoteState \<Rightarrow> Slot \<Rightarrow> LandedVote list \<Rightarrow> bool \<Rightarrow> bool \<Rightarrow> nat \<Rightarrow> u64 \<Rightarrow> (nat \<times> u64, 'e) result" where
  "root_votes_loop vs new_root [] timely deprecate index earned_credits = Ok (index, earned_credits)"
| "root_votes_loop vs new_root (current_vote # rest) timely deprecate index earned_credits =
     (if lv_slot current_vote \<le> new_root then
        if timely \<or> lv_slot current_vote \<noteq> new_root then
          and_then (expect (checked_add earned_credits (credits_for_vote_at_index vs index timely deprecate)))
            (root_votes_loop vs new_root rest timely deprecate (index + 1))
        else root_votes_loop vs new_root rest timely deprecate (index + 1) earned_credits
      else Ok (index, earned_credits))"

text \<open>
  The loop that compares the two towers, on the votes of the current and the new state that are
  still ahead of its indices; it returns the new votes with the latencies of the known slots.
\<close>

fun merge_votes_loop :: "LandedVote list \<Rightarrow> LandedVote list \<Rightarrow> (LandedVote list, VoteError) result" where
  "merge_votes_loop [] new_state = Ok new_state"
| "merge_votes_loop (current_vote # current) [] = Ok []"
| "merge_votes_loop (current_vote # current) (new_vote # new_state) =
     (case cmp (lv_slot current_vote) (lv_slot new_vote) of
        Less \<Rightarrow>
          if lv_slot new_vote \<le> last_locked_out_slot (lv_lockout current_vote) then Err LockoutConflict
          else merge_votes_loop current (new_vote # new_state)
      | Equal \<Rightarrow>
          if lv_confirmation_count new_vote < lv_confirmation_count current_vote then Err ConfirmationRollBack
          else and_then (merge_votes_loop current new_state)
                 (\<lambda>rest. Ok (new_vote\<lparr>latency := latency current_vote\<rparr> # rest))
      | Greater \<Rightarrow>
          and_then (merge_votes_loop (current_vote # current) new_state) (\<lambda>rest. Ok (new_vote # rest)))"

definition root_rolled_back :: "Slot option \<Rightarrow> Slot option \<Rightarrow> bool" where
  "root_rolled_back new_root current_root \<longleftrightarrow>
     (case (new_root, current_root) of
        (Some new, Some current) \<Rightarrow> new < current
      | (None, Some _) \<Rightarrow> True
      | _ \<Rightarrow> False)"

definition process_new_vote_state ::
  "LandedVote list \<Rightarrow> Slot option \<Rightarrow> UnixTimestamp option \<Rightarrow> Epoch \<Rightarrow> Slot \<Rightarrow> FeatureSet option \<Rightarrow>
   (VoteState, VoteError, unit) exec" where
  "process_new_vote_state new_state new_root timestamp epoch current_slot feature_set vs =
     (if new_state = [] then (Panic, vs)
      else if MAX_LOCKOUT_HISTORY < length new_state then (Err TooManyVotes, vs)
      else if root_rolled_back new_root (root_slot vs) then (Err RootRollBack, vs)
      else
        let timely = (case feature_set of Some f \<Rightarrow> f TimelyVoteCredits | None \<Rightarrow> False);
            deprecate = (case feature_set of Some f \<Rightarrow> f DeprecateUnusedLegacyVotePlumbing | None \<Rightarrow> False);
            checked =
              and_then (check_new_votes new_root None new_state) (\<lambda>_.
              and_then (case new_root of
                          Some root \<Rightarrow> root_votes_loop vs root (votes vs) timely deprecate 0 (if timely then 0 else 1)
                        | None \<Rightarrow> Ok (0, if timely then 0 else 1)) (\<lambda>(index, earned_credits).
              and_then (merge_votes_loop (drop index (votes vs)) new_state) (\<lambda>new_state.
                Ok (earned_credits, new_state))))
        in case checked of
             Err e \<Rightarrow> (Err e, vs)
           | Panic \<Rightarrow> (Panic, vs)
           | Ok (earned_credits, new_state) \<Rightarrow>
               let new_state = (if timely then
                      map (\<lambda>v. if latency v = 0 then v\<lparr>latency := compute_vote_latency (lv_slot v) current_slot\<rparr>
                               else v) new_state
                    else new_state);
                   vs = (if root_slot vs \<noteq> new_root then increment_credits epoch earned_credits vs else vs)
               in bind_exec
                    (case timestamp of
                       Some ts \<Rightarrow> process_timestamp (lv_slot (last new_state)) ts
                     | None \<Rightarrow> ret ()) (\<lambda>_.
                  modify (\<lambda>vs. vs\<lparr>root_slot := new_root, votes := new_state\<rparr>)) vs)"

definition do_process_vote_state_update ::
  "SlotHash list \<Rightarrow> Epoch \<Rightarrow> Slot \<Rightarrow> VoteStateUpdate \<Rightarrow> FeatureSet option \<Rightarrow> (VoteState, VoteError, unit) exec" where
  "do_process_vote_state_update slot_hashes epoch current_slot u feature_set vs =
     (case check_update_vote_state_slots_are_valid vs slot_hashes u of
        (Err e, u') \<Rightarrow> (Err e, vs)
      | (Panic, u') \<Rightarrow> (Panic, vs)
      | (Ok _, u') \<Rightarrow>
          process_new_vote_state (map landed_vote_from (vsu_lockouts u')) (vsu_root u') (vsu_timestamp u')
            epoch current_slot feature_set vs)"

end
