(* ===== verification/Vote_Checks.thy ===== *)
theory Vote_Checks
  imports Vote_Update "HOL-Library.Sublist"
begin

text \<open>
  What the checks of a vote and of a proposed tower establish.
\<close>

section \<open>The slots of a vote\<close>

definition slots_upto :: "nat \<Rightarrow> SlotHash list \<Rightarrow> Slot list" where
  "slots_upto j sh = map fst (rev (take j sh))"

lemma slots_upto_step:
  "0 < j \<Longrightarrow> j \<le> length sh \<Longrightarrow> slots_upto j sh = fst (sh ! (j - 1)) # slots_upto (j - 1) sh"
  by (cases j) (simp_all add: take_Suc_conv_app_nth slots_upto_def)

lemma check_slots_loop_sound:
  assumes "check_slots_loop (last_voted_slot vs) vslots sh i j = (length vslots, j')" and "j \<le> length sh"
  defines "new \<equiv> filter (accepts_vote vs) (drop i vslots)"
  shows "subseq new (slots_upto j sh) \<and>
    (if new = [] then j' = j else j' < j \<and> fst (sh ! j') = last new)"
  using assms(1,2) unfolding new_def
proof (induction "last_voted_slot vs" vslots sh i j rule: check_slots_loop.induct)
  case (1 vslots sh i j)
  note prem = "1.prems"(1) [unfolded check_slots_loop.simps [of _ vslots sh i j] accepts_vote_iff]
  show ?case
  proof (cases "i < length vslots \<and> 0 < j")
    case True
    then have d: "drop i vslots = vslots ! i # drop (i + 1) vslots" by (simp add: Cons_nth_drop_Suc)
    have step: "slots_upto j sh = fst (sh ! (j - 1)) # slots_upto (j - 1) sh"
      using True "1.prems"(2) by (intro slots_upto_step) simp_all
    have j1: "j - 1 \<le> length sh" using "1.prems"(2) by simp
    show ?thesis
    proof (cases "accepts_vote vs (vslots ! i)")
      case old: False
      then have "check_slots_loop (last_voted_slot vs) vslots sh (i + 1) j = (length vslots, j')"
        using prem True by simp
      then show ?thesis
        using "1.hyps"(1) [OF True _ _ "1.prems"(2)] old by (simp add: d accepts_vote_iff)
    next
      case new: True
      then have nn: "\<not> (case last_voted_slot vs of None \<Rightarrow> False | Some l \<Rightarrow> vslots ! i \<le> l)"
        by (simp add: accepts_vote_iff)
      show ?thesis
      proof (cases "vslots ! i = fst (sh ! (j - 1))")
        case False
        then have "check_slots_loop (last_voted_slot vs) vslots sh i (j - 1) = (length vslots, j')"
          using prem True new by simp
        from "1.hyps"(2) [OF True nn False this j1] show ?thesis
          using new by (auto simp: d step dest: subseq_Cons')
      next
        case eq: True
        then have "check_slots_loop (last_voted_slot vs) vslots sh (i + 1) (j - 1) = (length vslots, j')"
          using prem True new by simp
        from "1.hyps"(3) [OF True nn _ this j1] show ?thesis
          using new True eq by (auto simp: d step split: if_splits)
      qed
    qed
  next
    case False
    then show ?thesis using prem by auto
  qed
qed

lemma check_slots_loop_complete:
  assumes "subseq (filter (accepts_vote vs) (drop i vslots)) (slots_upto j sh)"
    and "sorted_wrt (<) vslots" and "i \<le> length vslots" and "j \<le> length sh"
    and "filter (accepts_vote vs) (drop i vslots) \<noteq> [] \<or> i = length vslots"
  shows "fst (check_slots_loop (last_voted_slot vs) vslots sh i j) = length vslots"
  using assms
proof (induction "last_voted_slot vs" vslots sh i j rule: check_slots_loop.induct)
  case (1 vslots sh i j)
  show ?case
  proof (cases "i < length vslots \<and> 0 < j")
    case True
    then have d: "drop i vslots = vslots ! i # drop (i + 1) vslots" by (simp add: Cons_nth_drop_Suc)
    have step: "slots_upto j sh = fst (sh ! (j - 1)) # slots_upto (j - 1) sh"
      using True "1.prems"(4) by (intro slots_upto_step) simp_all
    have j1: "j - 1 \<le> length sh" and i1: "i + 1 \<le> length vslots" using "1.prems"(4) True by simp_all
    show ?thesis
    proof (cases "accepts_vote vs (vslots ! i)")
      case old: False
      have eq: "check_slots_loop (last_voted_slot vs) vslots sh i j =
          check_slots_loop (last_voted_slot vs) vslots sh (i + 1) j"
        by (subst check_slots_loop.simps) (simp only: True old accepts_vote_iff simp_thms if_True)
      have f: "filter (accepts_vote vs) (drop i vslots) = filter (accepts_vote vs) (drop (i + 1) vslots)"
        using old by (simp add: d)
      have c: "(case last_voted_slot vs of None \<Rightarrow> False | Some l \<Rightarrow> vslots ! i \<le> l)"
        using old by (simp only: accepts_vote_iff simp_thms)
      show ?thesis
        unfolding eq
        by (rule "1.hyps"(1) [OF True c _ "1.prems"(2) i1 "1.prems"(4)])
          (use "1.prems"(1,5) True in \<open>simp_all only: f\<close>, auto)
    next
      case new: True
      then have nn: "\<not> (case last_voted_slot vs of None \<Rightarrow> False | Some l \<Rightarrow> vslots ! i \<le> l)"
        by (simp add: accepts_vote_iff)
      show ?thesis
      proof (cases "vslots ! i = fst (sh ! (j - 1))")
        case False
        have "check_slots_loop (last_voted_slot vs) vslots sh i j =
            check_slots_loop (last_voted_slot vs) vslots sh i (j - 1)"
          by (subst check_slots_loop.simps) (simp only: True nn False simp_thms if_True if_False)
        moreover have "subseq (filter (accepts_vote vs) (drop i vslots)) (slots_upto (j - 1) sh)"
          using "1.prems"(1) new False by (simp add: d step)
        ultimately show ?thesis
          using "1.hyps"(2) [OF True nn False _ "1.prems"(2,3) j1 "1.prems"(5)] by (simp only:)
      next
        case eq: True
        have "accepts_vote vs s" if "s \<in> set (drop (i + 1) vslots)" for s
        proof -
          have "sorted_wrt (<) (drop i vslots)" using "1.prems"(2) by (rule sorted_wrt_drop)
          then have "vslots ! i < s" using that by (simp add: d)
          then show ?thesis using new by (auto simp: accepts_vote_def dest: less_trans)
        qed
        then have "filter (accepts_vote vs) (drop (i + 1) vslots) = drop (i + 1) vslots" by simp
        then have ne: "filter (accepts_vote vs) (drop (i + 1) vslots) \<noteq> [] \<or> i + 1 = length vslots"
          using i1 by auto
        have step': "check_slots_loop (last_voted_slot vs) vslots sh i j =
            check_slots_loop (last_voted_slot vs) vslots sh (i + 1) (j - 1)"
          by (subst check_slots_loop.simps) (simp only: True nn eq nn [unfolded eq] simp_thms if_True if_False)
        have sub: "subseq (filter (accepts_vote vs) (drop (i + 1) vslots)) (slots_upto (j - 1) sh)"
          using "1.prems"(1) new eq by (simp add: d step)
        show ?thesis
          unfolding step' by (rule "1.hyps"(3) [OF True nn _ sub "1.prems"(2) i1 j1 ne]) (simp add: eq)
      qed
    qed
  next
    case False
    then have "check_slots_loop (last_voted_slot vs) vslots sh i j = (i, j)"
      by (subst check_slots_loop.simps) (simp only: if_False)
    moreover have "i = length vslots"
    proof (cases "i < length vslots")
      case True
      then have "slots_upto j sh = []" using False by (simp add: slots_upto_def)
      then show ?thesis using "1.prems"(1,5) by simp
    qed (use "1.prems"(3) in simp)
    ultimately show ?thesis by (simp only: fst_conv)
  qed
qed


section \<open>What an accepted vote is\<close>

lemma slots_upto_length: "slots_upto (length sh) sh = rev (map fst sh)"
  by (simp add: slots_upto_def rev_map)

lemma desc_ascending: "sorted_wrt (\<lambda>a b. fst b < fst a) sh \<Longrightarrow> sorted_wrt (<) (rev (map fst (sh :: SlotHash list)))"
  by (simp add: sorted_wrt_rev sorted_wrt_map)

lemma check_slots_are_valid_ok:
  assumes sh: "slot_hashes_ok sh" and ok: "check_slots_are_valid vs vslots hash sh = Ok ()"
  defines "new \<equiv> filter (accepts_vote vs) vslots"
  shows "new \<noteq> []" and "subseq new (rev (map fst sh))" and "map_of sh (last new) = Some hash"
proof -
  obtain i j where ij: "check_slots_loop (last_voted_slot vs) vslots sh 0 (length sh) = (i, j)" by fastforce
  have i: "i = length vslots" and j: "j \<noteq> length sh" and h: "snd (sh ! j) = hash"
    using ok by (auto simp: check_slots_are_valid_def ij split: if_splits)
  note sound = check_slots_loop_sound [OF ij [unfolded i], simplified]
  show "new \<noteq> []" using sound j by (auto simp: new_def)
  then have "j < length sh" and "fst (sh ! j) = last new" using sound by (auto simp: new_def)
  then show "map_of sh (last new) = Some hash"
    using desc_map_of [of sh j] sh h by (simp add: slot_hashes_ok_def)
  show "subseq new (rev (map fst sh))" using sound by (simp add: slots_upto_length new_def)
qed

text \<open>
  C17: the two-pointer check accepts a vote (with ascending slots) exactly when it has a slot above
  the last voted one, the slot hashes hold every such slot, and the vote's hash is the one recorded
  for the last of them.
\<close>

theorem check_slots_are_valid_iff:
  assumes sh: "slot_hashes_ok sh" and asc: "sorted_wrt (<) vslots"
  shows "check_slots_are_valid vs vslots hash sh = Ok () \<longleftrightarrow>
    (let new = filter (accepts_vote vs) vslots in
     new \<noteq> [] \<and> set new \<subseteq> dom (slot_hashes_get sh) \<and> slot_hashes_get sh (last new) = Some hash)"
proof -
  let ?new = "filter (accepts_vote vs) vslots"
  have desc: "sorted_wrt (\<lambda>a b. fst b < fst a) sh" using sh by (simp add: slot_hashes_ok_def)
  have dom: "dom (map_of sh) = set (rev (map fst sh))" by (simp add: dom_map_of_conv_image_fst)
  show ?thesis
    unfolding Let_def slot_hashes_get_desc [OF desc, abs_def]
  proof (intro iffI conjI)
    assume "check_slots_are_valid vs vslots hash sh = Ok ()"
    note ok = check_slots_are_valid_ok [OF sh this]
    show "?new \<noteq> []" and "map_of sh (last ?new) = Some hash" by (fact ok)+
    show "set ?new \<subseteq> dom (map_of sh)" unfolding dom using list_emb_set [OF ok(2)] by blast
  next
    assume new: "?new \<noteq> [] \<and> set ?new \<subseteq> dom (map_of sh) \<and> map_of sh (last ?new) = Some hash"
    have "subseq ?new (rev (map fst sh))"
      using new asc desc_ascending [OF desc]
      by (intro sorted_subset_imp_subseq) (auto simp: dom sorted_wrt_filter intro: strict_sorted_imp_sorted)
    then have "fst (check_slots_loop (last_voted_slot vs) vslots sh 0 (length sh)) = length vslots"
      using new asc by (intro check_slots_loop_complete) (simp_all add: slots_upto_length)
    then obtain j where j: "check_slots_loop (last_voted_slot vs) vslots sh 0 (length sh) = (length vslots, j)"
      by (metis prod.collapse)
    have "j < length sh" and "fst (sh ! j) = last ?new"
      using check_slots_loop_sound [OF j] new by simp_all
    then show "check_slots_are_valid vs vslots hash sh = Ok ()"
      using new desc_map_of [OF desc, of j] by (simp add: check_slots_are_valid_def j)
  qed
qed

theorem check_slots_are_valid_iff_witness:
  "check_slots_are_valid sample_tower [2, 7, 9] 3 [(9, 3), (8, 2), (7, 1), (2, 0)] = Ok ()"
proof -
  have "slot_hashes_ok [(9, 3), (8, 2), (7, 1), (2, 0)]"
    by (simp add: slot_hashes_ok_def SLOT_HASHES_MAX_ENTRIES_def)
  moreover have "map_of [(9, 3), (8, 2), (7, 1), (2, 0)] (9 :: Slot) = Some (3 :: Hash)" by simp
  ultimately show ?thesis
    using check_slots_are_valid_iff [of "[(9, 3), (8, 2), (7, 1), (2, 0)]" "[2, 7, 9]" sample_tower 3]
    by (simp add: accepts_vote_def sample_tower_eval slot_hashes_get_desc slot_hashes_ok_def Let_def dom_def)
qed


lemma subseq_sorted_wrt: "subseq xs ys \<Longrightarrow> sorted_wrt P ys \<Longrightarrow> sorted_wrt P xs"
  by (induction rule: list_emb.induct) (auto dest: list_emb_set)

lemma last_slot_push_vote: "lv_slot (last (push_vote vs w)) = lv_slot w"
proof -
  have "push_vote vs w \<noteq> []" by (metis length_push_vote list.size(3) nat.distinct(1))
  then show ?thesis by (simp add: last_conv_nth push_vote_nth)
qed

lemma last_voted_slot_process_next:
  assumes "accepts_vote vs s"
  shows "last_voted_slot (process_next_vote_slot s e cur t d vs) = Some s"
proof -
  from assms obtain w where "lv_slot w = s"
    and "votes (process_next_vote_slot s e cur t d vs) = push_vote (kept_votes s (votes vs)) w"
    by (rule process_next_vote_slot_votes)
  moreover have "push_vote vs w \<noteq> []" for vs w by (metis length_push_vote list.size(3) nat.distinct(1))
  ultimately show ?thesis
    using last_slot_push_vote [of "kept_votes s (votes vs)" w]
    by (simp add: last_voted_slot_def last_lockout_def next_back_def lv_slot_def)
qed

lemma accepts_vote_last: "last_voted_slot vs = Some l \<Longrightarrow> accepts_vote vs s \<longleftrightarrow> l < s"
  using accepts_vote_iff [where vs = vs and s = s] by auto

lemma fold_process_next_new:
  assumes "sorted_wrt (<) (filter (accepts_vote vs) ss)"
  shows "fold (\<lambda>s. process_next_vote_slot s e cur t d) ss vs =
    fold (\<lambda>s. process_next_vote_slot s e cur t d) (filter (accepts_vote vs) ss) vs"
  using assms
proof (induction ss arbitrary: vs)
  case (Cons s ss)
  show ?case
  proof (cases "accepts_vote vs s")
    case True
    let ?vs = "process_next_vote_slot s e cur t d vs"
    have "accepts_vote ?vs x \<longleftrightarrow> accepts_vote vs x" if "x \<in> set ss" for x
      using that Cons.prems True accepts_vote_last [OF last_voted_slot_process_next [OF True]]
      by (auto simp: accepts_vote_def intro: less_trans)
    then have "filter (accepts_vote ?vs) ss = filter (accepts_vote vs) ss" by (rule filter_cong [OF refl])
    then show ?thesis using Cons.IH [of ?vs] Cons.prems True by simp
  qed (use Cons in \<open>simp add: process_next_vote_slot_ignored\<close>)
qed simp

lemma fold_process_next_inv:
  "tower_inv vs \<Longrightarrow> tower_inv (fold (\<lambda>s. process_next_vote_slot s e cur t d) ss vs)"
  by (induction ss arbitrary: vs) (simp_all add: process_next_vote_slot_inv)

lemma fold_process_next_last:
  assumes "ss \<noteq> []" and "sorted_wrt (<) ss" and "\<And>s. s \<in> set ss \<Longrightarrow> accepts_vote vs s"
  shows "last_voted_slot (fold (\<lambda>s. process_next_vote_slot s e cur t d) ss vs) = Some (last ss)"
  using assms
proof (induction ss arbitrary: vs)
  case (Cons s ss)
  have "last_voted_slot (process_next_vote_slot s e cur t d vs) = Some s"
    using Cons.prems(3) by (simp add: last_voted_slot_process_next)
  then show ?case
    using Cons.IH [of "process_next_vote_slot s e cur t d vs"] Cons.prems by (cases "ss = []") (auto simp: accepts_vote_last)
qed simp

text \<open>
  C15: when \<open>process_vote\<close> succeeds, it has voted, one after the other and in ascending order, for
  all slots of the vote that are above the last voted slot and not older than the history of slot
  hashes (older ones are dropped); there is such a slot, the slot hashes hold every one of them, and the
  vote's hash is the one of the last, which is now the last voted slot; the tower is well formed. When
  it fails, the vote state is as before; it never panics.
\<close>

theorem process_vote_spec:
  assumes inv: "tower_inv vs" and sh: "slot_hashes_ok sh"
  shows "case process_vote vote sh epoch current_slot timely deprecate vs of
      (Ok _, vs') \<Rightarrow> tower_inv vs' \<and>
        (let new = filter (\<lambda>s. accepts_vote vs s \<and> (\<exists>k \<in> dom (slot_hashes_get sh). k \<le> s)) (vote_slots vote) in
           new \<noteq> [] \<and> sorted_wrt (<) new \<and> set new \<subseteq> dom (slot_hashes_get sh) \<and>
           slot_hashes_get sh (last new) = Some (vote_hash vote) \<and> last_voted_slot vs' = Some (last new) \<and>
           vs' = fold (\<lambda>s. process_next_vote_slot s epoch current_slot timely deprecate) new vs)
    | (Err _, vs') \<Rightarrow> vs' = vs
    | (Panic, _) \<Rightarrow> False"
proof -
  define earliest where "earliest = (case next_back sh of Some (s, _) \<Rightarrow> s | None \<Rightarrow> 0)"
  define vslots where "vslots = filter (\<lambda>s. earliest \<le> s) (vote_slots vote)"
  define new where "new = filter (accepts_vote vs) vslots"
  let ?fold = "\<lambda>ss. fold (\<lambda>s. process_next_vote_slot s epoch current_slot timely deprecate) ss vs"
  have desc: "sorted_wrt (\<lambda>a b. fst b < fst a) sh" using sh by (simp add: slot_hashes_ok_def)
  note get = slot_hashes_get_desc [OF desc, abs_def]
  have early: "earliest \<le> s \<longleftrightarrow> (\<exists>k \<in> dom (map_of sh). k \<le> s)" if "sh \<noteq> []" for s
    using desc that by (cases sh rule: rev_cases)
      (auto simp: earliest_def next_back_def dom_map_of_conv_image_fst sorted_wrt_append less_imp_le intro: order_trans [OF less_imp_le])
  show ?thesis
  proof (cases "vote_slots vote = [] \<or> vslots = []")
    case True
    then show ?thesis
      by (auto simp: process_vote_def exec_simps earliest_def [symmetric] vslots_def [symmetric] Let_def)
  next
    case False
    then have run: "process_vote vote sh epoch current_slot timely deprecate vs =
        process_vote_unfiltered vslots vote sh epoch current_slot timely deprecate vs"
      by (simp add: process_vote_def earliest_def [symmetric] vslots_def [symmetric])
    show ?thesis
    proof (cases "check_slots_are_valid vs vslots (vote_hash vote) sh")
      case (Ok u)
      then have "check_slots_are_valid vs vslots (vote_hash vote) sh = Ok ()" by simp
      note ok = check_slots_are_valid_ok [OF sh this, folded new_def]
      have asc: "sorted_wrt (<) new"
        using subseq_sorted_wrt [OF ok(2) desc_ascending [OF desc]] .
      have dom: "set new \<subseteq> dom (map_of sh)"
        using list_emb_set [OF ok(2)] by (auto simp: dom_map_of_conv_image_fst)
      have "sh \<noteq> []" using ok(1,2) by auto
      from early [OF this] have "new = filter (\<lambda>s. accepts_vote vs s \<and> (\<exists>k \<in> dom (map_of sh). k \<le> s)) (vote_slots vote)"
        unfolding new_def vslots_def filter_filter by (metis (no_types, lifting))
      moreover have "last_voted_slot (?fold new) = Some (last new)"
        using ok(1) asc by (intro fold_process_next_last) (auto simp: new_def)
      moreover have "?fold vslots = ?fold new"
        using asc fold_process_next_new unfolding new_def by blast
      ultimately show ?thesis
        using ok(1,3) asc dom fold_process_next_inv [OF inv]
        by (auto simp: Let_def run process_vote_unfiltered_def exec_simps Ok get)
    qed (auto simp: run process_vote_unfiltered_def exec_simps check_slots_are_valid_def Let_def
        split: prod.splits if_splits)
  qed
qed

theorem process_vote_spec_witness:
  "\<exists>vs'. process_vote (vote_new [7] 1) [(8, 2), (7, 1), (2, 0)] 0 10 True True sample_tower = (Ok (), vs') \<and>
     tower_inv vs' \<and> last_voted_slot vs' = Some 7"
proof -
  let ?sh = "[(8, 2), (7, 1), (2, 0)] :: SlotHash list"
  have sh: "slot_hashes_ok ?sh" by (simp add: slot_hashes_ok_def SLOT_HASHES_MAX_ENTRIES_def)
  have "check_slots_are_valid sample_tower [7] 1 ?sh = Ok ()"
    by (simp add: check_slots_are_valid_def check_slots_loop.simps last_voted_slot_def last_lockout_def
        next_back_def sample_tower_eval)
  then have run: "fst (process_vote (vote_new [7] 1) ?sh 0 10 True True sample_tower) = Ok ()"
    by (simp add: process_vote_def process_vote_unfiltered_def vote_new_def next_back_def exec_simps)
  have "last new = 7" if "new = filter P [7]" "new \<noteq> []" for new :: "Slot list" and P
    using that by (auto split: if_splits)
  with process_vote_spec [OF sample_tower_inv sh, of "vote_new [7] 1" 0 10 True True] run
  show ?thesis by (auto simp: vote_new_def Let_def split: result.splits prod.splits if_splits)
qed

end
