(* ===== verification/Vote_Replace.thy ===== *)
theory Vote_Replace
  imports Vote_Checks Vote_Authority
begin

text \<open>
  What replacing the tower establishes: \<open>process_new_vote_state\<close> accepts only well-formed towers that
  keep to the lockouts of the current one.
\<close>

section \<open>The proposed votes\<close>

definition vote_step :: "LandedVote \<Rightarrow> LandedVote \<Rightarrow> bool" where
  "vote_step v w \<longleftrightarrow> lv_slot v < lv_slot w \<and> conf w < conf v \<and> is_locked_out_at_slot (lv_lockout v) (lv_slot w)"

lemma check_new_votes_iff:
  "check_new_votes root prev ws = Ok () \<longleftrightarrow>
     (\<forall>v \<in> set ws. 1 \<le> conf v \<and> conf v \<le> 31 \<and> (case root of None \<Rightarrow> True | Some r \<Rightarrow> r < lv_slot v \<or> r = 0)) \<and>
     successively vote_step ((case prev of None \<Rightarrow> [] | Some p \<Rightarrow> [p]) @ ws)"
proof (induction root prev ws rule: check_new_votes.induct)
  case (2 root prev w ws)
  have c: "lv_confirmation_count w = 0 \<longleftrightarrow> \<not> 1 \<le> conf w"
    and c': "of_nat MAX_LOCKOUT_HISTORY < lv_confirmation_count w \<longleftrightarrow> \<not> conf w \<le> 31"
    by (auto simp: word_less_nat_alt MAX_LOCKOUT_HISTORY_def unat_eq_0 [symmetric] Suc_le_eq)
  have r: "(case root of None \<Rightarrow> False | Some r \<Rightarrow> lv_slot w \<le> r \<and> r \<noteq> 0) \<longleftrightarrow>
      \<not> (case root of None \<Rightarrow> True | Some r \<Rightarrow> r < lv_slot w \<or> r = 0)"
    by (auto split: option.split)
  show ?case
  proof (cases prev)
    case None
    then show ?thesis using 2 by (auto simp: c c' r)
  next
    case (Some p)
    have s: "vote_step p w \<longleftrightarrow> \<not> lv_slot w \<le> lv_slot p \<and> \<not> lv_confirmation_count p \<le> lv_confirmation_count w \<and>
        \<not> last_locked_out_slot (lv_lockout p) < lv_slot w"
      by (auto simp: vote_step_def is_locked_out_at_slot_def word_le_nat_alt word_less_nat_alt)
    show ?thesis using 2 Some by (auto simp: c c' r s)
  qed
qed (simp split: option.split)

lemma check_new_votes_tower:
  assumes "check_new_votes root None ws = Ok ()" and "length ws \<le> 31" and "ws \<noteq> []"
  shows "tower_ok ws" and "root_ok root ws"
proof -
  from assms(1) have v: "\<forall>v \<in> set ws. 1 \<le> conf v \<and> conf v \<le> 31"
    and r: "\<forall>v \<in> set ws. case root of None \<Rightarrow> True | Some r \<Rightarrow> r < lv_slot v \<or> r = 0"
    and s: "successively vote_step ws"
    by (simp_all add: check_new_votes_iff)
  have "successively (\<lambda>v w. lv_slot v < lv_slot w \<and> conf w < conf v) ws"
    using s by (rule successively_mono) (simp add: vote_step_def)
  moreover have "transp (\<lambda>v w. lv_slot v < lv_slot w \<and> conf w < conf v)"
    by (auto simp: transp_def intro: less_trans)
  ultimately have "sorted_wrt (\<lambda>v w. lv_slot v < lv_slot w \<and> conf w < conf v) ws"
    by (simp add: successively_conv_sorted_wrt)
  moreover have "successively (\<lambda>v w. is_locked_out_at_slot (lv_lockout v) (lv_slot w)) ws"
    using s by (rule successively_mono) (simp add: vote_step_def)
  ultimately show "tower_ok ws" using v assms(2) by (simp add: tower_ok_def MAX_LOCKOUT_HISTORY_def)
  show "root_ok root ws" using r assms(3) by (auto simp: root_ok_def split: option.splits)
qed

section \<open>The two towers\<close>

text \<open>
  A new tower keeps to the lockout of a vote when the first of its votes from that slot on is for the
  same slot with no fewer confirmations, or beyond the lockout.
\<close>

definition respects_lockout :: "LandedVote list \<Rightarrow> LandedVote \<Rightarrow> bool" where
  "respects_lockout ws v \<longleftrightarrow>
     (case find (\<lambda>w. lv_slot v \<le> lv_slot w) ws of
        None \<Rightarrow> True
      | Some w \<Rightarrow> if lv_slot w = lv_slot v then conf v \<le> conf w
                  else \<not> is_locked_out_at_slot (lv_lockout v) (lv_slot w))"

definition copy_latency :: "LandedVote list \<Rightarrow> LandedVote \<Rightarrow> LandedVote" where
  "copy_latency vs w =
     (case find (\<lambda>v. lv_slot v = lv_slot w) vs of None \<Rightarrow> w | Some v \<Rightarrow> w\<lparr>latency := latency v\<rparr>)"

abbreviation slots_ascending :: "LandedVote list \<Rightarrow> bool" where
  "slots_ascending \<equiv> sorted_wrt (\<lambda>v w. lv_slot v < lv_slot w)"

lemma map_copy_latency_cong:
  "(\<And>w. w \<in> set ws \<Longrightarrow> copy_latency us w = copy_latency vs w) \<Longrightarrow> map (copy_latency us) ws = map (copy_latency vs) ws"
  by (rule map_cong) simp_all

lemma copy_latency_Cons:
  "copy_latency (v # vs) w = (if lv_slot v = lv_slot w then w\<lparr>latency := latency v\<rparr> else copy_latency vs w)"
  by (simp add: copy_latency_def)

lemma merge_votes_loop_not_panic: "merge_votes_loop vs ws \<noteq> Panic"
proof (induction vs ws rule: merge_votes_loop.induct)
  case (3 v vs w ws)
  then show ?case by (auto split: ordering.split)
qed simp_all

lemma respects_lockout_Cons:
  "respects_lockout (w # ws) v \<longleftrightarrow>
    (if lv_slot v < lv_slot w then \<not> is_locked_out_at_slot (lv_lockout v) (lv_slot w)
     else if lv_slot v = lv_slot w then conf v \<le> conf w else respects_lockout ws v)"
  by (auto simp: respects_lockout_def)

lemma merge_votes_loop_spec:
  assumes "slots_ascending vs" and "slots_ascending ws"
  shows "merge_votes_loop vs ws = Ok res \<longleftrightarrow>
    (\<forall>v \<in> set vs. respects_lockout ws v) \<and> res = map (copy_latency vs) ws"
  using assms
proof (induction vs ws arbitrary: res rule: merge_votes_loop.induct)
  case (1 ws)
  have "map (copy_latency []) ws = ws" by (rule map_idI) (simp add: copy_latency_def)
  then show ?case by auto
next
  case (2 v vs)
  show ?case by (auto simp: respects_lockout_def)
next
  case (3 v vs w ws)
  have vs: "lv_slot v < lv_slot u" if "u \<in> set vs" for u using that "3.prems" by simp
  have ws: "lv_slot w < lv_slot u" if "u \<in> set ws" for u using that "3.prems" by simp
  consider "cmp (lv_slot v) (lv_slot w) = Less" | "cmp (lv_slot v) (lv_slot w) = Equal"
    | "cmp (lv_slot v) (lv_slot w) = Greater" by (cases "cmp (lv_slot v) (lv_slot w)")
  then show ?case
  proof cases
    case 1
    then have lt: "lv_slot v < lv_slot w" by (simp add: cmp_def split: if_splits)
    then have "lv_slot v < lv_slot u" if "u \<in> set (w # ws)" for u
      using that ws [of u] by (auto intro: less_trans)
    then have "copy_latency (v # vs) u = copy_latency vs u" if "u \<in> set (w # ws)" for u
      using that less_imp_neq by (metis copy_latency_Cons)
    then have "map (copy_latency (v # vs)) (w # ws) = map (copy_latency vs) (w # ws)" by (simp cong: map_cong)
    then show ?thesis
      using "3.IH"(1) [OF 1] "3.prems" lt unfolding merge_votes_loop.simps 1 ordering.case
      by (auto simp: respects_lockout_Cons is_locked_out_at_slot_def not_le)
  next
    case 2
    then have eq: "lv_slot v = lv_slot w" by (simp add: cmp_def split: if_splits)
    then have "copy_latency (v # vs) u = copy_latency vs u" if "u \<in> set ws" for u
      using that ws [of u] by (auto simp: copy_latency_Cons)
    then have "map (copy_latency (v # vs)) ws = map (copy_latency vs) ws" by (simp cong: map_cong)
    moreover have "respects_lockout (w # ws) u = respects_lockout ws u" if "u \<in> set vs" for u
      using vs [OF that] eq by (auto simp: respects_lockout_Cons)
    moreover have "lv_confirmation_count w < lv_confirmation_count v \<longleftrightarrow> \<not> conf v \<le> conf w"
      by (auto simp: word_less_nat_alt)
    ultimately show ?thesis
      using "3.IH"(2) [OF 2] "3.prems" eq unfolding merge_votes_loop.simps 2 ordering.case
      by (auto simp: respects_lockout_Cons copy_latency_Cons)
  next
    case c3: 3
    then have gt: "lv_slot w < lv_slot v" by (simp add: cmp_def split: if_splits)
    then have "respects_lockout (w # ws) u = respects_lockout ws u" if "u \<in> set (v # vs)" for u
      using vs [of u] that by (auto simp: respects_lockout_Cons dest: less_trans)
    moreover have "copy_latency (v # vs) w = w"
    proof -
      have "find (\<lambda>u. lv_slot u = lv_slot w) (v # vs) = None"
        using gt vs less_asym by (fastforce simp: find_None_iff)
      then show ?thesis by (simp add: copy_latency_def)
    qed
    ultimately show ?thesis
      using "3.IH"(3) [OF c3] "3.prems" unfolding merge_votes_loop.simps c3 ordering.case by auto
  qed
qed

section \<open>The credits for the newly rooted votes\<close>

lemma root_votes_loop_bound:
  assumes "vs' = drop i (votes vs)" and "i \<le> length (votes vs)" and "length (votes vs) \<le> 31"
    and "unat c \<le> 1 + 16 * i"
  shows "\<exists>j c'. root_votes_loop vs r vs' timely deprecate i c = Ok (j, c') \<and>
    drop j (votes vs) = dropWhile (\<lambda>v. lv_slot v \<le> r) vs'"
  using assms
proof (induction vs r vs' timely deprecate i c rule: root_votes_loop.induct)
  case (1 vs r timely deprecate i c)
  then show ?case by simp
next
  case (2 vs r v rest timely deprecate i c)
  let ?n = "credits_for_vote_at_index vs i timely deprecate"
  have i: "i < length (votes vs)" using "2.prems"(1,2) by (cases "i < length (votes vs)") simp_all
  have d: "rest = drop (i + 1) (votes vs)"
    using "2.prems"(1) by (metis Suc_eq_plus1 drop_Suc list.sel(3) tl_drop)
  have n: "unat ?n \<le> 16" using credits_for_vote_at_index_nat [OF i] by (auto simp: latency_credits_def)
  have "unat c + unat ?n < 2 ^ 64" using n "2.prems"(2,3,4) by simp
  then obtain c' where c': "checked_add c ?n = Some c'" "unat c' = unat c + unat ?n"
    by (cases "checked_add c ?n") (auto simp: checked_add_None_iff checked_add_Some_iff)
  have le: "i + 1 \<le> length (votes vs)" using i by simp
  show ?case
  proof (cases "lv_slot v \<le> r")
    case True
    show ?thesis
    proof (cases "timely \<or> lv_slot v \<noteq> r")
      case add: True
      have "unat c' \<le> 1 + 16 * (i + 1)" using c' n "2.prems"(4) by simp
      then show ?thesis using "2.IH"(1) [OF True add d le "2.prems"(3)] True add c'(1) by auto
    next
      case add: False
      have "unat c \<le> 1 + 16 * (i + 1)" using "2.prems"(4) by simp
      then show ?thesis using "2.IH"(2) [OF True add d le "2.prems"(3)] True add by auto
    qed
  next
    case False
    then show ?thesis using "2.prems"(1) [symmetric] by simp
  qed
qed

section \<open>Replacing the tower\<close>

lemma tower_slots_ascending: "tower_ok vs \<Longrightarrow> slots_ascending vs"
  unfolding tower_ok_def by (auto elim: sorted_wrt_mono_rel [rotated])

text \<open>The votes of the current tower that the new root leaves.\<close>

definition unrooted_votes :: "Slot option \<Rightarrow> LandedVote list \<Rightarrow> LandedVote list" where
  "unrooted_votes root vs = (case root of None \<Rightarrow> vs | Some r \<Rightarrow> dropWhile (\<lambda>v. lv_slot v \<le> r) vs)"

lemma set_unrooted_votes:
  assumes "slots_ascending vs"
  shows "set (unrooted_votes root vs) = {v \<in> set vs. case root of None \<Rightarrow> True | Some r \<Rightarrow> r < lv_slot v}"
  using assms
proof (cases root)
  case (Some r)
  show ?thesis
    using assms unfolding unrooted_votes_def Some option.case
    by (induction vs) (auto dest: less_trans)
qed (simp add: unrooted_votes_def)

lemma dropWhile_ascending: "slots_ascending vs \<Longrightarrow> slots_ascending (unrooted_votes root vs)"
  by (auto simp: unrooted_votes_def sorted_wrt_dropWhile split: option.split)

lemma check_new_votes_not_panic: "check_new_votes root prev ws \<noteq> Panic"
  by (induction root prev ws rule: check_new_votes.induct) (auto split: option.splits)

text \<open>The last steps, once the checks have passed.\<close>

definition finish_new_vote_state ::
  "LandedVote list \<Rightarrow> Slot option \<Rightarrow> UnixTimestamp option \<Rightarrow> Epoch \<Rightarrow> Slot \<Rightarrow> bool \<Rightarrow> u64 \<Rightarrow> (VoteState, VoteError, unit) exec" where
  "finish_new_vote_state ws root timestamp epoch current_slot timely earned_credits vs =
     (let ws = (if timely then
            map (\<lambda>v. if latency v = 0 then v\<lparr>latency := compute_vote_latency (lv_slot v) current_slot\<rparr> else v) ws
          else ws);
          vs = (if root_slot vs \<noteq> root then increment_credits epoch earned_credits vs else vs)
      in bind_exec
           (case timestamp of Some ts \<Rightarrow> process_timestamp (lv_slot (last ws)) ts | None \<Rightarrow> ret ()) (\<lambda>_.
         modify (\<lambda>vs. vs\<lparr>root_slot := root, votes := ws\<rparr>)) vs)"

lemma process_new_vote_state_cases:
  assumes ok: "tower_ok (votes vs)" and ne: "ws \<noteq> []"
  obtains (rejected) e where "process_new_vote_state ws root ts epoch cur fs vs = (Err e, vs)"
  | (accepted) timely earned where
      "process_new_vote_state ws root ts epoch cur fs vs =
         finish_new_vote_state (map (copy_latency (unrooted_votes root (votes vs))) ws) root ts epoch cur timely earned vs"
      and "length ws \<le> 31" and "\<not> root_rolled_back root (root_slot vs)" and "check_new_votes root None ws = Ok ()"
      and "\<forall>v \<in> set (unrooted_votes root (votes vs)). respects_lockout ws v"
proof (cases "length ws \<le> 31 \<and> \<not> root_rolled_back root (root_slot vs) \<and> check_new_votes root None ws = Ok ()")
  case True
  then have tw: "tower_ok ws" using check_new_votes_tower ne by blast
  define timely where "timely = (case fs of Some f \<Rightarrow> f TimelyVoteCredits | None \<Rightarrow> False)"
  define deprecate where "deprecate = (case fs of Some f \<Rightarrow> f DeprecateUnusedLegacyVotePlumbing | None \<Rightarrow> False)"
  define start :: u64 where "start = (if timely then 0 else 1)"
  have "length (votes vs) \<le> 31" using ok by (simp add: tower_ok_nth)
  then have "\<exists>j c. root_votes_loop vs r (votes vs) timely deprecate 0 start = Ok (j, c) \<and>
      drop j (votes vs) = dropWhile (\<lambda>v. lv_slot v \<le> r) (votes vs)" for r
    by (intro root_votes_loop_bound) (simp_all add: start_def)
  then have "\<exists>j c. (case root of Some r \<Rightarrow> root_votes_loop vs r (votes vs) timely deprecate 0 start
      | None \<Rightarrow> Ok (0, start)) = (Ok (j, c) :: (_, VoteError) result) \<and>
      drop j (votes vs) = unrooted_votes root (votes vs)"
    by (cases root) (simp_all add: unrooted_votes_def)
  then obtain j c where loop: "(case root of Some r \<Rightarrow> root_votes_loop vs r (votes vs) timely deprecate 0 start
      | None \<Rightarrow> Ok (0, start)) = (Ok (j, c) :: (_, VoteError) result)"
    and j: "drop j (votes vs) = unrooted_votes root (votes vs)" by blast
  have run: "process_new_vote_state ws root ts epoch cur fs vs =
      (case merge_votes_loop (unrooted_votes root (votes vs)) ws of
         Err e \<Rightarrow> (Err e, vs) | Panic \<Rightarrow> (Panic, vs)
       | Ok ws' \<Rightarrow> finish_new_vote_state ws' root ts epoch cur timely c vs)"
    using True ne unfolding process_new_vote_state_def finish_new_vote_state_def MAX_LOCKOUT_HISTORY_def
      timely_def [symmetric] deprecate_def [symmetric] Let_def start_def [symmetric]
    by (simp add: loop j split: result.split cong: option.case_cong)
  note merge = merge_votes_loop_spec [OF dropWhile_ascending [OF tower_slots_ascending [OF ok]]
      tower_slots_ascending [OF tw], of root]
  show ?thesis
  proof (cases "merge_votes_loop (unrooted_votes root (votes vs)) ws")
    case (Ok res)
    with merge have r: "\<forall>v \<in> set (unrooted_votes root (votes vs)). respects_lockout ws v"
      and res: "res = map (copy_latency (unrooted_votes root (votes vs))) ws" by blast+
    from run have "process_new_vote_state ws root ts epoch cur fs vs =
        finish_new_vote_state res root ts epoch cur timely c vs" by (simp only: Ok result.case)
    then show ?thesis using accepted [of timely c] r True unfolding res by blast
  next
    case (Err e)
    then show ?thesis using rejected run by simp
  qed (simp add: merge_votes_loop_not_panic)
next
  case False
  have "\<exists>e. process_new_vote_state ws root ts epoch cur fs vs = (Err e, vs)"
    using False ne check_new_votes_not_panic [of root None ws]
    by (cases "check_new_votes root None ws") (auto simp: process_new_vote_state_def MAX_LOCKOUT_HISTORY_def)
  then show ?thesis using rejected by blast
qed

lemma process_timestamp_cases:
  "(\<exists>vs'. process_timestamp s t vs = (Ok (), vs')) \<or> process_timestamp s t vs = (Err TimestampTooOld, vs)"
  by (simp add: process_timestamp_spec Let_def)

lemma finish_new_vote_state_cases:
  obtains vs' where "finish_new_vote_state ws root ts epoch cur timely c vs = (Ok (), vs')"
    and "root_slot vs' = root" and "map lv_lockout (votes vs') = map lv_lockout ws"
  | vs' where "finish_new_vote_state ws root ts epoch cur timely c vs = (Err TimestampTooOld, vs')"
    and "votes vs' = votes vs" and "root_slot vs' = root_slot vs"
proof -
  define ws' where "ws' = (if timely then
      map (\<lambda>v. if latency v = 0 then v\<lparr>latency := compute_vote_latency (lv_slot v) cur\<rparr> else v) ws else ws)"
  define vs0 where "vs0 = (if root_slot vs \<noteq> root then increment_credits epoch c vs else vs)"
  have l: "map lv_lockout ws' = map lv_lockout ws" by (simp add: ws'_def comp_def if_distrib cong: if_cong)
  have vs0: "votes vs0 = votes vs" "root_slot vs0 = root_slot vs" by (simp_all add: vs0_def)
  have run: "finish_new_vote_state ws root ts epoch cur timely c vs =
      bind_exec (case ts of Some t \<Rightarrow> process_timestamp (lv_slot (last ws')) t | None \<Rightarrow> ret ())
        (\<lambda>_. modify (\<lambda>vs. vs\<lparr>root_slot := root, votes := ws'\<rparr>)) vs0"
    unfolding finish_new_vote_state_def Let_def ws'_def vs0_def ..
  show ?thesis
  proof (cases ts)
    case None
    show ?thesis
      by (rule that(1) [of "vs0\<lparr>root_slot := root, votes := ws'\<rparr>"]) (use run in \<open>simp_all add: None exec_simps l\<close>)
  next
    case (Some t)
    consider vs1 where "process_timestamp (lv_slot (last ws')) t vs0 = (Ok (), vs1)"
      | "process_timestamp (lv_slot (last ws')) t vs0 = (Err TimestampTooOld, vs0)"
      using process_timestamp_cases [of "lv_slot (last ws')" t vs0] by blast
    then show ?thesis
    proof cases
      case (1 vs1)
      show ?thesis
        by (rule that(1) [of "vs1\<lparr>root_slot := root, votes := ws'\<rparr>"]) (use run in \<open>simp_all add: Some 1 exec_simps l\<close>)
    next
      case 2
      show ?thesis by (rule that(2) [of vs0]) (use run in \<open>simp_all add: Some 2 exec_simps vs0\<close>)
    qed
  qed
qed

lemma lockouts_votes:
  assumes "map lv_lockout vs = map lv_lockout ws"
  shows "tower_ok vs \<longleftrightarrow> tower_ok ws" and "root_ok root vs \<longleftrightarrow> root_ok root ws"
    and "map lv_slot vs = map lv_slot ws" and "map conf vs = map conf ws"
proof -
  have len: "length vs = length ws" using assms by (rule map_eq_imp_length_eq)
  have nth: "i < length ws \<Longrightarrow> lv_lockout (vs ! i) = lv_lockout (ws ! i)" for i
    using assms len by (metis nth_map)
  show "tower_ok vs \<longleftrightarrow> tower_ok ws"
    using nth by (simp add: tower_ok_nth len lv_slot_def lv_confirmation_count_def)
  show slots: "map lv_slot vs = map lv_slot ws" and "map conf vs = map conf ws"
    using nth by (auto simp: list_eq_iff_nth_eq len lv_slot_def lv_confirmation_count_def)
  have "(\<forall>v \<in> set vs. P (lv_slot v)) \<longleftrightarrow> (\<forall>v \<in> set ws. P (lv_slot v))" for P
    using arg_cong [OF slots, of "list_all P"] by (simp add: list_all_iff)
  then show "root_ok root vs \<longleftrightarrow> root_ok root ws"
    using len by (auto simp: root_ok_def split: option.splits)
qed

text \<open>
  A proposed tower replaces the current one only if it is well formed, does not roll the root back,
  and keeps to every lockout: for each vote of the current tower above the new root, the first new
  vote from its slot on is for that slot with no fewer confirmations, or beyond its lockout. Otherwise
  tower and root are as before (and the whole state, unless only the timestamp was refused); the
  code panics only for an empty tower.
\<close>

lemma process_new_vote_state_sound:
  assumes inv: "tower_inv vs"
  shows "case process_new_vote_state ws root ts epoch current_slot feature_set vs of
      (Ok _, vs') \<Rightarrow> tower_inv vs' \<and> root_slot vs' = root \<and> \<not> root_rolled_back root (root_slot vs) \<and>
        map lv_lockout (votes vs') = map lv_lockout ws \<and>
        (\<forall>v \<in> set (votes vs). (case root of None \<Rightarrow> False | Some r \<Rightarrow> lv_slot v \<le> r) \<or> respects_lockout ws v)
    | (Err e, vs') \<Rightarrow> votes vs' = votes vs \<and> root_slot vs' = root_slot vs \<and> (vs' = vs \<or> e = TimestampTooOld)
    | (Panic, _) \<Rightarrow> ws = []"
proof (cases "ws = []")
  case True
  then show ?thesis by (simp add: process_new_vote_state_def)
next
  case ne: False
  have ok: "tower_ok (votes vs)" using inv by (simp add: tower_inv_def)
  from ok ne show ?thesis
  proof (cases rule: process_new_vote_state_cases [where root = root and ts = ts and epoch = epoch and cur = current_slot and fs = feature_set])
    case (accepted timely earned)
    let ?ws = "map (copy_latency (unrooted_votes root (votes vs))) ws"
    have copy: "map lv_lockout ?ws = map lv_lockout ws"
      by (simp add: copy_latency_def comp_def split: option.split)
    have lock: "\<forall>v \<in> set (votes vs). (case root of None \<Rightarrow> False | Some r \<Rightarrow> lv_slot v \<le> r) \<or> respects_lockout ws v"
      using accepted(5) set_unrooted_votes [OF tower_slots_ascending [OF ok], of root]
      by (auto simp: not_less [symmetric] split: option.splits)
    show ?thesis
    proof (cases rule: finish_new_vote_state_cases [of ?ws root ts epoch current_slot timely earned vs])
      case (1 vs')
      have same: "map lv_lockout (votes vs') = map lv_lockout ws" using 1(3) copy by (rule trans)
      have "tower_inv vs'"
        unfolding tower_inv_def 1(2) lockouts_votes(1) [OF same] lockouts_votes(2) [OF same]
        using check_new_votes_tower [OF accepted(4,2) ne] by (rule conjI)
      then show ?thesis using accepted(1,3) 1(1,2) lock same by simp
    next
      case (2 vs')
      then show ?thesis using accepted(1) by simp
    qed
  qed simp
qed

end
