(* ===== verification/Vote_Proposal.thy ===== *)
theory Vote_Proposal
  imports Vote_Replace
begin

text \<open>
  What the check of a proposed tower against the slot hashes establishes, and what a vote state
  update does altogether.
\<close>

section \<open>The votes to drop\<close>

lemma retain_loop_filter:
  assumes "ls = pre @ xs" and "drop k to_filter = filter (\<lambda>i. Q (ls ! i)) [length pre..<length ls]"
    and "k \<le> length to_filter"
  shows "retain_loop to_filter (length pre) k xs = filter (\<lambda>x. \<not> Q x) xs"
  using assms
proof (induction xs arbitrary: pre k)
  case (Cons x xs)
  have u: "[length pre..<length ls] = length pre # [Suc (length pre)..<length ls]"
    using Cons.prems(1) by (intro upt_conv_Cons) simp
  have x: "ls ! length pre = x" using Cons.prems(1) by simp
  have ls: "ls = (pre @ [x]) @ xs" using Cons.prems(1) by simp
  show ?case
  proof (cases "Q x")
    case True
    then have d: "drop k to_filter = length pre # filter (\<lambda>i. Q (ls ! i)) [Suc (length pre)..<length ls]"
      using Cons.prems(2) by (simp add: u x)
    then have k: "k < length to_filter" by (metis drop_all list.distinct(1) not_less)
    then have "to_filter ! k = length pre" and "drop (Suc k) to_filter = filter (\<lambda>i. Q (ls ! i)) [Suc (length pre)..<length ls]"
      using d by (simp_all add: Cons_nth_drop_Suc [symmetric])
    then show ?thesis using Cons.IH [OF ls, of "Suc k"] k True by simp
  next
    case False
    then have d: "drop k to_filter = filter (\<lambda>i. Q (ls ! i)) [Suc (length pre)..<length ls]"
      using Cons.prems(2) by (simp add: u x)
    have "to_filter ! k \<noteq> length pre" if "k \<noteq> length to_filter"
    proof -
      have "to_filter ! k \<in> set (drop k to_filter)"
        using that Cons.prems(3) by (simp add: Cons_nth_drop_Suc [symmetric])
      then show ?thesis unfolding d by auto
    qed
    then show ?thesis using Cons.IH [OF ls, of k] Cons.prems(3) d False by auto
  qed
qed simp

section \<open>The loop over the proposed slots\<close>

text \<open>
  The checks the loop has made when it has gone through all the proposed slots from \<open>index\<close> on.
\<close>

definition slots_checked ::
  "VoteState \<Rightarrow> Lockout list \<Rightarrow> SlotHash list \<Rightarrow> Slot \<Rightarrow> Slot option \<Rightarrow> nat \<Rightarrow> nat list \<Rightarrow> nat \<Rightarrow> nat list \<Rightarrow> bool" where
  "slots_checked vs ls sh earliest root index to_filter j to_filter' \<longleftrightarrow>
     (earliest \<le> slot (last ls) \<longrightarrow> j < length sh \<and> fst (sh ! j) = slot (last ls)) \<and>
     (\<forall>i. index \<le> i \<and> i < length ls \<and> 0 < i \<longrightarrow> slot (ls ! (i - 1)) < slot (ls ! i)) \<and>
     (\<forall>i. index \<le> i \<and> i < length ls \<longrightarrow> slot (ls ! i) < earliest \<or> slot (ls ! i) \<in> fst ` set sh) \<and>
     (\<forall>r. root = Some r \<longrightarrow> index < length ls \<longrightarrow> r < earliest \<or> r \<in> fst ` set sh) \<and>
     to_filter' = to_filter @ filter (\<lambda>i. slot (ls ! i) < earliest \<and> \<not> contains_slot vs (slot (ls ! i))) [index..<length ls]"

lemma slots_checked_Suc:
  assumes "slots_checked vs ls sh earliest None (index + 1)
      (if slot (ls ! index) < earliest \<and> \<not> contains_slot vs (slot (ls ! index)) then to_filter @ [index] else to_filter) j f"
    and "index < length ls" and "0 < index \<Longrightarrow> slot (ls ! (index - 1)) < slot (ls ! index)"
    and "slot (ls ! index) < earliest \<or> slot (ls ! index) \<in> fst ` set sh"
  shows "slots_checked vs ls sh earliest None index to_filter j f"
proof -
  have u: "[index..<length ls] = index # [Suc index..<length ls]" using assms(2) by (rule upt_conv_Cons)
  have le: "index \<le> i \<longleftrightarrow> i = index \<or> Suc index \<le> i" for i by auto
  show ?thesis using assms unfolding slots_checked_def u le by auto
qed

lemma slots_checked_root:
  "slots_checked vs ls sh earliest None index to_filter j f \<Longrightarrow> r < earliest \<or> r \<in> fst ` set sh \<Longrightarrow>
   slots_checked vs ls sh earliest (Some r) index to_filter j f"
  by (simp add: slots_checked_def)

text \<open>Outcomes of the loop: never a panic, and the checks are made if it gets through.\<close>

definition loop_ok ::
  "VoteState \<Rightarrow> Lockout list \<Rightarrow> SlotHash list \<Rightarrow> Slot \<Rightarrow> Slot option \<Rightarrow> nat \<Rightarrow> nat list \<Rightarrow>
   (nat \<times> nat \<times> nat list, VoteError) result \<Rightarrow> bool" where
  "loop_ok vs ls sh earliest root index to_filter r \<longleftrightarrow>
     (case r of
        Ok (index', j, f) \<Rightarrow> index' = length ls \<longrightarrow> slots_checked vs ls sh earliest root index to_filter j f
      | Err _ \<Rightarrow> True
      | Panic \<Rightarrow> False)"

lemma loop_ok_Suc:
  assumes "loop_ok vs ls sh earliest None (index + 1)
      (if slot (ls ! index) < earliest \<and> \<not> contains_slot vs (slot (ls ! index)) then to_filter @ [index] else to_filter) r"
    and "index < length ls" and "0 < index \<Longrightarrow> slot (ls ! (index - 1)) < slot (ls ! index)"
    and "slot (ls ! index) < earliest \<or> slot (ls ! index) \<in> fst ` set sh"
  shows "loop_ok vs ls sh earliest None index to_filter r"
  using assms slots_checked_Suc [OF _ assms(2-4)] unfolding loop_ok_def
  by (cases r) (simp_all del: One_nat_def split: prod.splits)

lemma loop_ok_root:
  assumes "loop_ok vs ls sh earliest None index to_filter res" and "r < earliest \<or> r \<in> fst ` set sh"
  shows "loop_ok vs ls sh earliest (Some r) index to_filter res"
  using assms unfolding loop_ok_def by (cases res) (auto simp: slots_checked_def)

lemma last_hash_least:
  fixes sh :: "SlotHash list"
  assumes "sorted_wrt (\<lambda>a b. fst b < fst a) sh" and "x \<in> fst ` set sh"
  shows "\<not> x < fst (last sh)"
  using assms by (cases sh rule: rev_cases) (auto simp: sorted_wrt_append not_less less_imp_le)

lemma update_slots_loop_spec:
  assumes "sh \<noteq> []" "sorted_wrt (\<lambda>a b. fst b < fst a) sh" "earliest = fst (last sh)"
    and "j \<le> length sh" and "index \<le> length ls" and "ls \<noteq> []"
    and "index = length ls \<Longrightarrow> earliest \<le> slot (last ls) \<Longrightarrow> j < length sh \<and> fst (sh ! j) = slot (last ls)"
  shows "loop_ok vs ls sh earliest root index to_filter (update_slots_loop vs ls sh earliest root index j to_filter)"
  using assms
proof (induction vs ls sh earliest root index j to_filter rule: update_slots_loop.induct)
  case (1 vs ls sh earliest root index j to_filter)
  show ?case
  proof (cases "index < length ls \<and> 0 < j")
    case False
    then have "update_slots_loop vs ls sh earliest root index j to_filter = Ok (index, j, to_filter)"
      by (subst update_slots_loop.simps) (simp only: if_False)
    then show ?thesis using "1.prems" by (auto simp: loop_ok_def slots_checked_def)
  next
    case True
    define p where "p = (case root of Some r \<Rightarrow> r | None \<Rightarrow> slot (ls ! index))"
    define a where "a = fst (sh ! (j - 1))"
    note IH = "1.IH" [OF True p_def _ a_def]
    note step = update_slots_loop.simps [of vs ls sh earliest root index j to_filter, folded p_def, folded a_def,
        unfolded Let_def if_P [OF True]]
    have a: "a \<in> fst ` set sh" using "1.prems"(4) True by (auto simp: a_def)
    have late: "\<not> a < earliest" using last_hash_least [OF "1.prems"(2) a] "1.prems"(3) by simp
    have idx: "index < length ls" using True by simp
    show ?thesis
    proof (cases "root = None \<and> 0 < index \<and> p \<le> slot (ls ! (index - 1))")
      case unordered: True
      show ?thesis unfolding step if_P [OF unordered] by (simp add: loop_ok_def)
    next
      case ordered: False
      note step' = step [unfolded if_not_P [OF ordered]]
      have ord: "0 < index \<Longrightarrow> slot (ls ! (index - 1)) < slot (ls ! index)" if "root = None"
        using ordered that by (simp add: p_def not_le)
      have last: "slot (last ls) = slot (ls ! index)" if "index + 1 = length ls"
        using "1.prems"(6) by (simp add: last_conv_nth flip: that)
      consider (lt) "cmp p a = Less" "j = length sh" | (mismatch) "cmp p a = Less" "j \<noteq> length sh"
        | (eq) "cmp p a = Equal" | (gt) "cmp p a = Greater" by (cases "cmp p a") auto
      then show ?thesis
      proof cases
        case lt
        then have "p < earliest" using "1.prems"(1,3) by (simp add: a_def last_conv_nth)
        then have nn: "\<not> \<not> p < earliest" by simp
        note step'' = step' [unfolded lt(1) ordering.case if_P [OF lt(2)] if_not_P [OF nn]]
        show ?thesis
        proof (cases root)
          case None
          then have p: "p = slot (ls ! index)" by (simp add: p_def)
          show ?thesis
            unfolding step'' unfolding None option.case using \<open>p < earliest\<close> True "1.prems" last
            by (intro loop_ok_Suc [OF _ idx ord [OF None]])
              (use IH(1) [OF ordered lt nn refl None] in \<open>auto simp: p None not_less [symmetric]\<close>)
        next
          case (Some r)
          then have r: "\<not> (r \<noteq> p \<or> \<not> r < earliest)" using nn by (simp add: p_def)
          show ?thesis
            unfolding step'' unfolding Some option.case if_not_P [OF r] using r True "1.prems"
            by (intro loop_ok_root) (use IH(2) [OF ordered lt nn refl Some r] Some in auto)
        qed
      next
        case mismatch
        then show ?thesis unfolding step' mismatch(1) ordering.case by (simp add: loop_ok_def)
      next
        case eq
        then have pa: "p = a" by simp
        note step'' = step' [unfolded eq ordering.case]
        show ?thesis
        proof (cases root)
          case None
          then have p: "slot (ls ! index) = a" using pa by (simp add: p_def)
          show ?thesis
            unfolding step'' unfolding None simp_thms if_False using p a late True "1.prems" last
            by (intro loop_ok_Suc [OF _ idx ord [OF None]])
              (use IH(4) [OF ordered eq] None in \<open>auto simp: p a_def\<close>)
        next
          case (Some r)
          then have r: "r = a" using pa by (simp add: p_def)
          show ?thesis
            unfolding step'' unfolding Some option.distinct simp_thms if_True using a r True "1.prems"
            by (intro loop_ok_root) (use IH(3) [OF ordered eq] Some in auto)
        qed
      next
        case gt
        show ?thesis unfolding step' gt ordering.case using True "1.prems" IH(5) [OF ordered gt] by auto
      qed
    qed
  qed
qed

section \<open>An accepted proposal\<close>

definition proposal_checked :: "VoteState \<Rightarrow> SlotHash list \<Rightarrow> VoteStateUpdate \<Rightarrow> VoteStateUpdate \<Rightarrow> bool" where
  "proposal_checked vs sh u u' \<longleftrightarrow>
     vsu_lockouts u' = filter (\<lambda>l. slot l \<in> set (tower vs) \<or> slot l \<in> dom (slot_hashes_get sh)) (vsu_lockouts u) \<and>
     vsu_lockouts u' \<noteq> [] \<and> sorted_wrt (\<lambda>l k. slot l < slot k) (vsu_lockouts u) \<and>
     accepts_vote vs (slot (last (vsu_lockouts u'))) \<and>
     slot_hashes_get sh (slot (last (vsu_lockouts u'))) = Some (vsu_hash u) \<and>
     (\<forall>r. vsu_root u' = Some r \<longrightarrow> r \<in> dom (slot_hashes_get sh) \<or> r \<in> set (tower vs) \<or> root_slot vs = Some r)"

lemma adjust_root_cases:
  assumes "adjust_root vs earliest root = Some r"
  shows "r \<in> set (tower vs) \<or> root_slot vs = Some r \<or> \<not> r < earliest"
  using assms by (auto simp: adjust_root_def tower_def find_Some_iff2 split: option.splits if_splits)
    (metis find_Some_iff nth_mem set_rev image_eqI)

lemma ascending_lockouts:
  "(\<And>i. i < length ls \<Longrightarrow> 0 < i \<Longrightarrow> slot (ls ! (i - 1)) < slot (ls ! i)) \<Longrightarrow> sorted_wrt (\<lambda>l k. slot l < slot k) ls"
  for ls :: "Lockout list"
proof -
  assume step: "\<And>i. i < length ls \<Longrightarrow> 0 < i \<Longrightarrow> slot (ls ! (i - 1)) < slot (ls ! i)"
  have "successively (\<lambda>l k. slot l < slot k) ls"
    unfolding successively_conv_nth using step [of "Suc _"] by simp
  moreover have "transp (\<lambda>l k. slot (l :: Lockout) < slot k)" by (auto simp: transp_def intro: less_trans)
  ultimately show ?thesis by (simp add: successively_conv_sorted_wrt)
qed

lemma check_update_spec:
  assumes ok: "tower_ok (votes vs)" and sh: "slot_hashes_ok sh"
  shows "case check_update_vote_state_slots_are_valid vs sh u of
      (Ok _, u') \<Rightarrow> proposal_checked vs sh u u'
    | (Err _, _) \<Rightarrow> True
    | (Panic, _) \<Rightarrow> False"
proof -
  let ?ls = "vsu_lockouts u"
  let ?e = "fst (last sh)"
  let ?root = "adjust_root vs ?e (vsu_root u)"
  have desc: "sorted_wrt (\<lambda>a b. fst b < fst a) sh" using sh by (simp add: slot_hashes_ok_def)
  note get = slot_hashes_get_desc [OF desc, abs_def]
  show ?thesis
  proof (cases "?ls = [] \<or> \<not> accepts_vote vs (slot (last ?ls)) \<or> sh = [] \<or> slot (last ?ls) < ?e")
    case True
    then show ?thesis
      by (auto simp: check_update_vote_state_slots_are_valid_def accepts_vote_def next_back_def Let_def
          split: option.splits prod.splits)
  next
    case False
    then have ne: "?ls \<noteq> []" "sh \<noteq> []" and acc: "accepts_vote vs (slot (last ?ls))"
      and late: "?e \<le> slot (last ?ls)" by auto
    define r where "r = update_slots_loop vs ?ls sh ?e ?root 0 (length sh) []"
    have run: "check_update_vote_state_slots_are_valid vs sh u =
        (let u' = u\<lparr>vsu_root := ?root\<rparr> in
         case r of Err e \<Rightarrow> (Err e, u') | Panic \<Rightarrow> (Panic, u')
         | Ok (index, j, f) \<Rightarrow>
             if index \<noteq> length ?ls then (Err SlotsMismatch, u')
             else if \<not> j < length sh then (Panic, u')
             else if slot (last ?ls) \<noteq> fst (sh ! j) then (Panic, u')
             else if snd (sh ! j) \<noteq> vsu_hash u then (Err SlotHashMismatch, u')
             else (Ok (), u'\<lparr>vsu_lockouts := retain_loop f 0 0 ?ls\<rparr>))"
      using ne acc late
      by (cases "last sh") (auto simp: check_update_vote_state_slots_are_valid_def accepts_vote_def next_back_def
          Let_def r_def split: option.splits result.split)
    have "loop_ok vs ?ls sh ?e ?root 0 [] r"
      unfolding r_def using ne desc by (intro update_slots_loop_spec) auto
    then show ?thesis
    proof (cases r)
      case (Ok res)
      obtain index j f where res: "res = (index, j, f)" by (cases res)
      show ?thesis
      proof (cases "index = length ?ls")
        case True
        have "slots_checked vs ?ls sh ?e ?root 0 [] j f"
          using \<open>loop_ok vs ?ls sh ?e ?root 0 [] r\<close> by (simp add: loop_ok_def Ok res True)
        note c = this [unfolded slots_checked_def]
        have j: "j < length sh" "fst (sh ! j) = slot (last ?ls)" using c late by simp_all
        define Q where "Q l \<longleftrightarrow> slot l < ?e \<and> \<not> contains_slot vs (slot l)" for l :: Lockout
        have "retain_loop f 0 0 ?ls = filter (\<lambda>l. \<not> Q l) ?ls"
          using retain_loop_filter [of ?ls "[]" ?ls 0 f Q] c by (simp add: Q_def)
        also have "\<dots> = filter (\<lambda>l. slot l \<in> set (tower vs) \<or> slot l \<in> fst ` set sh) ?ls"
          using c last_hash_least [OF desc]
          by (intro filter_cong) (auto simp: Q_def contains_slot_tower [OF ok] in_set_conv_nth)
        finally have kept: "retain_loop f 0 0 ?ls = filter (\<lambda>l. slot l \<in> set (tower vs) \<or> slot l \<in> fst ` set sh) ?ls" .
        have "last ?ls \<in> set ?ls" and l: "slot (last ?ls) \<in> fst ` set sh" using ne j by (auto simp flip: j(2))
        then have ne': "retain_loop f 0 0 ?ls \<noteq> []" unfolding kept by (auto simp: filter_empty_conv)
        moreover have "last (retain_loop f 0 0 ?ls) = last ?ls"
          unfolding kept using l ne(1) by (cases ?ls rule: rev_cases) auto
        moreover have "sorted_wrt (\<lambda>l k. slot l < slot k) ?ls" using c by (intro ascending_lockouts) simp
        moreover have "r \<in> fst ` set sh \<or> r \<in> set (tower vs) \<or> root_slot vs = Some r" if "?root = Some r" for r
          using that adjust_root_cases [OF that] c ne(1) by auto
        ultimately show ?thesis
          using j acc desc_map_of [OF desc j(1)] kept
          by (auto simp: run Ok res True Let_def proposal_checked_def get dom_map_of_conv_image_fst)
      qed (simp add: run Ok res Let_def)
    qed (simp_all add: loop_ok_def run Let_def)
  qed
qed

section \<open>A vote state update\<close>

lemma respects_lockout_beyond:
  assumes "respects_lockout ws v" and "slots_ascending ws" and "\<not> (\<exists>w \<in> set ws. lv_slot w = lv_slot v \<and> conf v \<le> conf w)"
    and "w \<in> set ws" and "lv_slot v < lv_slot w"
  shows "\<not> is_locked_out_at_slot (lv_lockout v) (lv_slot w)"
  using assms
proof (induction ws)
  case (Cons u ws)
  then show ?case
    by (auto simp: respects_lockout_Cons is_locked_out_at_slot_def split: if_splits dest: less_trans)
qed simp

lemma same_lockout_votes:
  assumes "map lv_lockout vs = map lv_lockout ws" and "w \<in> set ws"
  shows "\<exists>v \<in> set vs. lv_slot v = lv_slot w \<and> conf v = conf w"
proof -
  have "lv_lockout w \<in> set (map lv_lockout vs)" unfolding assms(1) using assms(2) by simp
  then show ?thesis by (auto simp: lv_slot_def lv_confirmation_count_def)
qed

text \<open>
  C7: a vote state update never panics and never breaks a lockout. When it is accepted, the new tower
  is well formed and the root has not moved back; its last slot is above the former last voted slot
  and the update's hash is the one recorded for it; every slot of it is known to the slot hashes or
  was in the former tower; and each former vote is in the new tower with no fewer confirmations, or
  at or below the new root, or all the new votes for later slots are beyond its lockout. When it is
  refused, tower and root are as before.
\<close>

theorem do_process_vote_state_update_spec:
  assumes inv: "tower_inv vs" and sh: "slot_hashes_ok sh"
  shows "case do_process_vote_state_update sh epoch current_slot u feature_set vs of
      (Ok _, vs') \<Rightarrow> tower_inv vs' \<and> \<not> root_rolled_back (root_slot vs') (root_slot vs) \<and>
        (\<exists>l. last_voted_slot vs' = Some l \<and> accepts_vote vs l \<and> slot_hashes_get sh l = Some (vsu_hash u)) \<and>
        set (tower vs') \<subseteq> set (tower vs) \<union> dom (slot_hashes_get sh) \<and>
        (\<forall>v \<in> set (votes vs).
           (\<exists>v' \<in> set (votes vs'). lv_slot v' = lv_slot v \<and> conf v \<le> conf v') \<or>
           (\<exists>r. root_slot vs' = Some r \<and> lv_slot v \<le> r) \<or>
           (\<forall>v' \<in> set (votes vs'). lv_slot v < lv_slot v' \<longrightarrow> \<not> is_locked_out_at_slot (lv_lockout v) (lv_slot v')))
    | (Err _, vs') \<Rightarrow> votes vs' = votes vs \<and> root_slot vs' = root_slot vs
    | (Panic, _) \<Rightarrow> False"
proof -
  have ok: "tower_ok (votes vs)" using inv by (simp add: tower_inv_def)
  obtain r u' where c: "check_update_vote_state_slots_are_valid vs sh u = (r, u')" by fastforce
  show ?thesis
  proof (cases r)
    case (Ok x)
    then have "proposal_checked vs sh u u'" using check_update_spec [OF ok sh, of u] by (simp add: c)
    note p = this [unfolded proposal_checked_def]
    define ws where "ws = map landed_vote_from (vsu_lockouts u')"
    have run: "do_process_vote_state_update sh epoch current_slot u feature_set vs =
        process_new_vote_state ws (vsu_root u') (vsu_timestamp u') epoch current_slot feature_set vs"
      by (simp add: do_process_vote_state_update_def c Ok ws_def)
    obtain s vs' where n: "process_new_vote_state ws (vsu_root u') (vsu_timestamp u') epoch current_slot feature_set vs = (s, vs')"
      by fastforce
    note spec = process_new_vote_state_sound [OF inv, where ws = ws and root = "vsu_root u'" and ts = "vsu_timestamp u'"
        and epoch = epoch and current_slot = current_slot and feature_set = feature_set, unfolded n]
    have ne': "vsu_lockouts u' \<noteq> []" using p by blast
    then have "ws \<noteq> []" by (simp add: ws_def)
    show ?thesis
    proof (cases s)
      case (Ok y)
      have l: "map lv_lockout (votes vs') = map lv_lockout ws" using spec Ok by simp
      have slots: "map lv_slot (votes vs') = map slot (vsu_lockouts u')"
        unfolding lockouts_votes(3) [OF l] by (simp add: ws_def landed_vote_from_def lv_slot_def)
      have ne: "votes vs' \<noteq> []" using slots ne' by (metis map_is_Nil_conv)
      have last: "lv_slot (last (votes vs')) = slot (last (vsu_lockouts u'))"
        using arg_cong [OF slots, of last] ne ne' by (simp add: last_map)
      have "last_voted_slot vs' = Some (slot (last (vsu_lockouts u')))"
        using ne last by (simp add: last_voted_slot_def last_lockout_def next_back_def lv_slot_def)
      moreover have "set (tower vs') \<subseteq> set (tower vs) \<union> dom (slot_hashes_get sh)"
        unfolding tower_def [of vs'] slots using p by auto
      moreover have asc: "slots_ascending ws"
        using spec Ok tower_slots_ascending [of "votes vs'"] lockouts_votes(3) [OF l]
        by (simp add: tower_inv_def sorted_wrt_map [of "(<)" lv_slot, symmetric])
      moreover have "(\<exists>v' \<in> set (votes vs'). lv_slot v' = lv_slot v \<and> conf v \<le> conf v') \<or>
           (\<exists>r. root_slot vs' = Some r \<and> lv_slot v \<le> r) \<or>
           (\<forall>v' \<in> set (votes vs'). lv_slot v < lv_slot v' \<longrightarrow> \<not> is_locked_out_at_slot (lv_lockout v) (lv_slot v'))"
        if v: "v \<in> set (votes vs)" for v
      proof (cases "\<exists>r. root_slot vs' = Some r \<and> lv_slot v \<le> r")
        case False
        then have "respects_lockout ws v" using spec v Ok by (auto split: option.splits)
        from respects_lockout_beyond [OF this asc] show ?thesis
          using same_lockout_votes [OF l] same_lockout_votes [OF l [symmetric]] by metis
      qed simp
      moreover have "accepts_vote vs (slot (last (vsu_lockouts u')))"
        and "slot_hashes_get sh (slot (last (vsu_lockouts u'))) = Some (vsu_hash u)" using p by blast+
      ultimately show ?thesis using spec Ok by (simp add: run n)
    qed (use spec \<open>ws \<noteq> []\<close> in \<open>simp_all add: run n\<close>)
  qed (use check_update_spec [OF ok sh, of u] in \<open>simp_all add: do_process_vote_state_update_def c\<close>)
qed

definition sample_update :: VoteStateUpdate where
  "sample_update =
     \<lparr>vsu_lockouts = [new_with_confirmation_count 2 3, new_with_confirmation_count 5 2, new_with_confirmation_count 7 1],
      vsu_root = Some 1, vsu_hash = 4, vsu_timestamp = None\<rparr>"

definition sample_slot_hashes :: "SlotHash list" where
  "sample_slot_hashes = [(8, 5), (7, 4), (5, 3), (2, 2), (1, 1)]"

lemma sample_update_checked:
  "check_update_vote_state_slots_are_valid sample_tower sample_slot_hashes sample_update = (Ok (), sample_update)"
proof -
  have "update_slots_loop sample_tower (vsu_lockouts sample_update) sample_slot_hashes 1 (Some 1) 0 5 [] = Ok (3, 1, [])"
    by (simp add: update_slots_loop.simps cmp_def sample_slot_hashes_def sample_update_def
        new_with_confirmation_count_def word_le_nat_alt word_less_nat_alt)
  moreover have "next_back (vsu_lockouts sample_update) = Some (new_with_confirmation_count 7 1)"
    and "sample_update\<lparr>vsu_root := Some 1\<rparr> = sample_update" and "adjust_root sample_tower 1 (vsu_root sample_update) = Some 1"
    and "vsu_root sample_update = Some 1" and "length (vsu_lockouts sample_update) = 3" and "vsu_hash sample_update = 4"
    and "sample_update\<lparr>vsu_lockouts := vsu_lockouts sample_update\<rparr> = sample_update"
    and "retain_loop [] 0 0 (vsu_lockouts sample_update) = vsu_lockouts sample_update"
    by (simp_all add: sample_update_def next_back_def adjust_root_def)
  moreover have "next_back sample_slot_hashes = Some (1, 1)" and "length sample_slot_hashes = 5"
    and "sample_slot_hashes ! 1 = (7, 4)"
    by (simp_all add: sample_slot_hashes_def next_back_def)
  moreover have "next_back (votes sample_tower) = Some (landed_vote_from (new_with_confirmation_count 5 1))"
    by (simp add: sample_tower_def next_back_def)
  ultimately show ?thesis
    by (simp add: check_update_vote_state_slots_are_valid_def Let_def landed_vote_from_def
        new_with_confirmation_count_def lv_slot_def)
qed

theorem do_process_vote_state_update_spec_witness:
  "\<exists>vs'. do_process_vote_state_update sample_slot_hashes 0 8 sample_update None sample_tower = (Ok (), vs') \<and>
     tower_inv vs' \<and> \<not> root_rolled_back (root_slot vs') (Some 0)"
proof -
  have sh: "slot_hashes_ok sample_slot_hashes"
    by (simp add: slot_hashes_ok_def SLOT_HASHES_MAX_ENTRIES_def sample_slot_hashes_def)
  have "fst (do_process_vote_state_update sample_slot_hashes 0 8 sample_update None sample_tower) = Ok ()"
    unfolding do_process_vote_state_update_def sample_update_checked prod.case result.case
    by (simp add: sample_update_def process_new_vote_state_def root_rolled_back_def exec_simps checked_add_def cmp_def
        credits_for_vote_at_index_def sample_tower_eval word_le_nat_alt)
  moreover have "root_slot sample_tower = Some 0" by (simp add: sample_tower_def)
  ultimately show ?thesis
    using do_process_vote_state_update_spec [OF sample_tower_inv sh, where epoch = 0 and current_slot = 8
        and u = sample_update and feature_set = None]
    by (auto split: result.splits prod.splits)
qed

end
