(* ===== verification/Epoch_Schedule.thy ===== *)
theory Epoch_Schedule
  imports Sdk_Types
begin

text \<open>
  \<open>sdk/program/src/epoch_schedule.rs\<close>: the division of slots into epochs. With warmup, the epochs
  double in length from 32 slots until they have \<open>slots_per_epoch\<close>.
\<close>

section \<open>Integer operations of the standard library\<close>

text \<open>\<open>u64::next_power_of_two\<close>, which wraps around to 0 in release builds.\<close>

definition next_power_of_two :: "u64 \<Rightarrow> u64" where
  "next_power_of_two x = (if x \<le> 1 then 1 else 2 ^ bit_length (unat (x - 1)))"

fun trailing_zeros_nat :: "nat \<Rightarrow> nat" where
  "trailing_zeros_nat n = (if n = 0 \<or> odd n then 0 else Suc (trailing_zeros_nat (n div 2)))"

declare trailing_zeros_nat.simps [simp del]

definition trailing_zeros :: "u64 \<Rightarrow> u32" where
  "trailing_zeros x = (if x = 0 then 64 else of_nat (trailing_zeros_nat (unat x)))"

section \<open>The schedule\<close>

definition DEFAULT_SLOTS_PER_EPOCH :: u64 where
  "DEFAULT_SLOTS_PER_EPOCH = 432000"

definition DEFAULT_LEADER_SCHEDULE_SLOT_OFFSET :: u64 where
  "DEFAULT_LEADER_SCHEDULE_SLOT_OFFSET = DEFAULT_SLOTS_PER_EPOCH"

definition MAX_LEADER_SCHEDULE_EPOCH_OFFSET :: u64 where
  "MAX_LEADER_SCHEDULE_EPOCH_OFFSET = 3"

definition MINIMUM_SLOTS_PER_EPOCH :: u64 where
  "MINIMUM_SLOTS_PER_EPOCH = 32"

record EpochSchedule =
  slots_per_epoch :: u64
  leader_schedule_slot_offset :: u64
  warmup :: bool
  first_normal_epoch :: Epoch
  first_normal_slot :: Slot

definition custom :: "u64 \<Rightarrow> u64 \<Rightarrow> bool \<Rightarrow> (EpochSchedule, 'e) result" where
  "custom spe offset wu =
     (if \<not> MINIMUM_SLOTS_PER_EPOCH \<le> spe then Panic
      else
        let (fne, fns) =
          (if wu then
             let npo2 = next_power_of_two spe;
                 log2 = saturating_sub (trailing_zeros npo2) (trailing_zeros MINIMUM_SLOTS_PER_EPOCH)
             in (ucast log2, saturating_sub npo2 MINIMUM_SLOTS_PER_EPOCH)
           else (0, 0))
        in Ok \<lparr>slots_per_epoch = spe, leader_schedule_slot_offset = offset, warmup = wu,
               first_normal_epoch = fne, first_normal_slot = fns\<rparr>)"

definition epoch_schedule_new :: "u64 \<Rightarrow> (EpochSchedule, 'e) result" where
  "epoch_schedule_new spe = custom spe spe True"

definition epoch_schedule_default :: "(EpochSchedule, 'e) result" where
  "epoch_schedule_default = custom DEFAULT_SLOTS_PER_EPOCH DEFAULT_LEADER_SCHEDULE_SLOT_OFFSET True"

definition without_warmup :: "(EpochSchedule, 'e) result" where
  "without_warmup = custom DEFAULT_SLOTS_PER_EPOCH DEFAULT_LEADER_SCHEDULE_SLOT_OFFSET False"

definition get_slots_in_epoch :: "EpochSchedule \<Rightarrow> Epoch \<Rightarrow> u64" where
  "get_slots_in_epoch es epoch =
     (if epoch < first_normal_epoch es
      then saturating_pow 2 (unat (saturating_add (ucast epoch :: u32) (trailing_zeros MINIMUM_SLOTS_PER_EPOCH)))
      else slots_per_epoch es)"

definition get_epoch_and_slot_index :: "EpochSchedule \<Rightarrow> Slot \<Rightarrow> Epoch \<times> u64" where
  "get_epoch_and_slot_index es s =
     (if s < first_normal_slot es then
        let epoch = saturating_sub
              (saturating_sub
                 (trailing_zeros (next_power_of_two (saturating_add (saturating_add s MINIMUM_SLOTS_PER_EPOCH) 1)))
                 (trailing_zeros MINIMUM_SLOTS_PER_EPOCH)) 1;
            epoch_len = saturating_pow 2 (unat (saturating_add epoch (trailing_zeros MINIMUM_SLOTS_PER_EPOCH)))
        in (ucast epoch, saturating_sub s (saturating_sub epoch_len MINIMUM_SLOTS_PER_EPOCH))
      else
        let normal_slot_index = saturating_sub s (first_normal_slot es);
            normal_epoch_index = (case checked_div normal_slot_index (slots_per_epoch es) of Some q \<Rightarrow> q | None \<Rightarrow> 0);
            epoch = saturating_add (first_normal_epoch es) normal_epoch_index;
            slot_index = (case checked_rem normal_slot_index (slots_per_epoch es) of Some r \<Rightarrow> r | None \<Rightarrow> 0)
        in (epoch, slot_index))"

definition get_leader_schedule_epoch :: "EpochSchedule \<Rightarrow> Slot \<Rightarrow> Epoch" where
  "get_leader_schedule_epoch es s =
     (if s < first_normal_slot es then saturating_add (fst (get_epoch_and_slot_index es s)) 1
      else
        let new_slots = saturating_sub s (first_normal_slot es);
            new_first = saturating_add new_slots (leader_schedule_slot_offset es);
            new_epochs = (case checked_div new_first (slots_per_epoch es) of Some q \<Rightarrow> q | None \<Rightarrow> 0)
        in saturating_add (first_normal_epoch es) new_epochs)"

definition get_epoch :: "EpochSchedule \<Rightarrow> Slot \<Rightarrow> Epoch" where
  "get_epoch es s = fst (get_epoch_and_slot_index es s)"

definition get_first_slot_in_epoch :: "EpochSchedule \<Rightarrow> Epoch \<Rightarrow> Slot" where
  "get_first_slot_in_epoch es epoch =
     (if epoch \<le> first_normal_epoch es
      then saturating_mul (saturating_sub (saturating_pow 2 (unat (ucast epoch :: u32))) 1) MINIMUM_SLOTS_PER_EPOCH
      else saturating_add
             (saturating_mul (saturating_sub epoch (first_normal_epoch es)) (slots_per_epoch es))
             (first_normal_slot es))"

definition get_last_slot_in_epoch :: "EpochSchedule \<Rightarrow> Epoch \<Rightarrow> Slot" where
  "get_last_slot_in_epoch es epoch =
     saturating_sub (saturating_add (get_first_slot_in_epoch es epoch) (get_slots_in_epoch es epoch)) 1"

section \<open>Powers of two\<close>

lemma trailing_zeros_nat_power: "trailing_zeros_nat (2 ^ k) = k"
proof (induction k)
  case 0
  show ?case by (subst trailing_zeros_nat.simps) simp
next
  case (Suc k)
  then show ?case by (subst trailing_zeros_nat.simps) simp
qed

lemma trailing_zeros_power: "k < 64 \<Longrightarrow> trailing_zeros (2 ^ k) = of_nat k"
proof -
  assume k: "k < 64"
  have "unat ((2 :: u64) ^ k) = 2 ^ k" using k by (rule unat_power_2_u64)
  moreover have "(2 :: u64) ^ k \<noteq> 0" using k by simp
  ultimately show ?thesis by (simp add: trailing_zeros_def trailing_zeros_nat_power)
qed

lemma trailing_zeros_32 [simp]: "trailing_zeros MINIMUM_SLOTS_PER_EPOCH = 5"
  using trailing_zeros_power [of 5] by (simp add: MINIMUM_SLOTS_PER_EPOCH_def)

lemma next_power_of_two_bounds:
  assumes "1 < unat x" and "unat x \<le> 2 ^ 63"
  obtains k where "next_power_of_two x = 2 ^ k" and "0 < k" and "k < 64" and "2 ^ (k - 1) < unat x" and "unat x \<le> 2 ^ k"
proof -
  define n where "n = unat x - 1"
  define k where "k = bit_length n"
  have x: "unat x = Suc n" and n: "0 < n" "n < 2 ^ 63" using assms by (simp_all add: n_def)
  have "unat (x - 1) = n" using x by (simp add: unat_sub_if')
  moreover have "\<not> x \<le> 1" using assms by (simp add: word_le_nat_alt)
  ultimately have "next_power_of_two x = 2 ^ k" by (simp add: next_power_of_two_def k_def)
  moreover have le: "2 ^ (k - 1) \<le> n" and "n < 2 ^ k" using bit_length_bounds n by (simp_all add: k_def)
  moreover have "0 < k" using n by (simp add: k_def bit_length.simps)
  moreover have "k < 64"
  proof -
    have "(2 :: nat) ^ (k - 1) < 2 ^ 63" using le n by linarith
    then have "k - 1 < 63" by (simp only: power_strict_increasing_iff [of 2])
    then show ?thesis by simp
  qed
  ultimately show ?thesis using x by (intro that [of k]) simp_all
qed

section \<open>Slots and epochs\<close>

text \<open>
  A schedule with \<open>k - 5\<close> warmup epochs of 32, 64, ... slots, \<open>2^k - 32\<close> slots in all.
\<close>

definition schedule_ok :: "EpochSchedule \<Rightarrow> bool" where
  "schedule_ok es \<longleftrightarrow> 32 \<le> unat (slots_per_epoch es) \<and>
     (\<exists>k. 5 \<le> k \<and> k < 64 \<and> unat (first_normal_epoch es) = k - 5 \<and> unat (first_normal_slot es) = 2 ^ k - 32)"

lemma custom_schedule_ok:
  assumes "custom spe off wu = Ok es" and "unat spe \<le> 2 ^ 63"
  shows "schedule_ok es"
proof -
  have spe: "32 \<le> unat spe"
    using assms(1) by (auto simp: custom_def MINIMUM_SLOTS_PER_EPOCH_def word_le_nat_alt split: if_splits)
  then have le: "MINIMUM_SLOTS_PER_EPOCH \<le> spe" by (simp add: MINIMUM_SLOTS_PER_EPOCH_def word_le_nat_alt)
  show ?thesis
  proof (cases wu)
    case True
    obtain k where k: "next_power_of_two spe = 2 ^ k" "0 < k" "k < 64" "2 ^ (k - 1) < unat spe" "unat spe \<le> 2 ^ k"
      using next_power_of_two_bounds [of spe] spe assms(2) by (metis less_le_trans one_less_numeral_iff semiring_norm(76))
    have "(2::nat) ^ 5 \<le> 2 ^ k" using spe k(5) by simp
    then have k5: "5 \<le> k" by (simp only: power_increasing_iff [of 2])
    have n: "unat ((2 :: u64) ^ k) = 2 ^ k" by (rule unat_power_2_u64) (rule k)
    have kk: "unat (of_nat k :: u32) = k" using k(3) by (intro unat_of_nat_lt) simp
    have "unat (ucast (saturating_sub (of_nat k :: u32) 5) :: u64) = k - 5"
      by (simp add: unat_ucast_up unat_saturating_sub kk)
    moreover have "unat (saturating_sub (2 ^ k) MINIMUM_SLOTS_PER_EPOCH) = 2 ^ k - 32"
      by (simp add: unat_saturating_sub n MINIMUM_SLOTS_PER_EPOCH_def)
    ultimately show ?thesis
      using assms(1) spe le True k(1,3) k5
      by (auto simp: custom_def schedule_ok_def trailing_zeros_power Let_def intro!: exI [of _ k])
  next
    case False
    then show ?thesis using assms(1) spe le by (auto simp: custom_def schedule_ok_def intro!: exI [of _ 5])
  qed
qed

lemma unat_saturating_pow_2: "n < 64 \<Longrightarrow> unat (saturating_pow (2 :: u64) n) = 2 ^ n"
proof -
  assume n: "n < 64"
  then have "(2::nat) ^ n < 2 ^ LENGTH(64)" by (intro power_strict_increasing) simp_all
  then show ?thesis using n by (simp add: saturating_pow_def unat_power_2_u64)
qed

text \<open>Epochs below the first normal one, given as a small number.\<close>

lemma warmup_epoch:
  assumes k: "5 \<le> k" "k < 64" and fne: "unat (first_normal_epoch es) = k - 5" and e: "unat e \<le> k - 5"
  shows "unat (get_first_slot_in_epoch es e) = 2 ^ (unat e + 5) - 32"
    and "unat e < k - 5 \<Longrightarrow> unat (get_slots_in_epoch es e) = 2 ^ (unat e + 5)"
proof -
  have ue: "unat e < 2 ^ 32" using e k by simp
  then have c: "unat (ucast e :: u32) = unat e" by (simp add: unat_ucast_mod)
  have small: "unat e < 64" "unat e + 5 < 64" using e k by simp_all
  have le: "(2::nat) ^ (unat e + 5) < 2 ^ 64" using small by (intro power_strict_increasing) simp_all
  have "(2 ^ unat e - 1) * 32 = (2::nat) ^ (unat e + 5) - 32" by (simp add: power_add diff_mult_distrib)
  moreover have "e \<le> first_normal_epoch es" using e fne by (simp add: word_le_nat_alt)
  ultimately show "unat (get_first_slot_in_epoch es e) = 2 ^ (unat e + 5) - 32"
    using le by (simp add: get_first_slot_in_epoch_def unat_saturating_mul unat_saturating_sub c
        unat_saturating_pow_2 small MINIMUM_SLOTS_PER_EPOCH_def)
  assume "unat e < k - 5"
  then have "e < first_normal_epoch es" using fne by (simp add: word_less_nat_alt)
  moreover have "unat (saturating_add (ucast e :: u32) 5) = unat e + 5"
    using small by (simp add: unat_saturating_add c)
  ultimately show "unat (get_slots_in_epoch es e) = 2 ^ (unat e + 5)"
    using small by (simp add: get_slots_in_epoch_def unat_saturating_pow_2)
qed

lemma warmup_slot:
  assumes s: "s < first_normal_slot es" and k: "k < 64" and fns: "unat (first_normal_slot es) = 2 ^ k - 32"
  obtains m where "6 \<le> m" and "m \<le> k" and "2 ^ (m - 1) \<le> unat s + 32" and "unat s + 32 < 2 ^ m"
    and "get_epoch_and_slot_index es s = (of_nat (m - 6), of_nat (unat s - (2 ^ (m - 1) - 32)))"
proof -
  have "unat s < 2 ^ k - 32" using s fns by (simp add: word_less_nat_alt)
  then have sk: "unat s + 33 \<le> 2 ^ k" by simp
  have k63: "(2::nat) ^ k \<le> 2 ^ 63" using k by (intro power_increasing) simp_all
  define x where "x = saturating_add (saturating_add s MINIMUM_SLOTS_PER_EPOCH) 1"
  have x: "unat x = unat s + 33"
    using sk k63 by (simp add: x_def unat_saturating_add MINIMUM_SLOTS_PER_EPOCH_def)
  obtain m where m: "next_power_of_two x = 2 ^ m" "0 < m" "m < 64" "2 ^ (m - 1) < unat x" "unat x \<le> 2 ^ m"
  proof (rule next_power_of_two_bounds)
    show "1 < unat x" using x by simp
    show "unat x \<le> 2 ^ 63" using x sk k63 by linarith
  qed
  have "(2::nat) ^ 5 < 2 ^ m" using m(5) x by simp
  then have m6: "6 \<le> m" by (simp only: power_strict_increasing_iff [of 2])
  have "(2::nat) ^ (m - 1) < 2 ^ k" using m(4) x sk by linarith
  then have "m - 1 < k" by (simp only: power_strict_increasing_iff [of 2])
  have um: "unat (of_nat n :: u32) = n" if "n < 64" for n using that by (intro unat_of_nat_lt) simp
  define e where "e = saturating_sub (saturating_sub (of_nat m :: u32) 5) 1"
  have e: "unat e = m - 6" by (simp add: e_def unat_saturating_sub um m(3))
  have "unat (saturating_add e 5) = m - 1" using m6 m(3) by (simp add: unat_saturating_add e)
  then have len: "unat (saturating_pow (2::u64) (unat (saturating_add e 5))) = 2 ^ (m - 1)"
    using m(3) by (simp add: unat_saturating_pow_2)
  have "get_epoch_and_slot_index es s = (ucast e, saturating_sub s (saturating_sub
      (saturating_pow 2 (unat (saturating_add e 5))) MINIMUM_SLOTS_PER_EPOCH))"
    using s by (simp add: get_epoch_and_slot_index_def x_def [symmetric] m(1) trailing_zeros_power m(3) e_def [symmetric] Let_def)
  moreover have "ucast e = (of_nat (m - 6) :: u64)"
    using m(3) by (simp add: word_unat_eq_iff unat_ucast_up e unat_of_nat)
  moreover have "saturating_sub s (saturating_sub (saturating_pow 2 (unat (saturating_add e 5))) MINIMUM_SLOTS_PER_EPOCH) =
      of_nat (unat s - (2 ^ (m - 1) - 32))"
    by (simp only: word_unat_eq_iff unat_saturating_sub len MINIMUM_SLOTS_PER_EPOCH_def
        unat_of_nat_lt [OF less_imp_diff_less [OF unat_lt_exp]]) simp
  ultimately show ?thesis
    using m6 \<open>m - 1 < k\<close> m(4,5) x by (intro that [of m]) simp_all
qed

text \<open>Slots from the first normal one on.\<close>

lemma normal_slot:
  assumes ok: "schedule_ok es" and s: "\<not> s < first_normal_slot es"
  shows "\<exists>e i. get_epoch_and_slot_index es s = (e, i) \<and> unat i < unat (get_slots_in_epoch es e) \<and>
    unat (get_first_slot_in_epoch es e) + unat i = unat s"
proof -
  obtain k where spe: "32 \<le> unat (slots_per_epoch es)" and k: "5 \<le> k" "k < 64"
    and fne: "unat (first_normal_epoch es) = k - 5" and fns: "unat (first_normal_slot es) = 2 ^ k - 32"
    using ok by (auto simp: schedule_ok_def)
  let ?n = "unat (slots_per_epoch es)"
  define d where "d = unat s - (2 ^ k - 32)"
  have sd: "unat s = 2 ^ k - 32 + d" using s fns by (simp add: d_def word_less_nat_alt)
  have "d div ?n \<le> d div 32" using spe by (intro div_le_mono2) simp_all
  moreover have "d < 2 ^ 59 * 32" using unat_lt_exp [of s] sd by simp
  then have "d div 32 < 2 ^ 59" by (rule less_mult_imp_div_less)
  ultimately have q: "k - 5 + d div ?n < 2 ^ 64" using k(2) by simp
  define e where "e = saturating_add (first_normal_epoch es) (saturating_sub s (first_normal_slot es) div slots_per_epoch es)"
  define i where "i = saturating_sub s (first_normal_slot es) mod slots_per_epoch es"
  have e: "unat e = k - 5 + d div ?n"
    using q by (simp add: e_def unat_saturating_add unat_div unat_saturating_sub fne fns d_def [symmetric])
  have i: "unat i = d mod ?n" by (simp add: i_def unat_mod unat_saturating_sub fns d_def [symmetric])
  have ge: "first_normal_epoch es \<le> e" using e fne by (simp add: word_le_nat_alt)
  have "slots_per_epoch es \<noteq> 0" using spe by auto
  then have run: "get_epoch_and_slot_index es s = (e, i)"
    using s by (simp add: get_epoch_and_slot_index_def e_def i_def checked_div_def checked_rem_def Let_def)
  have "unat i < unat (get_slots_in_epoch es e)"
    using ge spe i by (simp add: get_slots_in_epoch_def not_less [symmetric])
  moreover have "unat (get_first_slot_in_epoch es e) + unat i = unat s"
  proof (cases "d div ?n = 0")
    case True
    then have "unat e = k - 5" and "d mod ?n = d" using e by (auto simp: div_eq_0_iff)
    then show ?thesis using warmup_epoch(1) [OF k fne, of e] i sd k(1) by simp
  next
    case False
    then have "\<not> e \<le> first_normal_epoch es" using e fne by (simp add: word_le_nat_alt)
    moreover have "d div ?n * ?n + (2 ^ k - 32) \<le> unat s" using sd by simp
    ultimately have "unat (get_first_slot_in_epoch es e) = d div ?n * ?n + (2 ^ k - 32)"
      using e fne fns unat_lt_exp [of s]
      by (simp add: get_first_slot_in_epoch_def unat_saturating_add unat_saturating_mul unat_saturating_sub)
    then show ?thesis using i sd by simp
  qed
  ultimately show ?thesis using run by blast
qed

text \<open>The first slot of an epoch, as if slots were unbounded.\<close>

definition epoch_start :: "EpochSchedule \<Rightarrow> nat \<Rightarrow> nat" where
  "epoch_start es n =
     (if n \<le> unat (first_normal_epoch es) then 2 ^ (n + 5) - 32
      else (n - unat (first_normal_epoch es)) * unat (slots_per_epoch es) + unat (first_normal_slot es))"

lemma epoch_bounds:
  assumes "schedule_ok es"
  shows "unat (get_first_slot_in_epoch es e) = min (epoch_start es (unat e)) (2 ^ 64 - 1)"
    and "epoch_start es (unat e) + unat (get_slots_in_epoch es e) = epoch_start es (Suc (unat e))"
proof -
  obtain k where k: "5 \<le> k" "k < 64" and fne: "unat (first_normal_epoch es) = k - 5"
    and fns: "unat (first_normal_slot es) = 2 ^ k - 32"
    using assms by (auto simp: schedule_ok_def)
  have "unat (get_first_slot_in_epoch es e) = min (epoch_start es (unat e)) (2 ^ 64 - 1) \<and>
    epoch_start es (unat e) + unat (get_slots_in_epoch es e) = epoch_start es (Suc (unat e))"
  proof (cases "unat e < k - 5")
    case True
    have "(2::nat) ^ 5 \<le> 2 ^ (unat e + 5)" by (intro power_increasing) simp_all
    moreover have "(2::nat) ^ (unat e + 5) < 2 ^ 64" using True k by (intro power_strict_increasing) simp_all
    moreover have "(2::nat) ^ (6 + unat e) = 2 * 2 ^ (unat e + 5)" by (simp add: power_add)
    ultimately show ?thesis
      using True warmup_epoch [OF k fne, of e] by (simp add: epoch_start_def fne)
  next
    case False
    have sat: "min (min a c + b) c = min (a + b) c" for a b c :: nat by simp
    have "(2::nat) ^ k < 2 ^ 64" using k by (intro power_strict_increasing) simp_all
    then have "unat (get_first_slot_in_epoch es e) = min (epoch_start es (unat e)) (2 ^ 64 - 1)"
      using False k fns warmup_epoch(1) [OF k fne, of e]
      by (cases "unat e = k - 5") (auto simp: epoch_start_def fne get_first_slot_in_epoch_def word_le_nat_alt
          unat_saturating_add unat_saturating_mul unat_saturating_sub sat)
    moreover have "get_slots_in_epoch es e = slots_per_epoch es"
      using False fne by (simp add: get_slots_in_epoch_def word_less_nat_alt)
    moreover have "6 + unat e - k = Suc (unat e + 5 - k)" using False k by simp
    ultimately show ?thesis
      using False k fns by (auto simp: epoch_start_def fne)
  qed
  then show "unat (get_first_slot_in_epoch es e) = min (epoch_start es (unat e)) (2 ^ 64 - 1)"
    and "epoch_start es (unat e) + unat (get_slots_in_epoch es e) = epoch_start es (Suc (unat e))" by simp_all
qed

lemma epoch_start_positive: "schedule_ok es \<Longrightarrow> 0 < epoch_start es (Suc n)"
proof -
  assume "schedule_ok es"
  moreover have "(2::nat) ^ 6 \<le> 2 ^ (Suc n + 5)" by (intro power_increasing) simp_all
  ultimately show ?thesis by (auto simp: epoch_start_def schedule_ok_def)
qed

lemma epoch_start_mono:
  assumes "schedule_ok es" and "m \<le> n" and "n < 2 ^ 64"
  shows "epoch_start es m \<le> epoch_start es n"
  using assms(2,3)
proof (induction rule: dec_induct)
  case (step i)
  have "unat (of_nat i :: Epoch) = i" using step by (intro unat_of_nat_lt) simp
  then have "epoch_start es i \<le> epoch_start es (Suc i)"
    using epoch_bounds(2) [OF assms(1), of "of_nat i"] by simp
  then show ?case using step by simp
qed simp

lemma last_slot_in_epoch:
  assumes "schedule_ok es"
  shows "unat (get_last_slot_in_epoch es e) = min (epoch_start es (Suc (unat e))) (2 ^ 64 - 1) - 1"
  using epoch_bounds [OF assms, of e]
  by (auto simp: get_last_slot_in_epoch_def unat_saturating_sub unat_saturating_add min_def)

lemma epochs_disjoint:
  assumes ok: "schedule_ok es" and "get_first_slot_in_epoch es e \<le> s" and "s \<le> get_last_slot_in_epoch es d"
    and "d < e"
  shows False
proof -
  have "epoch_start es (Suc (unat d)) \<le> epoch_start es (unat e)"
    using assms(4) unat_lt_exp [of e] by (intro epoch_start_mono [OF ok]) (simp_all add: word_less_nat_alt)
  then show False
    using epoch_start_positive [OF ok, of "unat d"] assms(2,3) epoch_bounds(1) [OF ok, of e] last_slot_in_epoch [OF ok, of d]
    by (auto simp: word_le_nat_alt min_def split: if_splits)
qed

lemma slot_in_epoch:
  assumes ok: "schedule_ok es" and "get_epoch_and_slot_index es s = (e, i)"
  shows "unat i < unat (get_slots_in_epoch es e) \<and> unat (get_first_slot_in_epoch es e) + unat i = unat s"
proof (cases "s < first_normal_slot es")
  case True
  obtain k where k: "5 \<le> k" "k < 64" and fne: "unat (first_normal_epoch es) = k - 5"
    and fns: "unat (first_normal_slot es) = 2 ^ k - 32"
    using ok by (auto simp: schedule_ok_def)
  obtain m where m: "6 \<le> m" "m \<le> k" "2 ^ (m - 1) \<le> unat s + 32" "unat s + 32 < 2 ^ m"
    and run: "get_epoch_and_slot_index es s = (of_nat (m - 6), of_nat (unat s - (2 ^ (m - 1) - 32)))"
    using True k(2) fns by (rule warmup_slot)
  have e: "unat e = m - 6" using run assms(2) m(2) k(2) by (auto simp: unat_of_nat_lt)
  have i: "unat i = unat s - (2 ^ (m - 1) - 32)"
    using run assms(2) unat_of_nat_lt [OF less_imp_diff_less [OF unat_lt_exp], of s] by auto
  have p: "(2::nat) ^ m = 2 * 2 ^ (m - 1)" using m(1) by (cases m) simp_all
  have "(2::nat) ^ 5 \<le> 2 ^ (m - 1)" using m(1) by (intro power_increasing) simp_all
  moreover have "unat e + 5 = m - 1" and "unat e < k - 5" using e m(1,2) by simp_all
  then have "unat (get_first_slot_in_epoch es e) = 2 ^ (m - 1) - 32" and "unat (get_slots_in_epoch es e) = 2 ^ (m - 1)"
    using warmup_epoch [OF k fne, of e] by simp_all
  ultimately show ?thesis using i m(3,4) p by linarith
next
  case False
  then show ?thesis using normal_slot [OF ok, of s] assms(2) by auto
qed

text \<open>
  C20: the epochs partition the slots, during warmup and after it. For a schedule that \<open>custom\<close> built (of
  at most \<open>2^63\<close> slots per epoch), the epoch of a slot is the one that \<open>get_epoch_and_slot_index\<close> gives;
  the index of the slot is below the number of slots of the epoch, and the first slot of the epoch plus
  the index is the slot, so nothing overflows. The slot is at most the last slot of the epoch, unless it
  is the greatest slot there is, where the last slot saturates. In no other epoch is the slot between the
  first and the last slot.
\<close>

theorem epoch_schedule_roundtrip:
  assumes "custom spe offset wu = Ok es" and "unat spe \<le> 2 ^ 63"
    and "get_epoch_and_slot_index es s = (e, i)"
  shows "get_epoch es s = e \<and> unat i < unat (get_slots_in_epoch es e) \<and>
    unat (get_first_slot_in_epoch es e) + unat i = unat s \<and>
    (unat s < 2 ^ 64 - 1 \<longrightarrow> s \<le> get_last_slot_in_epoch es e) \<and>
    (\<forall>e'. get_first_slot_in_epoch es e' \<le> s \<and> s \<le> get_last_slot_in_epoch es e' \<longrightarrow> e' = e)"
proof -
  have ok: "schedule_ok es" using assms(1,2) by (rule custom_schedule_ok)
  note place = slot_in_epoch [OF ok assms(3)]
  then have first: "get_first_slot_in_epoch es e \<le> s" by (simp add: word_le_nat_alt)
  have "unat s < epoch_start es (Suc (unat e))"
    using place epoch_bounds [OF ok, of e] unat_lt_exp [of s] by (auto simp: min_def split: if_splits)
  then have last: "s \<le> get_last_slot_in_epoch es e" if "unat s < 2 ^ 64 - 1"
    using that by (simp add: word_le_nat_alt last_slot_in_epoch [OF ok])
  have "e' = e" if e': "get_first_slot_in_epoch es e' \<le> s" "s \<le> get_last_slot_in_epoch es e'" for e'
  proof (cases e' e rule: linorder_cases)
    case less
    then show ?thesis using epochs_disjoint [OF ok first e'(2)] by blast
  next
    case greater
    have "unat (get_last_slot_in_epoch es e') < 2 ^ 64 - 1" by (simp add: last_slot_in_epoch [OF ok])
    then have "unat s < 2 ^ 64 - 1" using e'(2) by (simp add: word_le_nat_alt)
    then show ?thesis using epochs_disjoint [OF ok e'(1) last greater] by blast
  qed
  then show ?thesis using place last assms(3) by (simp add: get_epoch_def)
qed

theorem epoch_schedule_roundtrip_witness:
  "\<exists>es :: EpochSchedule. custom 64 64 True = (Ok es :: (EpochSchedule, unit) result) \<and>
     (\<exists>e i. get_epoch_and_slot_index es 40 = (e, i) \<and> get_epoch es 40 = e \<and>
        unat (get_first_slot_in_epoch es e) + unat i = 40 \<and> 40 \<le> get_last_slot_in_epoch es e)"
proof -
  obtain es where es: "custom 64 64 True = (Ok es :: (EpochSchedule, unit) result)"
    by (simp add: custom_def MINIMUM_SLOTS_PER_EPOCH_def Let_def)
  obtain e i where ei: "get_epoch_and_slot_index es 40 = (e, i)" by fastforce
  with epoch_schedule_roundtrip [OF es _ ei] es show ?thesis by auto
qed

end
