(* ===== verification/Rent.thy ===== *)
theory Rent
  imports Sdk_Types Epoch_Schedule Complex_Main
begin

text \<open>
  \<open>sdk/program/src/rent.rs\<close>: rent rates and rent exemption, with the \<open>f64\<close> arithmetic it uses.

  An \<open>f64\<close> is its value, a rational number, an infinity or NaN (the code does not tell the two
  zeros apart). An operation computes exactly and rounds once, to the nearest number of 53
  significant bits, ties to even.
\<close>

section \<open>Floating point numbers\<close>

datatype f64 = Finite rat | Infinite bool | NaN

text \<open>The exponent of the leading bit of a positive number.\<close>

definition leading_exponent :: "rat \<Rightarrow> int" where
  "leading_exponent x =
     (let (p, q) = quotient_of x;
          k = int (bit_length (nat p)) - int (bit_length (nat q))
      in if 2 powi k \<le> x then k else k - 1)"

definition round_half_even :: "rat \<Rightarrow> int" where
  "round_half_even x =
     (let f = \<lfloor>x\<rfloor>; d = x - of_int f
      in if d < 1 / 2 then f else if 1 / 2 < d then f + 1 else if even f then f else f + 1)"

definition round_f64 :: "rat \<Rightarrow> f64" where
  "round_f64 x =
     (if x = 0 then Finite 0
      else
        let ulp = 2 powi (max (leading_exponent \<bar>x\<bar> - 52) (- 1074));
            r = of_int (round_half_even (x / ulp)) * ulp
        in if 2 ^ 1024 \<le> \<bar>r\<bar> then Infinite (x < 0) else Finite r)"

definition f64_of_u64 :: "u64 \<Rightarrow> f64" where
  "f64_of_u64 x = round_f64 (of_nat (unat x))"

fun f64_mul :: "f64 \<Rightarrow> f64 \<Rightarrow> f64" where
  "f64_mul (Finite x) (Finite y) = round_f64 (x * y)"
| "f64_mul (Finite x) (Infinite s) = (if x = 0 then NaN else Infinite (s \<noteq> (x < 0)))"
| "f64_mul (Infinite s) (Finite x) = (if x = 0 then NaN else Infinite (s \<noteq> (x < 0)))"
| "f64_mul (Infinite s) (Infinite t) = Infinite (s \<noteq> t)"
| "f64_mul NaN y = NaN"
| "f64_mul x NaN = NaN"

text \<open>The cast \<open>as u64\<close> truncates and saturates; NaN becomes 0.\<close>

fun u64_of_f64 :: "f64 \<Rightarrow> u64" where
  "u64_of_f64 (Finite x) = (if x < 0 then 0 else if 2 ^ 64 \<le> x then - 1 else of_int \<lfloor>x\<rfloor>)"
| "u64_of_f64 (Infinite negative) = (if negative then 0 else - 1)"
| "u64_of_f64 NaN = 0"

section \<open>Rent\<close>

record Rent =
  lamports_per_byte_year :: u64
  exemption_threshold :: f64
  burn_percent :: u8

definition DEFAULT_LAMPORTS_PER_BYTE_YEAR :: u64 where
  "DEFAULT_LAMPORTS_PER_BYTE_YEAR = 1000000000 div 100 * 365 div (1024 * 1024)"

definition DEFAULT_EXEMPTION_THRESHOLD :: f64 where
  "DEFAULT_EXEMPTION_THRESHOLD = Finite 2"

definition DEFAULT_BURN_PERCENT :: u8 where
  "DEFAULT_BURN_PERCENT = 50"

definition ACCOUNT_STORAGE_OVERHEAD :: u64 where
  "ACCOUNT_STORAGE_OVERHEAD = 128"

definition rent_default :: Rent where
  "rent_default =
     \<lparr>lamports_per_byte_year = DEFAULT_LAMPORTS_PER_BYTE_YEAR,
      exemption_threshold = DEFAULT_EXEMPTION_THRESHOLD, burn_percent = DEFAULT_BURN_PERCENT\<rparr>"

definition calculate_burn :: "Rent \<Rightarrow> u64 \<Rightarrow> u64 \<times> u64" where
  "calculate_burn rent rent_collected =
     (let burned_portion = (rent_collected * ucast (burn_percent rent)) div 100
      in (burned_portion, rent_collected - burned_portion))"

definition minimum_balance :: "Rent \<Rightarrow> nat \<Rightarrow> u64" where
  "minimum_balance rent data_len =
     (let bytes = of_nat data_len
      in u64_of_f64 (f64_mul (f64_of_u64 ((ACCOUNT_STORAGE_OVERHEAD + bytes) * lamports_per_byte_year rent))
           (exemption_threshold rent)))"

definition is_exempt :: "Rent \<Rightarrow> u64 \<Rightarrow> nat \<Rightarrow> bool" where
  "is_exempt rent balance data_len \<longleftrightarrow> minimum_balance rent data_len \<le> balance"

datatype RentDue = Exempt | Paying u64

definition due_amount :: "Rent \<Rightarrow> nat \<Rightarrow> f64 \<Rightarrow> u64" where
  "due_amount rent data_len years_elapsed =
     (let actual_data_len = of_nat data_len + ACCOUNT_STORAGE_OVERHEAD;
          lamports_per_year = lamports_per_byte_year rent * actual_data_len
      in u64_of_f64 (f64_mul (f64_of_u64 lamports_per_year) years_elapsed))"

definition due :: "Rent \<Rightarrow> u64 \<Rightarrow> nat \<Rightarrow> f64 \<Rightarrow> RentDue" where
  "due rent balance data_len years_elapsed =
     (if is_exempt rent balance data_len then Exempt else Paying (due_amount rent data_len years_elapsed))"

definition rent_free :: Rent where
  "rent_free = rent_default\<lparr>lamports_per_byte_year := 0\<rparr>"

fun rent_due_lamports :: "RentDue \<Rightarrow> u64" where
  "rent_due_lamports Exempt = 0"
| "rent_due_lamports (Paying x) = x"

fun rent_due_is_exempt :: "RentDue \<Rightarrow> bool" where
  "rent_due_is_exempt Exempt = True"
| "rent_due_is_exempt (Paying _) = False"

section \<open>Exact results\<close>

lemma bit_length_le: "n < 2 ^ k \<Longrightarrow> bit_length n \<le> k"
proof (cases "n = 0")
  case False
  assume "n < 2 ^ k"
  then have "(2::nat) ^ (bit_length n - 1) < 2 ^ k" using bit_length_bounds(2) [of n] False by (meson le_less_trans not_gr0)
  then have "bit_length n - 1 < k" by (simp only: power_strict_increasing_iff [of 2])
  then show ?thesis by simp
qed (simp add: bit_length.simps)

lemma round_half_even_of_int [simp]: "round_half_even (of_int n) = n"
  by (simp add: round_half_even_def)

text \<open>Numbers of at most 53 significant bits are represented exactly.\<close>

lemma round_f64_exact:
  assumes "m < 2 ^ 53" and "j \<le> 64"
  shows "round_f64 (of_nat (m * 2 ^ j)) = Finite (of_nat (m * 2 ^ j))"
proof (cases "m = 0")
  case False
  define n where "n = m * 2 ^ j"
  define x :: rat where "x = of_nat n"
  have x: "0 < x" using False by (simp add: x_def n_def)
  have "n < 2 ^ (53 + j)" using assms(1) by (simp add: n_def power_add)
  then have bl: "bit_length n \<le> 53 + j" by (rule bit_length_le)
  have "quotient_of x = (int n, 1)" using quotient_of_int [of "int n"] by (simp add: x_def)
  then have "leading_exponent x \<le> int (bit_length n) - 1"
    by (simp add: leading_exponent_def Let_def)
  define u where "u = max (leading_exponent x - 52) (- 1074)"
  have u: "u \<le> int j" using \<open>leading_exponent x \<le> int (bit_length n) - 1\<close> bl by (simp add: u_def)
  have "x = of_nat m * 2 powi int j" by (simp add: x_def n_def)
  also have "2 powi int j = 2 powi (int j - u) * (2 powi u :: rat)" by (simp add: power_int_diff)
  also have "2 powi (int j - u) = (2 :: rat) ^ nat (int j - u)" using u by (simp add: power_int_def)
  finally obtain k where k: "x / 2 powi u = of_int k"
    by (metis (no_types) mult.assoc nonzero_mult_div_cancel_right of_int_mult of_int_numeral of_int_of_nat_eq of_int_power power_int_eq_0_iff zero_neq_numeral)
  have r: "of_int (round_half_even (x / 2 powi u)) * 2 powi u = x"
    unfolding k round_half_even_of_int unfolding k [symmetric] by simp
  have "n < 2 ^ 1024"
    using \<open>n < 2 ^ (53 + j)\<close> power_increasing [of "53 + j" 1024 "2 :: nat"] assms(2) by linarith
  then have "\<not> 2 ^ 1024 \<le> x" unfolding x_def by (metis not_le of_nat_less_iff of_nat_numeral of_nat_power)
  then show ?thesis
    using x r by (simp add: round_f64_def u_def [symmetric] n_def [symmetric] x_def [symmetric])
qed (simp add: round_f64_def)

lemma f64_of_u64_exact: "unat x < 2 ^ 53 \<Longrightarrow> f64_of_u64 x = Finite (of_nat (unat x))"
  using round_f64_exact [of "unat x" 0] by (simp add: f64_of_u64_def)

lemma u64_of_f64_of_nat: "n < 2 ^ 64 \<Longrightarrow> u64_of_f64 (Finite (of_nat n)) = of_nat n"
proof -
  assume "n < 2 ^ 64"
  then have "\<not> 2 ^ 64 \<le> (of_nat n :: rat)" by (metis not_le of_nat_less_iff of_nat_numeral of_nat_power)
  then show ?thesis by simp
qed

lemma minimum_balance_threshold_2:
  assumes two: "exemption_threshold rent = Finite 2"
    and small: "(128 + data_len) * unat (lamports_per_byte_year rent) < 2 ^ 53"
  shows "unat (minimum_balance rent data_len) = (128 + data_len) * unat (lamports_per_byte_year rent) * 2"
proof (cases "lamports_per_byte_year rent = 0")
  case True
  then show ?thesis using two round_f64_exact [of 0 0] by (simp add: minimum_balance_def f64_of_u64_def)
next
  case False
  define l where "l = unat (lamports_per_byte_year rent)"
  define n where "n = (128 + data_len) * l"
  have l: "0 < l" using False by (simp add: l_def unat_gt_0)
  have "(128 + data_len) * 1 \<le> n" unfolding n_def using l by (intro mult_le_mono2) simp
  moreover have "n < 2 ^ 53" using small by (simp add: n_def l_def)
  ultimately have d: "128 + data_len < 2 ^ 64" by simp
  then have "ACCOUNT_STORAGE_OVERHEAD + of_nat data_len = (of_nat (128 + data_len) :: u64)"
    by (simp add: ACCOUNT_STORAGE_OVERHEAD_def)
  moreover have "unat (of_nat (128 + data_len) :: u64) = 128 + data_len" using d by (intro unat_of_nat_lt) simp
  ultimately have "unat ((ACCOUNT_STORAGE_OVERHEAD + of_nat data_len) * lamports_per_byte_year rent) = n"
    using small by (simp add: unat_word_ariths n_def l_def)
  moreover have n: "n < 2 ^ 53" using small by (simp add: n_def l_def)
  ultimately have "f64_of_u64 ((ACCOUNT_STORAGE_OVERHEAD + of_nat data_len) * lamports_per_byte_year rent) = Finite (of_nat n)"
    by (simp add: f64_of_u64_exact)
  then have "minimum_balance rent data_len = u64_of_f64 (round_f64 (of_nat (n * 2 ^ 1)))"
    by (simp add: minimum_balance_def two)
  also have "round_f64 (of_nat (n * 2 ^ 1)) = Finite (of_nat (n * 2 ^ 1))"
    using n by (intro round_f64_exact) simp_all
  also have "u64_of_f64 \<dots> = of_nat (n * 2 ^ 1)" using n by (intro u64_of_f64_of_nat) simp
  also have "unat (of_nat (n * 2 ^ 1) :: u64) = n * 2 ^ 1" using n by (intro unat_of_nat_lt) simp
  finally show ?thesis by (simp add: n_def l_def)
qed

text \<open>
  C34: with the default parameters, rent exemption is exact and monotone: the minimum balance of an
  account with \<open>n\<close> bytes (up to \<open>2^40\<close>) is \<open>6960 (128 + n)\<close> lamports, no rounding or overflow occurs,
  and an account that is rent exempt stays so when its data shrinks or its balance grows.
\<close>

theorem minimum_balance_default:
  assumes "n \<le> 2 ^ 40"
  shows "unat (minimum_balance rent_default n) = 6960 * (128 + n) \<and>
    (\<forall>balance balance' m. is_exempt rent_default balance n \<and> m \<le> n \<and> balance \<le> balance' \<longrightarrow>
       is_exempt rent_default balance' m)"
proof -
  have lamports: "unat (lamports_per_byte_year rent_default) = 3480"
    by (simp add: rent_default_def DEFAULT_LAMPORTS_PER_BYTE_YEAR_def unat_div)
  have two: "exemption_threshold rent_default = Finite 2"
    by (simp add: rent_default_def DEFAULT_EXEMPTION_THRESHOLD_def)
  have m: "unat (minimum_balance rent_default m) = 6960 * (128 + m)" if "m \<le> 2 ^ 40" for m
    using minimum_balance_threshold_2 [OF two, of m] that by (simp add: lamports)
  then show ?thesis using assms by (auto simp: is_exempt_def word_le_nat_alt)
qed

theorem minimum_balance_default_witness:
  "unat (minimum_balance rent_default 0) = 890880"
  using minimum_balance_default [of 0] by simp

text \<open>
  C35: burning rent loses nothing: the burned and the distributed part add up to the rent collected, and
  the burned part is the configured percentage of it, rounded down (for a percentage up to 100 and
  less than \<open>2^57\<close> lamports of rent).
\<close>

theorem calculate_burn_exact:
  assumes "unat (burn_percent rent) \<le> 100" and "unat collected < 2 ^ 57"
    and "calculate_burn rent collected = (burned, rest)"
  shows "unat burned + unat rest = unat collected \<and> unat burned = unat collected * unat (burn_percent rent) div 100"
proof -
  have "unat collected * unat (burn_percent rent) \<le> unat collected * 100" using assms(1) by simp
  then have "unat collected * unat (burn_percent rent) < 2 ^ 64"
    by (rule le_less_trans) (use assms(2) in simp)
  then have "unat (collected * ucast (burn_percent rent)) = unat collected * unat (burn_percent rent)"
    by (simp add: unat_word_ariths unat_ucast_up)
  then have b: "unat burned = unat collected * unat (burn_percent rent) div 100"
    using assms(3) by (auto simp: calculate_burn_def unat_div Let_def)
  moreover have "unat collected * unat (burn_percent rent) div 100 \<le> unat collected"
    using \<open>_ \<le> unat collected * 100\<close> by (metis div_le_mono nonzero_mult_div_cancel_right zero_neq_numeral)
  ultimately show ?thesis
    using assms(3) by (auto simp: calculate_burn_def unat_sub_if' word_le_nat_alt Let_def)
qed

theorem calculate_burn_exact_witness:
  "calculate_burn rent_default 101 = (50, 51) \<and> unat (50 :: u64) + unat (51 :: u64) = unat (101 :: u64)"
proof -
  have run: "calculate_burn rent_default 101 = (50, 51)"
    by (simp add: calculate_burn_def rent_default_def DEFAULT_BURN_PERCENT_def Let_def word_unat_eq_iff unat_div)
  then show ?thesis
    using calculate_burn_exact [of rent_default 101 50 51] by (simp add: rent_default_def DEFAULT_BURN_PERCENT_def)
qed

end
