(* ===== verification/Account.thy ===== *)
theory Account
  imports Rent
begin

text \<open>
  Accounts (\<open>sdk/src/account.rs\<close>) and the cells that share them.

  The data of an \<open>AccountSharedData\<close> is a reference-counted vector that is copied before it is
  written; sharing and capacity do not show in its content, so the data is a list of bytes here and
  \<open>Account\<close> and \<open>AccountSharedData\<close> are one type.
\<close>

section \<open>Accounts\<close>

record AccountSharedData =
  acc_lamports :: u64
  acc_data :: "u8 list"
  acc_owner :: Pubkey
  acc_executable :: bool
  acc_rent_epoch :: Epoch

datatype LamportsError = LE_ArithmeticUnderflow | LE_ArithmeticOverflow

fun lamports_error_into :: "LamportsError \<Rightarrow> InstructionError" where
  "lamports_error_into LE_ArithmeticOverflow = ArithmeticOverflow"
| "lamports_error_into LE_ArithmeticUnderflow = ArithmeticOverflow"

definition acc_create :: "u64 \<Rightarrow> u8 list \<Rightarrow> Pubkey \<Rightarrow> bool \<Rightarrow> Epoch \<Rightarrow> AccountSharedData" where
  "acc_create lamports data owner executable rent_epoch =
     \<lparr>acc_lamports = lamports, acc_data = data, acc_owner = owner, acc_executable = executable,
      acc_rent_epoch = rent_epoch\<rparr>"

definition accounts_equal :: "AccountSharedData \<Rightarrow> AccountSharedData \<Rightarrow> bool" where
  "accounts_equal me other \<longleftrightarrow>
     acc_lamports me = acc_lamports other \<and> acc_executable me = acc_executable other \<and>
     acc_rent_epoch me = acc_rent_epoch other \<and> acc_owner me = acc_owner other \<and> acc_data me = acc_data other"

definition acc_checked_add_lamports :: "u64 \<Rightarrow> (AccountSharedData, LamportsError, unit) exec" where
  "acc_checked_add_lamports lamports a =
     (case checked_add (acc_lamports a) lamports of
        None \<Rightarrow> (Err LE_ArithmeticOverflow, a)
      | Some l \<Rightarrow> (Ok (), a\<lparr>acc_lamports := l\<rparr>))"

definition acc_checked_sub_lamports :: "u64 \<Rightarrow> (AccountSharedData, LamportsError, unit) exec" where
  "acc_checked_sub_lamports lamports a =
     (case checked_sub (acc_lamports a) lamports of
        None \<Rightarrow> (Err LE_ArithmeticUnderflow, a)
      | Some l \<Rightarrow> (Ok (), a\<lparr>acc_lamports := l\<rparr>))"

definition acc_saturating_add_lamports :: "u64 \<Rightarrow> AccountSharedData \<Rightarrow> AccountSharedData" where
  "acc_saturating_add_lamports lamports a = a\<lparr>acc_lamports := saturating_add (acc_lamports a) lamports\<rparr>"

definition acc_saturating_sub_lamports :: "u64 \<Rightarrow> AccountSharedData \<Rightarrow> AccountSharedData" where
  "acc_saturating_sub_lamports lamports a = a\<lparr>acc_lamports := saturating_sub (acc_lamports a) lamports\<rparr>"

definition shared_new_rent_epoch :: "u64 \<Rightarrow> nat \<Rightarrow> Pubkey \<Rightarrow> Epoch \<Rightarrow> AccountSharedData" where
  "shared_new_rent_epoch lamports space owner rent_epoch = acc_create lamports (replicate space 0) owner False rent_epoch"

definition shared_new :: "u64 \<Rightarrow> nat \<Rightarrow> Pubkey \<Rightarrow> AccountSharedData" where
  "shared_new lamports space owner = acc_create lamports (replicate space 0) owner False 0"

definition acc_resize :: "nat \<Rightarrow> u8 \<Rightarrow> AccountSharedData \<Rightarrow> AccountSharedData" where
  "acc_resize new_len value a =
     a\<lparr>acc_data := take new_len (acc_data a) @ replicate (new_len - length (acc_data a)) value\<rparr>"

definition acc_extend_from_slice :: "u8 list \<Rightarrow> AccountSharedData \<Rightarrow> AccountSharedData" where
  "acc_extend_from_slice data a = a\<lparr>acc_data := acc_data a @ data\<rparr>"

definition acc_set_data :: "u8 list \<Rightarrow> AccountSharedData \<Rightarrow> AccountSharedData" where
  "acc_set_data data a = a\<lparr>acc_data := data\<rparr>"

definition acc_set_data_from_slice :: "u8 list \<Rightarrow> AccountSharedData \<Rightarrow> AccountSharedData" where
  "acc_set_data_from_slice new_data a = a\<lparr>acc_data := new_data\<rparr>"

section \<open>States in account data\<close>

text \<open>
  \<open>bincode\<close> encodes the state types; its functions are parameters. \<open>bc_serialize_into\<close> writes to a
  slice and returns whether it succeeded, with the slice after it. \<open>bincode_laws\<close> is their
  documented behaviour.
\<close>

record 'a bincode =
  bc_size :: "'a \<Rightarrow> u64 option"
  bc_serialize :: "'a \<Rightarrow> u8 list option"
  bc_serialize_into :: "u8 list \<Rightarrow> 'a \<Rightarrow> bool \<times> u8 list"
  bc_deserialize :: "u8 list \<Rightarrow> 'a option"

definition bincode_laws :: "'a bincode \<Rightarrow> bool" where
  "bincode_laws bc \<longleftrightarrow>
     (\<forall>x bs. bc_serialize bc x = Some bs \<longrightarrow> bc_size bc x = Some (of_nat (length bs)) \<and> length bs < 2 ^ 64 \<and>
        (\<forall>rest. bc_deserialize bc (bs @ rest) = Some x) \<and>
        (\<forall>buf. length bs \<le> length buf \<longrightarrow> bc_serialize_into bc buf x = (True, bs @ drop (length bs) buf))) \<and>
     (\<forall>x. bc_serialize bc x = None \<longrightarrow> bc_size bc x = None) \<and>
     (\<forall>x buf. length (snd (bc_serialize_into bc buf x)) = length buf)"

datatype bincode_error = SizeLimit | BincodeError

definition shared_new_data :: "'a bincode \<Rightarrow> u64 \<Rightarrow> 'a \<Rightarrow> Pubkey \<Rightarrow> (AccountSharedData, bincode_error) result" where
  "shared_new_data bc lamports state owner =
     and_then (ok_or (bc_serialize bc state) BincodeError) (\<lambda>data. Ok (acc_create lamports data owner False 0))"

definition shared_deserialize_data :: "'a bincode \<Rightarrow> AccountSharedData \<Rightarrow> ('a, bincode_error) result" where
  "shared_deserialize_data bc a = ok_or (bc_deserialize bc (acc_data a)) BincodeError"

definition shared_serialize_data :: "'a bincode \<Rightarrow> 'a \<Rightarrow> (AccountSharedData, bincode_error, unit) exec" where
  "shared_serialize_data bc state a =
     (case bc_size bc state of
        None \<Rightarrow> (Err BincodeError, a)
      | Some n \<Rightarrow>
          if of_nat (length (acc_data a)) < n then (Err SizeLimit, a)
          else case bc_serialize_into bc (acc_data a) state of
              (True, d) \<Rightarrow> (Ok (), a\<lparr>acc_data := d\<rparr>)
            | (False, d) \<Rightarrow> (Err BincodeError, a\<lparr>acc_data := d\<rparr>))"

definition shared_new_data_with_space ::
  "'a bincode \<Rightarrow> u64 \<Rightarrow> 'a \<Rightarrow> nat \<Rightarrow> Pubkey \<Rightarrow> (AccountSharedData, bincode_error) result" where
  "shared_new_data_with_space bc lamports state space owner =
     (case shared_serialize_data bc state (shared_new lamports space owner) of
        (Ok _, a) \<Rightarrow> Ok a
      | (Err e, _) \<Rightarrow> Err e
      | (Panic, _) \<Rightarrow> Panic)"

section \<open>Cells\<close>

text \<open>\<open>RefCell\<close>, with the flag that its borrows are counted in.\<close>

datatype BorrowFlag = Unused | Reading nat | Writing

record 'a RefCell =
  rc_value :: 'a
  rc_borrow :: BorrowFlag

definition refcell_new :: "'a \<Rightarrow> 'a RefCell" where
  "refcell_new x = \<lparr>rc_value = x, rc_borrow = Unused\<rparr>"

definition can_borrow :: "'a RefCell \<Rightarrow> bool" where
  "can_borrow c \<longleftrightarrow> rc_borrow c \<noteq> Writing"

definition can_borrow_mut :: "'a RefCell \<Rightarrow> bool" where
  "can_borrow_mut c \<longleftrightarrow> rc_borrow c = Unused"

section \<open>States survive the round trip\<close>

lemma shared_serialize_deserialize:
  assumes "bincode_laws bc" and "shared_serialize_data bc state a = (Ok (), a')"
    and "length (acc_data a) < 2 ^ 64"
  shows "shared_deserialize_data bc a' = Ok state" and "length (acc_data a') = length (acc_data a)"
proof -
  obtain n where n: "bc_size bc state = Some n" "\<not> of_nat (length (acc_data a)) < n"
    using assms(2) by (auto simp: shared_serialize_data_def split: option.splits if_splits prod.splits bool.splits)
  obtain bs where bs: "bc_serialize bc state = Some bs"
    using assms(1) n by (cases "bc_serialize bc state") (auto simp: bincode_laws_def)
  then have "n = of_nat (length bs)" and "length bs < 2 ^ 64" using assms(1) n by (auto simp: bincode_laws_def)
  then have "length bs \<le> length (acc_data a)"
    using n(2) assms(3) by (simp add: word_less_nat_alt unat_of_nat_lt)
  then have "bc_serialize_into bc (acc_data a) state = (True, bs @ drop (length bs) (acc_data a))"
    using assms(1) bs by (simp add: bincode_laws_def)
  then have a': "a' = a\<lparr>acc_data := bs @ drop (length bs) (acc_data a)\<rparr>"
    using assms(2) n by (simp add: shared_serialize_data_def)
  then show "shared_deserialize_data bc a' = Ok state"
    using assms(1) bs by (simp add: shared_deserialize_data_def bincode_laws_def)
  show "length (acc_data a') = length (acc_data a)"
    using a' \<open>length bs \<le> length (acc_data a)\<close> by simp
qed

end
