(* ===== verification/Transaction_Context.thy ===== *)
theory Transaction_Context
  imports Account
begin

text \<open>
  \<open>sdk/src/transaction_context.rs\<close>: the accounts of a transaction and the stack of its
  instructions. A \<open>BorrowedAccount\<close> is a handle, the indices of an account with the instruction that
  borrowed it; the account itself is in its cell of the transaction context, marked as borrowed until
  the handle is dropped. Sizes and lengths (\<open>usize\<close>) are natural numbers, an \<open>i64\<close> is the integer it
  denotes.
\<close>

section \<open>Signed 64-bit arithmetic\<close>

definition i64_of_usize :: "nat \<Rightarrow> int" where
  "i64_of_usize n = signed_take_bit 63 (int n)"

definition i64_clamp :: "int \<Rightarrow> int" where
  "i64_clamp x = (if x < - (2 ^ 63) then - (2 ^ 63) else if 2 ^ 63 - 1 < x then 2 ^ 63 - 1 else x)"

definition i64_saturating_add :: "int \<Rightarrow> int \<Rightarrow> int" where
  "i64_saturating_add x y = i64_clamp (x + y)"

definition i64_saturating_sub :: "int \<Rightarrow> int \<Rightarrow> int" where
  "i64_saturating_sub x y = i64_clamp (x - y)"

section \<open>The data\<close>

type_synonym IndexOfAccount = u16

record InstructionAccount =
  ia_index_in_transaction :: IndexOfAccount
  ia_index_in_caller :: IndexOfAccount
  ia_index_in_callee :: IndexOfAccount
  ia_is_signer :: bool
  ia_is_writable :: bool

type_synonym TransactionAccount = "Pubkey \<times> AccountSharedData"

record TransactionAccounts =
  ta_accounts :: "AccountSharedData RefCell list"
  ta_touched_flags :: "bool list"

record TransactionReturnData =
  rd_program_id :: Pubkey
  rd_data :: "u8 list"

record InstructionContext =
  ic_nesting_level :: nat
  ic_instruction_accounts_lamport_sum :: u128
  ic_program_accounts :: "IndexOfAccount list"
  ic_instruction_accounts :: "InstructionAccount list"
  ic_instruction_data :: "u8 list"

record TransactionContext =
  tc_account_keys :: "Pubkey list"
  tc_accounts :: TransactionAccounts
  tc_instruction_stack_capacity :: nat
  tc_instruction_trace_capacity :: nat
  tc_instruction_stack :: "nat list"
  tc_instruction_trace :: "InstructionContext list"
  tc_return_data :: TransactionReturnData
  tc_accounts_resize_delta :: int
  tc_rent :: Rent

record BorrowedAccount =
  ba_instruction_context :: InstructionContext
  ba_index_in_transaction :: IndexOfAccount
  ba_index_in_instruction :: IndexOfAccount

definition MAX_PERMITTED_DATA_LENGTH :: u64 where
  "MAX_PERMITTED_DATA_LENGTH = 10 * 1024 * 1024"

definition MAX_PERMITTED_ACCOUNTS_DATA_ALLOCATIONS_PER_TRANSACTION :: int where
  "MAX_PERMITTED_ACCOUNTS_DATA_ALLOCATIONS_PER_TRANSACTION = uint MAX_PERMITTED_DATA_LENGTH * 2"

section \<open>Accounts of the transaction\<close>

definition transaction_accounts_new :: "AccountSharedData RefCell list \<Rightarrow> TransactionAccounts" where
  "transaction_accounts_new accounts = \<lparr>ta_accounts = accounts, ta_touched_flags = replicate (length accounts) False\<rparr>"

definition ta_len :: "TransactionAccounts \<Rightarrow> nat" where
  "ta_len ta = length (ta_accounts ta)"

definition ta_get :: "TransactionAccounts \<Rightarrow> IndexOfAccount \<Rightarrow> AccountSharedData RefCell option" where
  "ta_get ta index = vec_get (ta_accounts ta) (unat index)"

definition ta_touch :: "IndexOfAccount \<Rightarrow> (TransactionAccounts, InstructionError, unit) exec" where
  "ta_touch index ta =
     (if unat index < length (ta_touched_flags ta)
      then (Ok (), ta\<lparr>ta_touched_flags := (ta_touched_flags ta)[unat index := True]\<rparr>)
      else (Err NotEnoughAccountKeys, ta))"

definition touched_count :: "TransactionAccounts \<Rightarrow> nat" where
  "touched_count ta = fold (\<lambda>was_touched accumulator. accumulator + of_bool was_touched) (ta_touched_flags ta) 0"

definition ta_try_borrow :: "TransactionAccounts \<Rightarrow> IndexOfAccount \<Rightarrow> (AccountSharedData, InstructionError) result" where
  "ta_try_borrow ta index =
     and_then (ok_or (ta_get ta index) MissingAccount) (\<lambda>c.
       if can_borrow c then Ok (rc_value c) else Err AccountBorrowFailed)"

definition ta_try_borrow_mut :: "IndexOfAccount \<Rightarrow> (TransactionAccounts, InstructionError, AccountSharedData) exec" where
  "ta_try_borrow_mut index ta =
     (case ta_get ta index of
        None \<Rightarrow> (Err MissingAccount, ta)
      | Some c \<Rightarrow>
          if can_borrow_mut c
          then (Ok (rc_value c), ta\<lparr>ta_accounts := (ta_accounts ta)[unat index := c\<lparr>rc_borrow := Writing\<rparr>]\<rparr>)
          else (Err AccountBorrowFailed, ta))"

definition into_accounts :: "TransactionAccounts \<Rightarrow> AccountSharedData list" where
  "into_accounts ta = map rc_value (ta_accounts ta)"

section \<open>Instruction contexts\<close>

definition instruction_context_default :: InstructionContext where
  "instruction_context_default =
     \<lparr>ic_nesting_level = 0, ic_instruction_accounts_lamport_sum = 0, ic_program_accounts = [],
      ic_instruction_accounts = [], ic_instruction_data = []\<rparr>"

definition ic_configure ::
  "IndexOfAccount list \<Rightarrow> InstructionAccount list \<Rightarrow> u8 list \<Rightarrow> InstructionContext \<Rightarrow> InstructionContext" where
  "ic_configure program_accounts instruction_accounts instruction_data ic =
     ic\<lparr>ic_program_accounts := program_accounts, ic_instruction_accounts := instruction_accounts,
        ic_instruction_data := instruction_data\<rparr>"

definition get_stack_height :: "InstructionContext \<Rightarrow> nat" where
  "get_stack_height ic = ic_nesting_level ic + 1"

definition get_number_of_program_accounts :: "InstructionContext \<Rightarrow> IndexOfAccount" where
  "get_number_of_program_accounts ic = of_nat (length (ic_program_accounts ic))"

definition get_number_of_instruction_accounts :: "InstructionContext \<Rightarrow> IndexOfAccount" where
  "get_number_of_instruction_accounts ic = of_nat (length (ic_instruction_accounts ic))"

definition check_number_of_instruction_accounts ::
  "InstructionContext \<Rightarrow> IndexOfAccount \<Rightarrow> (unit, InstructionError) result" where
  "check_number_of_instruction_accounts ic expected_at_least =
     (if get_number_of_instruction_accounts ic < expected_at_least then Err NotEnoughAccountKeys else Ok ())"

definition ic_find_index_of_program_account ::
  "InstructionContext \<Rightarrow> TransactionContext \<Rightarrow> Pubkey \<Rightarrow> IndexOfAccount option" where
  "ic_find_index_of_program_account ic tc pubkey =
     map_option of_nat (position (\<lambda>i. vec_get (tc_account_keys tc) (unat i) = Some pubkey) (ic_program_accounts ic))"

definition find_index_of_instruction_account ::
  "InstructionContext \<Rightarrow> TransactionContext \<Rightarrow> Pubkey \<Rightarrow> IndexOfAccount option" where
  "find_index_of_instruction_account ic tc pubkey =
     map_option of_nat
       (position (\<lambda>ia. vec_get (tc_account_keys tc) (unat (ia_index_in_transaction ia)) = Some pubkey)
          (ic_instruction_accounts ic))"

definition get_index_of_program_account_in_transaction ::
  "InstructionContext \<Rightarrow> IndexOfAccount \<Rightarrow> (IndexOfAccount, InstructionError) result" where
  "get_index_of_program_account_in_transaction ic index =
     ok_or (vec_get (ic_program_accounts ic) (unat index)) NotEnoughAccountKeys"

definition get_index_of_instruction_account_in_transaction ::
  "InstructionContext \<Rightarrow> IndexOfAccount \<Rightarrow> (IndexOfAccount, InstructionError) result" where
  "get_index_of_instruction_account_in_transaction ic index =
     and_then (ok_or (vec_get (ic_instruction_accounts ic) (unat index)) NotEnoughAccountKeys)
       (\<lambda>ia. Ok (ia_index_in_transaction ia))"

definition is_instruction_account_duplicate ::
  "InstructionContext \<Rightarrow> IndexOfAccount \<Rightarrow> (IndexOfAccount option, InstructionError) result" where
  "is_instruction_account_duplicate ic index =
     and_then (ok_or (vec_get (ic_instruction_accounts ic) (unat index)) NotEnoughAccountKeys)
       (\<lambda>ia. Ok (if ia_index_in_callee ia = index then None else Some (ia_index_in_callee ia)))"

definition is_instruction_account_signer :: "InstructionContext \<Rightarrow> IndexOfAccount \<Rightarrow> (bool, InstructionError) result" where
  "is_instruction_account_signer ic index =
     and_then (ok_or (vec_get (ic_instruction_accounts ic) (unat index)) MissingAccount) (\<lambda>ia. Ok (ia_is_signer ia))"

definition is_instruction_account_writable :: "InstructionContext \<Rightarrow> IndexOfAccount \<Rightarrow> (bool, InstructionError) result" where
  "is_instruction_account_writable ic index =
     and_then (ok_or (vec_get (ic_instruction_accounts ic) (unat index)) MissingAccount) (\<lambda>ia. Ok (ia_is_writable ia))"

section \<open>The transaction\<close>

definition transaction_context_new :: "TransactionAccount list \<Rightarrow> Rent \<Rightarrow> nat \<Rightarrow> nat \<Rightarrow> TransactionContext" where
  "transaction_context_new transaction_accounts rent stack_capacity trace_capacity =
     \<lparr>tc_account_keys = map fst transaction_accounts,
      tc_accounts = transaction_accounts_new (map (refcell_new \<circ> snd) transaction_accounts),
      tc_instruction_stack_capacity = stack_capacity, tc_instruction_trace_capacity = trace_capacity,
      tc_instruction_stack = [], tc_instruction_trace = [instruction_context_default],
      tc_return_data = \<lparr>rd_program_id = 0, rd_data = []\<rparr>, tc_accounts_resize_delta = 0, tc_rent = rent\<rparr>"

definition deconstruct_without_keys :: "TransactionContext \<Rightarrow> (AccountSharedData list, InstructionError) result" where
  "deconstruct_without_keys tc =
     (if tc_instruction_stack tc \<noteq> [] then Err CallDepth else Ok (into_accounts (tc_accounts tc)))"

definition get_number_of_accounts :: "TransactionContext \<Rightarrow> IndexOfAccount" where
  "get_number_of_accounts tc = of_nat (ta_len (tc_accounts tc))"

definition get_key_of_account_at_index ::
  "TransactionContext \<Rightarrow> IndexOfAccount \<Rightarrow> (Pubkey, InstructionError) result" where
  "get_key_of_account_at_index tc index = ok_or (vec_get (tc_account_keys tc) (unat index)) NotEnoughAccountKeys"

definition get_account_at_index ::
  "TransactionContext \<Rightarrow> IndexOfAccount \<Rightarrow> (AccountSharedData RefCell, InstructionError) result" where
  "get_account_at_index tc index = ok_or (ta_get (tc_accounts tc) index) NotEnoughAccountKeys"

definition find_index_of_account :: "TransactionContext \<Rightarrow> Pubkey \<Rightarrow> IndexOfAccount option" where
  "find_index_of_account tc pubkey = map_option of_nat (position (\<lambda>key. key = pubkey) (tc_account_keys tc))"

definition find_index_of_program_account :: "TransactionContext \<Rightarrow> Pubkey \<Rightarrow> IndexOfAccount option" where
  "find_index_of_program_account tc pubkey = map_option of_nat (rposition (\<lambda>key. key = pubkey) (tc_account_keys tc))"

definition get_instruction_trace_length :: "TransactionContext \<Rightarrow> nat" where
  "get_instruction_trace_length tc = length (tc_instruction_trace tc) - 1"

definition get_instruction_context_at_index_in_trace ::
  "TransactionContext \<Rightarrow> nat \<Rightarrow> (InstructionContext, InstructionError) result" where
  "get_instruction_context_at_index_in_trace tc index = ok_or (vec_get (tc_instruction_trace tc) index) CallDepth"

definition get_instruction_context_at_nesting_level ::
  "TransactionContext \<Rightarrow> nat \<Rightarrow> (InstructionContext, InstructionError) result" where
  "get_instruction_context_at_nesting_level tc nesting_level =
     and_then (ok_or (vec_get (tc_instruction_stack tc) nesting_level) CallDepth)
       (get_instruction_context_at_index_in_trace tc)"

definition get_instruction_context_stack_height :: "TransactionContext \<Rightarrow> nat" where
  "get_instruction_context_stack_height tc = length (tc_instruction_stack tc)"

definition get_current_instruction_context :: "TransactionContext \<Rightarrow> (InstructionContext, InstructionError) result" where
  "get_current_instruction_context tc =
     (case get_instruction_context_stack_height tc of
        0 \<Rightarrow> Err CallDepth
      | Suc level \<Rightarrow> get_instruction_context_at_nesting_level tc level)"

text \<open>\<open>get_next_instruction_context\<close> with what the caller does to the context it returns.\<close>

definition with_next_instruction_context ::
  "(InstructionContext \<Rightarrow> InstructionContext) \<Rightarrow> (TransactionContext, InstructionError, unit) exec" where
  "with_next_instruction_context f tc =
     (case next_back (tc_instruction_trace tc) of
        None \<Rightarrow> (Err CallDepth, tc)
      | Some ic \<Rightarrow> (Ok (), tc\<lparr>tc_instruction_trace := butlast (tc_instruction_trace tc) @ [f ic]\<rparr>))"

fun lamport_sum_loop ::
  "TransactionContext \<Rightarrow> InstructionContext \<Rightarrow> nat list \<Rightarrow> u128 \<Rightarrow> (u128, InstructionError) result" where
  "lamport_sum_loop tc ic [] lamport_sum = Ok lamport_sum"
| "lamport_sum_loop tc ic (i # is) lamport_sum =
     and_then (is_instruction_account_duplicate ic (of_nat i)) (\<lambda>dup.
       if dup \<noteq> None then lamport_sum_loop tc ic is lamport_sum
       else
         and_then (get_index_of_instruction_account_in_transaction ic (of_nat i)) (\<lambda>index.
         and_then (get_account_at_index tc index) (\<lambda>c.
         if \<not> can_borrow c then Err AccountBorrowOutstanding
         else and_then (ok_or (checked_add (ucast (acc_lamports (rc_value c))) lamport_sum) ArithmeticOverflow)
                (lamport_sum_loop tc ic is))))"

definition instruction_accounts_lamport_sum ::
  "TransactionContext \<Rightarrow> InstructionContext \<Rightarrow> (u128, InstructionError) result" where
  "instruction_accounts_lamport_sum tc ic =
     lamport_sum_loop tc ic [0..<unat (get_number_of_instruction_accounts ic)] 0"

definition tc_push :: "(TransactionContext, InstructionError, unit) exec" where
  "tc_push =
     bind_exec (gets get_instruction_context_stack_height) (\<lambda>nesting_level.
     bind_exec (gets (\<lambda>tc. ok_or (next_back (tc_instruction_trace tc)) CallDepth)) (\<lambda>r.
     bind_exec (lift r) (\<lambda>next_context.
     bind_exec (gets (\<lambda>tc. instruction_accounts_lamport_sum tc next_context)) (\<lambda>r.
     bind_exec (lift r) (\<lambda>callee_sum.
     bind_exec (gets (\<lambda>tc.
         if tc_instruction_stack tc = [] then Ok ()
         else and_then (get_current_instruction_context tc) (\<lambda>caller.
              and_then (instruction_accounts_lamport_sum tc caller) (\<lambda>current_sum.
              if ic_instruction_accounts_lamport_sum caller \<noteq> current_sum then Err UnbalancedInstruction
              else Ok ())))) (\<lambda>r.
     bind_exec (lift r) (\<lambda>_.
     bind_exec (with_next_instruction_context (\<lambda>ic.
         ic\<lparr>ic_nesting_level := nesting_level, ic_instruction_accounts_lamport_sum := callee_sum\<rparr>)) (\<lambda>_.
     bind_exec (gets get_instruction_trace_length) (\<lambda>index_in_trace.
     bind_exec (gets tc_instruction_trace_capacity) (\<lambda>trace_capacity.
     bind_exec (require (\<not> trace_capacity \<le> index_in_trace) MaxInstructionTraceLengthExceeded) (\<lambda>_.
     bind_exec (modify (\<lambda>tc. tc\<lparr>tc_instruction_trace := tc_instruction_trace tc @ [instruction_context_default]\<rparr>)) (\<lambda>_.
     bind_exec (gets tc_instruction_stack_capacity) (\<lambda>stack_capacity.
     bind_exec (require (\<not> stack_capacity \<le> nesting_level) CallDepth) (\<lambda>_.
     modify (\<lambda>tc. tc\<lparr>tc_instruction_stack := tc_instruction_stack tc @ [index_in_trace]\<rparr>)))))))))))))))"

text \<open>The loop over the program accounts in \<open>pop\<close>: none of them is borrowed.\<close>

fun program_accounts_unborrowed :: "TransactionContext \<Rightarrow> IndexOfAccount list \<Rightarrow> (unit, InstructionError) result" where
  "program_accounts_unborrowed tc [] = Ok ()"
| "program_accounts_unborrowed tc (i # is) =
     and_then (get_account_at_index tc i) (\<lambda>c.
       if can_borrow_mut c then program_accounts_unborrowed tc is else Err AccountBorrowOutstanding)"

definition detect_unbalanced_instruction :: "TransactionContext \<Rightarrow> (bool, InstructionError) result" where
  "detect_unbalanced_instruction tc =
     and_then (get_current_instruction_context tc) (\<lambda>ic.
     and_then (program_accounts_unborrowed tc (ic_program_accounts ic)) (\<lambda>_.
     and_then (instruction_accounts_lamport_sum tc ic) (\<lambda>current_sum.
       Ok (ic_instruction_accounts_lamport_sum ic \<noteq> current_sum))))"

definition tc_pop :: "(TransactionContext, InstructionError, unit) exec" where
  "tc_pop tc =
     (if tc_instruction_stack tc = [] then (Err CallDepth, tc)
      else
        let tc' = tc\<lparr>tc_instruction_stack := butlast (tc_instruction_stack tc)\<rparr> in
        case detect_unbalanced_instruction tc of
          Ok unbalanced \<Rightarrow> if unbalanced then (Err UnbalancedInstruction, tc') else (Ok (), tc')
        | Err e \<Rightarrow> (Err e, tc')
        | Panic \<Rightarrow> (Panic, tc'))"

definition get_return_data :: "TransactionContext \<Rightarrow> Pubkey \<times> u8 list" where
  "get_return_data tc = (rd_program_id (tc_return_data tc), rd_data (tc_return_data tc))"

definition set_return_data :: "Pubkey \<Rightarrow> u8 list \<Rightarrow> (TransactionContext, InstructionError, unit) exec" where
  "set_return_data program_id data tc = (Ok (), tc\<lparr>tc_return_data := \<lparr>rd_program_id = program_id, rd_data = data\<rparr>\<rparr>)"

definition get_last_program_key :: "InstructionContext \<Rightarrow> TransactionContext \<Rightarrow> (Pubkey, InstructionError) result" where
  "get_last_program_key ic tc =
     and_then (get_index_of_program_account_in_transaction ic (saturating_sub (get_number_of_program_accounts ic) 1))
       (get_key_of_account_at_index tc)"

text \<open>The keys that signed, as the set that the \<open>HashSet\<close> holds.\<close>

fun signers_loop ::
  "TransactionContext \<Rightarrow> InstructionAccount list \<Rightarrow> Pubkey set \<Rightarrow> (Pubkey set, InstructionError) result" where
  "signers_loop tc [] signers = Ok signers"
| "signers_loop tc (ia # ias) signers =
     (if ia_is_signer ia then
        and_then (get_key_of_account_at_index tc (ia_index_in_transaction ia)) (\<lambda>key.
          signers_loop tc ias (insert key signers))
      else signers_loop tc ias signers)"

definition get_signers :: "InstructionContext \<Rightarrow> TransactionContext \<Rightarrow> (Pubkey set, InstructionError) result" where
  "get_signers ic tc = signers_loop tc (ic_instruction_accounts ic) {}"

end
