(* ===== verification/Borrowed_Account.thy ===== *)
theory Borrowed_Account
  imports Transaction_Context
begin

text \<open>
  \<open>BorrowedAccount\<close> of \<open>sdk/src/transaction_context.rs\<close>: the operations through which programs read
  and write accounts, with the checks that protect the accounts of others.
\<close>

section \<open>Borrowing\<close>

definition set_cell ::
  "IndexOfAccount \<Rightarrow> (AccountSharedData RefCell \<Rightarrow> AccountSharedData RefCell) \<Rightarrow> TransactionContext \<Rightarrow> TransactionContext" where
  "set_cell index f tc =
     (let ta = tc_accounts tc
      in tc\<lparr>tc_accounts := ta\<lparr>ta_accounts := (ta_accounts ta)[unat index := f (ta_accounts ta ! unat index)]\<rparr>\<rparr>)"

definition try_borrow_account ::
  "InstructionContext \<Rightarrow> IndexOfAccount \<Rightarrow> IndexOfAccount \<Rightarrow> (TransactionContext, InstructionError, BorrowedAccount) exec" where
  "try_borrow_account ic index_in_transaction index_in_instruction tc =
     (case ta_get (tc_accounts tc) index_in_transaction of
        None \<Rightarrow> (Err MissingAccount, tc)
      | Some c \<Rightarrow>
          if can_borrow_mut c
          then (Ok \<lparr>ba_instruction_context = ic, ba_index_in_transaction = index_in_transaction,
                    ba_index_in_instruction = index_in_instruction\<rparr>,
                set_cell index_in_transaction (\<lambda>c. c\<lparr>rc_borrow := Writing\<rparr>) tc)
          else (Err AccountBorrowFailed, tc))"

definition drop_account :: "BorrowedAccount \<Rightarrow> TransactionContext \<Rightarrow> TransactionContext" where
  "drop_account b = set_cell (ba_index_in_transaction b) (\<lambda>c. c\<lparr>rc_borrow := Unused\<rparr>)"

definition try_borrow_program_account ::
  "InstructionContext \<Rightarrow> IndexOfAccount \<Rightarrow> (TransactionContext, InstructionError, BorrowedAccount) exec" where
  "try_borrow_program_account ic program_account_index =
     bind_exec (lift (get_index_of_program_account_in_transaction ic program_account_index)) (\<lambda>index.
     try_borrow_account ic index program_account_index)"

definition try_borrow_last_program_account ::
  "InstructionContext \<Rightarrow> (TransactionContext, InstructionError, BorrowedAccount) exec" where
  "try_borrow_last_program_account ic =
     try_borrow_program_account ic (saturating_sub (get_number_of_program_accounts ic) 1)"

definition try_borrow_instruction_account ::
  "InstructionContext \<Rightarrow> IndexOfAccount \<Rightarrow> (TransactionContext, InstructionError, BorrowedAccount) exec" where
  "try_borrow_instruction_account ic instruction_account_index =
     bind_exec (lift (get_index_of_instruction_account_in_transaction ic instruction_account_index)) (\<lambda>index.
     try_borrow_account ic index
       (saturating_add (get_number_of_program_accounts ic) instruction_account_index))"

text \<open>A borrow that lasts to the end of a block.\<close>

definition with_instruction_account ::
  "InstructionContext \<Rightarrow> IndexOfAccount \<Rightarrow> (BorrowedAccount \<Rightarrow> (TransactionContext, InstructionError, 'a) exec) \<Rightarrow>
   (TransactionContext, InstructionError, 'a) exec" where
  "with_instruction_account ic index f =
     bind_exec (try_borrow_instruction_account ic index) (\<lambda>b. and_finally (f b) (drop_account b))"

section \<open>Reading\<close>

definition ba_account :: "BorrowedAccount \<Rightarrow> TransactionContext \<Rightarrow> AccountSharedData" where
  "ba_account b tc = rc_value (ta_accounts (tc_accounts tc) ! unat (ba_index_in_transaction b))"

definition get_key :: "BorrowedAccount \<Rightarrow> TransactionContext \<Rightarrow> (Pubkey, InstructionError) result" where
  "get_key b tc = expect (vec_get (tc_account_keys tc) (unat (ba_index_in_transaction b)))"

definition get_owner :: "BorrowedAccount \<Rightarrow> TransactionContext \<Rightarrow> Pubkey" where
  "get_owner b tc = acc_owner (ba_account b tc)"

definition get_lamports :: "BorrowedAccount \<Rightarrow> TransactionContext \<Rightarrow> u64" where
  "get_lamports b tc = acc_lamports (ba_account b tc)"

definition get_data :: "BorrowedAccount \<Rightarrow> TransactionContext \<Rightarrow> u8 list" where
  "get_data b tc = acc_data (ba_account b tc)"

definition is_executable :: "BorrowedAccount \<Rightarrow> TransactionContext \<Rightarrow> bool" where
  "is_executable b tc = acc_executable (ba_account b tc)"

definition get_rent_epoch :: "BorrowedAccount \<Rightarrow> TransactionContext \<Rightarrow> u64" where
  "get_rent_epoch b tc = acc_rent_epoch (ba_account b tc)"

definition unwrap_or_default :: "(bool, 'e) result \<Rightarrow> bool" where
  "unwrap_or_default r = (case r of Ok x \<Rightarrow> x | _ \<Rightarrow> False)"

definition is_signer :: "BorrowedAccount \<Rightarrow> bool" where
  "is_signer b =
     (let ic = ba_instruction_context b; n = get_number_of_program_accounts ic
      in if ba_index_in_instruction b < n then False
         else unwrap_or_default (is_instruction_account_signer ic (saturating_sub (ba_index_in_instruction b) n)))"

definition is_writable :: "BorrowedAccount \<Rightarrow> bool" where
  "is_writable b =
     (let ic = ba_instruction_context b; n = get_number_of_program_accounts ic
      in if ba_index_in_instruction b < n then False
         else unwrap_or_default (is_instruction_account_writable ic (saturating_sub (ba_index_in_instruction b) n)))"

definition is_owned_by_current_program :: "BorrowedAccount \<Rightarrow> TransactionContext \<Rightarrow> bool" where
  "is_owned_by_current_program b tc =
     unwrap_or_default
       (and_then (get_last_program_key (ba_instruction_context b) tc) (\<lambda>key. Ok (key = get_owner b tc)))"

definition is_rent_exempt_at_data_length :: "BorrowedAccount \<Rightarrow> nat \<Rightarrow> TransactionContext \<Rightarrow> bool" where
  "is_rent_exempt_at_data_length b data_length tc = is_exempt (tc_rent tc) (get_lamports b tc) data_length"

definition can_data_be_changed :: "BorrowedAccount \<Rightarrow> TransactionContext \<Rightarrow> (unit, InstructionError) result" where
  "can_data_be_changed b tc =
     (if is_executable b tc then Err ExecutableDataModified
      else if \<not> is_writable b then Err ReadonlyDataModified
      else if \<not> is_owned_by_current_program b tc then Err ExternalAccountDataModified
      else Ok ())"

definition can_data_be_resized :: "BorrowedAccount \<Rightarrow> nat \<Rightarrow> TransactionContext \<Rightarrow> (unit, InstructionError) result" where
  "can_data_be_resized b new_length tc =
     (let old_length = length (get_data b tc);
          length_delta = i64_saturating_sub (i64_of_usize new_length) (i64_of_usize old_length)
      in if new_length \<noteq> old_length \<and> \<not> is_owned_by_current_program b tc then Err AccountDataSizeChanged
         else if unat MAX_PERMITTED_DATA_LENGTH < new_length then Err InvalidRealloc
         else if MAX_PERMITTED_ACCOUNTS_DATA_ALLOCATIONS_PER_TRANSACTION <
                   i64_saturating_add (tc_accounts_resize_delta tc) length_delta
         then Err MaxAccountsDataAllocationsExceeded
         else Ok ())"

definition ZEROS_LEN :: nat where
  "ZEROS_LEN = 1024"

function is_zeroed :: "u8 list \<Rightarrow> bool" where
  "is_zeroed buf =
     (if ZEROS_LEN \<le> length buf
      then take ZEROS_LEN buf = replicate ZEROS_LEN 0 \<and> is_zeroed (drop ZEROS_LEN buf)
      else buf = replicate (length buf) 0)"
  by pat_completeness auto
termination
  by (relation "measure length") (auto simp: ZEROS_LEN_def)

declare is_zeroed.simps [simp del]

section \<open>Writing\<close>

definition update_account ::
  "BorrowedAccount \<Rightarrow> (AccountSharedData \<Rightarrow> AccountSharedData) \<Rightarrow> TransactionContext \<Rightarrow> TransactionContext" where
  "update_account b f = set_cell (ba_index_in_transaction b) (\<lambda>c. c\<lparr>rc_value := f (rc_value c)\<rparr>)"

definition touch :: "BorrowedAccount \<Rightarrow> (TransactionContext, InstructionError, unit) exec" where
  "touch b tc =
     (case ta_touch (ba_index_in_transaction b) (tc_accounts tc) of (r, ta) \<Rightarrow> (r, tc\<lparr>tc_accounts := ta\<rparr>))"

definition update_accounts_resize_delta :: "BorrowedAccount \<Rightarrow> nat \<Rightarrow> TransactionContext \<Rightarrow> TransactionContext" where
  "update_accounts_resize_delta b new_len tc =
     tc\<lparr>tc_accounts_resize_delta :=
          i64_saturating_add (tc_accounts_resize_delta tc)
            (i64_saturating_sub (i64_of_usize new_len) (i64_of_usize (length (get_data b tc))))\<rparr>"

definition set_owner :: "BorrowedAccount \<Rightarrow> Pubkey \<Rightarrow> (TransactionContext, InstructionError, unit) exec" where
  "set_owner b pubkey tc =
     (if \<not> is_owned_by_current_program b tc then (Err ModifiedProgramId, tc)
      else if \<not> is_writable b then (Err ModifiedProgramId, tc)
      else if is_executable b tc then (Err ModifiedProgramId, tc)
      else if \<not> is_zeroed (get_data b tc) then (Err ModifiedProgramId, tc)
      else if get_owner b tc = pubkey then (Ok (), tc)
      else bind_exec (touch b) (\<lambda>_. modify (update_account b (\<lambda>a. a\<lparr>acc_owner := pubkey\<rparr>))) tc)"

definition set_lamports :: "BorrowedAccount \<Rightarrow> u64 \<Rightarrow> (TransactionContext, InstructionError, unit) exec" where
  "set_lamports b lamports tc =
     (if \<not> is_owned_by_current_program b tc \<and> lamports < get_lamports b tc then (Err ExternalAccountLamportSpend, tc)
      else if \<not> is_writable b then (Err ReadonlyLamportChange, tc)
      else if is_executable b tc then (Err ExecutableLamportChange, tc)
      else if get_lamports b tc = lamports then (Ok (), tc)
      else bind_exec (touch b) (\<lambda>_. modify (update_account b (\<lambda>a. a\<lparr>acc_lamports := lamports\<rparr>))) tc)"

definition checked_add_lamports :: "BorrowedAccount \<Rightarrow> u64 \<Rightarrow> (TransactionContext, InstructionError, unit) exec" where
  "checked_add_lamports b lamports tc =
     (case checked_add (get_lamports b tc) lamports of
        None \<Rightarrow> (Err ArithmeticOverflow, tc)
      | Some l \<Rightarrow> set_lamports b l tc)"

definition checked_sub_lamports :: "BorrowedAccount \<Rightarrow> u64 \<Rightarrow> (TransactionContext, InstructionError, unit) exec" where
  "checked_sub_lamports b lamports tc =
     (case checked_sub (get_lamports b tc) lamports of
        None \<Rightarrow> (Err ArithmeticOverflow, tc)
      | Some l \<Rightarrow> set_lamports b l tc)"

text \<open>\<open>get_data_mut\<close>, with what is done to the slice that it returns.\<close>

definition with_data_mut ::
  "BorrowedAccount \<Rightarrow> (u8 list, InstructionError, 'a) exec \<Rightarrow> (TransactionContext, InstructionError, 'a) exec" where
  "with_data_mut b m =
     bind_exec (\<lambda>tc. (can_data_be_changed b tc, tc)) (\<lambda>_.
     bind_exec (touch b) (\<lambda>_ tc.
       case m (get_data b tc) of (r, d) \<Rightarrow> (r, update_account b (\<lambda>a. a\<lparr>acc_data := d\<rparr>) tc)))"

definition set_data_from_slice :: "BorrowedAccount \<Rightarrow> u8 list \<Rightarrow> (TransactionContext, InstructionError, unit) exec" where
  "set_data_from_slice b d =
     bind_exec (\<lambda>tc. (can_data_be_resized b (length d) tc, tc)) (\<lambda>_.
     bind_exec (\<lambda>tc. (can_data_be_changed b tc, tc)) (\<lambda>_.
     bind_exec (touch b) (\<lambda>_.
     modify (\<lambda>tc. update_account b (acc_set_data_from_slice d) (update_accounts_resize_delta b (length d) tc)))))"

definition set_data_length :: "BorrowedAccount \<Rightarrow> nat \<Rightarrow> (TransactionContext, InstructionError, unit) exec" where
  "set_data_length b new_length =
     bind_exec (\<lambda>tc. (can_data_be_resized b new_length tc, tc)) (\<lambda>_.
     bind_exec (\<lambda>tc. (can_data_be_changed b tc, tc)) (\<lambda>_ tc.
     if length (get_data b tc) = new_length then (Ok (), tc)
     else bind_exec (touch b) (\<lambda>_.
          modify (\<lambda>tc. update_account b (acc_resize new_length 0) (update_accounts_resize_delta b new_length tc))) tc))"

definition extend_from_slice :: "BorrowedAccount \<Rightarrow> u8 list \<Rightarrow> (TransactionContext, InstructionError, unit) exec" where
  "extend_from_slice b d tc =
     (let new_len = min (length (get_data b tc) + length d) (2 ^ 64 - 1)
      in bind_exec (\<lambda>tc. (can_data_be_resized b new_len tc, tc)) (\<lambda>_.
         bind_exec (\<lambda>tc. (can_data_be_changed b tc, tc)) (\<lambda>_.
         if d = [] then ret ()
         else bind_exec (touch b) (\<lambda>_.
              modify (\<lambda>tc. update_account b (acc_extend_from_slice d) (update_accounts_resize_delta b new_len tc))))) tc)"

definition get_state :: "'a bincode \<Rightarrow> BorrowedAccount \<Rightarrow> TransactionContext \<Rightarrow> ('a, InstructionError) result" where
  "get_state bc b tc = map_err (\<lambda>_. InvalidAccountData) (shared_deserialize_data bc (ba_account b tc))"

definition set_state :: "'a bincode \<Rightarrow> BorrowedAccount \<Rightarrow> 'a \<Rightarrow> (TransactionContext, InstructionError, unit) exec" where
  "set_state bc b state =
     with_data_mut b (\<lambda>d.
       case bc_size bc state of
         None \<Rightarrow> (Err GenericError, d)
       | Some serialized_size \<Rightarrow>
           if of_nat (length d) < serialized_size then (Err AccountDataTooSmall, d)
           else case bc_serialize_into bc d state of
               (True, d') \<Rightarrow> (Ok (), d')
             | (False, d') \<Rightarrow> (Err GenericError, d'))"

definition set_executable :: "BorrowedAccount \<Rightarrow> bool \<Rightarrow> (TransactionContext, InstructionError, unit) exec" where
  "set_executable b executable tc =
     (if \<not> is_exempt (tc_rent tc) (get_lamports b tc) (length (get_data b tc))
      then (Err ExecutableAccountNotRentExempt, tc)
      else if \<not> is_owned_by_current_program b tc then (Err ExecutableModified, tc)
      else if \<not> is_writable b then (Err ExecutableModified, tc)
      else if is_executable b tc \<and> \<not> executable then (Err ExecutableModified, tc)
      else if is_executable b tc = executable then (Ok (), tc)
      else bind_exec (touch b) (\<lambda>_. modify (update_account b (\<lambda>a. a\<lparr>acc_executable := executable\<rparr>))) tc)"

text \<open>What the bank records of a finished transaction.\<close>

record ExecutionRecord =
  er_accounts :: "TransactionAccount list"
  er_return_data :: TransactionReturnData
  er_touched_account_count :: u64
  er_accounts_resize_delta :: int

definition execution_record_from :: "TransactionContext \<Rightarrow> ExecutionRecord" where
  "execution_record_from tc =
     \<lparr>er_accounts = zip (tc_account_keys tc) (into_accounts (tc_accounts tc)),
      er_return_data = tc_return_data tc,
      er_touched_account_count = of_nat (touched_count (tc_accounts tc)),
      er_accounts_resize_delta = tc_accounts_resize_delta tc\<rparr>"

section \<open>Zeroed data\<close>

lemma is_zeroed_iff: "is_zeroed buf \<longleftrightarrow> (\<forall>x \<in> set buf. x = 0)"
proof (induction buf rule: is_zeroed.induct)
  case (1 buf)
  have all: "xs = replicate (length xs) 0 \<longleftrightarrow> (\<forall>x \<in> set xs. x = 0)" for xs :: "u8 list"
    using replicate_length_same [of xs 0] in_set_replicate [of _ "length xs" "0 :: u8"] by metis
  show ?case
  proof (cases "ZEROS_LEN \<le> length buf")
    case True
    then have "length (take ZEROS_LEN buf) = ZEROS_LEN" by simp
    then have "is_zeroed buf \<longleftrightarrow> (\<forall>x \<in> set (take ZEROS_LEN buf). x = 0) \<and> (\<forall>x \<in> set (drop ZEROS_LEN buf). x = 0)"
      using all [of "take ZEROS_LEN buf"] 1 [OF True] by (subst is_zeroed.simps) (simp only: True if_True)
    also have "\<dots> \<longleftrightarrow> (\<forall>x \<in> set (take ZEROS_LEN buf @ drop ZEROS_LEN buf). x = 0)"
      by (simp only: set_append ball_Un)
    finally show ?thesis by (simp only: append_take_drop_id)
  next
    case False
    then show ?thesis using all [of buf] by (subst is_zeroed.simps) (simp only: if_False)
  qed
qed

end
