(* ===== verification/Runtime_Guarantees.thy ===== *)
theory Runtime_Guarantees
  imports Borrowed_Account
begin

text \<open>
  What the runtime guarantees of an instruction, whatever its program does through borrowed accounts.
  Three locales, each extending the one before it, collect what is asked of a guarantee: that it
  composes (\<open>transition_guarantee\<close>), that it does not depend on what is borrowed
  (\<open>borrow_guarantee\<close>), and that the operations of \<open>BorrowedAccount\<close> keep it
  (\<open>account_guarantee\<close>). A program that is composed of those operations keeps it then.
\<close>

section \<open>Programs that keep a guarantee\<close>

definition preserves :: "('s \<Rightarrow> 's \<Rightarrow> bool) \<Rightarrow> ('s, 'e, 'a) exec \<Rightarrow> bool" where
  "preserves R m \<longleftrightarrow> (\<forall>s r s'. m s = (r, s') \<longrightarrow> R s s')"

named_theorems preserves_intro "composition of programs that keep a guarantee"

text \<open>The instruction lists the account as writable.\<close>

definition writable_in :: "InstructionContext \<Rightarrow> IndexOfAccount \<Rightarrow> bool" where
  "writable_in ic index \<longleftrightarrow>
     (\<exists>ia \<in> set (ic_instruction_accounts ic). ia_index_in_transaction ia = index \<and> ia_is_writable ia)"

definition valid_handle :: "InstructionContext \<Rightarrow> BorrowedAccount \<Rightarrow> bool" where
  "valid_handle ic b \<longleftrightarrow> ba_instruction_context b = ic \<and>
     (is_writable b \<longrightarrow> writable_in ic (ba_index_in_transaction b))"

definition ic_small :: "InstructionContext \<Rightarrow> bool" where
  "ic_small ic \<longleftrightarrow> length (ic_program_accounts ic) + length (ic_instruction_accounts ic) < 2 ^ 16"

lemma handle_position:
  assumes "ic_small ic" and "unat i < length (ic_instruction_accounts ic)"
  shows "saturating_sub (saturating_add (get_number_of_program_accounts ic) i) (get_number_of_program_accounts ic) = i"
    and "\<not> saturating_add (get_number_of_program_accounts ic) i < get_number_of_program_accounts ic"
proof -
  let ?n = "get_number_of_program_accounts ic"
  have "unat ?n = length (ic_program_accounts ic)"
    using assms(1) by (simp add: get_number_of_program_accounts_def ic_small_def unat_of_nat)
  then have "unat (saturating_add ?n i) = unat ?n + unat i"
    using assms by (simp add: unat_saturating_add ic_small_def)
  then show "saturating_sub (saturating_add ?n i) ?n = i" and "\<not> saturating_add ?n i < ?n"
    by (simp_all add: word_unat_eq_iff unat_saturating_sub word_less_nat_alt)
qed

lemma is_writable_handle:
  assumes "ic_small ic" and "get_index_of_instruction_account_in_transaction ic i = Ok index"
  shows "valid_handle ic \<lparr>ba_instruction_context = ic, ba_index_in_transaction = index,
    ba_index_in_instruction = saturating_add (get_number_of_program_accounts ic) i\<rparr>"
proof -
  obtain ia where ia: "vec_get (ic_instruction_accounts ic) (unat i) = Some ia" "index = ia_index_in_transaction ia"
    using assms(2) by (auto simp: get_index_of_instruction_account_in_transaction_def)
  then have i: "unat i < length (ic_instruction_accounts ic)" by (simp add: vec_get_Some_iff)
  then show ?thesis
    using ia nth_mem [OF i] handle_position [OF assms(1) i]
    by (auto simp: valid_handle_def is_writable_def is_instruction_account_writable_def writable_in_def
        unwrap_or_default_def Let_def vec_get_def split: if_splits)
qed

locale transition_guarantee =
  fixes R :: "'s \<Rightarrow> 's \<Rightarrow> bool"
  assumes R_refl: "R s s" and R_trans: "R s s' \<Longrightarrow> R s' s'' \<Longrightarrow> R s s''"
begin

lemma preserves_read: "(\<And>tc. snd (m tc) = tc) \<Longrightarrow> preserves R m"
  unfolding preserves_def by (metis R_refl snd_conv)

lemma preserves_reads [preserves_intro]: "preserves R (\<lambda>s. (f s, s))"
  by (rule preserves_read) simp

lemma preserves_ret [preserves_intro]: "preserves R (ret x)"
  by (rule preserves_read) (simp add: exec_simps)

lemma preserves_throw [preserves_intro]: "preserves R (throw e)"
  by (rule preserves_read) (simp add: exec_simps)

lemma preserves_panic [preserves_intro]: "preserves R panic"
  by (rule preserves_read) (simp add: exec_simps)

lemma preserves_lift [preserves_intro]: "preserves R (lift r)"
  by (rule preserves_read) (simp add: exec_simps)

lemma preserves_gets [preserves_intro]: "preserves R (gets f)"
  by (rule preserves_read) (simp add: exec_simps)

lemma preserves_require [preserves_intro]: "preserves R (require c e)"
  by (rule preserves_read) (simp add: exec_simps)

lemma preserves_bind [preserves_intro]:
  "preserves R m \<Longrightarrow> (\<And>x. preserves R (f x)) \<Longrightarrow> preserves R (bind_exec m f)"
  unfolding preserves_def bind_exec_def
  by (auto split: prod.splits result.splits) (meson R_trans)

lemma preserves_if [preserves_intro]:
  "(c \<Longrightarrow> preserves R m) \<Longrightarrow> (\<not> c \<Longrightarrow> preserves R n) \<Longrightarrow> preserves R (if c then m else n)"
  by simp

lemma preserves_option [preserves_intro]:
  "preserves R m \<Longrightarrow> (\<And>x. preserves R (f x)) \<Longrightarrow> preserves R (case y of None \<Rightarrow> m | Some x \<Rightarrow> f x)"
  by (cases y) simp_all

lemma preserves_run:
  "(\<And>tc. preserves R (m tc)) \<Longrightarrow> preserves R (\<lambda>tc. m tc tc)"
  unfolding preserves_def by blast

lemma preserves_finally: "preserves R m \<Longrightarrow> (\<And>tc. R tc (c tc)) \<Longrightarrow> preserves R (and_finally m c)"
  unfolding preserves_def and_finally_def by (auto split: prod.splits) (meson R_trans)

end

text \<open>A guarantee that does not depend on which accounts are borrowed.\<close>

locale borrow_guarantee = transition_guarantee R
  for ic :: InstructionContext and R :: "TransactionContext \<Rightarrow> TransactionContext \<Rightarrow> bool" +
  assumes R_flag: "R tc (set_cell index (\<lambda>c. c\<lparr>rc_borrow := f\<rparr>) tc)"
begin

lemma R_drop: "R tc (drop_account b tc)"
  unfolding drop_account_def by (rule R_flag)

lemma preserves_drop [preserves_intro]: "preserves R (modify (drop_account b))"
  unfolding preserves_def using R_drop by (auto simp: exec_simps)

lemma preserves_with_account [preserves_intro]:
  assumes small: "ic_small ic" and "\<And>b. valid_handle ic b \<Longrightarrow> preserves R (f b)"
  shows "preserves R (with_instruction_account ic i f)"
  unfolding preserves_def
proof (intro allI impI)
  fix tc r tc' assume run: "with_instruction_account ic i f tc = (r, tc')"
  show "R tc tc'"
  proof (cases "\<exists>index c. get_index_of_instruction_account_in_transaction ic i = Ok index \<and>
      ta_get (tc_accounts tc) index = Some c \<and> can_borrow_mut c")
    case True
    then obtain index where index: "get_index_of_instruction_account_in_transaction ic i = Ok index" by blast
    define b where "b = \<lparr>ba_instruction_context = ic, ba_index_in_transaction = index,
      ba_index_in_instruction = saturating_add (get_number_of_program_accounts ic) i\<rparr>"
    have "valid_handle ic b" unfolding b_def using small index by (rule is_writable_handle)
    then have p: "preserves R (and_finally (f b) (drop_account b))" by (intro preserves_finally assms(2) R_drop)
    have "and_finally (f b) (drop_account b) (set_cell index (\<lambda>c. c\<lparr>rc_borrow := Writing\<rparr>) tc) = (r, tc')"
      using run True by (auto simp: with_instruction_account_def try_borrow_instruction_account_def
          try_borrow_account_def index b_def exec_simps)
    then show ?thesis using p R_trans [OF R_flag] unfolding preserves_def by blast
  next
    case False
    then have "tc' = tc"
      using run by (cases "get_index_of_instruction_account_in_transaction ic i")
        (auto simp: with_instruction_account_def try_borrow_instruction_account_def
          try_borrow_account_def bind_exec_def exec_simps split: option.splits)
    then show ?thesis by (simp add: R_refl)
  qed
qed

end

locale account_guarantee = borrow_guarantee ic R
  for ic :: InstructionContext and R :: "TransactionContext \<Rightarrow> TransactionContext \<Rightarrow> bool" +
  assumes R_set_lamports: "valid_handle ic b \<Longrightarrow> preserves R (set_lamports b lamports)"
    and R_set_owner: "valid_handle ic b \<Longrightarrow> preserves R (set_owner b owner)"
    and R_set_data_length: "valid_handle ic b \<Longrightarrow> preserves R (set_data_length b n)"
    and R_set_data_from_slice: "valid_handle ic b \<Longrightarrow> preserves R (set_data_from_slice b d)"
    and R_extend_from_slice: "valid_handle ic b \<Longrightarrow> preserves R (extend_from_slice b d)"
    and R_set_executable: "valid_handle ic b \<Longrightarrow> preserves R (set_executable b x)"
    and R_with_data_mut: "valid_handle ic b \<Longrightarrow> (\<And>d. length (snd (m d)) = length d) \<Longrightarrow>
      preserves R (with_data_mut b (m :: (u8 list, InstructionError, unit) exec))"
begin

lemma preserves_add_lamports [preserves_intro]:
  "valid_handle ic b \<Longrightarrow> preserves R (checked_add_lamports b l)"
  unfolding checked_add_lamports_def preserves_def
  by (metis (no_types, lifting) R_refl R_set_lamports option.case_eq_if preserves_def snd_conv)

lemma preserves_sub_lamports [preserves_intro]:
  "valid_handle ic b \<Longrightarrow> preserves R (checked_sub_lamports b l)"
  unfolding checked_sub_lamports_def preserves_def
  by (metis (no_types, lifting) R_refl R_set_lamports option.case_eq_if preserves_def snd_conv)

lemma preserves_set_state [preserves_intro]:
  assumes "valid_handle ic b" and "bincode_laws bc"
  shows "preserves R (set_state bc b state)"
  unfolding set_state_def
proof (rule R_with_data_mut [OF assms(1)])
  fix d
  have "length (snd (bc_serialize_into bc d state)) = length d" using assms(2) by (simp add: bincode_laws_def)
  then show "length (snd (case bc_size bc state of
         None \<Rightarrow> (Err GenericError, d)
       | Some serialized_size \<Rightarrow>
           if of_nat (length d) < serialized_size then (Err AccountDataTooSmall, d)
           else case bc_serialize_into bc d state of
               (True, d') \<Rightarrow> (Ok (), d')
             | (False, d') \<Rightarrow> (Err GenericError, d'))) = length d"
    by (cases "bc_serialize_into bc d state") (auto split: option.split bool.split)
qed

lemmas preserves_primitive [preserves_intro] =
  R_set_lamports R_set_owner R_set_data_length R_set_data_from_slice R_extend_from_slice R_set_executable

end

section \<open>Accounts of others are protected\<close>

text \<open>
  What may become of an account: nothing if the instruction does not list it as writable or if it is
  executable; if the program does not own it, it can only gain lamports; and its owner changes only
  if its data is zeroed.
\<close>

definition account_step :: "(Pubkey \<Rightarrow> bool) \<Rightarrow> bool \<Rightarrow> AccountSharedData \<Rightarrow> AccountSharedData \<Rightarrow> bool" where
  "account_step owned writable a a' \<longleftrightarrow>
     acc_rent_epoch a' = acc_rent_epoch a \<and>
     (\<not> writable \<or> acc_executable a \<longrightarrow> a' = a) \<and>
     (\<not> owned (acc_owner a) \<longrightarrow>
        acc_data a' = acc_data a \<and> acc_owner a' = acc_owner a \<and> acc_executable a' = acc_executable a \<and>
        acc_lamports a \<le> acc_lamports a') \<and>
     (acc_owner a' \<noteq> acc_owner a \<longrightarrow> (\<forall>x \<in> set (acc_data a'). x = 0))"

lemma account_step_refl: "account_step owned w a a"
  by (simp add: account_step_def)

lemma account_step_trans:
  assumes "account_step owned w a a'" and "account_step owned w a' a''"
    and "\<And>p q. owned p \<Longrightarrow> owned q \<Longrightarrow> p = q"
  shows "account_step owned w a a''"
proof (cases "owned (acc_owner a) \<and> acc_owner a' \<noteq> acc_owner a")
  case True
  then have "\<not> owned (acc_owner a')" using assms(3) by metis
  then show ?thesis using assms(1,2) True by (auto simp: account_step_def)
next
  case False
  then show ?thesis using assms(1,2) by (auto simp: account_step_def)
qed

text \<open>The relation on the whole transaction.\<close>

abbreviation cells :: "TransactionContext \<Rightarrow> AccountSharedData RefCell list" where
  "cells tc \<equiv> ta_accounts (tc_accounts tc)"

definition same_frame :: "TransactionContext \<Rightarrow> TransactionContext \<Rightarrow> bool" where
  "same_frame tc tc' \<longleftrightarrow>
     tc_account_keys tc' = tc_account_keys tc \<and> length (cells tc') = length (cells tc) \<and>
     tc_instruction_stack tc' = tc_instruction_stack tc \<and> tc_instruction_trace tc' = tc_instruction_trace tc \<and>
     tc_instruction_stack_capacity tc' = tc_instruction_stack_capacity tc \<and>
     tc_instruction_trace_capacity tc' = tc_instruction_trace_capacity tc \<and>
     tc_return_data tc' = tc_return_data tc \<and> tc_rent tc' = tc_rent tc"

definition guarded :: "InstructionContext \<Rightarrow> TransactionContext \<Rightarrow> TransactionContext \<Rightarrow> bool" where
  "guarded ic tc tc' \<longleftrightarrow> same_frame tc tc' \<and>
     (\<forall>k < length (cells tc).
        account_step (\<lambda>p. get_last_program_key ic tc = Ok p) (\<exists>index. unat index = k \<and> writable_in ic index)
          (rc_value (cells tc ! k)) (rc_value (cells tc' ! k)))"

lemma get_last_program_key_frame: "same_frame tc tc' \<Longrightarrow> get_last_program_key ic tc' = get_last_program_key ic tc"
  unfolding same_frame_def get_last_program_key_def
  by (simp add: get_key_of_account_at_index_def [abs_def])

lemma guarded_refl: "guarded ic tc tc"
  by (simp add: guarded_def same_frame_def account_step_refl)

lemma guarded_trans: "guarded ic tc tc' \<Longrightarrow> guarded ic tc' tc'' \<Longrightarrow> guarded ic tc tc''"
  unfolding guarded_def
  using get_last_program_key_frame [of tc tc' ic]
  by (auto simp: same_frame_def intro: account_step_trans)

lemma guarded_same_values:
  assumes "same_frame tc tc'" and "map rc_value (cells tc') = map rc_value (cells tc)"
  shows "guarded ic tc tc'"
proof -
  have "rc_value (cells tc' ! k) = rc_value (cells tc ! k)" if "k < length (cells tc)" for k
    using assms that by (metis length_map nth_map)
  then show ?thesis using assms(1) by (simp add: guarded_def account_step_refl)
qed

lemma cells_set_cell: "cells (set_cell index f tc) = (cells tc)[unat index := f (cells tc ! unat index)]"
  by (simp add: set_cell_def Let_def)

lemma same_frame_set_cell [simp]: "same_frame tc (set_cell index f tc)"
  by (simp add: same_frame_def set_cell_def Let_def)

lemma map_update_same: "f y = f (xs ! i) \<Longrightarrow> map f (xs[i := y]) = map f xs"
  by (cases "i < length xs") (simp_all add: map_update list_update_same_conv list_update_beyond)

lemma guarded_update:
  assumes "valid_handle ic b" and "is_writable b"
    and "account_step (\<lambda>p. get_last_program_key ic tc = Ok p) True (ba_account b tc) (f (ba_account b tc))"
  shows "guarded ic tc (update_account b f tc)"
proof -
  have w: "writable_in ic (ba_index_in_transaction b)" using assms(1,2) by (simp add: valid_handle_def)
  have "account_step (\<lambda>p. get_last_program_key ic tc = Ok p) (\<exists>index. unat index = k \<and> writable_in ic index)
      (rc_value (cells tc ! k)) (rc_value (cells (update_account b f tc) ! k))" if k: "k < length (cells tc)" for k
  proof (cases "k = unat (ba_index_in_transaction b)")
    case True
    then have "\<exists>index. unat index = k \<and> writable_in ic index" using w by blast
    then show ?thesis using assms(3) k True by (simp add: update_account_def cells_set_cell ba_account_def)
  qed (simp add: update_account_def cells_set_cell account_step_refl)
  then show ?thesis by (simp add: guarded_def update_account_def)
qed

text \<open>The operations in the form \<open>checks; touch; update\<close>.\<close>

lemma touch_guarded: "preserves (guarded ic) (touch b)"
  unfolding preserves_def touch_def ta_touch_def
  by (auto intro!: guarded_same_values simp: same_frame_def split: if_splits)

lemma touch_frame:
  assumes "touch b tc = (r, tc')"
  shows "cells tc' = cells tc" and "same_frame tc tc'" and "tc_accounts_resize_delta tc' = tc_accounts_resize_delta tc"
  using assms by (auto simp: touch_def ta_touch_def same_frame_def split: if_splits)

lemma update_delta_frame:
  "cells (update_accounts_resize_delta b n tc) = cells tc" "same_frame tc (update_accounts_resize_delta b n tc)"
  by (simp_all add: update_accounts_resize_delta_def same_frame_def)

lemma ba_account_frame: "cells tc' = cells tc \<Longrightarrow> ba_account b tc' = ba_account b tc"
  by (simp add: ba_account_def)

lemma is_owned_iff:
  "is_owned_by_current_program b tc \<longleftrightarrow> get_last_program_key (ba_instruction_context b) tc = Ok (get_owner b tc)"
  by (cases "get_last_program_key (ba_instruction_context b) tc")
    (auto simp: is_owned_by_current_program_def unwrap_or_default_def)

lemma guarded_touch_update:
  assumes b: "valid_handle ic b" "is_writable b"
    and step: "account_step (\<lambda>p. get_last_program_key ic tc = Ok p) True (ba_account b tc) (f (ba_account b tc))"
    and run: "bind_exec (touch b) (\<lambda>_. modify (\<lambda>tc. update_account b f (g tc))) tc = (r, tc')"
    and g: "\<And>tc. cells (g tc) = cells tc" "\<And>tc. same_frame tc (g tc)"
  shows "guarded ic tc tc'"
proof -
  obtain s tc1 where t: "touch b tc = (s, tc1)" by fastforce
  note frame = touch_frame [OF t]
  have same: "guarded ic tc tc1" using frame by (intro guarded_same_values) simp_all
  show ?thesis
  proof (cases s)
    case (Ok x)
    then have "tc' = update_account b f (g tc1)" using run t by (simp add: exec_simps)
    moreover have "guarded ic tc (g tc1)"
      using guarded_same_values [of tc1 "g tc1" ic] g guarded_trans [OF same] by simp
    moreover have "guarded ic (g tc1) (update_account b f (g tc1))"
    proof (rule guarded_update [OF b])
      have "get_last_program_key ic (g tc1) = get_last_program_key ic tc"
        using get_last_program_key_frame [OF frame(2)] get_last_program_key_frame [OF g(2) [of tc1]] by simp
      moreover have "ba_account b (g tc1) = ba_account b tc" using g(1) frame(1) by (simp add: ba_account_def)
      ultimately show "account_step (\<lambda>p. get_last_program_key ic (g tc1) = Ok p) True (ba_account b (g tc1)) (f (ba_account b (g tc1)))"
        using step by simp
    qed
    ultimately show ?thesis using guarded_trans by blast
  qed (use run t same in \<open>simp_all add: exec_simps\<close>)
qed

lemmas account_step_intro = account_step_def is_owned_iff get_owner_def get_lamports_def get_data_def is_executable_def

lemma guarded_set_lamports: "valid_handle ic b \<Longrightarrow> preserves (guarded ic) (set_lamports b l)"
  unfolding preserves_def
proof (intro allI impI)
  fix tc r tc' assume b: "valid_handle ic b" and run: "set_lamports b l tc = (r, tc')"
  have ic: "ba_instruction_context b = ic" using b by (simp add: valid_handle_def)
  show "guarded ic tc tc'"
  proof (cases "(is_owned_by_current_program b tc \<or> \<not> l < get_lamports b tc) \<and> is_writable b \<and> \<not> is_executable b tc \<and>
      get_lamports b tc \<noteq> l")
    case True
    then have "account_step (\<lambda>p. get_last_program_key ic tc = Ok p) True (ba_account b tc) (ba_account b tc\<lparr>acc_lamports := l\<rparr>)"
      by (auto simp: account_step_intro ic not_less)
    then show ?thesis
      using guarded_touch_update [of ic b tc "\<lambda>a. a\<lparr>acc_lamports := l\<rparr>" "\<lambda>tc. tc" r tc'] b run True
      by (auto simp: set_lamports_def same_frame_def)
  qed (use run in \<open>auto simp: set_lamports_def guarded_refl split: if_splits\<close>)
qed

lemma guarded_set_owner: "valid_handle ic b \<Longrightarrow> preserves (guarded ic) (set_owner b p)"
  unfolding preserves_def
proof (intro allI impI)
  fix tc r tc' assume b: "valid_handle ic b" and run: "set_owner b p tc = (r, tc')"
  have ic: "ba_instruction_context b = ic" using b by (simp add: valid_handle_def)
  show "guarded ic tc tc'"
  proof (cases "is_owned_by_current_program b tc \<and> is_writable b \<and> \<not> is_executable b tc \<and>
      is_zeroed (get_data b tc) \<and> get_owner b tc \<noteq> p")
    case True
    then have "account_step (\<lambda>p. get_last_program_key ic tc = Ok p) True (ba_account b tc) (ba_account b tc\<lparr>acc_owner := p\<rparr>)"
      by (auto simp: account_step_intro ic is_zeroed_iff)
    then show ?thesis
      using guarded_touch_update [of ic b tc "\<lambda>a. a\<lparr>acc_owner := p\<rparr>" "\<lambda>tc. tc" r tc'] b run True
      by (auto simp: set_owner_def same_frame_def)
  qed (use run in \<open>auto simp: set_owner_def guarded_refl split: if_splits\<close>)
qed

lemma guarded_set_executable: "valid_handle ic b \<Longrightarrow> preserves (guarded ic) (set_executable b x)"
  unfolding preserves_def
proof (intro allI impI)
  fix tc r tc' assume b: "valid_handle ic b" and run: "set_executable b x tc = (r, tc')"
  have ic: "ba_instruction_context b = ic" using b by (simp add: valid_handle_def)
  show "guarded ic tc tc'"
  proof (cases "is_exempt (tc_rent tc) (get_lamports b tc) (length (get_data b tc)) \<and> is_owned_by_current_program b tc \<and>
      is_writable b \<and> \<not> is_executable b tc \<and> x")
    case True
    then have "account_step (\<lambda>p. get_last_program_key ic tc = Ok p) True (ba_account b tc) (ba_account b tc\<lparr>acc_executable := x\<rparr>)"
      by (auto simp: account_step_intro ic)
    then show ?thesis
      using guarded_touch_update [of ic b tc "\<lambda>a. a\<lparr>acc_executable := x\<rparr>" "\<lambda>tc. tc" r tc'] b run True
      by (auto simp: set_executable_def same_frame_def)
  qed (use run in \<open>auto simp: set_executable_def guarded_refl split: if_splits\<close>)
qed

lemma can_data_be_changed_step:
  assumes "valid_handle ic b" and "can_data_be_changed b tc = Ok ()"
  shows "is_writable b"
    and "account_step (\<lambda>p. get_last_program_key ic tc = Ok p) True (ba_account b tc) (ba_account b tc\<lparr>acc_data := d\<rparr>)"
  using assms by (auto simp: can_data_be_changed_def account_step_intro valid_handle_def split: if_splits)

text \<open>The three operations that change data after the checks \<open>can_data_be_resized\<close> and
  \<open>can_data_be_changed\<close>.\<close>

lemma guarded_resize:
  assumes b: "valid_handle ic b" and f: "\<And>a. \<exists>d. f a = a\<lparr>acc_data := d\<rparr>"
    and run: "bind_exec (\<lambda>tc. (can_data_be_resized b n tc, tc)) (\<lambda>_.
      bind_exec (\<lambda>tc. (can_data_be_changed b tc, tc)) (\<lambda>_ tc.
        if stop tc then (Ok (), tc)
        else bind_exec (touch b) (\<lambda>_. modify (\<lambda>tc. update_account b f (update_accounts_resize_delta b n tc))) tc)) tc = (r, tc')"
  shows "guarded ic tc tc'"
proof (cases "can_data_be_resized b n tc = Ok () \<and> can_data_be_changed b tc = Ok () \<and> \<not> stop tc")
  case True
  obtain d where d: "f (ba_account b tc) = ba_account b tc\<lparr>acc_data := d\<rparr>" using f by blast
  have c: "can_data_be_changed b tc = Ok ()" using True by simp
  have "account_step (\<lambda>p. get_last_program_key ic tc = Ok p) True (ba_account b tc) (f (ba_account b tc))"
    unfolding d by (rule can_data_be_changed_step(2) [OF b c])
  then show ?thesis
    by (rule guarded_touch_update [OF b can_data_be_changed_step(1) [OF b c], where g = "update_accounts_resize_delta b n"])
      (use run True in \<open>auto simp: exec_simps update_delta_frame\<close>)
next
  case False
  then have "tc' = tc" using run by (auto simp: bind_exec_def split: result.splits if_splits)
  then show ?thesis by (simp add: guarded_refl)
qed

lemma guarded_set_data_length: "valid_handle ic b \<Longrightarrow> preserves (guarded ic) (set_data_length b n)"
  unfolding preserves_def set_data_length_def
proof (intro allI impI, goal_cases)
  case (1 tc r tc')
  show ?case by (rule guarded_resize [OF 1(1) _ 1(2)]) (auto simp: acc_resize_def)
qed

lemma if_ret: "(if c then ret () else m) = (\<lambda>s. if c then (Ok (), s) else m s)"
  by (simp add: ret_def [abs_def])

lemma guarded_set_data_from_slice: "valid_handle ic b \<Longrightarrow> preserves (guarded ic) (set_data_from_slice b d)"
  unfolding preserves_def set_data_from_slice_def
proof (intro allI impI, goal_cases)
  case (1 tc r tc')
  show ?case
    by (rule guarded_resize [OF 1(1), where f = "acc_set_data_from_slice d" and stop = "\<lambda>_. False" and n = "length d"])
      (use 1(2) in \<open>auto simp: acc_set_data_from_slice_def\<close>)
qed

lemma guarded_extend_from_slice: "valid_handle ic b \<Longrightarrow> preserves (guarded ic) (extend_from_slice b d)"
  unfolding preserves_def
proof (intro allI impI, goal_cases)
  case (1 tc r tc')
  note run = 1(2) [unfolded extend_from_slice_def Let_def if_ret]
  show ?case by (rule guarded_resize [OF 1(1) _ run]) (auto simp: acc_extend_from_slice_def)
qed

lemma guarded_with_data_mut: "valid_handle ic b \<Longrightarrow> preserves (guarded ic) (with_data_mut b m)"
  unfolding preserves_def
proof (intro allI impI, goal_cases)
  case (1 tc r tc')
  show ?case
  proof (cases "can_data_be_changed b tc = Ok ()")
    case True
    obtain s tc1 where t: "touch b tc = (s, tc1)" by fastforce
    note frame = touch_frame [OF t]
    have same: "guarded ic tc tc1" using frame by (intro guarded_same_values) simp_all
    show ?thesis
    proof (cases s)
      case (Ok x)
      obtain d where "tc' = update_account b (\<lambda>a. a\<lparr>acc_data := d\<rparr>) tc1"
        using 1(2) t Ok True by (auto simp: with_data_mut_def exec_simps split: prod.splits)
      moreover have "can_data_be_changed b tc1 = Ok ()"
        using True get_last_program_key_frame [OF frame(2), of "ba_instruction_context b"] ba_account_frame [OF frame(1), of b]
        by (simp add: can_data_be_changed_def is_executable_def is_owned_iff get_owner_def split: if_splits)
      ultimately show ?thesis
        using guarded_trans [OF same] guarded_update can_data_be_changed_step [OF 1(1), of tc1] 1(1) by metis
    qed (use 1(2) t same True in \<open>simp_all add: with_data_mut_def exec_simps\<close>)
  next
    case False
    then have "tc' = tc" using 1(2) by (auto simp: with_data_mut_def bind_exec_def split: result.splits)
    then show ?thesis by (simp add: guarded_refl)
  qed
qed

interpretation guarded: account_guarantee ic "guarded ic" for ic
proof unfold_locales
  show "guarded ic tc (set_cell index (\<lambda>c. c\<lparr>rc_borrow := f\<rparr>) tc)" for tc index f
    by (intro guarded_same_values) (simp_all add: cells_set_cell map_update_same)
qed (auto intro: guarded_refl guarded_trans guarded_set_lamports guarded_set_owner guarded_set_data_length
    guarded_set_data_from_slice guarded_extend_from_slice guarded_set_executable guarded_with_data_mut)

section \<open>Allocations are accounted for\<close>

definition data_length :: "AccountSharedData RefCell \<Rightarrow> int" where
  "data_length c = int (length (acc_data (rc_value c)))"

definition total_data :: "TransactionContext \<Rightarrow> int" where
  "total_data tc = sum_list (map data_length (cells tc))"

definition sizes_ok :: "TransactionContext \<Rightarrow> bool" where
  "sizes_ok tc \<longleftrightarrow> length (cells tc) \<le> 2 ^ 16 \<and> length (ta_touched_flags (tc_accounts tc)) = length (cells tc) \<and>
     (\<forall>c \<in> set (cells tc). data_length c \<le> 10485760) \<and>
     tc_accounts_resize_delta tc \<le> MAX_PERMITTED_ACCOUNTS_DATA_ALLOCATIONS_PER_TRANSACTION \<and>
     \<bar>tc_accounts_resize_delta tc - total_data tc\<bar> \<le> 2 ^ 61"

text \<open>
  The resize delta is the growth of all account data, no account exceeds 10 MiB, and the growth stays
  within the limit of 20 MiB per transaction.
\<close>

definition accounted :: "TransactionContext \<Rightarrow> TransactionContext \<Rightarrow> bool" where
  "accounted tc tc' \<longleftrightarrow>
     (sizes_ok tc \<longrightarrow> sizes_ok tc' \<and>
        tc_accounts_resize_delta tc' - total_data tc' = tc_accounts_resize_delta tc - total_data tc)"

lemma accounted_same:
  assumes "map data_length (cells tc') = map data_length (cells tc)"
    and "tc_accounts_resize_delta tc' = tc_accounts_resize_delta tc"
    and "length (ta_touched_flags (tc_accounts tc')) = length (ta_touched_flags (tc_accounts tc))"
  shows "accounted tc tc'"
proof -
  have "length (cells tc') = length (cells tc)" using assms(1) by (rule map_eq_imp_length_eq)
  moreover have "(\<forall>c \<in> set (cells tc'). data_length c \<le> 10485760) \<longleftrightarrow> (\<forall>c \<in> set (cells tc). data_length c \<le> 10485760)"
    using arg_cong [OF assms(1), of "list_all (\<lambda>n. n \<le> 10485760)"] by (simp add: list_all_iff)
  ultimately show ?thesis using assms by (simp add: accounted_def sizes_ok_def total_data_def)
qed

lemma total_data_bounds:
  assumes "sizes_ok tc"
  shows "0 \<le> total_data tc" and "total_data tc \<le> 2 ^ 40"
proof -
  have "sum_list (map data_length xs) \<le> 10485760 * int (length xs)" if "\<forall>c \<in> set xs. data_length c \<le> 10485760" for xs
    using that by (induction xs) (auto simp: algebra_simps)
  then have "total_data tc \<le> 10485760 * int (length (cells tc))" using assms by (simp add: total_data_def sizes_ok_def)
  also have "\<dots> \<le> 10485760 * 2 ^ 16" using assms by (simp add: sizes_ok_def)
  finally show "total_data tc \<le> 2 ^ 40" by simp
  show "0 \<le> total_data tc"
    unfolding total_data_def by (rule sum_list_nonneg) (auto simp: data_length_def)
qed

lemma i64_of_usize_small: "n \<le> 10485760 \<Longrightarrow> i64_of_usize n = int n"
  by (simp add: i64_of_usize_def signed_take_bit_int_eq_self)

lemma i64_clamp_small: "- (2 ^ 62) \<le> x \<Longrightarrow> x \<le> 2 ^ 62 \<Longrightarrow> i64_clamp x = x"
  by (simp add: i64_clamp_def)

lemma sum_list_update_int: "k < length xs \<Longrightarrow> sum_list (xs[k := x]) = sum_list xs + x - (xs ! k :: int)"
  by (induction xs arbitrary: k) (auto split: nat.splits)

lemma resize_delta_exact:
  assumes ok: "sizes_ok tc" and i: "unat (ba_index_in_transaction b) < length (cells tc)" and n: "n \<le> 10485760"
  shows "i64_saturating_add (tc_accounts_resize_delta tc)
      (i64_saturating_sub (i64_of_usize n) (i64_of_usize (length (get_data b tc)))) =
    tc_accounts_resize_delta tc + (int n - data_length (cells tc ! unat (ba_index_in_transaction b)))"
proof -
  let ?old = "data_length (cells tc ! unat (ba_index_in_transaction b))"
  have old: "?old \<le> 10485760" "0 \<le> ?old" using ok i by (auto simp: sizes_ok_def data_length_def)
  have gd: "int (length (get_data b tc)) = ?old" by (simp add: get_data_def ba_account_def data_length_def)
  have "- (2 ^ 61) \<le> tc_accounts_resize_delta tc" "tc_accounts_resize_delta tc \<le> 2 ^ 61 + 2 ^ 40"
    using ok total_data_bounds [OF ok] by (auto simp: sizes_ok_def abs_le_iff)
  moreover have "length (get_data b tc) \<le> 10485760" using gd old by simp
  ultimately show ?thesis
    using n old gd by (simp add: i64_saturating_add_def i64_saturating_sub_def i64_of_usize_small i64_clamp_small)
qed

lemma accounted_resize:
  assumes run: "bind_exec (\<lambda>tc. (can_data_be_resized b n tc, tc)) (\<lambda>_.
      bind_exec (\<lambda>tc. (can_data_be_changed b tc, tc)) (\<lambda>_ tc.
        if stop tc then (Ok (), tc)
        else bind_exec (touch b) (\<lambda>_. modify (\<lambda>tc. update_account b f (update_accounts_resize_delta b n tc))) tc)) tc = (r, tc')"
    and f: "can_data_be_resized b n tc = Ok () \<Longrightarrow> length (acc_data (f (ba_account b tc))) = n"
  shows "accounted tc tc'"
proof (cases "can_data_be_resized b n tc = Ok () \<and> can_data_be_changed b tc = Ok () \<and> \<not> stop tc \<and>
    unat (ba_index_in_transaction b) < length (ta_touched_flags (tc_accounts tc)) \<and> sizes_ok tc")
  case True
  let ?i = "unat (ba_index_in_transaction b)" and ?d = "tc_accounts_resize_delta tc"
  let ?old = "data_length (cells tc ! ?i)"
  have len: "length (ta_touched_flags (tc_accounts tc)) = length (cells tc)" using True by (simp add: sizes_ok_def)
  have i: "?i < length (cells tc)" using True len by simp
  obtain tc1 where t: "touch b tc = (Ok (), tc1)"
    using True by (simp add: touch_def ta_touch_def)
  note frame = touch_frame [OF t]
  have flags: "length (ta_touched_flags (tc_accounts tc1)) = length (cells tc)"
    using t True len by (auto simp: touch_def ta_touch_def split: if_splits)
  have tc': "tc' = update_account b f (update_accounts_resize_delta b n tc1)"
    using run True t by (simp add: exec_simps)
  have n: "n \<le> 10485760"
    using True by (auto simp: can_data_be_resized_def MAX_PERMITTED_DATA_LENGTH_def Let_def split: if_splits)
  have gd1: "get_data b tc1 = get_data b tc"
    using frame(1) by (simp add: get_data_def ba_account_def)
  have arith: "i64_saturating_add ?d (i64_saturating_sub (i64_of_usize n) (i64_of_usize (length (get_data b tc)))) =
      ?d + (int n - ?old)"
    using True i n by (intro resize_delta_exact) simp_all
  have delta: "tc_accounts_resize_delta tc' = ?d + (int n - ?old)"
    using arith frame(3) gd1 by (simp add: tc' update_account_def set_cell_def update_accounts_resize_delta_def Let_def)
  have cells': "cells tc' = (cells tc)[?i := (cells tc ! ?i)\<lparr>rc_value := f (ba_account b tc)\<rparr>]"
    using frame(1) by (simp add: tc' update_account_def cells_set_cell update_delta_frame ba_account_def)
  have "length (acc_data (f (ba_account b tc))) = n" using f True by blast
  then have lens: "map data_length (cells tc') = (map data_length (cells tc))[?i := int n]"
    by (simp add: cells' map_update data_length_def)
  have total: "total_data tc' = total_data tc + int n - ?old"
    using i by (simp add: total_data_def lens sum_list_update_int)
  have "\<forall>c \<in> set (cells tc'). data_length c \<le> 10485760"
  proof -
    have "set (map data_length (cells tc')) \<subseteq> insert (int n) (set (map data_length (cells tc)))"
      unfolding lens by (rule set_update_subset_insert)
    then show ?thesis using n True by (auto simp: sizes_ok_def)
  qed
  moreover have "?d + (int n - ?old) \<le> MAX_PERMITTED_ACCOUNTS_DATA_ALLOCATIONS_PER_TRANSACTION"
    using True unfolding arith [symmetric] by (auto simp: can_data_be_resized_def Let_def split: if_splits)
  moreover have "length (ta_touched_flags (tc_accounts tc')) = length (cells tc)" and "length (cells tc') = length (cells tc)"
    using flags by (simp_all add: tc' update_account_def set_cell_def update_accounts_resize_delta_def Let_def frame(1))
  ultimately show ?thesis
    using True by (simp add: accounted_def sizes_ok_def delta total)
next
  case False
  then have "tc' = tc \<or> \<not> sizes_ok tc"
    using run by (auto simp: bind_exec_def touch_def ta_touch_def split: result.splits if_splits)
  then show ?thesis by (auto simp: accounted_def)
qed

lemma accounted_touch_update:
  assumes run: "bind_exec (touch b) (\<lambda>_. modify (update_account b f)) tc = (r, tc')"
    and f: "\<And>a. acc_data (f a) = acc_data a"
  shows "accounted tc tc'"
proof (rule accounted_same)
  have "map data_length ((cells tc)[i := (cells tc ! i)\<lparr>rc_value := f (rc_value (cells tc ! i))\<rparr>]) =
      map data_length (cells tc)" for i
    by (rule map_update_same) (simp add: data_length_def f)
  then show "map data_length (cells tc') = map data_length (cells tc)"
    and "tc_accounts_resize_delta tc' = tc_accounts_resize_delta tc"
    and "length (ta_touched_flags (tc_accounts tc')) = length (ta_touched_flags (tc_accounts tc))"
    using run by (auto simp: bind_exec_def touch_def ta_touch_def modify_def update_account_def set_cell_def Let_def
        split: if_splits)
qed

lemma accounted_refl: "accounted tc tc"
  by (simp add: accounted_def)

lemma accounted_set_lamports: "preserves accounted (set_lamports b l)"
  unfolding preserves_def set_lamports_def
  by (auto simp: accounted_refl elim!: accounted_touch_update split: if_splits)

lemma accounted_set_owner: "preserves accounted (set_owner b p)"
  unfolding preserves_def set_owner_def
  by (auto simp: accounted_refl elim!: accounted_touch_update split: if_splits)

lemma accounted_set_executable: "preserves accounted (set_executable b x)"
  unfolding preserves_def set_executable_def
  by (auto simp: accounted_refl elim!: accounted_touch_update split: if_splits)

lemma accounted_set_data_length: "preserves accounted (set_data_length b n)"
  unfolding preserves_def set_data_length_def
proof (intro allI impI)
  fix tc r tc'
  assume run: "bind_exec (\<lambda>tc. (can_data_be_resized b n tc, tc)) (\<lambda>_.
      bind_exec (\<lambda>tc. (can_data_be_changed b tc, tc)) (\<lambda>_ tc.
        if length (get_data b tc) = n then (Ok (), tc)
        else bind_exec (touch b) (\<lambda>_.
          modify (\<lambda>tc. update_account b (acc_resize n 0) (update_accounts_resize_delta b n tc))) tc)) tc = (r, tc')"
  show "accounted tc tc'" by (rule accounted_resize [OF run]) (auto simp: acc_resize_def min_def)
qed

lemma accounted_set_data_from_slice: "preserves accounted (set_data_from_slice b d)"
  unfolding preserves_def set_data_from_slice_def
proof (intro allI impI, goal_cases)
  case (1 tc r tc')
  show ?case
    by (rule accounted_resize [where f = "acc_set_data_from_slice d" and stop = "\<lambda>_. False" and n = "length d"])
      (use 1 in \<open>auto simp: acc_set_data_from_slice_def\<close>)
qed

lemma accounted_extend_from_slice: "preserves accounted (extend_from_slice b d)"
  unfolding preserves_def
proof (intro allI impI, goal_cases)
  case (1 tc r tc')
  note run = 1 [unfolded extend_from_slice_def Let_def if_ret]
  show ?case
    by (rule accounted_resize [OF run])
      (auto simp: acc_extend_from_slice_def get_data_def can_data_be_resized_def MAX_PERMITTED_DATA_LENGTH_def Let_def
        split: if_splits)
qed

lemma accounted_with_data_mut:
  assumes m: "\<And>d. length (snd (m d)) = length d"
  shows "preserves accounted (with_data_mut b m)"
  unfolding preserves_def
proof (intro allI impI)
  fix tc r tc' assume run: "with_data_mut b m tc = (r, tc')"
  show "accounted tc tc'"
  proof (rule accounted_same)
    have "map data_length ((cells tc)[i := (cells tc ! i)\<lparr>rc_value :=
        rc_value (cells tc ! i)\<lparr>acc_data := d\<rparr>\<rparr>]) = map data_length (cells tc)"
      if "m (acc_data (rc_value (cells tc ! i))) = (s, d)" for i s d
      using m [of "acc_data (rc_value (cells tc ! i))"] that by (intro map_update_same) (simp add: data_length_def)
    then show "map data_length (cells tc') = map data_length (cells tc)"
      and "tc_accounts_resize_delta tc' = tc_accounts_resize_delta tc"
      and "length (ta_touched_flags (tc_accounts tc')) = length (ta_touched_flags (tc_accounts tc))"
      using run by (auto simp: with_data_mut_def bind_exec_def touch_def ta_touch_def update_account_def set_cell_def
          get_data_def ba_account_def Let_def split: if_splits result.splits prod.splits)
  qed
qed

interpretation accounted: account_guarantee ic accounted for ic
proof unfold_locales
  show "accounted tc (set_cell index (\<lambda>c. c\<lparr>rc_borrow := f\<rparr>) tc)" for tc index f
    by (rule accounted_same) (simp_all add: set_cell_def Let_def map_update_same data_length_def)
  show "accounted tc tc' \<Longrightarrow> accounted tc' tc'' \<Longrightarrow> accounted tc tc''" for tc tc' tc''
    by (auto simp: accounted_def)
qed (auto intro: accounted_refl accounted_set_lamports accounted_set_owner accounted_set_data_length
    accounted_set_data_from_slice accounted_extend_from_slice accounted_set_executable accounted_with_data_mut)

end
