(* ===== verification/Instruction_Stack.thy ===== *)
theory Instruction_Stack
  imports Runtime_Guarantees
begin

text \<open>
  The stack of instructions: it stays well formed, and an instruction that is pushed and popped
  successfully neither creates nor destroys lamports.
\<close>

section \<open>The stack\<close>

definition stack_ok :: "TransactionContext \<Rightarrow> bool" where
  "stack_ok tc \<longleftrightarrow> tc_instruction_trace tc \<noteq> [] \<and>
     length (tc_instruction_trace tc) \<le> tc_instruction_trace_capacity tc + 1 \<and>
     length (tc_instruction_stack tc) \<le> tc_instruction_stack_capacity tc \<and>
     (\<forall>level < length (tc_instruction_stack tc).
        tc_instruction_stack tc ! level + 1 < length (tc_instruction_trace tc) \<and>
        ic_nesting_level (tc_instruction_trace tc ! (tc_instruction_stack tc ! level)) = level)"

text \<open>The instruction that \<open>push\<close> puts on the stack.\<close>

definition pushed :: "TransactionContext \<Rightarrow> u128 \<Rightarrow> InstructionContext" where
  "pushed tc s = last (tc_instruction_trace tc)
     \<lparr>ic_nesting_level := length (tc_instruction_stack tc), ic_instruction_accounts_lamport_sum := s\<rparr>"

lemma lamport_sum_loop_not_panic: "lamport_sum_loop tc ic is s \<noteq> Panic"
  by (induction tc ic "is" s rule: lamport_sum_loop.induct)
    (auto simp: is_instruction_account_duplicate_def get_index_of_instruction_account_in_transaction_def
      get_account_at_index_def split: if_splits)

lemma lamport_sum_not_panic [simp]: "instruction_accounts_lamport_sum tc ic \<noteq> Panic"
  by (simp add: instruction_accounts_lamport_sum_def lamport_sum_loop_not_panic)

lemma current_context_not_panic [simp]: "get_current_instruction_context tc \<noteq> Panic"
  by (auto simp: get_current_instruction_context_def get_instruction_context_at_nesting_level_def
      get_instruction_context_at_index_in_trace_def split: nat.split)

lemma tc_push_cases:
  assumes ne: "tc_instruction_trace tc \<noteq> []"
  obtains (same) e where "tc_push tc = (Err e, tc)"
  | (full) s where "tc_push tc = (Err MaxInstructionTraceLengthExceeded,
        tc\<lparr>tc_instruction_trace := butlast (tc_instruction_trace tc) @ [pushed tc s]\<rparr>)"
  | (deep) s where "tc_push tc = (Err CallDepth,
        tc\<lparr>tc_instruction_trace := butlast (tc_instruction_trace tc) @ [pushed tc s, instruction_context_default]\<rparr>)"
      and "length (tc_instruction_trace tc) \<le> tc_instruction_trace_capacity tc"
  | (ok) s where "tc_push tc = (Ok (),
        tc\<lparr>tc_instruction_trace := butlast (tc_instruction_trace tc) @ [pushed tc s, instruction_context_default],
           tc_instruction_stack := tc_instruction_stack tc @ [length (tc_instruction_trace tc) - 1]\<rparr>)"
      and "length (tc_instruction_trace tc) \<le> tc_instruction_trace_capacity tc"
      and "length (tc_instruction_stack tc) < tc_instruction_stack_capacity tc"
      and "instruction_accounts_lamport_sum tc (last (tc_instruction_trace tc)) = Ok s"
proof -
  let ?trace = "tc_instruction_trace tc"
  let ?check = "if tc_instruction_stack tc = [] then Ok ()
      else and_then (get_current_instruction_context tc) (\<lambda>caller.
           and_then (instruction_accounts_lamport_sum tc caller) (\<lambda>current_sum.
           if ic_instruction_accounts_lamport_sum caller \<noteq> current_sum then Err UnbalancedInstruction
           else Ok ()))"
  note eval = tc_push_def bind_exec_def gets_def lift_def require_def modify_def ret_def throw_def next_back_def
    with_next_instruction_context_def get_instruction_trace_length_def get_instruction_context_stack_height_def pushed_def
  have len: "length ?trace - 1 < c \<longleftrightarrow> length ?trace \<le> c" for c using ne by (cases ?trace) auto
  show ?thesis
  proof (cases "instruction_accounts_lamport_sum tc (last ?trace)")
    case sum: (Ok s)
    show ?thesis
    proof (cases ?check)
      case (Ok u)
      note eval' = eval Ok sum
      consider "\<not> length ?trace \<le> tc_instruction_trace_capacity tc"
        | "length ?trace \<le> tc_instruction_trace_capacity tc" "tc_instruction_stack_capacity tc \<le> length (tc_instruction_stack tc)"
        | "length ?trace \<le> tc_instruction_trace_capacity tc" "length (tc_instruction_stack tc) < tc_instruction_stack_capacity tc"
        by linarith
      then show ?thesis
      proof cases
        case 1
        then show ?thesis using ne len by (intro full [of s]) (simp add: eval' not_less [symmetric])
      next
        case 2
        then show ?thesis using ne len by (intro deep [of s]) (simp_all add: eval' not_less [symmetric])
      next
        case 3
        then show ?thesis using ne len by (intro ok [of s]) (simp_all add: eval' not_less [symmetric])
      qed
    next
      case (Err e)
      then show ?thesis using ne by (intro same [of e]) (simp add: eval sum)
    qed (auto split: if_splits)
  next
    case (Err e)
    then show ?thesis using ne by (intro same [of e]) (simp add: eval)
  qed simp
qed

lemma nth_trace_append:
  "trace \<noteq> [] \<Longrightarrow> i + 1 < length trace \<Longrightarrow> (butlast trace @ ys) ! i = trace ! i"
  by (auto simp: nth_append nth_butlast)

lemma nth_trace_new: "trace \<noteq> [] \<Longrightarrow> (butlast trace @ y # ys) ! (length trace - 1) = y"
  by (simp add: nth_append)

lemma tc_push_stack_ok:
  assumes ok: "stack_ok tc"
  shows "stack_ok (snd (tc_push tc))" and "fst (tc_push tc) \<noteq> Panic"
proof -
  let ?trace = "tc_instruction_trace tc"
  have ne: "?trace \<noteq> []" using ok by (simp add: stack_ok_def)
  from ne have "stack_ok (snd (tc_push tc)) \<and> fst (tc_push tc) \<noteq> Panic"
  proof (cases rule: tc_push_cases)
    case (ok s)
    then show ?thesis
      using assms by (auto simp: stack_ok_def nth_append nth_butlast less_Suc_eq pushed_def)
  qed (use ok ne nth_trace_append [OF ne] in \<open>auto simp: stack_ok_def\<close>)
  then show "stack_ok (snd (tc_push tc))" and "fst (tc_push tc) \<noteq> Panic" by simp_all
qed

lemma tc_pop_stack: "snd (tc_pop tc) = tc\<lparr>tc_instruction_stack := butlast (tc_instruction_stack tc)\<rparr>"
  by (auto simp: tc_pop_def Let_def split: result.splits)

lemma tc_pop_stack_ok: "stack_ok tc \<Longrightarrow> stack_ok (snd (tc_pop tc))"
  by (auto simp: tc_pop_stack stack_ok_def nth_butlast)

text \<open>
  C19: the stack of instructions is always well formed: after a push or a pop, whatever its outcome,
  every entry points to a configured instruction of the trace with the right nesting level, stack
  and trace are within their capacities, and the last, unused context of the trace is kept. A
  successful push makes the configured instruction the current one, a pop always removes it.
\<close>

theorem instruction_stack_invariant:
  assumes ok: "stack_ok tc"
  shows "stack_ok (snd (tc_push tc)) \<and> stack_ok (snd (tc_pop tc)) \<and>
    (fst (tc_push tc) = Ok () \<longrightarrow>
       (\<exists>s. get_current_instruction_context (snd (tc_push tc)) = Ok (pushed tc s)) \<and>
       tc_instruction_stack (snd (tc_pop (snd (tc_push tc)))) = tc_instruction_stack tc)"
proof -
  have ne: "tc_instruction_trace tc \<noteq> []" using ok by (simp add: stack_ok_def)
  have "(\<exists>s. get_current_instruction_context (snd (tc_push tc)) = Ok (pushed tc s)) \<and>
      tc_instruction_stack (snd (tc_pop (snd (tc_push tc)))) = tc_instruction_stack tc" if "fst (tc_push tc) = Ok ()"
    using ne
  proof (cases rule: tc_push_cases)
    case (ok s)
    then show ?thesis
      using ne nth_trace_new [OF ne, of "pushed tc s"]
      by (auto simp: tc_pop_stack get_current_instruction_context_def get_instruction_context_stack_height_def
          get_instruction_context_at_nesting_level_def get_instruction_context_at_index_in_trace_def vec_get_def)
  qed (use that in simp_all)
  then show ?thesis using tc_push_stack_ok [OF ok] tc_pop_stack_ok [OF ok] by blast
qed

lemma transaction_context_new_ok: "stack_ok (transaction_context_new accounts rent stack_capacity trace_capacity)"
  by (simp add: stack_ok_def transaction_context_new_def)

theorem instruction_stack_invariant_witness:
  "stack_ok (snd (tc_push (transaction_context_new [] rent_default 5 64))) \<and>
   fst (tc_push (transaction_context_new [] rent_default 5 64)) = Ok ()"
proof -
  have "fst (tc_push (transaction_context_new [] rent_default 5 64)) = Ok ()"
    by (simp add: tc_push_def transaction_context_new_def exec_simps next_back_def instruction_accounts_lamport_sum_def
        get_number_of_instruction_accounts_def instruction_context_default_def with_next_instruction_context_def
        get_instruction_trace_length_def get_instruction_context_stack_height_def)
  then show ?thesis
    using instruction_stack_invariant [OF transaction_context_new_ok, of "[]" rent_default 5 64] by simp
qed

section \<open>Lamports are conserved\<close>

abbreviation lamports_at :: "TransactionContext \<Rightarrow> nat \<Rightarrow> nat" where
  "lamports_at tc k \<equiv> unat (acc_lamports (rc_value (cells tc ! k)))"

definition total_lamports :: "TransactionContext \<Rightarrow> nat" where
  "total_lamports tc = (\<Sum>k < length (cells tc). lamports_at tc k)"

definition account_index :: "InstructionContext \<Rightarrow> nat \<Rightarrow> nat" where
  "account_index ic i = unat (ia_index_in_transaction (ic_instruction_accounts ic ! i))"

text \<open>Every instruction account refers to the first one with the same account.\<close>

definition duplicates_ok :: "InstructionContext \<Rightarrow> bool" where
  "duplicates_ok ic \<longleftrightarrow> length (ic_instruction_accounts ic) < 2 ^ 16 \<and>
     (\<forall>i < length (ic_instruction_accounts ic).
        position (\<lambda>ia. ia_index_in_transaction ia = ia_index_in_transaction (ic_instruction_accounts ic ! i))
          (ic_instruction_accounts ic) = Some (unat (ia_index_in_callee (ic_instruction_accounts ic ! i))))"

definition first_accounts :: "InstructionContext \<Rightarrow> nat list" where
  "first_accounts ic = filter (\<lambda>i. ia_index_in_callee (ic_instruction_accounts ic ! i) = of_nat i)
     [0..<length (ic_instruction_accounts ic)]"

lemma lamport_sum_loop_nat:
  assumes "lamport_sum_loop tc ic is s = Ok s'" and "\<forall>i \<in> set is. i < length (ic_instruction_accounts ic)"
    and "length (ic_instruction_accounts ic) < 2 ^ 16"
  shows "unat s' = unat s + sum_list (map (\<lambda>i. lamports_at tc (account_index ic i))
        (filter (\<lambda>i. ia_index_in_callee (ic_instruction_accounts ic ! i) = of_nat i) is)) \<and>
    (\<forall>i \<in> set is. ia_index_in_callee (ic_instruction_accounts ic ! i) = of_nat i \<longrightarrow>
       account_index ic i < length (cells tc))"
  using assms
proof (induction tc ic "is" s rule: lamport_sum_loop.induct)
  case (2 tc ic i "is" s)
  let ?ia = "ic_instruction_accounts ic ! i"
  have len: "i < length (ic_instruction_accounts ic)" using "2.prems"(2) by simp
  then have "unat (of_nat i :: u16) = i" using "2.prems"(3) by (intro unat_of_nat_lt) simp
  then have get: "vec_get (ic_instruction_accounts ic) (unat (of_nat i :: u16)) = Some ?ia"
    using len by (simp add: vec_get_def)
  note eval = is_instruction_account_duplicate_def get_index_of_instruction_account_in_transaction_def get
  show ?case
  proof (cases "ia_index_in_callee ?ia = of_nat i")
    case True
    then obtain c n where c: "ta_get (tc_accounts tc) (ia_index_in_transaction ?ia) = Some c"
      and n: "checked_add (ucast (acc_lamports (rc_value c))) s = Some n"
      and rest: "lamport_sum_loop tc ic is n = Ok s'" and b: "can_borrow c"
      using "2.prems"(1) by (auto simp: eval get_account_at_index_def split: if_splits)
    have "c = cells tc ! account_index ic i" and k: "account_index ic i < length (cells tc)"
      using c by (simp_all add: ta_get_def vec_get_Some_iff account_index_def)
    then have "unat n = unat s + lamports_at tc (account_index ic i)"
      using n by (simp add: checked_add_Some_iff unat_ucast_up)
    moreover have "unat s' = unat n + sum_list (map (\<lambda>i. lamports_at tc (account_index ic i))
          (filter (\<lambda>i. ia_index_in_callee (ic_instruction_accounts ic ! i) = of_nat i) is)) \<and>
      (\<forall>i \<in> set is. ia_index_in_callee (ic_instruction_accounts ic ! i) = of_nat i \<longrightarrow>
         account_index ic i < length (cells tc))"
      using "2.prems" b by (intro "2.IH"(2) [OF _ _ rest, where x = None and xb = c]) auto
    ultimately show ?thesis using True k by simp
  next
    case False
    then have "lamport_sum_loop tc ic is s = Ok s'" using "2.prems"(1) by (auto simp: eval)
    from "2.IH"(1) [where x = "Some (ia_index_in_callee ?ia)", OF _ this] show ?thesis
      using "2.prems"(2,3) False by auto
  qed
qed simp

lemma duplicates_okD:
  "duplicates_ok ic \<Longrightarrow> i < length (ic_instruction_accounts ic) \<Longrightarrow>
    position (\<lambda>ia. ia_index_in_transaction ia = ia_index_in_transaction (ic_instruction_accounts ic ! i))
      (ic_instruction_accounts ic) = Some (unat (ia_index_in_callee (ic_instruction_accounts ic ! i)))"
  by (simp add: duplicates_ok_def)

lemma first_account:
  assumes "duplicates_ok ic" and "i < length (ic_instruction_accounts ic)"
  shows "\<exists>j \<in> set (first_accounts ic). account_index ic i = account_index ic j"
proof
  let ?accounts = "ic_instruction_accounts ic"
  let ?j = "unat (ia_index_in_callee (?accounts ! i))"
  have j: "?j < length ?accounts" and eq: "ia_index_in_transaction (?accounts ! ?j) = ia_index_in_transaction (?accounts ! i)"
    using duplicates_okD [OF assms] by (simp_all add: position_Some_iff)
  then show "account_index ic i = account_index ic ?j" by (simp add: account_index_def)
  have "unat (ia_index_in_callee (?accounts ! ?j)) = ?j"
    using duplicates_okD [OF assms(1) j] duplicates_okD [OF assms] eq by simp
  then have "ia_index_in_callee (?accounts ! ?j) = of_nat ?j" by (simp add: word_unat_eq_iff)
  then show "?j \<in> set (first_accounts ic)" using j by (simp add: first_accounts_def)
qed

definition instruction_indices :: "InstructionContext \<Rightarrow> nat set" where
  "instruction_indices ic = account_index ic ` {..<length (ic_instruction_accounts ic)}"

lemma first_accounts_bij:
  assumes "duplicates_ok ic"
  shows "inj_on (account_index ic) (set (first_accounts ic))"
    and "account_index ic ` set (first_accounts ic) = instruction_indices ic"
proof -
  show "inj_on (account_index ic) (set (first_accounts ic))"
  proof (rule inj_onI)
    fix i j
    assume ij: "i \<in> set (first_accounts ic)" "j \<in> set (first_accounts ic)" "account_index ic i = account_index ic j"
    then have "ia_index_in_transaction (ic_instruction_accounts ic ! i) = ia_index_in_transaction (ic_instruction_accounts ic ! j)"
      by (simp add: account_index_def word_unat_eq_iff)
    then have "unat (ia_index_in_callee (ic_instruction_accounts ic ! i)) = unat (ia_index_in_callee (ic_instruction_accounts ic ! j))"
      using duplicates_okD [OF assms, of i] duplicates_okD [OF assms, of j] ij(1,2) by (simp add: first_accounts_def)
    then show "i = j" using assms ij(1,2) by (simp add: first_accounts_def duplicates_ok_def unat_of_nat_lt)
  qed
  show "account_index ic ` set (first_accounts ic) = instruction_indices ic"
  proof
    show "account_index ic ` set (first_accounts ic) \<subseteq> instruction_indices ic"
      by (auto simp: first_accounts_def instruction_indices_def)
    show "instruction_indices ic \<subseteq> account_index ic ` set (first_accounts ic)"
      using first_account [OF assms] by (auto simp: instruction_indices_def)
  qed
qed

lemma lamport_sum_indices:
  assumes ok: "duplicates_ok ic" and sum: "instruction_accounts_lamport_sum tc ic = Ok s"
  shows "unat s = (\<Sum>k \<in> instruction_indices ic. lamports_at tc k)"
    and "instruction_indices ic \<subseteq> {..<length (cells tc)}"
proof -
  have len: "length (ic_instruction_accounts ic) < 2 ^ 16" using ok by (simp add: duplicates_ok_def)
  then have "lamport_sum_loop tc ic [0..<length (ic_instruction_accounts ic)] 0 = Ok s"
    using sum by (simp add: instruction_accounts_lamport_sum_def get_number_of_instruction_accounts_def unat_of_nat_lt)
  from lamport_sum_loop_nat [OF this _ len]
  have s: "unat s = (\<Sum>i \<leftarrow> first_accounts ic. lamports_at tc (account_index ic i))"
    and in_range: "account_index ic ` set (first_accounts ic) \<subseteq> {..<length (cells tc)}"
    by (auto simp: first_accounts_def)
  have "distinct (first_accounts ic)" by (simp add: first_accounts_def)
  then have "unat s = (\<Sum>i \<in> set (first_accounts ic). lamports_at tc (account_index ic i))"
    using s by (simp add: sum_list_distinct_conv_sum_set)
  also have "\<dots> = (\<Sum>k \<in> instruction_indices ic. lamports_at tc k)"
    using sum.reindex [OF first_accounts_bij(1) [OF ok], of "lamports_at tc"] first_accounts_bij(2) [OF ok]
    by (simp add: comp_def)
  finally show "unat s = (\<Sum>k \<in> instruction_indices ic. lamports_at tc k)" .
  show "instruction_indices ic \<subseteq> {..<length (cells tc)}" using in_range first_accounts_bij(2) [OF ok] by simp
qed

lemma total_lamports_split:
  assumes "instruction_indices ic \<subseteq> {..<length (cells tc)}"
  shows "total_lamports tc = (\<Sum>k \<in> instruction_indices ic. lamports_at tc k) +
    (\<Sum>k \<in> {..<length (cells tc)} - instruction_indices ic. lamports_at tc k)"
  using assms sum.subset_diff [of "instruction_indices ic" "{..<length (cells tc)}" "lamports_at tc"]
  by (simp add: total_lamports_def)

text \<open>
  What an instruction, with all the instructions it invokes, may change: only accounts that it lists
  as writable. The stack is as before, and the trace has only grown.
\<close>

definition writable_at :: "InstructionContext \<Rightarrow> nat \<Rightarrow> bool" where
  "writable_at ic k \<longleftrightarrow> (\<exists>index. unat index = k \<and> writable_in ic index)"

definition frame :: "TransactionContext \<Rightarrow> TransactionContext \<Rightarrow> bool" where
  "frame tc tc' \<longleftrightarrow>
     tc_account_keys tc' = tc_account_keys tc \<and> length (cells tc') = length (cells tc) \<and>
     tc_instruction_stack_capacity tc' = tc_instruction_stack_capacity tc \<and>
     tc_instruction_trace_capacity tc' = tc_instruction_trace_capacity tc \<and>
     length (tc_instruction_trace tc) \<le> length (tc_instruction_trace tc') \<and>
     take (length (tc_instruction_trace tc) - 1) (tc_instruction_trace tc') = butlast (tc_instruction_trace tc)"

definition confined :: "InstructionContext \<Rightarrow> TransactionContext \<Rightarrow> TransactionContext \<Rightarrow> bool" where
  "confined ic tc tc' \<longleftrightarrow> frame tc tc' \<and> tc_instruction_stack tc' = tc_instruction_stack tc \<and>
     (stack_ok tc \<longrightarrow> stack_ok tc') \<and>
     (\<forall>k < length (cells tc). \<not> writable_at ic k \<longrightarrow> rc_value (cells tc' ! k) = rc_value (cells tc ! k))"

lemma frame_refl: "frame tc tc"
  by (simp add: frame_def butlast_conv_take)

lemma frame_trans:
  assumes "frame tc tc'" and "frame tc' tc''"
  shows "frame tc tc''"
proof -
  let ?n = "length (tc_instruction_trace tc) - 1"
  have "take ?n (tc_instruction_trace tc'') = take ?n (take (length (tc_instruction_trace tc') - 1) (tc_instruction_trace tc''))"
    using assms(1) by (simp add: frame_def min_absorb1 diff_le_mono)
  also have "\<dots> = take ?n (tc_instruction_trace tc')"
    using assms by (simp add: frame_def butlast_conv_take min_absorb1 diff_le_mono)
  finally show ?thesis using assms by (simp add: frame_def)
qed

lemma confined_refl: "confined ic tc tc"
  by (simp add: confined_def frame_refl)

lemma confined_trans: "confined ic tc tc' \<Longrightarrow> confined ic tc' tc'' \<Longrightarrow> confined ic tc tc''"
  unfolding confined_def using frame_trans [of tc tc' tc''] by (auto simp: frame_def)

lemma guarded_confined: "guarded ic tc tc' \<Longrightarrow> confined ic tc tc'"
  by (auto simp: confined_def frame_def guarded_def same_frame_def account_step_def writable_at_def stack_ok_def butlast_conv_take)

lemma writable_at_index: "writable_at ic k \<Longrightarrow> k \<in> instruction_indices ic"
  by (auto simp: writable_at_def writable_in_def instruction_indices_def account_index_def in_set_conv_nth)

text \<open>The balance check conserves the lamports of the whole transaction.\<close>

lemma balanced_conserves:
  assumes "duplicates_ok ic" and "confined ic tc tc'"
    and "instruction_accounts_lamport_sum tc ic = Ok s" and "instruction_accounts_lamport_sum tc' ic = Ok s"
  shows "total_lamports tc' = total_lamports tc"
proof -
  have len: "length (cells tc') = length (cells tc)" using assms(2) by (simp add: confined_def frame_def)
  have "(\<Sum>k \<in> {..<length (cells tc)} - instruction_indices ic. lamports_at tc' k) =
      (\<Sum>k \<in> {..<length (cells tc)} - instruction_indices ic. lamports_at tc k)"
    using assms(2) writable_at_index [of ic] by (intro sum.cong) (auto simp: confined_def)
  then show ?thesis
    using lamport_sum_indices [OF assms(1,3)] lamport_sum_indices [OF assms(1,4)] len
      total_lamports_split [of ic tc] total_lamports_split [of ic tc'] by simp
qed

lemma lamport_sum_loop_cong:
  assumes "tc_accounts tc' = tc_accounts tc" and "ic_instruction_accounts ic' = ic_instruction_accounts ic"
  shows "lamport_sum_loop tc' ic' is s = lamport_sum_loop tc ic is s"
proof (induction "is" arbitrary: s)
  case (Cons i "is")
  have "is_instruction_account_duplicate ic' = is_instruction_account_duplicate ic"
    and "get_index_of_instruction_account_in_transaction ic' = get_index_of_instruction_account_in_transaction ic"
    and "get_account_at_index tc' = get_account_at_index tc"
    by (simp_all add: fun_eq_iff is_instruction_account_duplicate_def get_account_at_index_def
        get_index_of_instruction_account_in_transaction_def assms)
  moreover have "lamport_sum_loop tc' ic' is = lamport_sum_loop tc ic is" by (rule ext) (rule Cons)
  ultimately show ?case by (simp only: lamport_sum_loop.simps)
qed simp

lemma lamport_sum_cong:
  "tc_accounts tc' = tc_accounts tc \<Longrightarrow> ic_instruction_accounts ic' = ic_instruction_accounts ic \<Longrightarrow>
    instruction_accounts_lamport_sum tc' ic' = instruction_accounts_lamport_sum tc ic"
  using lamport_sum_loop_cong [of tc' tc ic' ic]
  by (simp add: instruction_accounts_lamport_sum_def get_number_of_instruction_accounts_def)

lemma tc_push_Ok:
  assumes ok: "stack_ok tc" and push: "tc_push tc = (Ok (), tc')"
  obtains s where "get_current_instruction_context tc' = Ok (pushed tc s)" and "tc_accounts tc' = tc_accounts tc"
    and "instruction_accounts_lamport_sum tc' (pushed tc s) = Ok s" and "butlast (tc_instruction_stack tc') = tc_instruction_stack tc"
proof -
  have ne: "tc_instruction_trace tc \<noteq> []" using ok by (simp add: stack_ok_def)
  then show ?thesis
  proof (cases rule: tc_push_cases)
    case (ok s)
    show ?thesis
    proof (rule that [of s])
      show "get_current_instruction_context tc' = Ok (pushed tc s)"
        using ok push ne nth_trace_new [OF ne, of "pushed tc s"]
        by (auto simp: get_current_instruction_context_def get_instruction_context_stack_height_def
            get_instruction_context_at_nesting_level_def get_instruction_context_at_index_in_trace_def vec_get_def)
      show "instruction_accounts_lamport_sum tc' (pushed tc s) = Ok s"
        using ok(1,4) push lamport_sum_cong [of tc' tc "pushed tc s" "last (tc_instruction_trace tc)"]
        by (auto simp: pushed_def)
    qed (use ok(1) push in auto)
  qed (use push in simp_all)
qed

lemma current_context_frame:
  assumes ok: "stack_ok tc" and "frame tc tc'" and "tc_instruction_stack tc' = tc_instruction_stack tc"
  shows "get_current_instruction_context tc' = get_current_instruction_context tc"
proof (cases "length (tc_instruction_stack tc)")
  case (Suc level)
  let ?i = "tc_instruction_stack tc ! level" and ?n = "length (tc_instruction_trace tc) - 1"
  have i: "?i < ?n" using ok Suc by (auto simp: stack_ok_def)
  have "tc_instruction_trace tc' ! ?i = take ?n (tc_instruction_trace tc') ! ?i" using i by simp
  also have "\<dots> = tc_instruction_trace tc ! ?i" using assms(2) i by (simp add: frame_def nth_butlast)
  finally have "tc_instruction_trace tc' ! ?i = tc_instruction_trace tc ! ?i" .
  moreover have "?i < length (tc_instruction_trace tc)" and "?i < length (tc_instruction_trace tc')"
    using i assms(2) unfolding frame_def by linarith+
  ultimately show ?thesis
    using assms(3) Suc
    by (simp add: get_current_instruction_context_def get_instruction_context_stack_height_def
        get_instruction_context_at_nesting_level_def get_instruction_context_at_index_in_trace_def vec_get_def)
qed (use assms(3) in \<open>simp add: get_current_instruction_context_def get_instruction_context_stack_height_def\<close>)

lemma balanced_instruction:
  assumes ok: "stack_ok tc" and push: "tc_push tc = (Ok (), tc1)" and current: "get_current_instruction_context tc1 = Ok ic"
    and dup: "duplicates_ok ic" and body: "confined ic tc1 tc2" and pop: "tc_pop tc2 = (Ok (), tc3)"
  shows "total_lamports tc3 = total_lamports tc" and "tc_instruction_stack tc3 = tc_instruction_stack tc"
proof -
  obtain s where s: "get_current_instruction_context tc1 = Ok (pushed tc s)" "tc_accounts tc1 = tc_accounts tc"
    "instruction_accounts_lamport_sum tc1 (pushed tc s) = Ok s" "butlast (tc_instruction_stack tc1) = tc_instruction_stack tc"
    using tc_push_Ok [OF ok push] by metis
  then have ic: "ic = pushed tc s" using current by simp
  have "stack_ok tc1" using tc_push_stack_ok(1) [OF ok] push by simp
  then have "get_current_instruction_context tc2 = Ok ic"
    using current current_context_frame [of tc1 tc2] body by (simp add: confined_def)
  then have "instruction_accounts_lamport_sum tc2 ic = Ok s"
    using pop ic by (auto simp: tc_pop_def detect_unbalanced_instruction_def Let_def pushed_def and_then_Ok_iff split: result.splits if_splits)
  then have "total_lamports tc2 = total_lamports tc1"
    using balanced_conserves [OF dup body] s(3) ic by simp
  moreover have "tc3 = tc2\<lparr>tc_instruction_stack := butlast (tc_instruction_stack tc2)\<rparr>"
    using tc_pop_stack [of tc2] pop by simp
  ultimately show "total_lamports tc3 = total_lamports tc" and "tc_instruction_stack tc3 = tc_instruction_stack tc"
    using s(2,4) body by (simp_all add: total_lamports_def confined_def)
qed

text \<open>A program that moves lamports between two accounts it owns.\<close>

definition example_account :: "u64 \<Rightarrow> AccountSharedData" where
  "example_account l = \<lparr>acc_lamports = l, acc_data = [], acc_owner = 7, acc_executable = False, acc_rent_epoch = 0\<rparr>"

definition example_instruction :: InstructionContext where
  "example_instruction = instruction_context_default\<lparr>ic_program_accounts := [0], ic_instruction_accounts :=
     [\<lparr>ia_index_in_transaction = 1, ia_index_in_caller = 1, ia_index_in_callee = 0, ia_is_signer = True, ia_is_writable = True\<rparr>,
      \<lparr>ia_index_in_transaction = 2, ia_index_in_caller = 2, ia_index_in_callee = 1, ia_is_signer = False, ia_is_writable = True\<rparr>]\<rparr>"

definition example_transaction :: "u64 \<Rightarrow> u64 \<Rightarrow> TransactionContext" where
  "example_transaction a b =
     transaction_context_new [(7, example_account 1), (8, example_account a), (9, example_account b)] rent_default 5 64
       \<lparr>tc_instruction_trace := [example_instruction]\<rparr>"

definition example_running :: "u64 \<Rightarrow> u64 \<Rightarrow> TransactionContext" where
  "example_running a b = (example_transaction a b)
     \<lparr>tc_instruction_stack := [0],
      tc_instruction_trace := [example_instruction\<lparr>ic_instruction_accounts_lamport_sum := 5\<rparr>, instruction_context_default]\<rparr>"

lemmas example_defs = example_account_def example_instruction_def example_transaction_def example_running_def
  transaction_context_new_def instruction_context_default_def transaction_accounts_new_def refcell_new_def

lemmas lamport_sum_eval = instruction_accounts_lamport_sum_def get_number_of_instruction_accounts_def upt_rec
  is_instruction_account_duplicate_def get_account_at_index_def ta_get_def
  get_index_of_instruction_account_in_transaction_def vec_get_def can_borrow_def checked_add_def

lemmas current_context_eval = get_current_instruction_context_def get_instruction_context_stack_height_def
  get_instruction_context_at_nesting_level_def get_instruction_context_at_index_in_trace_def vec_get_def

lemma example_push: "tc_push (example_transaction 5 0) = (Ok (), example_running 5 0)"
  by (simp add: example_defs tc_push_def exec_simps next_back_def with_next_instruction_context_def
        get_instruction_trace_length_def get_instruction_context_stack_height_def lamport_sum_eval)

lemma example_pop: "fst (tc_pop (example_running 2 3)) = Ok ()"
  by (simp add: example_defs tc_pop_def detect_unbalanced_instruction_def current_context_eval lamport_sum_eval can_borrow_mut_def)

lemma example_guarded:
  "guarded (example_instruction\<lparr>ic_instruction_accounts_lamport_sum := 5\<rparr>) (example_running 5 0) (example_running 2 3)"
proof -
  let ?ic = "example_instruction\<lparr>ic_instruction_accounts_lamport_sum := 5\<rparr>"
  have "get_last_program_key ?ic (example_running 5 0) = Ok 7"
    by (simp add: example_defs get_last_program_key_def get_key_of_account_at_index_def saturating_sub_def
        get_index_of_program_account_in_transaction_def get_number_of_program_accounts_def vec_get_def)
  moreover have "\<exists>index. unat index = Suc 0 \<and> writable_in ?ic index"
    by (rule exI [of _ 1]) (simp add: example_defs writable_in_def)
  moreover have "\<exists>index. unat index = Suc (Suc 0) \<and> writable_in ?ic index"
    by (rule exI [of _ 2]) (simp add: example_defs writable_in_def)
  ultimately show ?thesis
    by (auto simp: guarded_def same_frame_def account_step_def example_defs less_Suc_eq numeral_3_eq_3)
qed

lemma example_ready:
  "stack_ok (example_transaction 5 0)"
  "get_current_instruction_context (example_running 5 0) = Ok (example_instruction\<lparr>ic_instruction_accounts_lamport_sum := 5\<rparr>)"
  "duplicates_ok (example_instruction\<lparr>ic_instruction_accounts_lamport_sum := 5\<rparr>)"
  "tc_pop (example_running 2 3) = (Ok (), snd (tc_pop (example_running 2 3)))"
  using example_pop
  by (auto simp: stack_ok_def example_defs current_context_eval duplicates_ok_def less_Suc_eq prod_eq_iff)

end
