(* ===== verification/Sysvar_Cache.thy ===== *)
theory Sysvar_Cache
  imports Instruction_Stack Slot_Sysvars
begin

text \<open>
  The sysvars that programs read through the runtime: \<open>program-runtime/src/sysvar_cache.rs\<close> and the
  types of the sysvars. The ids are the numbers whose base 58 notation the source declares, the first
  of the 32 bytes of a key being the most significant. The decoders of \<open>bincode\<close> are a parameter.
\<close>

section \<open>Types of sysvars\<close>

record EpochRewards =
  er_total_rewards :: u64
  er_distributed_rewards :: u64
  er_distribution_complete_block_height :: u64

text \<open>\<open>distribute\<close> panics if more would be distributed than there is.\<close>

definition distribute :: "u64 \<Rightarrow> (EpochRewards, 'e, unit) exec" where
  "distribute amount er =
     (if saturating_add (er_distributed_rewards er) amount \<le> er_total_rewards er
      then (Ok (), er\<lparr>er_distributed_rewards := er_distributed_rewards er + amount\<rparr>)
      else (Panic, er))"

record FeeCalculator =
  fc_lamports_per_signature :: u64

record Fees =
  fees_fee_calculator :: FeeCalculator

record BlockhashEntry =
  be_blockhash :: Hash
  be_fee_calculator :: FeeCalculator

type_synonym RecentBlockhashes = "BlockhashEntry list"

definition blockhash_entry_new :: "Hash \<Rightarrow> u64 \<Rightarrow> BlockhashEntry" where
  "blockhash_entry_new blockhash lamports_per_signature =
     \<lparr>be_blockhash = blockhash, be_fee_calculator = \<lparr>fc_lamports_per_signature = lamports_per_signature\<rparr>\<rparr>"

definition recent_blockhashes_from_iter :: "(u64 \<times> Hash \<times> u64) list \<Rightarrow> RecentBlockhashes" where
  "recent_blockhashes_from_iter items = map (\<lambda>(_, hash, lamports). blockhash_entry_new hash lamports) items"

record StakeHistoryEntry =
  she_effective :: u64
  she_activating :: u64
  she_deactivating :: u64

type_synonym StakeHistory = "(Epoch \<times> StakeHistoryEntry) list"

record LastRestartSlot =
  lrs_last_restart_slot :: Slot

section \<open>The ids\<close>

definition clock_id :: Pubkey where
  "clock_id = 0x6a7d51718c774c928566398691d5eb68b5eb8a39b4b6d5c73555b2100000000"

definition epoch_schedule_id :: Pubkey where
  "epoch_schedule_id = 0x6a7d51718dc3fee02d3e47f0100f8b054f7942e60591e3f508719a805000000"

definition epoch_rewards_id :: Pubkey where
  "epoch_rewards_id = 0x6a7d51718dc3fee02a558bf83ce66e144422a1c34950b27c1869b5a9c000000"

definition fees_id :: Pubkey where
  "fees_id = 0x6a7d51718e25a8d83503c251a7af07126fd7200df6fc4ed526a9c9000000000"

definition rent_id :: Pubkey where
  "rent_id = 0x6a7d517192c5c51218cc94c3d4af17f58daee089ba1fd44e3dbd98a00000000"

definition slot_hashes_id :: Pubkey where
  "slot_hashes_id = 0x6a7d517192f0aafc6f265e3fb77cc7ada82c529d0be3b136e2d005520000000"

definition recent_blockhashes_id :: Pubkey where
  "recent_blockhashes_id = 0x6a7d517192c568ee08a845f73d29788cf035c3145b21ab344d8062ea9400000"

definition stake_history_id :: Pubkey where
  "stake_history_id = 0x6a7d517193584d0feed9bb3431d13206be544281b57b8566cc5375ff4000000"

definition last_restart_slot_id :: Pubkey where
  "last_restart_slot_id = 0x6a7d5171906dde1cd3f947dcab4c8f4f4f51bad0f9813b800d289471fc00000"

section \<open>The cache\<close>

record SysvarCache =
  sc_clock :: "Clock option"
  sc_epoch_schedule :: "EpochSchedule option"
  sc_epoch_rewards :: "EpochRewards option"
  sc_fees :: "Fees option"
  sc_rent :: "Rent option"
  sc_slot_hashes :: "SlotHash list option"
  sc_recent_blockhashes :: "RecentBlockhashes option"
  sc_stake_history :: "StakeHistory option"
  sc_last_restart_slot :: "LastRestartSlot option"

definition sysvar_cache_default :: SysvarCache where
  "sysvar_cache_default =
     \<lparr>sc_clock = None,
      sc_epoch_schedule = None,
      sc_epoch_rewards = None,
      sc_fees = None,
      sc_rent = None,
      sc_slot_hashes = None,
      sc_recent_blockhashes = None,
      sc_stake_history = None,
      sc_last_restart_slot = None\<rparr>"

definition get_clock :: "SysvarCache \<Rightarrow> (Clock, InstructionError) result" where
  "get_clock cache = ok_or (sc_clock cache) UnsupportedSysvar"

definition set_clock :: "Clock \<Rightarrow> SysvarCache \<Rightarrow> SysvarCache" where
  "set_clock x cache = cache\<lparr>sc_clock := Some x\<rparr>"

definition get_epoch_schedule :: "SysvarCache \<Rightarrow> (EpochSchedule, InstructionError) result" where
  "get_epoch_schedule cache = ok_or (sc_epoch_schedule cache) UnsupportedSysvar"

definition set_epoch_schedule :: "EpochSchedule \<Rightarrow> SysvarCache \<Rightarrow> SysvarCache" where
  "set_epoch_schedule x cache = cache\<lparr>sc_epoch_schedule := Some x\<rparr>"

definition get_epoch_rewards :: "SysvarCache \<Rightarrow> (EpochRewards, InstructionError) result" where
  "get_epoch_rewards cache = ok_or (sc_epoch_rewards cache) UnsupportedSysvar"

definition set_epoch_rewards :: "EpochRewards \<Rightarrow> SysvarCache \<Rightarrow> SysvarCache" where
  "set_epoch_rewards x cache = cache\<lparr>sc_epoch_rewards := Some x\<rparr>"

definition get_fees :: "SysvarCache \<Rightarrow> (Fees, InstructionError) result" where
  "get_fees cache = ok_or (sc_fees cache) UnsupportedSysvar"

definition set_fees :: "Fees \<Rightarrow> SysvarCache \<Rightarrow> SysvarCache" where
  "set_fees x cache = cache\<lparr>sc_fees := Some x\<rparr>"

definition get_rent :: "SysvarCache \<Rightarrow> (Rent, InstructionError) result" where
  "get_rent cache = ok_or (sc_rent cache) UnsupportedSysvar"

definition set_rent :: "Rent \<Rightarrow> SysvarCache \<Rightarrow> SysvarCache" where
  "set_rent x cache = cache\<lparr>sc_rent := Some x\<rparr>"

definition get_slot_hashes :: "SysvarCache \<Rightarrow> (SlotHash list, InstructionError) result" where
  "get_slot_hashes cache = ok_or (sc_slot_hashes cache) UnsupportedSysvar"

definition set_slot_hashes :: "SlotHash list \<Rightarrow> SysvarCache \<Rightarrow> SysvarCache" where
  "set_slot_hashes x cache = cache\<lparr>sc_slot_hashes := Some x\<rparr>"

definition get_recent_blockhashes :: "SysvarCache \<Rightarrow> (RecentBlockhashes, InstructionError) result" where
  "get_recent_blockhashes cache = ok_or (sc_recent_blockhashes cache) UnsupportedSysvar"

definition set_recent_blockhashes :: "RecentBlockhashes \<Rightarrow> SysvarCache \<Rightarrow> SysvarCache" where
  "set_recent_blockhashes x cache = cache\<lparr>sc_recent_blockhashes := Some x\<rparr>"

definition get_stake_history :: "SysvarCache \<Rightarrow> (StakeHistory, InstructionError) result" where
  "get_stake_history cache = ok_or (sc_stake_history cache) UnsupportedSysvar"

definition set_stake_history :: "StakeHistory \<Rightarrow> SysvarCache \<Rightarrow> SysvarCache" where
  "set_stake_history x cache = cache\<lparr>sc_stake_history := Some x\<rparr>"

definition get_last_restart_slot :: "SysvarCache \<Rightarrow> (LastRestartSlot, InstructionError) result" where
  "get_last_restart_slot cache = ok_or (sc_last_restart_slot cache) UnsupportedSysvar"

definition set_last_restart_slot :: "LastRestartSlot \<Rightarrow> SysvarCache \<Rightarrow> SysvarCache" where
  "set_last_restart_slot x cache = cache\<lparr>sc_last_restart_slot := Some x\<rparr>"

definition sysvar_cache_reset :: "SysvarCache \<Rightarrow> SysvarCache" where
  "sysvar_cache_reset cache = sysvar_cache_default"

text \<open>
  \<open>fill_missing_entries\<close> passes a callback to \<open>get_account_data\<close>, which calls it on the data of
  the account if there is one. \<open>get_account_data id\<close> lists the data that the callback is called on.
\<close>

record SysvarDecoders =
  de_clock :: "u8 list \<Rightarrow> Clock option"
  de_epoch_schedule :: "u8 list \<Rightarrow> EpochSchedule option"
  de_epoch_rewards :: "u8 list \<Rightarrow> EpochRewards option"
  de_fees :: "u8 list \<Rightarrow> Fees option"
  de_rent :: "u8 list \<Rightarrow> Rent option"
  de_slot_hashes :: "u8 list \<Rightarrow> SlotHash list option"
  de_recent_blockhashes :: "u8 list \<Rightarrow> RecentBlockhashes option"
  de_stake_history :: "u8 list \<Rightarrow> StakeHistory option"
  de_last_restart_slot :: "u8 list \<Rightarrow> LastRestartSlot option"

fun fill_entry ::
  "('a \<Rightarrow> SysvarCache \<Rightarrow> SysvarCache) \<Rightarrow> (u8 list \<Rightarrow> 'a option) \<Rightarrow> u8 list list \<Rightarrow> SysvarCache \<Rightarrow> SysvarCache" where
  "fill_entry set_x de [] cache = cache"
| "fill_entry set_x de (d # ds) cache =
     fill_entry set_x de ds (case de d of Some x \<Rightarrow> set_x x cache | None \<Rightarrow> cache)"

definition fill_missing ::
  "(SysvarCache \<Rightarrow> 'a option) \<Rightarrow> ('a \<Rightarrow> SysvarCache \<Rightarrow> SysvarCache) \<Rightarrow> (u8 list \<Rightarrow> 'a option) \<Rightarrow> u8 list list \<Rightarrow>
   SysvarCache \<Rightarrow> SysvarCache" where
  "fill_missing field set_x de ds cache = (if field cache = None then fill_entry set_x de ds cache else cache)"

definition fill_missing_entries :: "SysvarDecoders \<Rightarrow> (Pubkey \<Rightarrow> u8 list list) \<Rightarrow> SysvarCache \<Rightarrow> SysvarCache" where
  "fill_missing_entries de get_account_data cache =
     (let cache = fill_missing sc_clock set_clock (de_clock de) (get_account_data clock_id) cache;
          cache = fill_missing sc_epoch_schedule set_epoch_schedule (de_epoch_schedule de) (get_account_data epoch_schedule_id) cache;
          cache = fill_missing sc_epoch_rewards set_epoch_rewards (de_epoch_rewards de) (get_account_data epoch_rewards_id) cache;
          cache = fill_missing sc_fees set_fees (de_fees de) (get_account_data fees_id) cache;
          cache = fill_missing sc_rent set_rent (de_rent de) (get_account_data rent_id) cache;
          cache = fill_missing sc_slot_hashes set_slot_hashes (de_slot_hashes de) (get_account_data slot_hashes_id) cache;
          cache = fill_missing sc_recent_blockhashes set_recent_blockhashes (de_recent_blockhashes de) (get_account_data recent_blockhashes_id) cache;
          cache = fill_missing sc_stake_history set_stake_history (de_stake_history de) (get_account_data stake_history_id) cache;
          cache = fill_missing sc_last_restart_slot set_last_restart_slot (de_last_restart_slot de) (get_account_data last_restart_slot_id) cache
      in cache)"

section \<open>Checked access\<close>

definition check_sysvar_account ::
  "Pubkey \<Rightarrow> TransactionContext \<Rightarrow> InstructionContext \<Rightarrow> IndexOfAccount \<Rightarrow> (unit, InstructionError) result" where
  "check_sysvar_account sysvar_id tc ic instruction_account_index =
     and_then (get_index_of_instruction_account_in_transaction ic instruction_account_index) (\<lambda>index_in_transaction.
     and_then (get_key_of_account_at_index tc index_in_transaction) (\<lambda>key.
     if key \<noteq> sysvar_id then Err InvalidArgument else Ok ()))"

definition checked_clock ::
  "SysvarCache \<Rightarrow> TransactionContext \<Rightarrow> InstructionContext \<Rightarrow> IndexOfAccount \<Rightarrow> (Clock, InstructionError) result" where
  "checked_clock cache tc ic instruction_account_index =
     and_then (check_sysvar_account clock_id tc ic instruction_account_index) (\<lambda>_. get_clock cache)"

definition checked_rent ::
  "SysvarCache \<Rightarrow> TransactionContext \<Rightarrow> InstructionContext \<Rightarrow> IndexOfAccount \<Rightarrow> (Rent, InstructionError) result" where
  "checked_rent cache tc ic instruction_account_index =
     and_then (check_sysvar_account rent_id tc ic instruction_account_index) (\<lambda>_. get_rent cache)"

definition checked_slot_hashes ::
  "SysvarCache \<Rightarrow> TransactionContext \<Rightarrow> InstructionContext \<Rightarrow> IndexOfAccount \<Rightarrow> (SlotHash list, InstructionError) result" where
  "checked_slot_hashes cache tc ic instruction_account_index =
     and_then (check_sysvar_account slot_hashes_id tc ic instruction_account_index) (\<lambda>_. get_slot_hashes cache)"

definition checked_recent_blockhashes ::
  "SysvarCache \<Rightarrow> TransactionContext \<Rightarrow> InstructionContext \<Rightarrow> IndexOfAccount \<Rightarrow> (RecentBlockhashes, InstructionError) result" where
  "checked_recent_blockhashes cache tc ic instruction_account_index =
     and_then (check_sysvar_account recent_blockhashes_id tc ic instruction_account_index) (\<lambda>_. get_recent_blockhashes cache)"

definition checked_stake_history ::
  "SysvarCache \<Rightarrow> TransactionContext \<Rightarrow> InstructionContext \<Rightarrow> IndexOfAccount \<Rightarrow> (StakeHistory, InstructionError) result" where
  "checked_stake_history cache tc ic instruction_account_index =
     and_then (check_sysvar_account stake_history_id tc ic instruction_account_index) (\<lambda>_. get_stake_history cache)"

definition checked_last_restart_slot ::
  "SysvarCache \<Rightarrow> TransactionContext \<Rightarrow> InstructionContext \<Rightarrow> IndexOfAccount \<Rightarrow> (LastRestartSlot, InstructionError) result" where
  "checked_last_restart_slot cache tc ic instruction_account_index =
     and_then (check_sysvar_account last_restart_slot_id tc ic instruction_account_index) (\<lambda>_. get_last_restart_slot cache)"

section \<open>What filling does\<close>

text \<open>The value of the last data that decodes.\<close>

fun last_decoded :: "(u8 list \<Rightarrow> 'a option) \<Rightarrow> u8 list list \<Rightarrow> 'a option" where
  "last_decoded de [] = None"
| "last_decoded de (d # ds) = (case last_decoded de ds of Some x \<Rightarrow> Some x | None \<Rightarrow> de d)"

lemma fill_missing_other:
  assumes "\<And>x cache. other (set_x x cache) = other cache"
  shows "other (fill_missing field set_x de ds cache) = other cache"
proof -
  have "other (fill_entry set_x de ds cache) = other cache"
    by (induction ds arbitrary: cache) (simp_all add: assms split: option.split)
  then show ?thesis by (simp add: fill_missing_def)
qed

lemma fill_missing_same:
  assumes "\<And>x cache. field (set_x x cache) = Some x"
  shows "field (fill_missing field set_x de ds cache) =
    (case field cache of Some x \<Rightarrow> Some x | None \<Rightarrow> last_decoded de ds)"
proof -
  have "field (fill_entry set_x de ds cache) = (case last_decoded de ds of Some x \<Rightarrow> Some x | None \<Rightarrow> field cache)"
    by (induction ds arbitrary: cache) (simp_all add: assms split: option.split)
  then show ?thesis by (simp add: fill_missing_def split: option.split)
qed

lemmas set_sysvar_defs = set_clock_def set_epoch_schedule_def set_epoch_rewards_def set_fees_def set_rent_def set_slot_hashes_def set_recent_blockhashes_def set_stake_history_def set_last_restart_slot_def

lemmas fill_missing_fields = fill_missing_same
  fill_missing_other [where other = sc_clock]
  fill_missing_other [where other = sc_epoch_schedule]
  fill_missing_other [where other = sc_epoch_rewards]
  fill_missing_other [where other = sc_fees]
  fill_missing_other [where other = sc_rent]
  fill_missing_other [where other = sc_slot_hashes]
  fill_missing_other [where other = sc_recent_blockhashes]
  fill_missing_other [where other = sc_stake_history]
  fill_missing_other [where other = sc_last_restart_slot]

text \<open>
  C36: filling the cache never replaces a sysvar that is there, and gives each missing one exactly the
  value that the data of its own account decodes to, or leaves it missing.
\<close>

theorem fill_missing_entries_exact:
  fixes de :: SysvarDecoders and get_account_data :: "Pubkey \<Rightarrow> u8 list list" and cache :: SysvarCache
  defines "filled \<equiv> fill_missing_entries de get_account_data cache"
  shows "sc_clock filled = (case sc_clock cache of Some x \<Rightarrow> Some x | None \<Rightarrow> last_decoded (de_clock de) (get_account_data clock_id)) \<and>
    sc_epoch_schedule filled = (case sc_epoch_schedule cache of Some x \<Rightarrow> Some x | None \<Rightarrow> last_decoded (de_epoch_schedule de) (get_account_data epoch_schedule_id)) \<and>
    sc_epoch_rewards filled = (case sc_epoch_rewards cache of Some x \<Rightarrow> Some x | None \<Rightarrow> last_decoded (de_epoch_rewards de) (get_account_data epoch_rewards_id)) \<and>
    sc_fees filled = (case sc_fees cache of Some x \<Rightarrow> Some x | None \<Rightarrow> last_decoded (de_fees de) (get_account_data fees_id)) \<and>
    sc_rent filled = (case sc_rent cache of Some x \<Rightarrow> Some x | None \<Rightarrow> last_decoded (de_rent de) (get_account_data rent_id)) \<and>
    sc_slot_hashes filled = (case sc_slot_hashes cache of Some x \<Rightarrow> Some x | None \<Rightarrow> last_decoded (de_slot_hashes de) (get_account_data slot_hashes_id)) \<and>
    sc_recent_blockhashes filled = (case sc_recent_blockhashes cache of Some x \<Rightarrow> Some x | None \<Rightarrow> last_decoded (de_recent_blockhashes de) (get_account_data recent_blockhashes_id)) \<and>
    sc_stake_history filled = (case sc_stake_history cache of Some x \<Rightarrow> Some x | None \<Rightarrow> last_decoded (de_stake_history de) (get_account_data stake_history_id)) \<and>
    sc_last_restart_slot filled = (case sc_last_restart_slot cache of Some x \<Rightarrow> Some x | None \<Rightarrow> last_decoded (de_last_restart_slot de) (get_account_data last_restart_slot_id))"
  by (simp add: filled_def fill_missing_entries_def fill_missing_fields set_sysvar_defs)

end
