(* ===== verification/Compute_Budget.thy ===== *)
theory Compute_Budget
  imports Sdk_Types
begin

text \<open>
  The compute budget of a transaction: \<open>program-runtime/src/compute_budget.rs\<close>,
  \<open>program-runtime/src/compute_budget_processor.rs\<close> and
  \<open>program-runtime/src/prioritization_fee.rs\<close>. The borsh decoder of the instructions is a parameter.
\<close>

section \<open>Errors of transactions\<close>

datatype TransactionError =
    TE_AccountInUse
  | TE_AccountLoadedTwice
  | TE_AccountNotFound
  | TE_ProgramAccountNotFound
  | TE_InsufficientFundsForFee
  | TE_InvalidAccountForFee
  | TE_AlreadyProcessed
  | TE_BlockhashNotFound
  | TE_InstructionError u8 InstructionError
  | TE_CallChainTooDeep
  | TE_MissingSignatureForFee
  | TE_InvalidAccountIndex
  | TE_SignatureFailure
  | TE_InvalidProgramForExecution
  | TE_SanitizeFailure
  | TE_ClusterMaintenance
  | TE_AccountBorrowOutstanding
  | TE_WouldExceedMaxBlockCostLimit
  | TE_UnsupportedVersion
  | TE_InvalidWritableAccount
  | TE_WouldExceedMaxAccountCostLimit
  | TE_WouldExceedAccountDataBlockLimit
  | TE_TooManyAccountLocks
  | TE_AddressLookupTableNotFound
  | TE_InvalidAddressLookupTableOwner
  | TE_InvalidAddressLookupTableData
  | TE_InvalidAddressLookupTableIndex
  | TE_InvalidRentPayingAccount
  | TE_WouldExceedMaxVoteCostLimit
  | TE_WouldExceedAccountDataTotalLimit
  | TE_DuplicateInstruction u8
  | TE_InsufficientFundsForRent u8
  | TE_MaxLoadedAccountsDataSizeExceeded
  | TE_InvalidLoadedAccountsDataSizeLimit
  | TE_ResanitizationNeeded
  | TE_ProgramExecutionTemporarilyRestricted u8
  | TE_UnbalancedTransaction

section \<open>ComputeBudget\<close>

definition HEAP_LENGTH :: nat where
  "HEAP_LENGTH = 32 * 1024"

definition DEFAULT_HEAP_COST :: u64 where
  "DEFAULT_HEAP_COST = 8"

definition MAX_HEAP_FRAME_BYTES :: u32 where
  "MAX_HEAP_FRAME_BYTES = 256 * 1024"

definition DEFAULT_INSTRUCTION_COMPUTE_UNIT_LIMIT :: u32 where
  "DEFAULT_INSTRUCTION_COMPUTE_UNIT_LIMIT = 200000"

definition MAX_COMPUTE_UNIT_LIMIT :: u32 where
  "MAX_COMPUTE_UNIT_LIMIT = 1400000"

definition MAX_LOADED_ACCOUNTS_DATA_SIZE_BYTES :: u32 where
  "MAX_LOADED_ACCOUNTS_DATA_SIZE_BYTES = 64 * 1024 * 1024"

record ComputeBudget =
  cb_compute_unit_limit :: u64
  cb_log_64_units :: u64
  cb_create_program_address_units :: u64
  cb_invoke_units :: u64
  cb_max_invoke_stack_height :: nat
  cb_max_instruction_trace_length :: nat
  cb_sha256_base_cost :: u64
  cb_sha256_byte_cost :: u64
  cb_sha256_max_slices :: u64
  cb_max_call_depth :: nat
  cb_stack_frame_size :: nat
  cb_log_pubkey_units :: u64
  cb_max_cpi_instruction_size :: nat
  cb_cpi_bytes_per_unit :: u64
  cb_sysvar_base_cost :: u64
  cb_secp256k1_recover_cost :: u64
  cb_syscall_base_cost :: u64
  cb_curve25519_edwards_validate_point_cost :: u64
  cb_curve25519_edwards_add_cost :: u64
  cb_curve25519_edwards_subtract_cost :: u64
  cb_curve25519_edwards_multiply_cost :: u64
  cb_curve25519_edwards_msm_base_cost :: u64
  cb_curve25519_edwards_msm_incremental_cost :: u64
  cb_curve25519_ristretto_validate_point_cost :: u64
  cb_curve25519_ristretto_add_cost :: u64
  cb_curve25519_ristretto_subtract_cost :: u64
  cb_curve25519_ristretto_multiply_cost :: u64
  cb_curve25519_ristretto_msm_base_cost :: u64
  cb_curve25519_ristretto_msm_incremental_cost :: u64
  cb_heap_size :: u32
  cb_heap_cost :: u64
  cb_mem_op_base_cost :: u64
  cb_alt_bn128_addition_cost :: u64
  cb_alt_bn128_multiplication_cost :: u64
  cb_alt_bn128_pairing_one_pair_cost_first :: u64
  cb_alt_bn128_pairing_one_pair_cost_other :: u64
  cb_big_modular_exponentiation_cost :: u64
  cb_poseidon_cost_coefficient_a :: u64
  cb_poseidon_cost_coefficient_c :: u64
  cb_get_remaining_compute_units_cost :: u64
  cb_alt_bn128_g1_compress :: u64
  cb_alt_bn128_g1_decompress :: u64
  cb_alt_bn128_g2_compress :: u64
  cb_alt_bn128_g2_decompress :: u64

definition compute_budget_new :: "u64 \<Rightarrow> ComputeBudget" where
  "compute_budget_new compute_unit_limit =
     \<lparr>cb_compute_unit_limit = compute_unit_limit,
      cb_log_64_units = 100,
      cb_create_program_address_units = 1500,
      cb_invoke_units = 1000,
      cb_max_invoke_stack_height = 5,
      cb_max_instruction_trace_length = 64,
      cb_sha256_base_cost = 85,
      cb_sha256_byte_cost = 1,
      cb_sha256_max_slices = 20000,
      cb_max_call_depth = 64,
      cb_stack_frame_size = 4096,
      cb_log_pubkey_units = 100,
      cb_max_cpi_instruction_size = 1280,
      cb_cpi_bytes_per_unit = 250,
      cb_sysvar_base_cost = 100,
      cb_secp256k1_recover_cost = 25000,
      cb_syscall_base_cost = 100,
      cb_curve25519_edwards_validate_point_cost = 159,
      cb_curve25519_edwards_add_cost = 473,
      cb_curve25519_edwards_subtract_cost = 475,
      cb_curve25519_edwards_multiply_cost = 2177,
      cb_curve25519_edwards_msm_base_cost = 2273,
      cb_curve25519_edwards_msm_incremental_cost = 758,
      cb_curve25519_ristretto_validate_point_cost = 169,
      cb_curve25519_ristretto_add_cost = 521,
      cb_curve25519_ristretto_subtract_cost = 519,
      cb_curve25519_ristretto_multiply_cost = 2208,
      cb_curve25519_ristretto_msm_base_cost = 2303,
      cb_curve25519_ristretto_msm_incremental_cost = 788,
      cb_heap_size = of_nat HEAP_LENGTH,
      cb_heap_cost = DEFAULT_HEAP_COST,
      cb_mem_op_base_cost = 10,
      cb_alt_bn128_addition_cost = 334,
      cb_alt_bn128_multiplication_cost = 3840,
      cb_alt_bn128_pairing_one_pair_cost_first = 36364,
      cb_alt_bn128_pairing_one_pair_cost_other = 12121,
      cb_big_modular_exponentiation_cost = 33,
      cb_poseidon_cost_coefficient_a = 61,
      cb_poseidon_cost_coefficient_c = 542,
      cb_get_remaining_compute_units_cost = 100,
      cb_alt_bn128_g1_compress = 30,
      cb_alt_bn128_g1_decompress = 398,
      cb_alt_bn128_g2_compress = 86,
      cb_alt_bn128_g2_decompress = 13610\<rparr>"

definition compute_budget_default :: ComputeBudget where
  "compute_budget_default = compute_budget_new (ucast MAX_COMPUTE_UNIT_LIMIT)"

definition checked_pow2 :: "u64 \<Rightarrow> u64 option" where
  "checked_pow2 n = checked_mul n n"

definition poseidon_cost :: "ComputeBudget \<Rightarrow> u64 \<Rightarrow> u64 option" where
  "poseidon_cost cb nr_inputs =
     (case checked_pow2 nr_inputs of
        None \<Rightarrow> None
      | Some squared_inputs \<Rightarrow>
          case checked_mul (cb_poseidon_cost_coefficient_a cb) squared_inputs of
            None \<Rightarrow> None
          | Some mul_result \<Rightarrow> checked_add mul_result (cb_poseidon_cost_coefficient_c cb))"

section \<open>Requests\<close>

text \<open>An instruction of a message.\<close>

record CompiledInstruction =
  ci_program_id_index :: u8
  ci_accounts :: "u8 list"
  ci_data :: "u8 list"

datatype ComputeBudgetInstruction =
    CBI_Unused
  | RequestHeapFrame u32
  | SetComputeUnitLimit u32
  | SetComputeUnitPrice u64
  | SetLoadedAccountsDataSizeLimit u32

definition compute_budget_id :: Pubkey where
  "compute_budget_id = 0x306466fe5211732ffecadba72c39be7bc8ce5bbc5f7126b2c439b3a40000000"

record ComputeBudgetLimits =
  cbl_updated_heap_bytes :: u32
  cbl_compute_unit_limit :: u32
  cbl_compute_unit_price :: u64
  cbl_loaded_accounts_bytes :: u32

definition compute_budget_limits_default :: ComputeBudgetLimits where
  "compute_budget_limits_default =
     \<lparr>cbl_updated_heap_bytes = of_nat HEAP_LENGTH, cbl_compute_unit_limit = MAX_COMPUTE_UNIT_LIMIT,
      cbl_compute_unit_price = 0, cbl_loaded_accounts_bytes = MAX_LOADED_ACCOUNTS_DATA_SIZE_BYTES\<rparr>"

definition sanitize_requested_heap_size :: "u32 \<Rightarrow> bool" where
  "sanitize_requested_heap_size bytes \<longleftrightarrow>
     of_nat HEAP_LENGTH \<le> bytes \<and> bytes \<le> MAX_HEAP_FRAME_BYTES \<and> bytes mod 1024 = 0"

text \<open>The variables of the loop over the instructions.\<close>

record BudgetRequests =
  br_num_non_compute_budget_instructions :: u32
  br_updated_compute_unit_limit :: "u32 option"
  br_updated_compute_unit_price :: "u64 option"
  br_requested_heap_size :: "u32 option"
  br_updated_loaded_accounts_data_size_limit :: "u32 option"

definition budget_request ::
  "nat \<Rightarrow> ComputeBudgetInstruction option \<Rightarrow> BudgetRequests \<Rightarrow> (BudgetRequests, TransactionError) result" where
  "budget_request i request br =
     (let invalid_instruction_data_error = TE_InstructionError (of_nat i) InvalidInstructionData;
          duplicate_instruction_error = TE_DuplicateInstruction (of_nat i)
      in case request of
           Some (RequestHeapFrame bytes) \<Rightarrow>
             if br_requested_heap_size br \<noteq> None then Err duplicate_instruction_error
             else if sanitize_requested_heap_size bytes then Ok (br\<lparr>br_requested_heap_size := Some bytes\<rparr>)
             else Err invalid_instruction_data_error
         | Some (SetComputeUnitLimit compute_unit_limit) \<Rightarrow>
             if br_updated_compute_unit_limit br \<noteq> None then Err duplicate_instruction_error
             else Ok (br\<lparr>br_updated_compute_unit_limit := Some compute_unit_limit\<rparr>)
         | Some (SetComputeUnitPrice micro_lamports) \<Rightarrow>
             if br_updated_compute_unit_price br \<noteq> None then Err duplicate_instruction_error
             else Ok (br\<lparr>br_updated_compute_unit_price := Some micro_lamports\<rparr>)
         | Some (SetLoadedAccountsDataSizeLimit bytes) \<Rightarrow>
             if br_updated_loaded_accounts_data_size_limit br \<noteq> None then Err duplicate_instruction_error
             else Ok (br\<lparr>br_updated_loaded_accounts_data_size_limit := Some bytes\<rparr>)
         | _ \<Rightarrow> Err invalid_instruction_data_error)"

fun budget_loop ::
  "(u8 list \<Rightarrow> ComputeBudgetInstruction option) \<Rightarrow> nat \<Rightarrow> (Pubkey \<times> CompiledInstruction) list \<Rightarrow> BudgetRequests \<Rightarrow>
   (BudgetRequests, TransactionError) result" where
  "budget_loop try_from_slice_unchecked i [] br = Ok br"
| "budget_loop try_from_slice_unchecked i ((program_id, instruction) # rest) br =
     (if program_id = compute_budget_id
      then and_then (budget_request i (try_from_slice_unchecked (ci_data instruction)) br)
             (budget_loop try_from_slice_unchecked (Suc i) rest)
      else budget_loop try_from_slice_unchecked (Suc i) rest
             (br\<lparr>br_num_non_compute_budget_instructions :=
                   saturating_add (br_num_non_compute_budget_instructions br) 1\<rparr>))"

definition unwrap_or :: "'a option \<Rightarrow> 'a \<Rightarrow> 'a" where
  "unwrap_or x d = (case x of Some y \<Rightarrow> y | None \<Rightarrow> d)"

definition process_compute_budget_instructions ::
  "(u8 list \<Rightarrow> ComputeBudgetInstruction option) \<Rightarrow> (Pubkey \<times> CompiledInstruction) list \<Rightarrow>
   (ComputeBudgetLimits, TransactionError) result" where
  "process_compute_budget_instructions try_from_slice_unchecked instructions =
     and_then
       (budget_loop try_from_slice_unchecked 0 instructions
          \<lparr>br_num_non_compute_budget_instructions = 0, br_updated_compute_unit_limit = None,
           br_updated_compute_unit_price = None, br_requested_heap_size = None,
           br_updated_loaded_accounts_data_size_limit = None\<rparr>)
       (\<lambda>br. Ok
          \<lparr>cbl_updated_heap_bytes =
             min (unwrap_or (br_requested_heap_size br) (of_nat HEAP_LENGTH)) MAX_HEAP_FRAME_BYTES,
           cbl_compute_unit_limit =
             min (unwrap_or (br_updated_compute_unit_limit br)
                   (saturating_mul (br_num_non_compute_budget_instructions br) DEFAULT_INSTRUCTION_COMPUTE_UNIT_LIMIT))
               MAX_COMPUTE_UNIT_LIMIT,
           cbl_compute_unit_price = unwrap_or (br_updated_compute_unit_price br) 0,
           cbl_loaded_accounts_bytes =
             min (unwrap_or (br_updated_loaded_accounts_data_size_limit br) MAX_LOADED_ACCOUNTS_DATA_SIZE_BYTES)
               MAX_LOADED_ACCOUNTS_DATA_SIZE_BYTES\<rparr>)"

definition compute_budget_try_from_instructions ::
  "(u8 list \<Rightarrow> ComputeBudgetInstruction option) \<Rightarrow> (Pubkey \<times> CompiledInstruction) list \<Rightarrow>
   (ComputeBudget, TransactionError) result" where
  "compute_budget_try_from_instructions try_from_slice_unchecked instructions =
     and_then (process_compute_budget_instructions try_from_slice_unchecked instructions) (\<lambda>limits.
       Ok (compute_budget_default
         \<lparr>cb_compute_unit_limit := ucast (cbl_compute_unit_limit limits),
          cb_heap_size := cbl_updated_heap_bytes limits\<rparr>))"

section \<open>Prioritization fee\<close>

definition MICRO_LAMPORTS_PER_LAMPORT :: u64 where
  "MICRO_LAMPORTS_PER_LAMPORT = 1000000"

record PrioritizationFeeDetails =
  pf_fee :: u64
  pf_compute_unit_price :: u64

definition prioritization_fee_new :: "u64 \<Rightarrow> u64 \<Rightarrow> PrioritizationFeeDetails" where
  "prioritization_fee_new compute_unit_price compute_unit_limit =
     (let micro_lamport_fee = saturating_mul (ucast compute_unit_price :: u128) (ucast compute_unit_limit);
          fee =
            (case checked_div (saturating_add micro_lamport_fee (ucast (saturating_sub MICRO_LAMPORTS_PER_LAMPORT 1)))
                    (ucast MICRO_LAMPORTS_PER_LAMPORT) of
               Some fee \<Rightarrow> if unat fee < 2 ^ 64 then ucast fee else - 1
             | None \<Rightarrow> - 1)
      in \<lparr>pf_fee = fee, pf_compute_unit_price = compute_unit_price\<rparr>)"

record FeeBudgetLimits =
  fbl_loaded_accounts_data_size_limit :: nat
  fbl_heap_cost :: u64
  fbl_compute_unit_limit :: u64
  fbl_prioritization_fee :: u64

definition fee_budget_limits_from :: "ComputeBudgetLimits \<Rightarrow> FeeBudgetLimits" where
  "fee_budget_limits_from val =
     \<lparr>fbl_loaded_accounts_data_size_limit = unat (cbl_loaded_accounts_bytes val),
      fbl_heap_cost = DEFAULT_HEAP_COST,
      fbl_compute_unit_limit = ucast (cbl_compute_unit_limit val),
      fbl_prioritization_fee =
        pf_fee (prioritization_fee_new (cbl_compute_unit_price val) (ucast (cbl_compute_unit_limit val)))\<rparr>"

section \<open>What the requests mean\<close>

text \<open>The requests of the compute budget instructions of a message, in order, and those of each kind.\<close>

definition requests ::
  "(u8 list \<Rightarrow> ComputeBudgetInstruction option) \<Rightarrow> (Pubkey \<times> CompiledInstruction) list \<Rightarrow> ComputeBudgetInstruction option list" where
  "requests try_from_slice_unchecked instructions =
     map (\<lambda>(_, instruction). try_from_slice_unchecked (ci_data instruction))
       (filter (\<lambda>(program_id, _). program_id = compute_budget_id) instructions)"

definition heap_requests :: "ComputeBudgetInstruction option list \<Rightarrow> u32 list" where
  "heap_requests rs = concat (map (\<lambda>r. case r of Some (RequestHeapFrame b) \<Rightarrow> [b] | _ \<Rightarrow> []) rs)"

definition limit_requests :: "ComputeBudgetInstruction option list \<Rightarrow> u32 list" where
  "limit_requests rs = concat (map (\<lambda>r. case r of Some (SetComputeUnitLimit b) \<Rightarrow> [b] | _ \<Rightarrow> []) rs)"

definition price_requests :: "ComputeBudgetInstruction option list \<Rightarrow> u64 list" where
  "price_requests rs = concat (map (\<lambda>r. case r of Some (SetComputeUnitPrice b) \<Rightarrow> [b] | _ \<Rightarrow> []) rs)"

definition loaded_requests :: "ComputeBudgetInstruction option list \<Rightarrow> u32 list" where
  "loaded_requests rs = concat (map (\<lambda>r. case r of Some (SetLoadedAccountsDataSizeLimit b) \<Rightarrow> [b] | _ \<Rightarrow> []) rs)"

fun valid_request :: "ComputeBudgetInstruction option \<Rightarrow> bool" where
  "valid_request None = False"
| "valid_request (Some CBI_Unused) = False"
| "valid_request (Some (RequestHeapFrame b)) = sanitize_requested_heap_size b"
| "valid_request (Some _) = True"

definition first_of :: "'a option \<Rightarrow> 'a list \<Rightarrow> 'a option" where
  "first_of x xs = (case x of Some y \<Rightarrow> Some y | None \<Rightarrow> (case xs of [] \<Rightarrow> None | y # _ \<Rightarrow> Some y))"

definition room :: "'a option \<Rightarrow> 'b list \<Rightarrow> bool" where
  "room x xs \<longleftrightarrow> length xs \<le> (if x = None then 1 else 0)"

definition fresh :: "BudgetRequests \<Rightarrow> ComputeBudgetInstruction option list \<Rightarrow> bool" where
  "fresh br rs \<longleftrightarrow>
     room (br_requested_heap_size br) (heap_requests rs) \<and> room (br_updated_compute_unit_limit br) (limit_requests rs) \<and>
     room (br_updated_compute_unit_price br) (price_requests rs) \<and>
     room (br_updated_loaded_accounts_data_size_limit br) (loaded_requests rs)"

definition merge_requests :: "nat \<Rightarrow> ComputeBudgetInstruction option list \<Rightarrow> BudgetRequests \<Rightarrow> BudgetRequests" where
  "merge_requests n rs br =
     \<lparr>br_num_non_compute_budget_instructions =
        of_nat (min (unat (br_num_non_compute_budget_instructions br) + n) (2 ^ 32 - 1)),
      br_updated_compute_unit_limit = first_of (br_updated_compute_unit_limit br) (limit_requests rs),
      br_updated_compute_unit_price = first_of (br_updated_compute_unit_price br) (price_requests rs),
      br_requested_heap_size = first_of (br_requested_heap_size br) (heap_requests rs),
      br_updated_loaded_accounts_data_size_limit =
        first_of (br_updated_loaded_accounts_data_size_limit br) (loaded_requests rs)\<rparr>"

lemmas requests_defs = heap_requests_def limit_requests_def price_requests_def loaded_requests_def

lemma first_of_simps [simp]: "first_of x [] = x" "first_of (Some y) xs = Some y" "first_of None (y # ys) = Some y"
  by (simp_all add: first_of_def split: option.split)

lemma first_of_assoc [simp]: "first_of (first_of x [y]) ys = first_of x (y # ys)"
  by (simp add: first_of_def split: option.split)

lemma room_simps [simp]: "room x []" "room x (y # ys) \<longleftrightarrow> x = None \<and> ys = []"
  by (auto simp: room_def)

lemma saturated_number: "of_nat (min (unat (n :: u32)) (2 ^ 32 - 1)) = n"
proof -
  have "unat n \<le> 2 ^ 32 - 1" using unat_lt_exp [of n] by simp
  then show ?thesis by (simp add: min_absorb1)
qed

lemma merge_nothing: "merge_requests 0 [] br = br"
  using saturated_number [of "br_num_non_compute_budget_instructions br"]
  by (simp add: merge_requests_def requests_defs)

lemma budget_request_Ok_iff:
  "budget_request i r br = Ok br' \<longleftrightarrow> valid_request r \<and> fresh br [r] \<and> br' = merge_requests 0 [r] br"
proof (cases r)
  case (Some x)
  then show ?thesis
    using saturated_number [of "br_num_non_compute_budget_instructions br"]
    by (cases x) (auto simp: budget_request_def fresh_def merge_requests_def requests_defs Let_def)
qed (simp add: budget_request_def)

lemma fresh_Cons: "fresh br (r # rs) \<longleftrightarrow> fresh br [r] \<and> fresh (merge_requests n [r] br) rs"
proof (cases r)
  case (Some x)
  then show ?thesis
    by (cases x) (auto simp: fresh_def merge_requests_def requests_defs first_of_def room_def split: option.split)
qed (simp add: fresh_def merge_requests_def requests_defs)

lemma merge_Cons: "merge_requests n (r # rs) br = merge_requests n rs (merge_requests 0 [r] br)"
proof (cases r)
  case (Some x)
  then show ?thesis
    using saturated_number [of "br_num_non_compute_budget_instructions br"]
    by (cases x) (auto simp: merge_requests_def requests_defs)
next
  case None
  then show ?thesis
    using saturated_number [of "br_num_non_compute_budget_instructions br"]
    by (simp add: merge_requests_def requests_defs)
qed

lemma budget_loop_Ok_iff:
  "budget_loop parse i instructions br = Ok br' \<longleftrightarrow>
     (\<forall>r \<in> set (requests parse instructions). valid_request r) \<and> fresh br (requests parse instructions) \<and>
     br' = merge_requests (length (filter (\<lambda>(p, _). p \<noteq> compute_budget_id) instructions)) (requests parse instructions) br"
proof (induction parse i instructions br rule: budget_loop.induct)
  case (1 parse i br)
  then show ?case by (auto simp: requests_def merge_nothing fresh_def requests_defs)
next
  case (2 parse i program_id instruction rest br)
  show ?case
  proof (cases "program_id = compute_budget_id")
    case True
    let ?r = "parse (ci_data instruction)"
    have reqs: "requests parse ((program_id, instruction) # rest) = ?r # requests parse rest"
      using True by (simp add: requests_def)
    have loop: "budget_loop parse i ((program_id, instruction) # rest) br = Ok br' \<longleftrightarrow>
        (\<exists>br1. budget_request i ?r br = Ok br1 \<and> budget_loop parse (Suc i) rest br1 = Ok br')"
      using True by (simp add: and_then_Ok_iff)
    have n: "length (filter (\<lambda>(p, _). p \<noteq> compute_budget_id) ((program_id, instruction) # rest)) =
        length (filter (\<lambda>(p, _). p \<noteq> compute_budget_id) rest)" using True by simp
    show ?thesis
      unfolding loop reqs n budget_request_Ok_iff "2.IH"(1) [OF True] fresh_Cons [of br ?r "requests parse rest" 0]
        merge_Cons [of _ ?r "requests parse rest" br]
      by auto
  next
    case False
    let ?br = "br\<lparr>br_num_non_compute_budget_instructions := saturating_add (br_num_non_compute_budget_instructions br) 1\<rparr>"
    have n: "unat (saturating_add (br_num_non_compute_budget_instructions br) 1) =
        min (unat (br_num_non_compute_budget_instructions br) + 1) (2 ^ 32 - 1)"
      by (simp add: unat_saturating_add)
    have "merge_requests n rs ?br = merge_requests (Suc n) rs br" and "fresh ?br rs = fresh br rs" for n rs
      unfolding merge_requests_def by (simp_all add: n fresh_def min_def)
    then show ?thesis using "2.IH"(2) [OF False] False by (simp add: requests_def)
  qed
qed

definition one_or :: "'a \<Rightarrow> 'a list \<Rightarrow> 'a" where
  "one_or d xs = (case xs of [] \<Rightarrow> d | x # _ \<Rightarrow> x)"

lemma unwrap_first_of [simp]: "unwrap_or (first_of None xs) d = one_or d xs"
  by (cases xs) (simp_all add: unwrap_or_def one_or_def)

lemma unat_min: "unat (min x y) = min (unat x) (unat (y :: 'a::len word))"
  by (simp add: min_def word_le_nat_alt)

lemma unat_one_or: "unat (one_or d xs) = one_or (unat d) (map unat xs)"
  by (cases xs) (simp_all add: one_or_def)

lemma heap_request_bound:
  assumes "\<forall>r \<in> set rs. valid_request r"
  shows "min (one_or 32768 (map unat (heap_requests rs))) 262144 = one_or 32768 (map unat (heap_requests rs))"
proof (cases "heap_requests rs")
  case (Cons b bs)
  then have "b \<in> set (heap_requests rs)" by simp
  then obtain r where "r \<in> set rs" "r = Some (RequestHeapFrame b)"
    by (auto simp: heap_requests_def split: option.splits ComputeBudgetInstruction.splits)
  then have "sanitize_requested_heap_size b" using assms by fastforce
  then have "unat b \<le> 262144"
    by (simp add: sanitize_requested_heap_size_def MAX_HEAP_FRAME_BYTES_def word_le_nat_alt)
  then show ?thesis by (simp add: Cons one_or_def)
qed (simp add: one_or_def)

lemma default_units:
  "min (unat (saturating_mul (of_nat (min n (2 ^ 32 - 1)) :: u32) 200000)) 1400000 = min (200000 * n) 1400000"
proof -
  have "unat (of_nat (min n (2 ^ 32 - 1)) :: u32) = min n (2 ^ 32 - 1)"
    by (intro unat_of_nat_lt) simp
  then show ?thesis by (simp add: unat_saturating_mul min_def)
qed

text \<open>
  C37: the compute budget instructions of a transaction mean what they say. They are accepted exactly if
  each of them decodes to a request in use, a requested heap is of an admitted size, and there is at
  most one request of a kind; the limits are then the requested ones, cut at their maxima, with the
  defaults where nothing was requested: 200000 units for every other instruction and no price.
\<close>

theorem process_compute_budget_instructions_iff:
  fixes parse instructions
  defines "rs \<equiv> requests parse instructions"
    and "n \<equiv> length (filter (\<lambda>(p, _). p \<noteq> compute_budget_id) instructions)"
  shows "process_compute_budget_instructions parse instructions = Ok limits \<longleftrightarrow>
    (\<forall>r \<in> set rs. valid_request r) \<and>
    length (heap_requests rs) \<le> 1 \<and> length (limit_requests rs) \<le> 1 \<and>
    length (price_requests rs) \<le> 1 \<and> length (loaded_requests rs) \<le> 1 \<and>
    unat (cbl_updated_heap_bytes limits) = one_or 32768 (map unat (heap_requests rs)) \<and>
    unat (cbl_compute_unit_limit limits) = min (one_or (200000 * n) (map unat (limit_requests rs))) 1400000 \<and>
    cbl_compute_unit_price limits = one_or 0 (price_requests rs) \<and>
    unat (cbl_loaded_accounts_bytes limits) = min (one_or 67108864 (map unat (loaded_requests rs))) 67108864"
proof -
  define br where "br = \<lparr>br_num_non_compute_budget_instructions = 0, br_updated_compute_unit_limit = None,
           br_updated_compute_unit_price = None, br_requested_heap_size = None,
           br_updated_loaded_accounts_data_size_limit = None\<rparr>"
  let ?m = "merge_requests n rs br"
  have fresh: "fresh br rs \<longleftrightarrow> length (heap_requests rs) \<le> 1 \<and> length (limit_requests rs) \<le> 1 \<and>
      length (price_requests rs) \<le> 1 \<and> length (loaded_requests rs) \<le> 1"
    by (simp add: fresh_def br_def room_def)
  have merged: "br_num_non_compute_budget_instructions ?m = of_nat (min n (2 ^ 32 - 1))"
    "br_updated_compute_unit_limit ?m = first_of None (limit_requests rs)"
    "br_updated_compute_unit_price ?m = first_of None (price_requests rs)"
    "br_requested_heap_size ?m = first_of None (heap_requests rs)"
    "br_updated_loaded_accounts_data_size_limit ?m = first_of None (loaded_requests rs)"
    by (simp_all add: merge_requests_def br_def)
  have units: "min (unat (one_or (saturating_mul (of_nat (min n (2 ^ 32 - 1)) :: u32) 200000) xs)) 1400000 =
      min (one_or (200000 * n) (map unat xs)) 1400000" for xs
    using default_units [of n] by (cases xs) (simp_all add: one_or_def)
  note limit_defs = HEAP_LENGTH_def MAX_HEAP_FRAME_BYTES_def MAX_COMPUTE_UNIT_LIMIT_def
    DEFAULT_INSTRUCTION_COMPUTE_UNIT_LIMIT_def MAX_LOADED_ACCOUNTS_DATA_SIZE_BYTES_def
  have limits: "limits = \<lparr>cbl_updated_heap_bytes = a, cbl_compute_unit_limit = b, cbl_compute_unit_price = c,
        cbl_loaded_accounts_bytes = d\<rparr> \<longleftrightarrow>
      unat (cbl_updated_heap_bytes limits) = unat a \<and> unat (cbl_compute_unit_limit limits) = unat b \<and>
      cbl_compute_unit_price limits = c \<and> unat (cbl_loaded_accounts_bytes limits) = unat d" for a b c d
    by (cases limits) (auto simp: word_unat_eq_iff)
  have "process_compute_budget_instructions parse instructions = Ok limits \<longleftrightarrow>
      (\<forall>r \<in> set rs. valid_request r) \<and> fresh br rs \<and>
      unat (cbl_updated_heap_bytes limits) = min (one_or 32768 (map unat (heap_requests rs))) 262144 \<and>
      unat (cbl_compute_unit_limit limits) = min (one_or (200000 * n) (map unat (limit_requests rs))) 1400000 \<and>
      cbl_compute_unit_price limits = one_or 0 (price_requests rs) \<and>
      unat (cbl_loaded_accounts_bytes limits) = min (one_or 67108864 (map unat (loaded_requests rs))) 67108864"
    unfolding process_compute_budget_instructions_def and_then_Ok_iff
    using budget_loop_Ok_iff [of parse 0 instructions br] units [of "limit_requests rs"]
    by (auto simp: br_def [symmetric] rs_def [symmetric] n_def [symmetric] eq_commute [of _ limits] limits
        merged limit_defs unat_min unat_one_or)
  then show ?thesis using heap_request_bound [of rs] fresh by auto
qed

theorem process_compute_budget_instructions_iff_witness:
  "process_compute_budget_instructions (\<lambda>d. if d = [2] then Some (SetComputeUnitLimit 5000) else None)
     [(compute_budget_id, \<lparr>ci_program_id_index = 1, ci_accounts = [], ci_data = [2]\<rparr>),
      (0, \<lparr>ci_program_id_index = 2, ci_accounts = [0], ci_data = []\<rparr>)] =
   Ok \<lparr>cbl_updated_heap_bytes = 32768, cbl_compute_unit_limit = 5000, cbl_compute_unit_price = 0,
       cbl_loaded_accounts_bytes = 67108864\<rparr>"
  unfolding process_compute_budget_instructions_iff
  by (simp add: requests_def requests_defs one_or_def compute_budget_id_def)

section \<open>The fee\<close>

lemma unat_u128_product: "unat (saturating_mul (ucast (p :: u64) :: u128) (ucast (l :: u64))) = unat p * unat l"
proof -
  have "unat p * unat l < 2 ^ 64 * 2 ^ 64"
    using unat_lt_exp [of p] unat_lt_exp [of l] by (intro mult_strict_mono) simp_all
  then show ?thesis by (simp add: unat_saturating_mul unat_ucast_up)
qed

text \<open>
  C38: the prioritization fee is the product of price and limit in micro-lamports, rounded up to
  lamports; the 128-bit computation never saturates, and a fee that does not fit a \<open>u64\<close> becomes the
  largest one.
\<close>

theorem prioritization_fee_exact:
  "unat (pf_fee (prioritization_fee_new p l)) = min ((unat p * unat l + 999999) div 1000000) (2 ^ 64 - 1)"
proof -
  have "unat p \<le> 2 ^ 64 - 1" and "unat l \<le> 2 ^ 64 - 1"
    using unat_lt_exp [of p] unat_lt_exp [of l] by simp_all
  then have "unat p * unat l \<le> (2 ^ 64 - 1) * (2 ^ 64 - 1)" by (rule mult_le_mono)
  then have "unat (saturating_add (saturating_mul (ucast p :: u128) (ucast l)) 999999) = unat p * unat l + 999999"
    by (simp add: unat_saturating_add unat_u128_product)
  then have fee: "unat (saturating_add (saturating_mul (ucast p :: u128) (ucast l)) 999999 div 1000000) =
      (unat p * unat l + 999999) div 1000000"
    by (simp add: unat_div)
  have fee_new: "pf_fee (prioritization_fee_new p l) =
      (let fee = saturating_add (saturating_mul (ucast p :: u128) (ucast l)) 999999 div 1000000
       in if unat fee < 2 ^ 64 then ucast fee else - 1)"
    by (simp add: prioritization_fee_new_def MICRO_LAMPORTS_PER_LAMPORT_def Let_def checked_div_def saturating_sub_def)
  show ?thesis
    unfolding fee_new Let_def using fee
    by (simp add: unat_ucast_mod unat_max_word min_def)
qed

end
