(* ===== verification/Invoke_Context.thy ===== *)
theory Invoke_Context
  imports Sysvar_Cache Compute_Budget
begin

text \<open>
  \<open>program-runtime/src/invoke_context.rs\<close>: the runtime of a transaction. It keeps the stack of
  invocations, prepares cross-program invocations, runs the entrypoints of builtin programs and meters
  their compute units.

  The programs loaded for the batch are a parameter: the type of their entrypoints is that of functions
  on the context itself. The virtual machine, which for builtins only calls the entrypoint and keeps its
  result, is that call. Logging, timings and usage counters are left out.
\<close>

section \<open>The context\<close>

record BpfAllocator =
  al_len :: u64
  al_pos :: u64

definition bpf_allocator_new :: "u64 \<Rightarrow> BpfAllocator" where
  "bpf_allocator_new n = \<lparr>al_len = n, al_pos = 0\<rparr>"

text \<open>
  \<open>alloc\<close> of a layout; \<open>align_offset\<close> of a byte pointer is the distance to the next multiple of the
  alignment. The start of the heap, a constant of the virtual machine, is a parameter.
\<close>

definition align_offset :: "u64 \<Rightarrow> nat \<Rightarrow> u64" where
  "align_offset pos align = of_nat ((align - unat pos mod align) mod align)"

definition bpf_alloc :: "u64 \<Rightarrow> nat \<Rightarrow> nat \<Rightarrow> (BpfAllocator, unit, u64) exec" where
  "bpf_alloc mm_heap_start layout_size layout_align al =
     (let bytes_to_align = align_offset (al_pos al) layout_align
      in if saturating_add (saturating_add (al_pos al) bytes_to_align) (of_nat layout_size) \<le> al_len al
         then let pos = saturating_add (al_pos al) bytes_to_align
              in (Ok (saturating_add mm_heap_start pos), al\<lparr>al_pos := saturating_add pos (of_nat layout_size)\<rparr>)
         else (Err (), al))"

record SerializedAccountMetadata =
  sam_original_data_len :: nat
  sam_vm_data_addr :: u64
  sam_vm_key_addr :: u64
  sam_vm_lamports_addr :: u64
  sam_vm_owner_addr :: u64

record SyscallContext =
  sy_allocator :: BpfAllocator
  sy_accounts_metadata :: "SerializedAccountMetadata list"
  sy_trace_log :: "u64 list list"

record InvokeContext =
  ivc_transaction_context :: TransactionContext
  ivc_sysvar_cache :: SysvarCache
  ivc_compute_budget :: ComputeBudget
  ivc_current_compute_budget :: ComputeBudget
  ivc_compute_meter :: u64
  ivc_blockhash :: Hash
  ivc_lamports_per_signature :: u64
  ivc_syscall_context :: "SyscallContext option list"
  ivc_traces :: "u64 list list list"

definition invoke_context_new ::
  "TransactionContext \<Rightarrow> SysvarCache \<Rightarrow> ComputeBudget \<Rightarrow> Hash \<Rightarrow> u64 \<Rightarrow> InvokeContext" where
  "invoke_context_new transaction_context sysvar_cache compute_budget blockhash lamports_per_signature =
     \<lparr>ivc_transaction_context = transaction_context, ivc_sysvar_cache = sysvar_cache,
      ivc_compute_budget = compute_budget, ivc_current_compute_budget = compute_budget,
      ivc_compute_meter = cb_compute_unit_limit compute_budget, ivc_blockhash = blockhash,
      ivc_lamports_per_signature = lamports_per_signature, ivc_syscall_context = [], ivc_traces = []\<rparr>"

text \<open>An operation of the transaction context.\<close>

definition on_transaction :: "(TransactionContext, 'e, 'a) exec \<Rightarrow> (InvokeContext, 'e, 'a) exec" where
  "on_transaction m ivc =
     (case m (ivc_transaction_context ivc) of (r, tc) \<Rightarrow> (r, ivc\<lparr>ivc_transaction_context := tc\<rparr>))"

section \<open>Compute units\<close>

definition consume :: "u64 \<Rightarrow> InvokeContext \<Rightarrow> InvokeContext" where
  "consume amount ivc = ivc\<lparr>ivc_compute_meter := saturating_sub (ivc_compute_meter ivc) amount\<rparr>"

definition get_remaining :: "InvokeContext \<Rightarrow> u64" where
  "get_remaining ivc = ivc_compute_meter ivc"

definition consume_checked :: "u64 \<Rightarrow> (InvokeContext, InstructionError, unit) exec" where
  "consume_checked amount ivc =
     (let exceeded = ivc_compute_meter ivc < amount;
          ivc = ivc\<lparr>ivc_compute_meter := saturating_sub (ivc_compute_meter ivc) amount\<rparr>
      in if exceeded then (Err ComputationalBudgetExceeded, ivc) else (Ok (), ivc))"

section \<open>The stack of invocations\<close>

text \<open>
  Whether the program of an instruction is the given one: the borrow of the program account ends with
  the test, and a failing borrow makes it false.
\<close>

definition runs_program :: "TransactionContext \<Rightarrow> Pubkey \<Rightarrow> (InstructionContext, InstructionError) result \<Rightarrow> (bool, InstructionError) result" where
  "runs_program tc program_id r =
     (case r of
        Ok ic \<Rightarrow>
          (case try_borrow_last_program_account ic tc of
             (Ok program_account, tc') \<Rightarrow> and_then (get_key program_account tc') (\<lambda>key. Ok (key = program_id))
           | (Err _, _) \<Rightarrow> Ok False
           | (Panic, _) \<Rightarrow> Panic)
      | Err _ \<Rightarrow> Ok False
      | Panic \<Rightarrow> Panic)"

fun any_level :: "TransactionContext \<Rightarrow> Pubkey \<Rightarrow> nat list \<Rightarrow> (bool, InstructionError) result" where
  "any_level tc program_id [] = Ok False"
| "any_level tc program_id (level # levels) =
     and_then (runs_program tc program_id (get_instruction_context_at_nesting_level tc level)) (\<lambda>found.
       if found then Ok True else any_level tc program_id levels)"

definition check_reentrancy :: "TransactionContext \<Rightarrow> Pubkey \<Rightarrow> (unit, InstructionError) result" where
  "check_reentrancy tc program_id =
     and_then (any_level tc program_id [0..<get_instruction_context_stack_height tc]) (\<lambda>contains.
     and_then (runs_program tc program_id (get_current_instruction_context tc)) (\<lambda>is_last.
     if contains \<and> \<not> is_last then Err ReentrancyNotAllowed else Ok ()))"

definition ivc_push :: "(InvokeContext, InstructionError, unit) exec" where
  "ivc_push ivc =
     (let tc = ivc_transaction_context ivc
      in bind_exec (lift (get_instruction_context_at_index_in_trace tc (get_instruction_trace_length tc))) (\<lambda>instruction_context.
         bind_exec (lift (map_err (\<lambda>_. UnsupportedProgramId) (get_last_program_key instruction_context tc))) (\<lambda>program_id.
         bind_exec
           (if get_instruction_context_stack_height tc = 0
            then modify (\<lambda>ivc. ivc\<lparr>ivc_current_compute_budget := ivc_compute_budget ivc\<rparr>)
            else lift (check_reentrancy tc program_id)) (\<lambda>_.
         bind_exec (modify (\<lambda>ivc. ivc\<lparr>ivc_syscall_context := ivc_syscall_context ivc @ [None]\<rparr>)) (\<lambda>_.
         on_transaction tc_push)))) ivc)"

definition ivc_pop :: "(InvokeContext, InstructionError, unit) exec" where
  "ivc_pop ivc =
     (let syscall_context = ivc_syscall_context ivc;
          ivc = ivc\<lparr>ivc_syscall_context := butlast syscall_context\<rparr>;
          ivc = (case next_back syscall_context of
                   Some (Some context) \<Rightarrow> ivc\<lparr>ivc_traces := ivc_traces ivc @ [sy_trace_log context]\<rparr>
                 | _ \<Rightarrow> ivc)
      in on_transaction tc_pop ivc)"

definition ivc_get_stack_height :: "InvokeContext \<Rightarrow> nat" where
  "ivc_get_stack_height ivc = get_instruction_context_stack_height (ivc_transaction_context ivc)"

section \<open>Cross-program invocations\<close>

record AccountMeta =
  am_pubkey :: Pubkey
  am_is_signer :: bool
  am_is_writable :: bool

record StableInstruction =
  si_accounts :: "AccountMeta list"
  si_data :: "u8 list"
  si_program_id :: Pubkey

text \<open>
  The accounts without duplicates, and for each account of the instruction its position among them.
\<close>

fun deduplicate_loop ::
  "TransactionContext \<Rightarrow> InstructionContext \<Rightarrow> nat \<Rightarrow> AccountMeta list \<Rightarrow> InstructionAccount list \<Rightarrow> nat list \<Rightarrow>
   (InstructionAccount list \<times> nat list, InstructionError) result" where
  "deduplicate_loop tc ic i [] dedup dups = Ok (dedup, dups)"
| "deduplicate_loop tc ic i (account_meta # metas) dedup dups =
     and_then (ok_or (find_index_of_account tc (am_pubkey account_meta)) MissingAccount) (\<lambda>index_in_transaction.
       case position (\<lambda>ia. ia_index_in_transaction ia = index_in_transaction) dedup of
         Some duplicate_index \<Rightarrow>
           and_then (ok_or (vec_get dedup duplicate_index) NotEnoughAccountKeys) (\<lambda>ia.
             deduplicate_loop tc ic (Suc i) metas
               (dedup[duplicate_index :=
                  ia\<lparr>ia_is_signer := ia_is_signer ia \<or> am_is_signer account_meta,
                     ia_is_writable := ia_is_writable ia \<or> am_is_writable account_meta\<rparr>])
               (dups @ [duplicate_index]))
       | None \<Rightarrow>
           and_then (ok_or (find_index_of_instruction_account ic tc (am_pubkey account_meta)) MissingAccount) (\<lambda>index_in_caller.
             deduplicate_loop tc ic (Suc i) metas
               (dedup @ [\<lparr>ia_index_in_transaction = index_in_transaction, ia_index_in_caller = index_in_caller,
                          ia_index_in_callee = of_nat i, ia_is_signer = am_is_signer account_meta,
                          ia_is_writable = am_is_writable account_meta\<rparr>])
               (dups @ [length dedup])))"

text \<open>A borrow that ends with the loop body leaves the accounts as they were; only its outcome counts.\<close>

fun check_privileges ::
  "TransactionContext \<Rightarrow> InstructionContext \<Rightarrow> Pubkey list \<Rightarrow> InstructionAccount list \<Rightarrow> (unit, InstructionError) result" where
  "check_privileges tc ic signers [] = Ok ()"
| "check_privileges tc ic signers (ia # ias) =
     and_then (fst (try_borrow_instruction_account ic (ia_index_in_caller ia) tc)) (\<lambda>borrowed_account.
       if ia_is_writable ia \<and> \<not> is_writable borrowed_account then Err PrivilegeEscalation
       else
         and_then
           (if ia_is_signer ia \<and> \<not> is_signer borrowed_account
            then and_then (get_key borrowed_account tc) (\<lambda>key. Ok (key \<notin> set signers))
            else Ok False)
           (\<lambda>escalated. if escalated then Err PrivilegeEscalation else check_privileges tc ic signers ias))"

fun collect_accounts :: "InstructionAccount list \<Rightarrow> nat list \<Rightarrow> (InstructionAccount list, InstructionError) result" where
  "collect_accounts dedup [] = Ok []"
| "collect_accounts dedup (d # ds) =
     and_then (ok_or (vec_get dedup d) NotEnoughAccountKeys) (\<lambda>ia.
     and_then (collect_accounts dedup ds) (\<lambda>ias. Ok (ia # ias)))"

definition prepare_instruction ::
  "TransactionContext \<Rightarrow> StableInstruction \<Rightarrow> Pubkey list \<Rightarrow>
   (InstructionAccount list \<times> IndexOfAccount list, InstructionError) result" where
  "prepare_instruction tc instruction signers =
     and_then (get_current_instruction_context tc) (\<lambda>ic.
     and_then (deduplicate_loop tc ic 0 (si_accounts instruction) [] []) (\<lambda>(dedup, dups).
     and_then (check_privileges tc ic signers dedup) (\<lambda>_.
     and_then (collect_accounts dedup dups) (\<lambda>instruction_accounts.
     and_then (ok_or (find_index_of_instruction_account ic tc (si_program_id instruction)) MissingAccount) (\<lambda>program_account_index.
     and_then (fst (try_borrow_instruction_account ic program_account_index tc)) (\<lambda>borrowed_program_account.
       if \<not> is_executable borrowed_program_account tc then Err AccountNotExecutable
       else Ok (instruction_accounts, [ba_index_in_transaction borrowed_program_account])))))))"

section \<open>Running a program\<close>

text \<open>The errors with which an entrypoint ends: an instruction error, or another one.\<close>

datatype ProgramFailure = InstructionFailure InstructionError | OtherFailure

type_synonym Entrypoint = "(InvokeContext, ProgramFailure, unit) exec"

text \<open>A loaded program: a builtin, with what its registry holds under the entrypoint key, or another.\<close>

datatype LoadedProgramType = Builtin "Entrypoint option" | OtherProgram

type_synonym Programs = "Pubkey \<Rightarrow> LoadedProgramType option"

definition native_loader_id :: Pubkey where
  "native_loader_id = 0x58784bf148ba4282fb012574888a9f153a07dadf765c0455c9a970380000000"

text \<open>\<open>declare_process_instruction\<close>\<close>

definition builtin_entrypoint :: "u64 \<Rightarrow> (InvokeContext, InstructionError, unit) exec \<Rightarrow> Entrypoint" where
  "builtin_entrypoint cu_to_consume process_instruction_inner ivc =
     (case bind_exec (if 0 < cu_to_consume then consume_checked cu_to_consume else ret ())
             (\<lambda>_. process_instruction_inner) ivc of
        (r, ivc') \<Rightarrow> (map_err InstructionFailure r, ivc'))"

definition instruction_result :: "(unit, ProgramFailure) result \<Rightarrow> (unit, InstructionError) result" where
  "instruction_result = map_err (\<lambda>f. case f of InstructionFailure e \<Rightarrow> e | OtherFailure \<Rightarrow> ProgramFailedToComplete)"

definition find_builtin :: "Programs \<Rightarrow> InvokeContext \<Rightarrow> (Pubkey \<times> Entrypoint \<times> Pubkey, InstructionError) result" where
  "find_builtin programs ivc =
     (let tc = ivc_transaction_context ivc
      in and_then (get_current_instruction_context tc) (\<lambda>ic.
         and_then (map_err (\<lambda>_. UnsupportedProgramId) (fst (try_borrow_program_account ic 0 tc))) (\<lambda>borrowed_root_account.
         and_then
           (if get_owner borrowed_root_account tc = native_loader_id then get_key borrowed_root_account tc
            else Ok (get_owner borrowed_root_account tc)) (\<lambda>builtin_id.
         and_then (ok_or (programs builtin_id) UnsupportedProgramId) (\<lambda>entry.
         and_then (ok_or (case entry of Builtin f \<Rightarrow> f | _ \<Rightarrow> None) UnsupportedProgramId) (\<lambda>function.
         and_then (get_last_program_key ic tc) (\<lambda>program_id. Ok (builtin_id, function, program_id))))))))"

definition process_executable_chain :: "Programs \<Rightarrow> InvokeContext \<Rightarrow> (unit, InstructionError) result \<times> u64 \<times> InvokeContext" where
  "process_executable_chain programs ivc =
     (case find_builtin programs ivc of
        Err e \<Rightarrow> (Err e, 0, ivc)
      | Panic \<Rightarrow> (Panic, 0, ivc)
      | Ok (builtin_id, function, program_id) \<Rightarrow>
          (case on_transaction (set_return_data program_id []) ivc of
             (Err e, ivc1) \<Rightarrow> (Err e, 0, ivc1)
           | (Panic, ivc1) \<Rightarrow> (Panic, 0, ivc1)
           | (Ok _, ivc1) \<Rightarrow>
               (case function ivc1 of
                  (r, ivc2) \<Rightarrow>
                    let result = instruction_result r;
                        compute_units_consumed = saturating_sub (get_remaining ivc1) (get_remaining ivc2)
                    in if builtin_id = program_id \<and> is_ok result \<and> compute_units_consumed = 0
                       then (Err BuiltinProgramsMustConsumeComputeUnits, compute_units_consumed, ivc2)
                       else (result, compute_units_consumed, ivc2))))"

definition process_instruction ::
  "Programs \<Rightarrow> u8 list \<Rightarrow> InstructionAccount list \<Rightarrow> IndexOfAccount list \<Rightarrow> InvokeContext \<Rightarrow>
   (unit, InstructionError) result \<times> u64 \<times> InvokeContext" where
  "process_instruction programs instruction_data instruction_accounts program_indices ivc =
     (case bind_exec
             (on_transaction (with_next_instruction_context (ic_configure program_indices instruction_accounts instruction_data)))
             (\<lambda>_. ivc_push) ivc of
        (Err e, ivc1) \<Rightarrow> (Err e, 0, ivc1)
      | (Panic, ivc1) \<Rightarrow> (Panic, 0, ivc1)
      | (Ok _, ivc1) \<Rightarrow>
          (case process_executable_chain programs ivc1 of
             (Panic, consumed, ivc2) \<Rightarrow> (Panic, consumed, ivc2)
           | (result, consumed, ivc2) \<Rightarrow>
               (case ivc_pop ivc2 of (popped, ivc3) \<Rightarrow> (and_then result (\<lambda>_. popped), consumed, ivc3))))"

definition native_invoke ::
  "Programs \<Rightarrow> StableInstruction \<Rightarrow> Pubkey list \<Rightarrow> (InvokeContext, InstructionError, unit) exec" where
  "native_invoke programs instruction signers ivc =
     (case prepare_instruction (ivc_transaction_context ivc) instruction signers of
        Err e \<Rightarrow> (Err e, ivc)
      | Panic \<Rightarrow> (Panic, ivc)
      | Ok (instruction_accounts, program_indices) \<Rightarrow>
          (case process_instruction programs (si_data instruction) instruction_accounts program_indices ivc of
             (r, _, ivc') \<Rightarrow> (r, ivc')))"

end
