(* ===== verification/Invocation.thy ===== *)
theory Invocation
  imports Invoke_Context
begin

text \<open>
  Cross-program invocations never escalate privileges, and the accounts they pass on are numbered the
  way the balance check relies on.
\<close>

section \<open>Finding accounts\<close>

text \<open>The keys of a transaction are distinct, one for each account, and an index fits its type.\<close>

definition keys_ok :: "TransactionContext \<Rightarrow> bool" where
  "keys_ok tc \<longleftrightarrow> distinct (tc_account_keys tc) \<and> length (tc_account_keys tc) = length (cells tc) \<and>
     length (tc_account_keys tc) \<le> 2 ^ 16"

definition signer_in :: "InstructionContext \<Rightarrow> IndexOfAccount \<Rightarrow> bool" where
  "signer_in ic index \<longleftrightarrow> (\<exists>ia \<in> set (ic_instruction_accounts ic). ia_index_in_transaction ia = index \<and> ia_is_signer ia)"

lemma find_index_of_account_Some:
  assumes "keys_ok tc" and "find_index_of_account tc pubkey = Some index"
  shows "unat index < length (tc_account_keys tc)" and "tc_account_keys tc ! unat index = pubkey"
proof -
  obtain k where k: "position (\<lambda>key. key = pubkey) (tc_account_keys tc) = Some k" "index = of_nat k"
    using assms(2) by (auto simp: find_index_of_account_def)
  then have "k < length (tc_account_keys tc)" "tc_account_keys tc ! k = pubkey" by (simp_all add: position_Some_iff)
  moreover from this have "unat index = k"
    using assms(1) k(2) by (auto simp: keys_ok_def intro!: unat_of_nat_lt)
  ultimately show "unat index < length (tc_account_keys tc)" and "tc_account_keys tc ! unat index = pubkey" by simp_all
qed

lemma find_agree:
  assumes keys: "keys_ok tc" and small: "ic_small ic" and tx: "find_index_of_account tc pubkey = Some index"
    and caller: "find_index_of_instruction_account ic tc pubkey = Some c"
  obtains ia where "vec_get (ic_instruction_accounts ic) (unat c) = Some ia" and "ia_index_in_transaction ia = index"
proof -
  obtain k where k: "position (\<lambda>ia. vec_get (tc_account_keys tc) (unat (ia_index_in_transaction ia)) = Some pubkey)
      (ic_instruction_accounts ic) = Some k" "c = of_nat k"
    using caller by (auto simp: find_index_of_instruction_account_def)
  let ?ia = "ic_instruction_accounts ic ! k"
  have len: "k < length (ic_instruction_accounts ic)"
    and key: "vec_get (tc_account_keys tc) (unat (ia_index_in_transaction ?ia)) = Some pubkey"
    using k(1) by (simp_all add: position_Some_iff)
  have "unat c = k" using len small k(2) by (auto simp: ic_small_def intro!: unat_of_nat_lt)
  moreover have "unat (ia_index_in_transaction ?ia) = unat index"
    using key find_index_of_account_Some [OF keys tx] keys
    by (simp add: vec_get_Some_iff keys_ok_def nth_eq_iff_index_eq)
  ultimately show ?thesis using that [of ?ia] len by (simp add: vec_get_def word_unat_eq_iff)
qed

lemma position_None_iff: "position P xs = None \<longleftrightarrow> (\<forall>x \<in> set xs. \<not> P x)"
  by (induction xs) auto

section \<open>Removing duplicates\<close>

text \<open>The fields that later duplicates leave alone.\<close>

definition places :: "InstructionAccount \<Rightarrow> IndexOfAccount \<times> IndexOfAccount \<times> IndexOfAccount" where
  "places ia = (ia_index_in_transaction ia, ia_index_in_caller ia, ia_index_in_callee ia)"

definition dedup_ok ::
  "TransactionContext \<Rightarrow> InstructionContext \<Rightarrow> AccountMeta list \<Rightarrow> InstructionAccount list \<Rightarrow> nat list \<Rightarrow> bool" where
  "dedup_ok tc ic metas dedup dups \<longleftrightarrow>
     length dups = length metas \<and> distinct (map ia_index_in_transaction dedup) \<and>
     (\<forall>j < length metas. dups ! j < length dedup \<and>
        find_index_of_account tc (am_pubkey (metas ! j)) = Some (ia_index_in_transaction (dedup ! (dups ! j)))) \<and>
     (\<forall>d < length dedup. \<exists>f < length metas. ia_index_in_callee (dedup ! d) = of_nat f \<and> dups ! f = d \<and> (\<forall>j < f. dups ! j \<noteq> d) \<and>
        find_index_of_instruction_account ic tc (am_pubkey (metas ! f)) = Some (ia_index_in_caller (dedup ! d)))"

lemma dedup_ok_places:
  assumes "dedup_ok tc ic metas dedup dups" and "map places dedup' = map places dedup"
  shows "dedup_ok tc ic metas dedup' dups"
proof -
  have len: "length dedup' = length dedup" using assms(2) by (rule map_eq_imp_length_eq)
  have eq: "places (dedup' ! d) = places (dedup ! d)" if "d < length dedup" for d
    using assms(2) that len by (metis nth_map)
  then have "map ia_index_in_transaction dedup' = map ia_index_in_transaction dedup"
    using len by (simp add: list_eq_iff_nth_eq places_def)
  then show ?thesis using assms(1) len eq unfolding dedup_ok_def places_def by auto
qed

lemma dedup_ok_duplicate:
  assumes ok: "dedup_ok tc ic metas dedup dups" and d: "d < length dedup"
    and index: "find_index_of_account tc (am_pubkey m) = Some (ia_index_in_transaction (dedup ! d))"
  shows "dedup_ok tc ic (metas @ [m]) dedup (dups @ [d])"
  using assms unfolding dedup_ok_def
  by (auto simp: nth_append less_Suc_eq)

lemma dedup_ok_new:
  assumes ok: "dedup_ok tc ic metas dedup dups" and index: "find_index_of_account tc (am_pubkey m) = Some index"
    and new: "index \<notin> ia_index_in_transaction ` set dedup"
    and caller: "find_index_of_instruction_account ic tc (am_pubkey m) = Some (ia_index_in_caller ia)"
    and ia: "ia_index_in_transaction ia = index" "ia_index_in_callee ia = of_nat (length metas)"
  shows "dedup_ok tc ic (metas @ [m]) (dedup @ [ia]) (dups @ [length dedup])"
proof -
  have dups: "length dups = length metas" "\<forall>j < length metas. dups ! j < length dedup"
    using ok by (auto simp: dedup_ok_def)
  have old: "\<exists>f < length (metas @ [m]). ia_index_in_callee ((dedup @ [ia]) ! d) = of_nat f \<and>
      (dups @ [length dedup]) ! f = d \<and> (\<forall>j < f. (dups @ [length dedup]) ! j \<noteq> d) \<and>
      find_index_of_instruction_account ic tc (am_pubkey ((metas @ [m]) ! f)) = Some (ia_index_in_caller ((dedup @ [ia]) ! d))"
    if d: "d < length dedup" for d
  proof -
    obtain f where f: "f < length metas" "ia_index_in_callee (dedup ! d) = of_nat f" "dups ! f = d" "\<forall>j < f. dups ! j \<noteq> d"
      "find_index_of_instruction_account ic tc (am_pubkey (metas ! f)) = Some (ia_index_in_caller (dedup ! d))"
      using ok d unfolding dedup_ok_def by blast
    then show ?thesis using d dups by (intro exI [of _ f]) (auto simp: nth_append)
  qed
  have last: "\<exists>f < length (metas @ [m]). ia_index_in_callee ((dedup @ [ia]) ! length dedup) = of_nat f \<and>
      (dups @ [length dedup]) ! f = length dedup \<and> (\<forall>j < f. (dups @ [length dedup]) ! j \<noteq> length dedup) \<and>
      find_index_of_instruction_account ic tc (am_pubkey ((metas @ [m]) ! f)) =
        Some (ia_index_in_caller ((dedup @ [ia]) ! length dedup))"
    using dups caller ia by (intro exI [of _ "length metas"]) (auto simp: nth_append)
  show ?thesis
    unfolding dedup_ok_def
  proof (intro conjI allI impI)
    show "distinct (map ia_index_in_transaction (dedup @ [ia]))" using ok new ia by (simp add: dedup_ok_def)
  next
    fix d assume "d < length (dedup @ [ia])"
    then have "d < length dedup \<or> d = length dedup" by auto
    then show "\<exists>f < length (metas @ [m]). ia_index_in_callee ((dedup @ [ia]) ! d) = of_nat f \<and>
      (dups @ [length dedup]) ! f = d \<and> (\<forall>j < f. (dups @ [length dedup]) ! j \<noteq> d) \<and>
      find_index_of_instruction_account ic tc (am_pubkey ((metas @ [m]) ! f)) = Some (ia_index_in_caller ((dedup @ [ia]) ! d))"
      using old last by blast
  qed (use ok index ia in \<open>auto simp: dedup_ok_def nth_append less_Suc_eq\<close>)
qed

lemma deduplicate_loop_ok:
  assumes "deduplicate_loop tc ic i metas dedup dups = Ok (dedup', dups')"
    and "dedup_ok tc ic ms dedup dups" and "i = length ms"
  shows "dedup_ok tc ic (ms @ metas) dedup' dups'"
  using assms
proof (induction tc ic i metas dedup dups arbitrary: ms rule: deduplicate_loop.induct)
  case (2 tc ic i m metas dedup dups)
  obtain index where index: "find_index_of_account tc (am_pubkey m) = Some index"
    using "2.prems"(1) by (cases "find_index_of_account tc (am_pubkey m)") auto
  show ?case
  proof (cases "position (\<lambda>ia. ia_index_in_transaction ia = index) dedup")
    case (Some d)
    then have d: "d < length dedup" "ia_index_in_transaction (dedup ! d) = index" by (simp_all add: position_Some_iff)
    let ?ia = "(dedup ! d)\<lparr>ia_is_signer := ia_is_signer (dedup ! d) \<or> am_is_signer m,
                     ia_is_writable := ia_is_writable (dedup ! d) \<or> am_is_writable m\<rparr>"
    have "map places (dedup[d := ?ia]) = map places dedup"
      using d by (simp add: map_update places_def) (metis list_update_id nth_map places_def)
    then have ok: "dedup_ok tc ic (ms @ [m]) (dedup[d := ?ia]) (dups @ [d])"
      using dedup_ok_places dedup_ok_duplicate [OF "2.prems"(2) d(1)] index d(2) by blast
    have loop: "deduplicate_loop tc ic (Suc i) metas (dedup[d := ?ia]) (dups @ [d]) = Ok (dedup', dups')"
      using "2.prems"(1) index Some d by (simp add: vec_get_def)
    show ?thesis using "2.IH"(2) [OF Some loop ok] "2.prems"(3) by simp
  next
    case None
    then have new: "index \<notin> ia_index_in_transaction ` set dedup" by (auto simp: position_None_iff)
    obtain c where c: "find_index_of_instruction_account ic tc (am_pubkey m) = Some c"
      using "2.prems"(1) index None by (cases "find_index_of_instruction_account ic tc (am_pubkey m)") auto
    let ?ia = "\<lparr>ia_index_in_transaction = index, ia_index_in_caller = c, ia_index_in_callee = of_nat i,
        ia_is_signer = am_is_signer m, ia_is_writable = am_is_writable m\<rparr>"
    have ok: "dedup_ok tc ic (ms @ [m]) (dedup @ [?ia]) (dups @ [length dedup])"
      using dedup_ok_new [OF "2.prems"(2) index new] c "2.prems"(3) by simp
    have loop: "deduplicate_loop tc ic (Suc i) metas (dedup @ [?ia]) (dups @ [length dedup]) = Ok (dedup', dups')"
      using "2.prems"(1) index None c by simp
    show ?thesis using "2.IH"(1) [OF None loop ok] "2.prems"(3) by simp
  qed
qed simp

section \<open>Privileges\<close>

lemma handle_flags:
  fixes ic :: InstructionContext and i index :: IndexOfAccount
  defines "b \<equiv> \<lparr>ba_instruction_context = ic, ba_index_in_transaction = index,
    ba_index_in_instruction = saturating_add (get_number_of_program_accounts ic) i\<rparr>"
  assumes small: "ic_small ic" and ia: "vec_get (ic_instruction_accounts ic) (unat i) = Some ia"
  shows "is_writable b = ia_is_writable ia" and "is_signer b = ia_is_signer ia"
proof -
  let ?n = "get_number_of_program_accounts ic"
  have i: "unat i < length (ic_instruction_accounts ic)" using ia by (simp add: vec_get_Some_iff)
  have n: "unat ?n = length (ic_program_accounts ic)"
    using small by (simp add: get_number_of_program_accounts_def ic_small_def unat_of_nat)
  have sum: "unat (saturating_add ?n i) = unat ?n + unat i"
    using i n small by (simp add: unat_saturating_add ic_small_def)
  then have "\<not> saturating_add ?n i < ?n" by (simp add: word_less_nat_alt)
  moreover have "saturating_sub (saturating_add ?n i) ?n = i"
    using sum by (simp add: word_unat_eq_iff unat_saturating_sub)
  ultimately show "is_writable b = ia_is_writable ia" and "is_signer b = ia_is_signer ia"
    using ia by (simp_all add: b_def is_writable_def is_signer_def is_instruction_account_writable_def
        is_instruction_account_signer_def unwrap_or_default_def Let_def)
qed

lemma borrow_instruction_account_Ok:
  assumes "fst (try_borrow_instruction_account ic i tc) = Ok b"
  obtains ia where "vec_get (ic_instruction_accounts ic) (unat i) = Some ia"
    and "b = \<lparr>ba_instruction_context = ic, ba_index_in_transaction = ia_index_in_transaction ia,
      ba_index_in_instruction = saturating_add (get_number_of_program_accounts ic) i\<rparr>"
    and "unat (ia_index_in_transaction ia) < length (cells tc)"
  using assms
  by (cases "vec_get (ic_instruction_accounts ic) (unat i)")
    (auto simp: try_borrow_instruction_account_def get_index_of_instruction_account_in_transaction_def exec_simps
      try_borrow_account_def ta_get_def vec_get_Some_iff split: option.splits if_splits)

lemma check_privileges_borrow:
  "check_privileges tc ic signers ias = Ok () \<Longrightarrow> ia \<in> set ias \<Longrightarrow>
    \<exists>b. fst (try_borrow_instruction_account ic (ia_index_in_caller ia) tc) = Ok b \<and>
      (ia_is_writable ia \<longrightarrow> is_writable b) \<and>
      (ia_is_signer ia \<longrightarrow> is_signer b \<or> (\<exists>key \<in> set signers. get_key b tc = Ok key))"
  by (induction tc ic signers ias rule: check_privileges.induct)
    (auto simp: and_then_Ok_iff split: if_splits)

lemma check_privileges_Ok:
  assumes check: "check_privileges tc ic signers ias = Ok ()" and small: "ic_small ic" and ia: "ia \<in> set ias"
    and caller: "vec_get (ic_instruction_accounts ic) (unat (ia_index_in_caller ia)) = Some caller"
  shows "ia_is_writable ia \<longrightarrow> ia_is_writable caller"
    and "ia_is_signer ia \<longrightarrow> ia_is_signer caller \<or>
      (\<exists>key \<in> set signers. vec_get (tc_account_keys tc) (unat (ia_index_in_transaction caller)) = Some key)"
proof -
  obtain b where b: "fst (try_borrow_instruction_account ic (ia_index_in_caller ia) tc) = Ok b"
    and flags: "ia_is_writable ia \<longrightarrow> is_writable b"
      "ia_is_signer ia \<longrightarrow> is_signer b \<or> (\<exists>key \<in> set signers. get_key b tc = Ok key)"
    using check_privileges_borrow [OF check ia] by blast
  have eq: "b = \<lparr>ba_instruction_context = ic, ba_index_in_transaction = ia_index_in_transaction caller,
      ba_index_in_instruction = saturating_add (get_number_of_program_accounts ic) (ia_index_in_caller ia)\<rparr>"
    using borrow_instruction_account_Ok [OF b] caller by auto
  have "is_writable b = ia_is_writable caller" "is_signer b = ia_is_signer caller"
    unfolding eq using handle_flags [OF small caller] by simp_all
  then show "ia_is_writable ia \<longrightarrow> ia_is_writable caller"
    and "ia_is_signer ia \<longrightarrow> ia_is_signer caller \<or>
      (\<exists>key \<in> set signers. vec_get (tc_account_keys tc) (unat (ia_index_in_transaction caller)) = Some key)"
    using flags eq by (auto simp: get_key_def expect_def split: option.splits)
qed

lemma collect_accounts_Ok:
  "collect_accounts dedup ds = Ok ias \<Longrightarrow> (\<forall>d \<in> set ds. d < length dedup) \<and> ias = map (\<lambda>d. dedup ! d) ds"
  by (induction dedup ds arbitrary: ias rule: collect_accounts.induct)
    (auto simp: and_then_Ok_iff vec_get_Some_iff)

lemma dedup_ok_numbering:
  assumes ok: "dedup_ok tc ic metas dedup dups" and len: "length metas < 2 ^ 16"
    and accounts: "ic_instruction_accounts callee = map (\<lambda>d. dedup ! d) dups"
  shows "duplicates_ok callee"
proof -
  let ?ias = "map (\<lambda>d. dedup ! d) dups"
  have n: "length dups = length metas" using ok by (simp add: dedup_ok_def)
  have "position (\<lambda>ia. ia_index_in_transaction ia = ia_index_in_transaction (?ias ! i)) ?ias =
      Some (unat (ia_index_in_callee (?ias ! i)))" if i: "i < length ?ias" for i
  proof -
    have d: "dups ! i < length dedup" using ok i n by (simp add: dedup_ok_def)
    then obtain f where f: "f < length metas" "ia_index_in_callee (dedup ! (dups ! i)) = of_nat f"
      "dups ! f = dups ! i" "\<forall>j < f. dups ! j \<noteq> dups ! i"
      using ok unfolding dedup_ok_def by blast
    have "unat (of_nat f :: IndexOfAccount) = f" using f(1) len by (intro unat_of_nat_lt) simp
    moreover have "ia_index_in_transaction (dedup ! (dups ! j)) \<noteq> ia_index_in_transaction (dedup ! (dups ! i))" if "j < f" for j
    proof -
      have "distinct (map ia_index_in_transaction dedup)" and "dups ! j < length dedup"
        using ok that f(1) by (simp_all add: dedup_ok_def)
      then show ?thesis using that f(4) d by (simp add: distinct_conv_nth)
    qed
    ultimately show ?thesis using f i n by (simp add: position_Some_iff)
  qed
  then show ?thesis using len n by (simp add: duplicates_ok_def accounts)
qed

lemma prepare_instruction_Ok:
  assumes "prepare_instruction tc instruction signers = Ok (accounts, program_indices)"
    and "get_current_instruction_context tc = Ok ic"
  obtains dedup dups i b where "dedup_ok tc ic (si_accounts instruction) dedup dups"
    and "check_privileges tc ic signers dedup = Ok ()" and "accounts = map (\<lambda>d. dedup ! d) dups"
    and "\<forall>d \<in> set dups. d < length dedup"
    and "find_index_of_instruction_account ic tc (si_program_id instruction) = Some i"
    and "fst (try_borrow_instruction_account ic i tc) = Ok b" and "is_executable b tc"
    and "program_indices = [ba_index_in_transaction b]"
proof -
  obtain dedup dups where loop: "deduplicate_loop tc ic 0 (si_accounts instruction) [] [] = Ok (dedup, dups)"
    using assms by (auto simp: prepare_instruction_def and_then_Ok_iff)
  have "dedup_ok tc ic [] [] []" by (simp add: dedup_ok_def)
  from deduplicate_loop_ok [OF loop this] have "dedup_ok tc ic (si_accounts instruction) dedup dups" by simp
  then show ?thesis
    using assms loop that [of dedup dups] collect_accounts_Ok [of dedup dups accounts]
    by (auto simp: prepare_instruction_def and_then_Ok_iff split: if_splits)
qed

lemma dedup_no_escalation:
  assumes keys: "keys_ok tc" and small: "ic_small ic" and ok: "dedup_ok tc ic metas dedup dups"
    and check: "check_privileges tc ic signers dedup = Ok ()" and ia: "ia \<in> set dedup"
  shows "ia_is_writable ia \<longrightarrow> writable_in ic (ia_index_in_transaction ia)"
    and "ia_is_signer ia \<longrightarrow> signer_in ic (ia_index_in_transaction ia) \<or>
      tc_account_keys tc ! unat (ia_index_in_transaction ia) \<in> set signers"
proof -
  obtain d where d: "d < length dedup" "ia = dedup ! d" using ia by (auto simp: in_set_conv_nth)
  then obtain f where f: "f < length metas" "dups ! f = d"
    "find_index_of_instruction_account ic tc (am_pubkey (metas ! f)) = Some (ia_index_in_caller ia)"
    using ok unfolding dedup_ok_def by blast
  then have "find_index_of_account tc (am_pubkey (metas ! f)) = Some (ia_index_in_transaction ia)"
    using ok d unfolding dedup_ok_def by blast
  from find_agree [OF keys small this f(3)] obtain caller
    where caller: "vec_get (ic_instruction_accounts ic) (unat (ia_index_in_caller ia)) = Some caller"
      "ia_index_in_transaction caller = ia_index_in_transaction ia" by blast
  then have "caller \<in> set (ic_instruction_accounts ic)" by (auto simp: vec_get_Some_iff)
  then show "ia_is_writable ia \<longrightarrow> writable_in ic (ia_index_in_transaction ia)"
    and "ia_is_signer ia \<longrightarrow> signer_in ic (ia_index_in_transaction ia) \<or>
      tc_account_keys tc ! unat (ia_index_in_transaction ia) \<in> set signers"
    using check_privileges_Ok [OF check small ia caller(1)] caller(2)
    by (auto simp: writable_in_def signer_in_def vec_get_Some_iff)
qed

lemma borrowed_program:
  assumes small: "ic_small ic" and find: "find_index_of_instruction_account ic tc pubkey = Some i"
    and borrow: "fst (try_borrow_instruction_account ic i tc) = Ok b"
  shows "tc_account_keys tc ! unat (ba_index_in_transaction b) = pubkey"
proof -
  obtain k where k: "position (\<lambda>ia. vec_get (tc_account_keys tc) (unat (ia_index_in_transaction ia)) = Some pubkey)
      (ic_instruction_accounts ic) = Some k" "i = of_nat k"
    using find by (auto simp: find_index_of_instruction_account_def)
  have "unat i = k" using k small by (auto simp: ic_small_def position_Some_iff intro!: unat_of_nat_lt)
  moreover obtain ia where "vec_get (ic_instruction_accounts ic) (unat i) = Some ia"
    "ba_index_in_transaction b = ia_index_in_transaction ia"
    using borrow_instruction_account_Ok [OF borrow] by (metis BorrowedAccount.select_convs(2))
  ultimately show ?thesis using k(1) by (simp add: position_Some_iff vec_get_Some_iff)
qed

text \<open>
  C8: a cross-program invocation escalates no privilege. If \<open>prepare_instruction\<close> succeeds, the callee
  gets exactly the accounts the instruction names, each numbered by its first occurrence; what the
  callee may write, the caller may write; what signed for the callee, signed for the caller or is in the
  list \<open>signers\<close> that is passed to \<open>prepare_instruction\<close>; and the program account is the executable
  account that the instruction names.
\<close>

theorem prepare_instruction_safe:
  assumes keys: "keys_ok tc" and current: "get_current_instruction_context tc = Ok ic" and small: "ic_small ic"
    and len: "length (si_accounts instruction) < 2 ^ 16"
    and prepare: "prepare_instruction tc instruction signers = Ok (accounts, program_indices)"
  shows "duplicates_ok (ic_configure program_indices accounts data next) \<and>
    map (\<lambda>ia. tc_account_keys tc ! unat (ia_index_in_transaction ia)) accounts = map am_pubkey (si_accounts instruction) \<and>
    (\<forall>ia \<in> set accounts. (ia_is_writable ia \<longrightarrow> writable_in ic (ia_index_in_transaction ia)) \<and>
       (ia_is_signer ia \<longrightarrow> signer_in ic (ia_index_in_transaction ia) \<or>
          tc_account_keys tc ! unat (ia_index_in_transaction ia) \<in> set signers)) \<and>
    (\<exists>p. program_indices = [p] \<and> tc_account_keys tc ! unat p = si_program_id instruction \<and>
       acc_executable (rc_value (cells tc ! unat p)))"
proof (intro conjI)
  obtain dedup dups i b where ok: "dedup_ok tc ic (si_accounts instruction) dedup dups"
    and check: "check_privileges tc ic signers dedup = Ok ()" and accounts: "accounts = map (\<lambda>d. dedup ! d) dups"
    and dups: "\<forall>d \<in> set dups. d < length dedup"
    and program: "find_index_of_instruction_account ic tc (si_program_id instruction) = Some i"
      "fst (try_borrow_instruction_account ic i tc) = Ok b" "is_executable b tc" "program_indices = [ba_index_in_transaction b]"
    using prepare_instruction_Ok [OF prepare current] .
  have n: "length dups = length (si_accounts instruction)" using ok by (simp add: dedup_ok_def)
  show "duplicates_ok (ic_configure program_indices accounts data next)"
    using dedup_ok_numbering [OF ok len] accounts by (simp add: ic_configure_def)
  show "map (\<lambda>ia. tc_account_keys tc ! unat (ia_index_in_transaction ia)) accounts = map am_pubkey (si_accounts instruction)"
    using ok n find_index_of_account_Some(2) [OF keys] by (simp add: accounts list_eq_iff_nth_eq dedup_ok_def)
  show "\<exists>p. program_indices = [p] \<and> tc_account_keys tc ! unat p = si_program_id instruction \<and>
       acc_executable (rc_value (cells tc ! unat p))"
    using borrowed_program [OF small program(1,2)] program(3,4) by (simp add: is_executable_def ba_account_def)
  show "\<forall>ia \<in> set accounts. (ia_is_writable ia \<longrightarrow> writable_in ic (ia_index_in_transaction ia)) \<and>
       (ia_is_signer ia \<longrightarrow> signer_in ic (ia_index_in_transaction ia) \<or>
          tc_account_keys tc ! unat (ia_index_in_transaction ia) \<in> set signers)"
    using dedup_no_escalation [OF keys small ok check] dups by (auto simp: accounts)
qed

text \<open>An instruction that passes an account on twice.\<close>

definition example_caller :: InstructionContext where
  "example_caller = instruction_context_default\<lparr>ic_program_accounts := [0], ic_instruction_accounts :=
     [\<lparr>ia_index_in_transaction = 0, ia_index_in_caller = 0, ia_index_in_callee = 0, ia_is_signer = False, ia_is_writable = False\<rparr>,
      \<lparr>ia_index_in_transaction = 1, ia_index_in_caller = 1, ia_index_in_callee = 1, ia_is_signer = True, ia_is_writable = True\<rparr>]\<rparr>"

definition example_call :: TransactionContext where
  "example_call =
     transaction_context_new [(7, (example_account 1)\<lparr>acc_executable := True\<rparr>), (8, example_account 5)] rent_default 5 64
       \<lparr>tc_instruction_stack := [0], tc_instruction_trace := [example_caller, instruction_context_default]\<rparr>"

definition example_invoked :: StableInstruction where
  "example_invoked = \<lparr>si_accounts =
     [\<lparr>am_pubkey = 8, am_is_signer = True, am_is_writable = False\<rparr>, \<lparr>am_pubkey = 8, am_is_signer = False, am_is_writable = True\<rparr>],
     si_data = [], si_program_id = 7\<rparr>"

definition example_passed :: InstructionAccount where
  "example_passed = \<lparr>ia_index_in_transaction = 1, ia_index_in_caller = 1, ia_index_in_callee = 0, ia_is_signer = True, ia_is_writable = True\<rparr>"

lemma example_current: "get_current_instruction_context example_call = Ok example_caller"
  by (simp add: example_call_def current_context_eval)

lemma example_prepared: "prepare_instruction example_call example_invoked [] = Ok ([example_passed, example_passed], [0])"
  unfolding prepare_instruction_def example_current
  by (simp add: example_call_def example_caller_def example_invoked_def example_passed_def example_defs
      find_index_of_account_def find_index_of_instruction_account_def vec_get_def try_borrow_instruction_account_def
      try_borrow_account_def exec_simps get_index_of_instruction_account_in_transaction_def ta_get_def can_borrow_mut_def
      get_number_of_program_accounts_def is_writable_def is_signer_def is_instruction_account_writable_def
      is_instruction_account_signer_def saturating_add_def saturating_sub_def unwrap_or_default_def is_executable_def ba_account_def)

theorem prepare_instruction_safe_witness:
  "duplicates_ok (ic_configure [0] [example_passed, example_passed] [] instruction_context_default) \<and>
   writable_in example_caller 1 \<and> signer_in example_caller 1"
proof -
  have "keys_ok example_call" by (simp add: keys_ok_def example_call_def example_defs)
  moreover have "ic_small example_caller" by (simp add: ic_small_def example_caller_def instruction_context_default_def)
  moreover have "length (si_accounts example_invoked) < 2 ^ 16" by (simp add: example_invoked_def)
  ultimately show ?thesis
    using prepare_instruction_safe [OF _ example_current _ _ example_prepared, of "[]" instruction_context_default]
    by (simp add: example_passed_def)
qed

end
