(* ===== verification/Cross_Program.thy ===== *)
theory Cross_Program
  imports Invocation
begin

text \<open>
  What a running program can do to a transaction: change accounts through the account interface, set
  return data, and invoke other programs, to any depth. Whatever it does, no lamport is created or lost.
\<close>

section \<open>Runs of programs\<close>

inductive program_run :: "InstructionContext \<Rightarrow> TransactionContext \<Rightarrow> TransactionContext \<Rightarrow> bool" where
  run_done: "program_run ic tc tc"
| run_accounts: "guarded ic tc tc1 \<Longrightarrow> program_run ic tc1 tc' \<Longrightarrow> program_run ic tc tc'"
| run_return: "program_run ic (tc\<lparr>tc_return_data := d\<rparr>) tc' \<Longrightarrow> program_run ic tc tc'"
| run_refused:
    "prepare_instruction tc instruction signers = Ok (accounts, program_indices) \<Longrightarrow>
     with_next_instruction_context (ic_configure program_indices accounts (si_data instruction)) tc = (Ok (), tc1) \<Longrightarrow>
     tc_push tc1 = (Err e, tc2) \<Longrightarrow> program_run ic tc2 tc' \<Longrightarrow> program_run ic tc tc'"
| run_invoke:
    "prepare_instruction tc instruction signers = Ok (accounts, program_indices) \<Longrightarrow>
     length (si_accounts instruction) + 1 < 2 ^ 16 \<Longrightarrow>
     with_next_instruction_context (ic_configure program_indices accounts (si_data instruction)) tc = (Ok (), tc1) \<Longrightarrow>
     tc_push tc1 = (Ok (), tc2) \<Longrightarrow> get_current_instruction_context tc2 = Ok callee \<Longrightarrow>
     program_run callee tc2 tc3 \<Longrightarrow> tc_pop tc3 = (r, tc4) \<Longrightarrow>
     program_run ic tc4 tc' \<Longrightarrow> program_run ic tc tc'"

text \<open>A transaction in which the instruction is running.\<close>

definition running :: "InstructionContext \<Rightarrow> TransactionContext \<Rightarrow> bool" where
  "running ic tc \<longleftrightarrow> keys_ok tc \<and> stack_ok tc \<and> get_current_instruction_context tc = Ok ic \<and> ic_small ic"

lemma confined_running: "confined ic tc tc' \<Longrightarrow> running ic tc \<Longrightarrow> running ic tc'"
  unfolding running_def confined_def using current_context_frame [of tc tc'] by (auto simp: keys_ok_def frame_def)

lemma confined_return: "confined ic tc (tc\<lparr>tc_return_data := d\<rparr>)"
  by (simp add: confined_def frame_def stack_ok_def butlast_conv_take)

lemma next_context_frame:
  assumes "with_next_instruction_context f tc = (Ok (), tc')"
  shows "frame tc tc'" and "tc_instruction_stack tc' = tc_instruction_stack tc" and "cells tc' = cells tc"
    and "stack_ok tc \<longrightarrow> stack_ok tc'" and "last (tc_instruction_trace tc') = f (last (tc_instruction_trace tc))"
  using assms nth_trace_append [of "tc_instruction_trace tc"]
  by (auto simp: with_next_instruction_context_def next_back_def frame_def stack_ok_def split: if_splits)

lemma push_frame:
  assumes ok: "stack_ok tc"
  shows "frame tc (snd (tc_push tc))" and "cells (snd (tc_push tc)) = cells tc"
    and "fst (tc_push tc) \<noteq> Ok () \<Longrightarrow> tc_instruction_stack (snd (tc_push tc)) = tc_instruction_stack tc"
proof -
  have ne: "tc_instruction_trace tc \<noteq> []" using ok by (simp add: stack_ok_def)
  then have "frame tc (snd (tc_push tc)) \<and> cells (snd (tc_push tc)) = cells tc \<and>
    (fst (tc_push tc) \<noteq> Ok () \<longrightarrow> tc_instruction_stack (snd (tc_push tc)) = tc_instruction_stack tc)"
    by (cases rule: tc_push_cases) (auto simp: frame_def butlast_conv_take)
  then show "frame tc (snd (tc_push tc))" and "cells (snd (tc_push tc)) = cells tc"
    and "fst (tc_push tc) \<noteq> Ok () \<Longrightarrow> tc_instruction_stack (snd (tc_push tc)) = tc_instruction_stack tc" by simp_all
qed

lemma confined_refused:
  assumes run: "running ic tc" and configure: "with_next_instruction_context f tc = (Ok (), tc1)"
    and push: "tc_push tc1 = (Err e, tc2)"
  shows "confined ic tc tc2"
proof -
  note step = next_context_frame [OF configure]
  have ok: "stack_ok tc1" using step(4) run by (simp add: running_def)
  have "frame tc tc2" using frame_trans [OF step(1)] push_frame(1) [OF ok] push by simp
  then show ?thesis
    using step(2,3) push_frame(2,3) [OF ok] push tc_push_stack_ok(1) [OF ok] by (simp add: confined_def)
qed

lemma prepare_instruction_accounts:
  assumes run: "running ic tc" and prepare: "prepare_instruction tc instruction signers = Ok (accounts, program_indices)"
  shows "length accounts = length (si_accounts instruction)" and "length program_indices = 1"
    and "\<And>ia. ia \<in> set accounts \<Longrightarrow> ia_is_writable ia \<Longrightarrow> writable_in ic (ia_index_in_transaction ia)"
    and "length (si_accounts instruction) < 2 ^ 16 \<Longrightarrow> ic_instruction_accounts callee = accounts \<Longrightarrow> duplicates_ok callee"
proof -
  have current: "get_current_instruction_context tc = Ok ic" and keys: "keys_ok tc" and small: "ic_small ic"
    using run by (simp_all add: running_def)
  obtain dedup dups i b where ok: "dedup_ok tc ic (si_accounts instruction) dedup dups"
    and check: "check_privileges tc ic signers dedup = Ok ()" and accounts: "accounts = map (\<lambda>d. dedup ! d) dups"
    and dups: "\<forall>d \<in> set dups. d < length dedup"
    and "find_index_of_instruction_account ic tc (si_program_id instruction) = Some i"
    and "fst (try_borrow_instruction_account ic i tc) = Ok b" and "is_executable b tc"
    and program: "program_indices = [ba_index_in_transaction b]"
    using prepare_instruction_Ok [OF prepare current] .
  show "length accounts = length (si_accounts instruction)" using ok by (simp add: accounts dedup_ok_def)
  show "length program_indices = 1" by (simp add: program)
  show "writable_in ic (ia_index_in_transaction ia)" if "ia \<in> set accounts" "ia_is_writable ia" for ia
    using that dups dedup_no_escalation(1) [OF keys small ok check] by (auto simp: accounts)
  show "duplicates_ok callee" if "length (si_accounts instruction) < 2 ^ 16" "ic_instruction_accounts callee = accounts"
    using dedup_ok_numbering [OF ok] that by (simp add: accounts)
qed

lemma invoked_callee:
  assumes run: "running ic tc" and prepare: "prepare_instruction tc instruction signers = Ok (accounts, program_indices)"
    and len: "length (si_accounts instruction) + 1 < 2 ^ 16"
    and configure: "with_next_instruction_context (ic_configure program_indices accounts d) tc = (Ok (), tc1)"
    and push: "tc_push tc1 = (Ok (), tc2)" and current: "get_current_instruction_context tc2 = Ok callee"
  shows "running callee tc2" and "frame tc tc2" and "cells tc2 = cells tc"
    and "butlast (tc_instruction_stack tc2) = tc_instruction_stack tc"
    and "\<And>k. writable_at callee k \<Longrightarrow> writable_at ic k"
proof -
  note step = next_context_frame [OF configure]
  have ok: "stack_ok tc1" using step(4) run by (simp add: running_def)
  obtain s where s: "get_current_instruction_context tc2 = Ok (pushed tc1 s)"
    "butlast (tc_instruction_stack tc2) = tc_instruction_stack tc1" "tc_accounts tc2 = tc_accounts tc1"
    using tc_push_Ok [OF ok push] by metis
  have callee: "ic_instruction_accounts callee = accounts" "ic_program_accounts callee = program_indices"
    using s(1) current step(5) by (auto simp: pushed_def ic_configure_def)
  show "frame tc tc2" using frame_trans [OF step(1)] push_frame(1) [OF ok] push by simp
  then have "keys_ok tc2" using run by (simp add: running_def keys_ok_def frame_def)
  moreover have "stack_ok tc2" using tc_push_stack_ok(1) [OF ok] push by simp
  moreover have "ic_small callee"
    using callee len prepare_instruction_accounts(1,2) [OF run prepare] by (simp add: ic_small_def)
  ultimately show "running callee tc2" using current by (simp add: running_def)
  show "cells tc2 = cells tc" using s(3) step(3) by simp
  show "butlast (tc_instruction_stack tc2) = tc_instruction_stack tc" using s(2) step(2) by simp
  show "writable_at ic k" if "writable_at callee k" for k
    using that prepare_instruction_accounts(3) [OF run prepare] by (auto simp: writable_at_def writable_in_def [of callee] callee)
qed

lemma confined_invoke:
  assumes "running ic tc" and "prepare_instruction tc instruction signers = Ok (accounts, program_indices)"
    and "length (si_accounts instruction) + 1 < 2 ^ 16"
    and "with_next_instruction_context (ic_configure program_indices accounts d) tc = (Ok (), tc1)"
    and "tc_push tc1 = (Ok (), tc2)" and "get_current_instruction_context tc2 = Ok callee"
    and body: "confined callee tc2 tc3" and pop: "tc_pop tc3 = (r, tc4)"
  shows "confined ic tc tc4"
proof -
  note callee = invoked_callee [OF assms(1-6)]
  have tc4: "tc4 = tc3\<lparr>tc_instruction_stack := butlast (tc_instruction_stack tc3)\<rparr>"
    using tc_pop_stack [of tc3] pop by simp
  have "frame tc3 tc4" by (simp add: tc4 frame_def butlast_conv_take)
  then have "frame tc tc4" using frame_trans callee(2) body by (meson confined_def)
  moreover have "stack_ok tc4"
    using tc_pop_stack_ok [of tc3] body callee(1) pop by (auto simp: running_def confined_def)
  moreover have "rc_value (cells tc4 ! k) = rc_value (cells tc ! k)"
    if "k < length (cells tc)" "\<not> writable_at ic k" for k
    using body callee(3,5) that by (auto simp: confined_def tc4)
  ultimately show ?thesis using callee(4) body by (simp add: confined_def tc4)
qed

lemma program_run_confined:
  assumes "program_run ic tc tc'" and "running ic tc"
  shows "confined ic tc tc'"
  using assms
proof (induction rule: program_run.induct)
  case (run_accounts ic tc tc1 tc')
  then show ?case using guarded_confined confined_running confined_trans by blast
next
  case (run_return ic tc d tc')
  then show ?case using confined_return confined_running confined_trans by blast
next
  case (run_refused tc instruction signers accounts program_indices tc1 e tc2 ic tc')
  then show ?case using confined_refused confined_running confined_trans by blast
next
  case (run_invoke tc instruction signers accounts program_indices tc1 tc2 callee tc3 r tc4 ic tc')
  have "confined callee tc2 tc3"
    using run_invoke.IH(1) invoked_callee(1) [OF run_invoke.prems run_invoke.hyps(1-5)] .
  then have "confined ic tc tc4"
    using confined_invoke [OF run_invoke.prems run_invoke.hyps(1-5)] run_invoke.hyps(7) by blast
  then show ?case using confined_running confined_trans run_invoke by blast
qed (simp add: confined_refl)

section \<open>Conservation\<close>

text \<open>
  C1: no program creates or destroys lamports, whatever accounts it changes and whatever programs it
  invokes, however deep: if an instruction of a transaction is pushed, its program runs, and it is
  popped successfully, then the accounts of the transaction hold as many lamports as before, the
  stack is as before, and only accounts that the instruction lists as writable have changed.
\<close>

theorem program_run_conserves_lamports:
  assumes "stack_ok tc" and "keys_ok tc" and "tc_push tc = (Ok (), tc1)" and "get_current_instruction_context tc1 = Ok ic"
    and "duplicates_ok ic" and "ic_small ic" and "program_run ic tc1 tc2" and "tc_pop tc2 = (Ok (), tc3)"
  shows "total_lamports tc3 = total_lamports tc \<and> tc_instruction_stack tc3 = tc_instruction_stack tc \<and>
    length (cells tc3) = length (cells tc) \<and>
    (\<forall>k < length (cells tc). rc_value (cells tc3 ! k) \<noteq> rc_value (cells tc ! k) \<longrightarrow> writable_at ic k)"
proof -
  have "stack_ok tc1" using tc_push_stack_ok(1) [OF assms(1)] assms(3) by simp
  moreover have "keys_ok tc1" using push_frame(1) [OF assms(1)] assms(2,3) by (simp add: keys_ok_def frame_def)
  ultimately have "running ic tc1" using assms(4,6) by (simp add: running_def)
  then have run: "confined ic tc1 tc2" using program_run_confined assms(7) by blast
  moreover have "cells tc1 = cells tc" using push_frame(2) [OF assms(1)] assms(3) by simp
  moreover have "cells tc3 = cells tc2" using tc_pop_stack [of tc2] assms(8) by simp
  ultimately show ?thesis
    using balanced_instruction [OF assms(1,3,4,5) run assms(8)] by (auto simp: confined_def frame_def)
qed

theorem program_run_conserves_lamports_witness:
  "total_lamports (snd (tc_pop (example_running 2 3))) = total_lamports (example_transaction 5 0) \<and>
   rc_value (cells (snd (tc_pop (example_running 2 3))) ! 0) = rc_value (cells (example_transaction 5 0) ! 0)"
proof -
  let ?ic = "example_instruction\<lparr>ic_instruction_accounts_lamport_sum := 5\<rparr>"
  have "program_run ?ic (example_running 5 0) (example_running 2 3)"
    using run_accounts [OF example_guarded run_done] .
  moreover have "keys_ok (example_transaction 5 0)" by (simp add: keys_ok_def example_defs)
  moreover have "ic_small ?ic" by (simp add: ic_small_def example_defs)
  moreover have "\<not> writable_at ?ic 0" and "0 < length (cells (example_transaction 5 0))"
    by (auto simp: writable_at_def writable_in_def example_defs)
  ultimately show ?thesis
    using program_run_conserves_lamports [OF example_ready(1) _ example_push example_ready(2,3) _ _ example_ready(4)] by blast
qed

end
