(* ===== verification/Message_Processor.thy ===== *)
theory Message_Processor
  imports Cross_Program
begin

text \<open>
  \<open>program-runtime/src/message_processor.rs\<close>: the instructions of a message, one after the other. Of
  the sanitized message the processor uses the instructions with their program ids and two predicates
  on the positions of accounts. Measurements and logging are left out.
\<close>

section \<open>Processing a message\<close>

record SanitizedMessage =
  sm_program_instructions :: "(Pubkey \<times> CompiledInstruction) list"
  sm_is_signer :: "nat \<Rightarrow> bool"
  sm_is_writable :: "nat \<Rightarrow> bool"

definition secp256k1_program_id :: Pubkey where
  "secp256k1_program_id = 0x4c6fc20f050ccf05584d7211c9f8cf59ec14785bb166a1e2830e81220000000"

definition ed25519_program_id :: Pubkey where
  "ed25519_program_id = 0x37d46d67c93fbbe12f9428f838d40ff0570744927f48a64fcca704480000000"

definition instructions_id :: Pubkey where
  "instructions_id = 0x6a7d517187bd16635dad40455fdc2c0c124c68f215675a5dbbacb5f08000000"

text \<open>A precompiled program and the feature that enables it, if it needs one.\<close>

definition PRECOMPILES :: "(Pubkey \<times> Pubkey option) list" where
  "PRECOMPILES = [(secp256k1_program_id, None), (ed25519_program_id, None)]"

definition precompile_check_id :: "Pubkey \<times> Pubkey option \<Rightarrow> Pubkey \<Rightarrow> (Pubkey \<Rightarrow> bool) \<Rightarrow> bool" where
  "precompile_check_id precompile program_id is_enabled \<longleftrightarrow>
     (case snd precompile of None \<Rightarrow> True | Some feature_id \<Rightarrow> is_enabled feature_id) \<and> fst precompile = program_id"

definition is_precompile :: "Pubkey \<Rightarrow> (Pubkey \<Rightarrow> bool) \<Rightarrow> bool" where
  "is_precompile program_id is_enabled = list_ex (\<lambda>precompile. precompile_check_id precompile program_id is_enabled) PRECOMPILES"

text \<open>\<open>store_current_index\<close> panics on data shorter than the index.\<close>

definition u16_to_le_bytes :: "u16 \<Rightarrow> u8 list" where
  "u16_to_le_bytes n = [ucast n, ucast (drop_bit 8 n)]"

definition store_current_index :: "u8 list \<Rightarrow> u16 \<Rightarrow> (u8 list, 'e) result" where
  "store_current_index data instruction_index =
     (if length data < 2 then Panic else Ok (take (length data - 2) data @ u16_to_le_bytes instruction_index))"

text \<open>The fixup of the instructions sysvar; \<open>borrow_mut\<close> panics if the account is borrowed.\<close>

definition fixup_instructions :: "nat \<Rightarrow> (TransactionContext, TransactionError, unit) exec" where
  "fixup_instructions instruction_index tc =
     (case find_index_of_account tc instructions_id of
        None \<Rightarrow> (Ok (), tc)
      | Some sysvar_index \<Rightarrow>
          (case map_err (\<lambda>_. TE_InvalidAccountIndex) (get_account_at_index tc sysvar_index) of
             Err e \<Rightarrow> (Err e, tc)
           | Panic \<Rightarrow> (Panic, tc)
           | Ok c \<Rightarrow>
               if \<not> can_borrow_mut c then (Panic, tc)
               else (case store_current_index (acc_data (rc_value c)) (of_nat instruction_index) of
                       Ok d \<Rightarrow> (Ok (), set_cell sysvar_index (\<lambda>c. c\<lparr>rc_value := (rc_value c)\<lparr>acc_data := d\<rparr>\<rparr>) tc)
                     | Err e \<Rightarrow> (Err e, tc)
                     | Panic \<Rightarrow> (Panic, tc))))"

definition index_in_callee :: "u8 list \<Rightarrow> nat \<Rightarrow> nat" where
  "index_in_callee accounts i =
     (case position (\<lambda>k. k = accounts ! i) (take i accounts) of Some j \<Rightarrow> j | None \<Rightarrow> i)"

definition message_instruction_accounts :: "SanitizedMessage \<Rightarrow> u8 list \<Rightarrow> InstructionAccount list" where
  "message_instruction_accounts message accounts =
     map (\<lambda>i. \<lparr>ia_index_in_transaction = ucast (accounts ! i), ia_index_in_caller = ucast (accounts ! i),
              ia_index_in_callee = of_nat (index_in_callee accounts i),
              ia_is_signer = sm_is_signer message (unat (accounts ! i)),
              ia_is_writable = sm_is_writable message (unat (accounts ! i))\<rparr>) [0..<length accounts]"

definition process_precompile ::
  "IndexOfAccount list \<Rightarrow> InstructionAccount list \<Rightarrow> u8 list \<Rightarrow> (InvokeContext, InstructionError, unit) exec" where
  "process_precompile program_indices instruction_accounts instruction_data =
     bind_exec (on_transaction (with_next_instruction_context (ic_configure program_indices instruction_accounts instruction_data))) (\<lambda>_.
     bind_exec (on_transaction tc_push) (\<lambda>_. on_transaction tc_pop))"

text \<open>One round of the loop. The state has the units that were consumed so far, which count also if the instruction fails.\<close>

definition process_message_instruction ::
  "Programs \<Rightarrow> (Pubkey \<Rightarrow> bool) \<Rightarrow> SanitizedMessage \<Rightarrow> nat \<Rightarrow> (Pubkey \<times> CompiledInstruction) \<times> IndexOfAccount list \<Rightarrow>
   (InvokeContext \<times> u64, TransactionError, unit) exec" where
  "process_message_instruction programs is_active message instruction_index entry state =
     (case (entry, state) of
        (((program_id, instruction), program_indices), (ivc, accumulated_consumed_units)) \<Rightarrow>
          (case on_transaction (fixup_instructions instruction_index) ivc of
             (Err e, ivc1) \<Rightarrow> (Err e, ivc1, accumulated_consumed_units)
           | (Panic, ivc1) \<Rightarrow> (Panic, ivc1, accumulated_consumed_units)
           | (Ok _, ivc1) \<Rightarrow>
               let instruction_accounts = message_instruction_accounts message (ci_accounts instruction)
               in case
                    (if is_precompile program_id is_active
                     then (case process_precompile program_indices instruction_accounts (ci_data instruction) ivc1 of
                             (r, ivc2) \<Rightarrow> (r, ivc2, accumulated_consumed_units))
                     else (case process_instruction programs (ci_data instruction) instruction_accounts program_indices ivc1 of
                             (r, compute_units_consumed, ivc2) \<Rightarrow>
                               (r, ivc2, saturating_add accumulated_consumed_units compute_units_consumed)))
                  of (r, state2) \<Rightarrow> (map_err (TE_InstructionError (of_nat instruction_index)) r, state2)))"

fun process_message_loop ::
  "Programs \<Rightarrow> (Pubkey \<Rightarrow> bool) \<Rightarrow> SanitizedMessage \<Rightarrow> nat \<Rightarrow> ((Pubkey \<times> CompiledInstruction) \<times> IndexOfAccount list) list \<Rightarrow>
   (InvokeContext \<times> u64, TransactionError, unit) exec" where
  "process_message_loop programs is_active message i [] = ret ()"
| "process_message_loop programs is_active message i (entry # entries) =
     bind_exec (process_message_instruction programs is_active message i entry)
       (\<lambda>_. process_message_loop programs is_active message (Suc i) entries)"

definition process_message ::
  "Programs \<Rightarrow> (Pubkey \<Rightarrow> bool) \<Rightarrow> SanitizedMessage \<Rightarrow> IndexOfAccount list list \<Rightarrow> ComputeBudget \<Rightarrow> SysvarCache \<Rightarrow> Hash \<Rightarrow> u64 \<Rightarrow>
   (TransactionContext \<times> u64, TransactionError, unit) exec" where
  "process_message programs is_active message program_indices compute_budget sysvar_cache blockhash lamports_per_signature state =
     (case state of (tc, accumulated_consumed_units) \<Rightarrow>
        case process_message_loop programs is_active message 0 (zip (sm_program_instructions message) program_indices)
               (invoke_context_new tc sysvar_cache compute_budget blockhash lamports_per_signature, accumulated_consumed_units) of
          (r, ivc, units) \<Rightarrow> (r, ivc_transaction_context ivc, units))"

section \<open>Builtins that play by the rules\<close>

text \<open>Whatever a builtin does to the transaction is the run of a program.\<close>

definition programs_ok :: "Programs \<Rightarrow> bool" where
  "programs_ok programs \<longleftrightarrow>
     (\<forall>builtin_id f ivc ic. programs builtin_id = Some (Builtin (Some f)) \<longrightarrow> running ic (ivc_transaction_context ivc) \<longrightarrow>
        program_run ic (ivc_transaction_context ivc) (ivc_transaction_context (snd (f ivc))))"

lemma on_transaction_simps [exec_simps]:
  "fst (on_transaction m ivc) = fst (m (ivc_transaction_context ivc))"
  "ivc_transaction_context (snd (on_transaction m ivc)) = snd (m (ivc_transaction_context ivc))"
  by (simp_all add: on_transaction_def split: prod.split)

lemma ivc_push_Ok:
  assumes "ivc_push ivc = (Ok (), ivc')"
  shows "tc_push (ivc_transaction_context ivc) = (Ok (), ivc_transaction_context ivc')"
  using assms
  by (auto simp: ivc_push_def Let_def bind_exec_def lift_def modify_def on_transaction_def
      split: result.splits prod.splits if_splits)

lemma ivc_pop_transaction:
  "fst (ivc_pop ivc) = fst (tc_pop (ivc_transaction_context ivc))"
  "ivc_transaction_context (snd (ivc_pop ivc)) = snd (tc_pop (ivc_transaction_context ivc))"
  by (simp_all add: ivc_pop_def Let_def exec_simps split: option.split)

lemma entry_function: "(case entry of Builtin g \<Rightarrow> g | OtherProgram \<Rightarrow> None) = Some f \<longleftrightarrow> entry = Builtin (Some f)"
  by (cases entry) auto

lemma executable_chain_run:
  assumes ok: "programs_ok programs" and run: "running ic (ivc_transaction_context ivc)"
    and chain: "process_executable_chain programs ivc = (r, consumed, ivc')"
  shows "program_run ic (ivc_transaction_context ivc) (ivc_transaction_context ivc')"
proof (cases "find_builtin programs ivc")
  case (Ok x)
  obtain builtin_id f program_id where x: "x = (builtin_id, f, program_id)" by (cases x)
  have builtin: "programs builtin_id = Some (Builtin (Some f))"
    using Ok x by (auto simp: find_builtin_def Let_def and_then_Ok_iff entry_function)
  let ?d = "\<lparr>rd_program_id = program_id, rd_data = []\<rparr>"
  define ivc1 where "ivc1 = ivc\<lparr>ivc_transaction_context := (ivc_transaction_context ivc)\<lparr>tc_return_data := ?d\<rparr>\<rparr>"
  have "running ic (ivc_transaction_context ivc1)"
    using confined_running [OF confined_return run] by (simp add: ivc1_def)
  then have "program_run ic (ivc_transaction_context ivc1) (ivc_transaction_context (snd (f ivc1)))"
    using ok builtin unfolding programs_ok_def by blast
  moreover have "ivc' = snd (f ivc1)"
    using chain Ok x by (auto simp: process_executable_chain_def on_transaction_def set_return_data_def ivc1_def Let_def
        split: prod.splits if_splits)
  ultimately show ?thesis using run_return [where d = ?d] by (simp add: ivc1_def)
qed (use chain in \<open>auto simp: process_executable_chain_def intro: run_done\<close>)

section \<open>One instruction\<close>

text \<open>A transaction between two instructions of a message.\<close>

definition transaction_ok :: "TransactionContext \<Rightarrow> bool" where
  "transaction_ok tc \<longleftrightarrow> keys_ok tc \<and> stack_ok tc"

definition accounts_ok :: "IndexOfAccount list \<Rightarrow> InstructionAccount list \<Rightarrow> bool" where
  "accounts_ok program_indices accounts \<longleftrightarrow>
     length program_indices + length accounts < 2 ^ 16 \<and> duplicates_ok (instruction_context_default\<lparr>ic_instruction_accounts := accounts\<rparr>)"

lemma configured_callee:
  assumes ok: "transaction_ok tc" and accounts: "accounts_ok program_indices accounts"
    and configure: "with_next_instruction_context (ic_configure program_indices accounts d) tc = (Ok (), tc1)"
    and push: "tc_push tc1 = (Ok (), tc2)"
  obtains ic where "get_current_instruction_context tc2 = Ok ic" and "running ic tc2" and "duplicates_ok ic"
    and "stack_ok tc1" and "total_lamports tc1 = total_lamports tc" and "frame tc tc1"
    and "tc_instruction_stack tc1 = tc_instruction_stack tc"
proof -
  note step = next_context_frame [OF configure]
  have ok1: "stack_ok tc1" using step(4) ok by (simp add: transaction_ok_def)
  obtain s where s: "get_current_instruction_context tc2 = Ok (pushed tc1 s)"
    using tc_push_Ok [OF ok1 push] by metis
  have callee: "ic_instruction_accounts (pushed tc1 s) = accounts" "ic_program_accounts (pushed tc1 s) = program_indices"
    using step(5) by (simp_all add: pushed_def ic_configure_def)
  have "frame tc tc2" using frame_trans [OF step(1)] push_frame(1) [OF ok1] push by simp
  then have "keys_ok tc2" using ok by (simp add: transaction_ok_def keys_ok_def frame_def)
  moreover have "stack_ok tc2" using tc_push_stack_ok(1) [OF ok1] push by simp
  moreover have "ic_small (pushed tc1 s)" using callee accounts by (simp add: ic_small_def accounts_ok_def)
  ultimately have "running (pushed tc1 s) tc2" using s by (simp add: running_def)
  moreover have "duplicates_ok (pushed tc1 s)" using accounts by (simp add: accounts_ok_def duplicates_ok_def callee)
  ultimately show ?thesis using that s ok1 step(1-3) by (simp add: total_lamports_def)
qed

text \<open>An instruction that ends well keeps the sum of lamports and the stack.\<close>

lemma instruction_transaction:
  assumes ok: "transaction_ok tc" and accounts: "accounts_ok program_indices accounts"
    and configure: "with_next_instruction_context (ic_configure program_indices accounts d) tc = (Ok (), tc1)"
    and push: "tc_push tc1 = (Ok (), tc2)"
    and run: "\<And>ic. running ic tc2 \<Longrightarrow> program_run ic tc2 tc3" and pop: "tc_pop tc3 = (Ok (), tc4)"
  shows "transaction_ok tc4" and "total_lamports tc4 = total_lamports tc"
    and "tc_instruction_stack tc4 = tc_instruction_stack tc"
proof -
  obtain ic where current: "get_current_instruction_context tc2 = Ok ic" and running: "running ic tc2"
    and dup: "duplicates_ok ic" and ok1: "stack_ok tc1" and total: "total_lamports tc1 = total_lamports tc"
    and "frame tc tc1" and stack: "tc_instruction_stack tc1 = tc_instruction_stack tc"
    using configured_callee [OF ok accounts configure push] .
  have confined: "confined ic tc2 tc3" using program_run_confined run running by blast
  show "total_lamports tc4 = total_lamports tc" and "tc_instruction_stack tc4 = tc_instruction_stack tc"
    using balanced_instruction [OF ok1 push current dup confined pop] total stack by simp_all
  have tc4: "tc4 = tc3\<lparr>tc_instruction_stack := butlast (tc_instruction_stack tc3)\<rparr>"
    using tc_pop_stack [of tc3] pop by simp
  have "running ic tc3" using confined_running [OF confined running] .
  then show "transaction_ok tc4"
    using tc_pop_stack_ok [of tc3] pop by (auto simp: transaction_ok_def running_def keys_ok_def tc4)
qed

lemma process_instruction_Ok:
  assumes run: "process_instruction programs d accounts program_indices ivc = (Ok (), consumed, ivc')"
  obtains ivc1 ivc2 ivc3 :: InvokeContext where
    "with_next_instruction_context (ic_configure program_indices accounts d) (ivc_transaction_context ivc) =
       (Ok (), ivc_transaction_context ivc1)"
    and "tc_push (ivc_transaction_context ivc1) = (Ok (), ivc_transaction_context ivc2)"
    and "process_executable_chain programs ivc2 = (Ok (), consumed, ivc3)"
    and "tc_pop (ivc_transaction_context ivc3) = (Ok (), ivc_transaction_context ivc')"
proof -
  let ?m = "on_transaction (with_next_instruction_context (ic_configure program_indices accounts d))"
  obtain ivc2 where bind: "bind_exec ?m (\<lambda>_. ivc_push) ivc = (Ok (), ivc2)"
    using run by (auto simp: process_instruction_def split: prod.splits result.splits)
  then obtain ivc1 where m: "?m ivc = (Ok (), ivc1)" and push: "ivc_push ivc1 = (Ok (), ivc2)"
    by (auto simp: bind_exec_def split: prod.splits result.splits)
  obtain ivc3 where chain: "process_executable_chain programs ivc2 = (Ok (), consumed, ivc3)"
    and pop: "ivc_pop ivc3 = (Ok (), ivc')"
    using run bind by (auto simp: process_instruction_def split: prod.splits result.splits)
  show ?thesis
  proof (rule that [of ivc1 ivc2 ivc3])
    show "with_next_instruction_context (ic_configure program_indices accounts d) (ivc_transaction_context ivc) =
        (Ok (), ivc_transaction_context ivc1)"
      using m on_transaction_simps [of "with_next_instruction_context (ic_configure program_indices accounts d)" ivc]
      by (simp add: prod_eq_iff)
    show "tc_pop (ivc_transaction_context ivc3) = (Ok (), ivc_transaction_context ivc')"
      using pop ivc_pop_transaction [of ivc3] by (simp add: prod_eq_iff)
  qed (use ivc_push_Ok [OF push] chain in simp_all)
qed

lemma process_instruction_transaction:
  assumes programs: "programs_ok programs" and ok: "transaction_ok (ivc_transaction_context ivc)"
    and accounts: "accounts_ok program_indices accounts"
    and run: "process_instruction programs d accounts program_indices ivc = (Ok (), consumed, ivc')"
  shows "transaction_ok (ivc_transaction_context ivc')"
    and "total_lamports (ivc_transaction_context ivc') = total_lamports (ivc_transaction_context ivc)"
    and "tc_instruction_stack (ivc_transaction_context ivc') = tc_instruction_stack (ivc_transaction_context ivc)"
proof -
  obtain ivc1 ivc2 ivc3 :: InvokeContext where steps:
    "with_next_instruction_context (ic_configure program_indices accounts d) (ivc_transaction_context ivc) =
       (Ok (), ivc_transaction_context ivc1)"
    "tc_push (ivc_transaction_context ivc1) = (Ok (), ivc_transaction_context ivc2)"
    "process_executable_chain programs ivc2 = (Ok (), consumed, ivc3)"
    "tc_pop (ivc_transaction_context ivc3) = (Ok (), ivc_transaction_context ivc')"
    using process_instruction_Ok [OF run] .
  note result = instruction_transaction [OF ok accounts steps(1,2) executable_chain_run [OF programs _ steps(3)] steps(4)]
  show "transaction_ok (ivc_transaction_context ivc')"
    and "total_lamports (ivc_transaction_context ivc') = total_lamports (ivc_transaction_context ivc)"
    and "tc_instruction_stack (ivc_transaction_context ivc') = tc_instruction_stack (ivc_transaction_context ivc)"
    using result by blast+
qed

lemma process_precompile_transaction:
  assumes ok: "transaction_ok (ivc_transaction_context ivc)" and accounts: "accounts_ok program_indices accounts"
    and run: "process_precompile program_indices accounts d ivc = (Ok (), ivc')"
  shows "transaction_ok (ivc_transaction_context ivc')"
    and "total_lamports (ivc_transaction_context ivc') = total_lamports (ivc_transaction_context ivc)"
    and "tc_instruction_stack (ivc_transaction_context ivc') = tc_instruction_stack (ivc_transaction_context ivc)"
proof -
  let ?tc = "ivc_transaction_context ivc"
  obtain tc1 tc2 where steps: "with_next_instruction_context (ic_configure program_indices accounts d) ?tc = (Ok (), tc1)"
    "tc_push tc1 = (Ok (), tc2)" "tc_pop tc2 = (Ok (), ivc_transaction_context ivc')"
    using run by (auto simp: process_precompile_def bind_exec_def on_transaction_def split: prod.splits result.splits)
  note result = instruction_transaction [OF ok accounts steps(1,2) run_done steps(3)]
  show "transaction_ok (ivc_transaction_context ivc')"
    and "total_lamports (ivc_transaction_context ivc') = total_lamports (ivc_transaction_context ivc)"
    and "tc_instruction_stack (ivc_transaction_context ivc') = tc_instruction_stack (ivc_transaction_context ivc)"
    using result by blast+
qed

section \<open>The message\<close>

lemma message_accounts_ok:
  assumes "length program_indices + length accounts < 2 ^ 16"
  shows "accounts_ok program_indices (message_instruction_accounts message accounts)"
proof -
  let ?ias = "message_instruction_accounts message accounts"
  have nth: "ia_index_in_transaction (?ias ! i) = ucast (accounts ! i)" if "i < length accounts" for i
    using that by (simp add: message_instruction_accounts_def)
  have same: "ia_index_in_transaction (?ias ! i) = ia_index_in_transaction (?ias ! j) \<longleftrightarrow> accounts ! i = accounts ! j"
    if "i < length accounts" "j < length accounts" for i j
    using that by (simp add: nth word_unat_eq_iff unat_ucast_up)
  have "position (\<lambda>ia. ia_index_in_transaction ia = ia_index_in_transaction (?ias ! i)) ?ias =
      Some (unat (ia_index_in_callee (?ias ! i)))" if i: "i < length accounts" for i
  proof -
    let ?f = "index_in_callee accounts i"
    have f: "?f \<le> i" "accounts ! ?f = accounts ! i" "\<forall>j < ?f. accounts ! j \<noteq> accounts ! i"
      using i by (auto simp: index_in_callee_def position_Some_iff position_None_iff in_set_conv_nth split: option.split)
    then have "unat (of_nat ?f :: IndexOfAccount) = ?f" using i assms by (intro unat_of_nat_lt) simp
    then have "unat (ia_index_in_callee (?ias ! i)) = ?f" using i by (simp add: message_instruction_accounts_def)
    moreover have "length ?ias = length accounts" by (simp add: message_instruction_accounts_def)
    ultimately show ?thesis using f i same by (simp add: position_Some_iff)
  qed
  then show ?thesis
    using assms by (simp add: accounts_ok_def duplicates_ok_def message_instruction_accounts_def)
qed

lemma fixup_instructions_transaction:
  assumes "fixup_instructions i tc = (Ok (), tc')" and "transaction_ok tc"
  shows "transaction_ok tc'" and "total_lamports tc' = total_lamports tc" and "tc_instruction_stack tc' = tc_instruction_stack tc"
proof -
  have same: "lamports_at (set_cell i (\<lambda>c. c\<lparr>rc_value := (rc_value c)\<lparr>acc_data := d\<rparr>\<rparr>) tc) k = lamports_at tc k"
    if "k < length (cells tc)" for i d k
    using that by (cases "k = unat i") (simp_all add: cells_set_cell)
  have "tc' = tc \<or> (\<exists>i d. tc' = set_cell i (\<lambda>c. c\<lparr>rc_value := (rc_value c)\<lparr>acc_data := d\<rparr>\<rparr>) tc)"
    using assms(1) by (auto simp: fixup_instructions_def split: option.splits result.splits if_splits)
  then show "transaction_ok tc'" and "total_lamports tc' = total_lamports tc" and "tc_instruction_stack tc' = tc_instruction_stack tc"
    using assms(2) same
    by (auto simp: transaction_ok_def keys_ok_def stack_ok_def total_lamports_def set_cell_def Let_def)
qed

text \<open>The accounts and program indices of an instruction of a message fit the type of an index.\<close>

definition entry_small :: "(Pubkey \<times> CompiledInstruction) \<times> IndexOfAccount list \<Rightarrow> bool" where
  "entry_small entry \<longleftrightarrow> length (snd entry) + length (ci_accounts (snd (fst entry))) < 2 ^ 16"

lemma message_instruction_transaction:
  assumes programs: "programs_ok programs" and ok: "transaction_ok (ivc_transaction_context ivc)" and small: "entry_small entry"
    and run: "process_message_instruction programs is_active message i entry (ivc, units) = (Ok (), ivc', units')"
  shows "transaction_ok (ivc_transaction_context ivc')"
    and "total_lamports (ivc_transaction_context ivc') = total_lamports (ivc_transaction_context ivc)"
    and "tc_instruction_stack (ivc_transaction_context ivc') = tc_instruction_stack (ivc_transaction_context ivc)"
proof -
  obtain program_id instruction program_indices where entry: "entry = ((program_id, instruction), program_indices)"
    by (metis prod.collapse)
  let ?ias = "message_instruction_accounts message (ci_accounts instruction)"
  have ias: "accounts_ok program_indices ?ias"
    using small entry message_accounts_ok by (simp add: entry_small_def)
  obtain ivc1 where fixup: "on_transaction (fixup_instructions i) ivc = (Ok (), ivc1)"
    and rest: "(\<exists>r. process_precompile program_indices ?ias (ci_data instruction) ivc1 = (Ok (), ivc')) \<or>
      (\<exists>c. process_instruction programs (ci_data instruction) ?ias program_indices ivc1 = (Ok (), c, ivc'))"
    using run by (auto simp: process_message_instruction_def entry Let_def map_err_Ok_iff
        split: prod.splits result.splits if_splits)
  have "fixup_instructions i (ivc_transaction_context ivc) = (Ok (), ivc_transaction_context ivc1)"
    using fixup on_transaction_simps [of "fixup_instructions i" ivc] by (simp add: prod_eq_iff)
  note fixed = fixup_instructions_transaction [OF this ok]
  show "transaction_ok (ivc_transaction_context ivc')"
    and "total_lamports (ivc_transaction_context ivc') = total_lamports (ivc_transaction_context ivc)"
    and "tc_instruction_stack (ivc_transaction_context ivc') = tc_instruction_stack (ivc_transaction_context ivc)"
    using rest process_instruction_transaction [OF programs fixed(1) ias] process_precompile_transaction [OF fixed(1) ias] fixed(2,3)
    by auto
qed

lemma message_loop_transaction:
  assumes "process_message_loop programs is_active message i entries (ivc, units) = (Ok (), ivc', units')"
    and "programs_ok programs" and "transaction_ok (ivc_transaction_context ivc)" and "\<forall>entry \<in> set entries. entry_small entry"
  shows "transaction_ok (ivc_transaction_context ivc') \<and>
    total_lamports (ivc_transaction_context ivc') = total_lamports (ivc_transaction_context ivc) \<and>
    tc_instruction_stack (ivc_transaction_context ivc') = tc_instruction_stack (ivc_transaction_context ivc)"
  using assms
proof (induction entries arbitrary: i units ivc)
  case (Cons entry entries)
  obtain ivc1 u where step: "process_message_instruction programs is_active message i entry (ivc, units) = (Ok (), ivc1, u)"
    and rest: "process_message_loop programs is_active message (Suc i) entries (ivc1, u) = (Ok (), ivc', units')"
    using Cons.prems(1) by (auto simp: bind_exec_def split: prod.splits result.splits)
  have "entry_small entry" using Cons.prems(4) by simp
  note one = message_instruction_transaction [OF Cons.prems(2,3) this step]
  show ?case using Cons.IH [OF rest Cons.prems(2) one(1)] Cons.prems(4) one(2,3) by simp
qed (simp add: ret_def)

end
