(* ===== verification/Reentrancy.thy ===== *)
theory Reentrancy
  imports Message_Processor
begin

text \<open>
  A program may call itself, but it may not be called back by a program that it called: on the stack,
  the invocations of a program are adjacent.
\<close>

definition program_at :: "TransactionContext \<Rightarrow> nat \<Rightarrow> (Pubkey, InstructionError) result" where
  "program_at tc level =
     and_then (get_instruction_context_at_nesting_level tc level) (\<lambda>ic. get_last_program_key ic tc)"

definition stack_programs :: "TransactionContext \<Rightarrow> (Pubkey, InstructionError) result list" where
  "stack_programs tc = map (program_at tc) [0..<length (tc_instruction_stack tc)]"

definition adjacent :: "'a list \<Rightarrow> bool" where
  "adjacent xs \<longleftrightarrow> (\<forall>i j k. i \<le> k \<and> k \<le> j \<and> j < length xs \<and> xs ! i = xs ! j \<longrightarrow> xs ! k = xs ! i)"

text \<open>The program accounts of the stack, as long as none of them is borrowed.\<close>

definition programs_free :: "TransactionContext \<Rightarrow> bool" where
  "programs_free tc \<longleftrightarrow>
     (\<forall>level < length (tc_instruction_stack tc). \<exists>ic b. get_instruction_context_at_nesting_level tc level = Ok ic \<and>
        fst (try_borrow_last_program_account ic tc) = Ok b)"

lemma adjacent_snoc:
  assumes "adjacent xs" and "x \<in> set xs \<Longrightarrow> last xs = x"
  shows "adjacent (xs @ [x])"
  unfolding adjacent_def
proof (intro allI impI, elim conjE)
  fix i j k assume ijk: "i \<le> k" "k \<le> j" "j < length (xs @ [x])" "(xs @ [x]) ! i = (xs @ [x]) ! j"
  show "(xs @ [x]) ! k = (xs @ [x]) ! i"
  proof (cases "j < length xs")
    case True
    then have "i \<le> k \<and> k \<le> j \<and> j < length xs \<and> xs ! i = xs ! j" and "(xs @ [x]) ! k = xs ! k" and "(xs @ [x]) ! i = xs ! i"
      using ijk by (simp_all add: nth_append)
    then show ?thesis using assms(1) unfolding adjacent_def by metis
  next
    case False
    then have j: "j = length xs" using ijk(3) by simp
    show ?thesis
    proof (cases "i < length xs")
      case True
      then have "xs ! i = x" using ijk(4) j by (simp add: nth_append)
      then have "x \<in> set xs" using True nth_mem [of i xs] by simp
      then have last: "xs ! (length xs - 1) = xs ! i"
        using assms(2) \<open>xs ! i = x\<close> by (cases "xs = []") (simp_all add: last_conv_nth)
      have "xs ! k = xs ! i" if "k < length xs"
      proof -
        have "i \<le> k \<and> k \<le> length xs - 1 \<and> length xs - 1 < length xs \<and> xs ! i = xs ! (length xs - 1)"
          using ijk(1) that last by auto
        then show ?thesis using assms(1) unfolding adjacent_def by blast
      qed
      then show ?thesis using ijk(2) j \<open>xs ! i = x\<close> True by (auto simp: nth_append)
    next
      case False
      then have "k = length xs" using ijk j by simp
      then show ?thesis using ijk j by simp
    qed
  qed
qed

lemma runs_program_iff:
  assumes keys: "keys_ok tc" and borrow: "fst (try_borrow_last_program_account ic tc) = Ok b"
  shows "runs_program tc program_id (Ok ic) = Ok (get_last_program_key ic tc = Ok program_id)"
proof -
  let ?i = "get_index_of_program_account_in_transaction ic (saturating_sub (get_number_of_program_accounts ic) 1)"
  let ?k = "ba_index_in_transaction b"
  let ?tc = "set_cell ?k (\<lambda>c. c\<lparr>rc_borrow := Writing\<rparr>) tc"
  have run: "try_borrow_last_program_account ic tc = (Ok b, ?tc)" and i: "?i = Ok ?k" and k: "unat ?k < length (cells tc)"
    using borrow by (auto simp: try_borrow_last_program_account_def try_borrow_program_account_def bind_exec_def lift_def
        try_borrow_account_def ta_get_def vec_get_Some_iff split: option.splits if_splits result.splits)
  have key: "vec_get (tc_account_keys tc) (unat ?k) = Some (tc_account_keys tc ! unat ?k)"
    using keys k by (simp add: vec_get_def keys_ok_def)
  then have "get_key b ?tc = Ok (tc_account_keys tc ! unat ?k)" by (simp add: get_key_def set_cell_def Let_def)
  moreover have "get_last_program_key ic tc = Ok (tc_account_keys tc ! unat ?k)"
    using i key by (simp add: get_last_program_key_def get_key_of_account_at_index_def)
  ultimately show ?thesis by (simp add: runs_program_def run)
qed

lemma runs_program_level:
  assumes "keys_ok tc" and "programs_free tc" and "level < length (tc_instruction_stack tc)"
  shows "runs_program tc program_id (get_instruction_context_at_nesting_level tc level) = Ok (program_at tc level = Ok program_id)"
proof -
  obtain ic b where "get_instruction_context_at_nesting_level tc level = Ok ic"
    and "fst (try_borrow_last_program_account ic tc) = Ok b"
    using assms(2,3) unfolding programs_free_def by blast
  then show ?thesis using runs_program_iff [OF assms(1)] by (simp add: program_at_def)
qed

lemma any_level_iff:
  assumes "keys_ok tc" and "programs_free tc" and "\<forall>level \<in> set levels. level < length (tc_instruction_stack tc)"
  shows "any_level tc program_id levels = Ok (\<exists>level \<in> set levels. program_at tc level = Ok program_id)"
  using assms(3) by (induction levels) (simp_all add: runs_program_level [OF assms(1,2)])

lemma get_last_program_key_cong:
  "tc_account_keys tc' = tc_account_keys tc \<Longrightarrow> ic_program_accounts ic' = ic_program_accounts ic \<Longrightarrow>
    get_last_program_key ic' tc' = get_last_program_key ic tc"
  by (simp add: get_last_program_key_def get_index_of_program_account_in_transaction_def get_number_of_program_accounts_def
      get_key_of_account_at_index_def [abs_def])

lemma push_stack_programs:
  assumes ok: "stack_ok tc" and push: "tc_push tc = (Ok (), tc')"
  shows "stack_programs tc' = stack_programs tc @ [get_last_program_key (last (tc_instruction_trace tc)) tc]"
proof -
  let ?n = "length (tc_instruction_stack tc)"
  have ne: "tc_instruction_trace tc \<noteq> []" using ok by (simp add: stack_ok_def)
  then obtain s where tc': "tc' = tc\<lparr>tc_instruction_trace := butlast (tc_instruction_trace tc) @ [pushed tc s, instruction_context_default],
      tc_instruction_stack := tc_instruction_stack tc @ [length (tc_instruction_trace tc) - 1]\<rparr>"
    using push by (cases rule: tc_push_cases) auto
  note level = program_at_def get_instruction_context_at_nesting_level_def get_instruction_context_at_index_in_trace_def vec_get_def
  have key: "get_last_program_key ic tc' = get_last_program_key ic tc" for ic
    by (rule get_last_program_key_cong) (simp_all add: tc')
  have "program_at tc' l = program_at tc l" if "l < ?n" for l
  proof -
    have i: "tc_instruction_stack tc ! l + 1 < length (tc_instruction_trace tc)" using ok that by (simp add: stack_ok_def)
    have "tc_instruction_stack tc' ! l = tc_instruction_stack tc ! l" and "l < length (tc_instruction_stack tc')"
      using that by (simp_all add: tc' nth_append)
    moreover have "tc_instruction_trace tc' ! (tc_instruction_stack tc ! l) = tc_instruction_trace tc ! (tc_instruction_stack tc ! l)"
      using nth_trace_append [OF ne i] by (simp add: tc')
    moreover have "tc_instruction_stack tc ! l < length (tc_instruction_trace tc')" using i by (simp add: tc')
    ultimately show ?thesis using that i key by (simp add: level)
  qed
  moreover have "program_at tc' ?n = get_last_program_key (last (tc_instruction_trace tc)) tc"
    using key nth_trace_new [OF ne] get_last_program_key_cong [of tc tc "pushed tc s" "last (tc_instruction_trace tc)"]
    by (simp add: level tc' pushed_def)
  ultimately show ?thesis by (simp add: stack_programs_def tc')
qed

lemma ivc_push_program:
  assumes push: "ivc_push ivc = (Ok (), ivc')" and ne: "tc_instruction_trace (ivc_transaction_context ivc) \<noteq> []"
  obtains program_id
  where "get_last_program_key (last (tc_instruction_trace (ivc_transaction_context ivc))) (ivc_transaction_context ivc) = Ok program_id"
    and "tc_instruction_stack (ivc_transaction_context ivc) \<noteq> [] \<Longrightarrow> check_reentrancy (ivc_transaction_context ivc) program_id = Ok ()"
proof -
  let ?tc = "ivc_transaction_context ivc"
  have "get_instruction_context_at_index_in_trace ?tc (get_instruction_trace_length ?tc) = Ok (last (tc_instruction_trace ?tc))"
    using ne by (simp add: get_instruction_context_at_index_in_trace_def get_instruction_trace_length_def vec_get_def last_conv_nth)
  then show ?thesis
    using push that
    by (auto simp: ivc_push_def Let_def bind_exec_def lift_def get_instruction_context_stack_height_def split: result.splits prod.splits if_splits)
qed

text \<open>
  C11: the runtime prevents reentrancy. As long as the program accounts on the stack are not borrowed, a
  push that succeeds puts the program of the next instruction on top of the stack, and if the
  invocations of every program were adjacent before, they still are.
\<close>

theorem push_prevents_reentrancy:
  assumes keys: "keys_ok (ivc_transaction_context ivc)" and ok: "stack_ok (ivc_transaction_context ivc)"
    and free: "programs_free (ivc_transaction_context ivc)" and adj: "adjacent (stack_programs (ivc_transaction_context ivc))"
    and push: "ivc_push ivc = (Ok (), ivc')"
  shows "adjacent (stack_programs (ivc_transaction_context ivc')) \<and>
    (\<exists>program_id. get_last_program_key (last (tc_instruction_trace (ivc_transaction_context ivc))) (ivc_transaction_context ivc) = Ok program_id \<and>
       stack_programs (ivc_transaction_context ivc') = stack_programs (ivc_transaction_context ivc) @ [Ok program_id])"
proof -
  let ?tc = "ivc_transaction_context ivc" and ?n = "length (tc_instruction_stack (ivc_transaction_context ivc))"
  have "tc_instruction_trace ?tc \<noteq> []" using ok by (simp add: stack_ok_def)
  then obtain program_id where program: "get_last_program_key (last (tc_instruction_trace ?tc)) ?tc = Ok program_id"
    and check: "tc_instruction_stack ?tc \<noteq> [] \<Longrightarrow> check_reentrancy ?tc program_id = Ok ()"
    using ivc_push_program [OF push] by blast
  have stack: "stack_programs (ivc_transaction_context ivc') = stack_programs ?tc @ [Ok program_id]"
    using push_stack_programs [OF ok ivc_push_Ok [OF push]] program by simp
  have "last (stack_programs ?tc) = Ok program_id" if on_stack: "Ok program_id \<in> set (stack_programs ?tc)"
  proof -
    obtain level where level: "level < ?n" "program_at ?tc level = Ok program_id"
      using on_stack by (auto simp: stack_programs_def)
    then have nonempty: "tc_instruction_stack ?tc \<noteq> []" by auto
    then have "check_reentrancy ?tc program_id = Ok ()" by (rule check)
    then have "runs_program ?tc program_id (get_current_instruction_context ?tc) = Ok True"
      using level any_level_iff [OF keys free, of "[0..<?n]" program_id]
      by (auto simp: check_reentrancy_def get_instruction_context_stack_height_def and_then_Ok_iff split: if_splits)
    moreover have "get_current_instruction_context ?tc = get_instruction_context_at_nesting_level ?tc (?n - 1)"
      using level by (cases ?n) (simp_all add: get_current_instruction_context_def get_instruction_context_stack_height_def)
    ultimately have "program_at ?tc (?n - 1) = Ok program_id"
      using runs_program_level [OF keys free, of "?n - 1" program_id] level by simp
    then show ?thesis using nonempty by (simp add: stack_programs_def last_conv_nth)
  qed
  then show ?thesis using adjacent_snoc [OF adj] stack program by simp
qed

text \<open>A program that calls itself.\<close>

definition example_nested :: TransactionContext where
  "example_nested = example_call\<lparr>tc_instruction_trace :=
     [example_caller\<lparr>ic_instruction_accounts_lamport_sum := 6\<rparr>, example_caller]\<rparr>"

definition example_invoke_context :: InvokeContext where
  "example_invoke_context = invoke_context_new example_nested sysvar_cache_default compute_budget_default 0 0"

lemmas nested_defs = example_invoke_context_def invoke_context_new_def example_nested_def example_call_def example_caller_def example_defs

lemmas program_key_eval = get_last_program_key_def get_index_of_program_account_in_transaction_def get_key_of_account_at_index_def
  get_number_of_program_accounts_def vec_get_def saturating_sub_def

lemma example_borrow:
  "fst (try_borrow_last_program_account (example_caller\<lparr>ic_instruction_accounts_lamport_sum := 6\<rparr>) example_nested) =
     Ok \<lparr>ba_instruction_context = example_caller\<lparr>ic_instruction_accounts_lamport_sum := 6\<rparr>, ba_index_in_transaction = 0,
         ba_index_in_instruction = 0\<rparr>"
  by (simp add: nested_defs try_borrow_last_program_account_def try_borrow_program_account_def try_borrow_account_def exec_simps
      program_key_eval ta_get_def can_borrow_mut_def)

lemma example_stack_programs: "stack_programs example_nested = [Ok 7]"
  by (simp add: nested_defs stack_programs_def program_at_def current_context_eval program_key_eval)

lemma example_nested_ok: "keys_ok example_nested" "stack_ok example_nested" "programs_free example_nested"
  using example_borrow
  by (auto simp: keys_ok_def stack_ok_def nested_defs programs_free_def current_context_eval)

lemma example_check: "check_reentrancy example_nested 7 = Ok ()"
proof -
  have "program_at example_nested 0 = Ok 7" using example_stack_programs by (simp add: stack_programs_def nested_defs)
  moreover have "tc_instruction_stack example_nested = [0]" by (simp add: nested_defs)
  ultimately show ?thesis
    using any_level_iff [OF example_nested_ok(1,3), of "[0]" 7] runs_program_level [OF example_nested_ok(1,3), of 0 7]
    by (simp add: check_reentrancy_def get_instruction_context_stack_height_def get_current_instruction_context_def)
qed

lemma example_nested_push: "fst (tc_push example_nested) = Ok ()"
  by (simp add: nested_defs tc_push_def exec_simps next_back_def with_next_instruction_context_def
        get_instruction_trace_length_def current_context_eval lamport_sum_eval)

lemma example_reentrant_push: "fst (ivc_push example_invoke_context) = Ok ()"
proof -
  have "get_last_program_key example_caller example_nested = Ok 7" by (simp add: nested_defs program_key_eval)
  moreover have "get_instruction_context_at_index_in_trace example_nested (get_instruction_trace_length example_nested) = Ok example_caller"
    by (simp add: example_nested_def get_instruction_context_at_index_in_trace_def get_instruction_trace_length_def vec_get_def)
  moreover have "get_instruction_context_stack_height example_nested = 1"
    by (simp add: nested_defs get_instruction_context_stack_height_def)
  ultimately show ?thesis
    using example_nested_push
    by (simp add: ivc_push_def example_invoke_context_def invoke_context_new_def exec_simps example_check bind_exec_def
        split: prod.split)
qed

theorem push_prevents_reentrancy_witness:
  "stack_programs (ivc_transaction_context (snd (ivc_push example_invoke_context))) = [Ok 7, Ok 7]"
proof -
  have tc: "ivc_transaction_context example_invoke_context = example_nested"
    by (simp add: example_invoke_context_def invoke_context_new_def)
  have "adjacent (stack_programs example_nested)" by (simp add: example_stack_programs adjacent_def)
  moreover have "ivc_push example_invoke_context = (Ok (), snd (ivc_push example_invoke_context))"
    using example_reentrant_push by (simp add: prod_eq_iff)
  moreover have "get_last_program_key (last (tc_instruction_trace example_nested)) example_nested = Ok 7"
    by (simp add: nested_defs program_key_eval)
  ultimately show ?thesis
    using push_prevents_reentrancy [of example_invoke_context "snd (ivc_push example_invoke_context)"] example_stack_programs
      example_nested_ok
    unfolding tc by auto
qed

end
