(* ===== verification/Pubkey_Seed.thy ===== *)
theory Pubkey_Seed
  imports Sdk_Types
begin

text \<open>
  Hashing (\<open>sdk/program/src/hash.rs\<close>) and the addresses that are derived from seeds
  (\<open>sdk/program/src/pubkey.rs\<close>). SHA-256 and the test for points of the curve come from other packages
  and are parameters. The first of the 32 bytes of a key or a hash is the most significant.
\<close>

section \<open>Hashes\<close>

definition key_bytes :: "256 word \<Rightarrow> u8 list" where
  "key_bytes h = map (\<lambda>i. ucast (drop_bit (8 * (31 - i)) h)) [0..<32]"

text \<open>A hasher holds the bytes that it was given.\<close>

type_synonym Hasher = "u8 list"

definition hasher_default :: Hasher where
  "hasher_default = []"

definition hasher_hash :: "u8 list \<Rightarrow> Hasher \<Rightarrow> Hasher" where
  "hasher_hash val hasher = hasher @ val"

definition hasher_hashv :: "u8 list list \<Rightarrow> Hasher \<Rightarrow> Hasher" where
  "hasher_hashv vals hasher = fold hasher_hash vals hasher"

definition hasher_result :: "(u8 list \<Rightarrow> Hash) \<Rightarrow> Hasher \<Rightarrow> Hash" where
  "hasher_result sha256 hasher = sha256 hasher"

definition hashv :: "(u8 list \<Rightarrow> Hash) \<Rightarrow> u8 list list \<Rightarrow> Hash" where
  "hashv sha256 vals = hasher_result sha256 (hasher_hashv vals hasher_default)"

definition hash_val :: "(u8 list \<Rightarrow> Hash) \<Rightarrow> u8 list \<Rightarrow> Hash" where
  "hash_val sha256 val = hashv sha256 [val]"

definition extend_and_hash :: "(u8 list \<Rightarrow> Hash) \<Rightarrow> Hash \<Rightarrow> u8 list \<Rightarrow> Hash" where
  "extend_and_hash sha256 previous val = hash_val sha256 (key_bytes previous @ val)"

section \<open>Errors\<close>

datatype PubkeyError = PK_MaxSeedLengthExceeded | PK_InvalidSeeds | PK_IllegalOwner

fun pubkey_error_to_u64 :: "PubkeyError \<Rightarrow> u64" where
  "pubkey_error_to_u64 PK_MaxSeedLengthExceeded = 0"
| "pubkey_error_to_u64 PK_InvalidSeeds = 1"
| "pubkey_error_to_u64 PK_IllegalOwner = 2"

definition pubkey_error_from :: "u64 \<Rightarrow> (PubkeyError, 'e) result" where
  "pubkey_error_from e =
     (if e = 0 then Ok PK_MaxSeedLengthExceeded
      else if e = 1 then Ok PK_InvalidSeeds
      else Panic)"

definition pubkey_error_into :: "PubkeyError \<Rightarrow> InstructionError" where
  "pubkey_error_into e = instruction_error_from (pubkey_error_to_u64 e)"

section \<open>Derived addresses\<close>

definition MAX_SEED_LEN :: nat where
  "MAX_SEED_LEN = 32"

definition MAX_SEEDS :: nat where
  "MAX_SEEDS = 16"

text \<open>\<open>"ProgramDerivedAddress"\<close>\<close>

definition PDA_MARKER :: "u8 list" where
  "PDA_MARKER = [80, 114, 111, 103, 114, 97, 109, 68, 101, 114, 105, 118, 101, 100, 65, 100, 100, 114, 101, 115, 115]"

definition create_with_seed ::
  "(u8 list \<Rightarrow> Hash) \<Rightarrow> Pubkey \<Rightarrow> u8 list \<Rightarrow> Pubkey \<Rightarrow> (Pubkey, PubkeyError) result" where
  "create_with_seed sha256 base seed owner =
     (if MAX_SEED_LEN < length seed then Err PK_MaxSeedLengthExceeded
      else
        let bytes = key_bytes owner
        in if length PDA_MARKER \<le> length bytes \<and> drop (length bytes - length PDA_MARKER) bytes = PDA_MARKER
           then Err PK_IllegalOwner
           else Ok (hashv sha256 [key_bytes base, seed, bytes]))"

definition create_program_address ::
  "(u8 list \<Rightarrow> Hash) \<Rightarrow> (Hash \<Rightarrow> bool) \<Rightarrow> u8 list list \<Rightarrow> Pubkey \<Rightarrow> (Pubkey, PubkeyError) result" where
  "create_program_address sha256 bytes_are_curve_point seeds program_id =
     (if MAX_SEEDS < length seeds then Err PK_MaxSeedLengthExceeded
      else if list_ex (\<lambda>seed. MAX_SEED_LEN < length seed) seeds then Err PK_MaxSeedLengthExceeded
      else
        let hasher = fold hasher_hash seeds hasher_default;
            hasher = hasher_hashv [key_bytes program_id, PDA_MARKER] hasher;
            hash = hasher_result sha256 hasher
        in if bytes_are_curve_point hash then Err PK_InvalidSeeds else Ok hash)"

text \<open>The search for a bump seed, with the number of iterations that are left.\<close>

fun bump_seed_loop ::
  "(u8 list \<Rightarrow> Hash) \<Rightarrow> (Hash \<Rightarrow> bool) \<Rightarrow> u8 list list \<Rightarrow> Pubkey \<Rightarrow> nat \<Rightarrow> u8 \<Rightarrow> (Pubkey \<times> u8) option" where
  "bump_seed_loop sha256 bytes_are_curve_point seeds program_id 0 bump_seed = None"
| "bump_seed_loop sha256 bytes_are_curve_point seeds program_id (Suc n) bump_seed =
     (case create_program_address sha256 bytes_are_curve_point (seeds @ [[bump_seed]]) program_id of
        Ok address \<Rightarrow> Some (address, bump_seed)
      | Err PK_InvalidSeeds \<Rightarrow> bump_seed_loop sha256 bytes_are_curve_point seeds program_id n (bump_seed - 1)
      | _ \<Rightarrow> None)"

definition try_find_program_address ::
  "(u8 list \<Rightarrow> Hash) \<Rightarrow> (Hash \<Rightarrow> bool) \<Rightarrow> u8 list list \<Rightarrow> Pubkey \<Rightarrow> (Pubkey \<times> u8) option" where
  "try_find_program_address sha256 bytes_are_curve_point seeds program_id =
     bump_seed_loop sha256 bytes_are_curve_point seeds program_id 255 255"

definition find_program_address ::
  "(u8 list \<Rightarrow> Hash) \<Rightarrow> (Hash \<Rightarrow> bool) \<Rightarrow> u8 list list \<Rightarrow> Pubkey \<Rightarrow> (Pubkey \<times> u8, 'e) result" where
  "find_program_address sha256 bytes_are_curve_point seeds program_id =
     expect (try_find_program_address sha256 bytes_are_curve_point seeds program_id)"

section \<open>What is hashed\<close>

lemma hasher_hashv_concat: "hasher_hashv vals hasher = hasher @ concat vals"
  unfolding hasher_hashv_def by (induction vals arbitrary: hasher) (simp_all add: hasher_hash_def)

lemma hashv_concat: "hashv sha256 vals = sha256 (concat vals)"
  by (simp add: hashv_def hasher_result_def hasher_hashv_concat hasher_default_def)

lemma length_key_bytes [simp]: "length (key_bytes k) = 32"
  by (simp add: key_bytes_def)

text \<open>The bytes whose hash is a program address.\<close>

definition program_address_bytes :: "u8 list list \<Rightarrow> Pubkey \<Rightarrow> u8 list" where
  "program_address_bytes seeds program_id = concat seeds @ key_bytes program_id @ PDA_MARKER"

definition seeds_ok :: "u8 list list \<Rightarrow> bool" where
  "seeds_ok seeds \<longleftrightarrow> length seeds \<le> 16 \<and> (\<forall>seed \<in> set seeds. length seed \<le> 32)"

lemma create_program_address_eq:
  "create_program_address sha256 on_curve seeds program_id =
     (if seeds_ok seeds
      then let k = sha256 (program_address_bytes seeds program_id) in if on_curve k then Err PK_InvalidSeeds else Ok k
      else Err PK_MaxSeedLengthExceeded)"
proof -
  have "fold hasher_hash seeds hasher_default = concat seeds"
    using hasher_hashv_concat [of seeds "[]"] by (simp add: hasher_hashv_def hasher_default_def)
  moreover have "list_ex (\<lambda>seed. 32 < length seed) seeds \<longleftrightarrow> \<not> (\<forall>seed \<in> set seeds. length seed \<le> 32)"
    by (auto simp: list_ex_iff not_le)
  ultimately show ?thesis
    by (simp add: create_program_address_def seeds_ok_def MAX_SEEDS_def MAX_SEED_LEN_def hasher_result_def not_less
        hasher_hashv_concat program_address_bytes_def Let_def)
qed

lemma create_with_seed_Ok:
  assumes "create_with_seed sha256 base seed owner = Ok k"
  shows "k = sha256 (key_bytes base @ seed @ key_bytes owner)" "length seed \<le> 32"
    "drop (length (key_bytes base @ seed @ key_bytes owner) - 21) (key_bytes base @ seed @ key_bytes owner) \<noteq> PDA_MARKER"
  using assms
  by (auto simp: create_with_seed_def MAX_SEED_LEN_def PDA_MARKER_def hashv_concat Let_def split: if_splits)

text \<open>
  C39: Addresses that are derived with a seed for some owner are apart from the addresses of programs:
  an address of both kinds is a collision of the hash function, two different inputs with the same hash.
\<close>

theorem create_with_seed_separated:
  assumes "create_with_seed sha256 base seed owner = Ok address"
    and "create_program_address sha256 on_curve seeds program_id = Ok address"
  shows "sha256 (key_bytes base @ seed @ key_bytes owner) = sha256 (concat seeds @ key_bytes program_id @ PDA_MARKER) \<and>
    key_bytes base @ seed @ key_bytes owner \<noteq> concat seeds @ key_bytes program_id @ PDA_MARKER"
proof
  have "address = sha256 (program_address_bytes seeds program_id)"
    using assms(2) by (simp add: create_program_address_eq Let_def split: if_splits)
  then show "sha256 (key_bytes base @ seed @ key_bytes owner) = sha256 (concat seeds @ key_bytes program_id @ PDA_MARKER)"
    using create_with_seed_Ok(1) [OF assms(1)] by (simp add: program_address_bytes_def)
  have "drop (length (xs @ PDA_MARKER) - 21) (xs @ PDA_MARKER) = PDA_MARKER" for xs
    by (simp add: PDA_MARKER_def)
  from this [of "concat seeds @ key_bytes program_id"]
  show "key_bytes base @ seed @ key_bytes owner \<noteq> concat seeds @ key_bytes program_id @ PDA_MARKER"
    using create_with_seed_Ok(3) [OF assms(1)] by (metis append.assoc)
qed

section \<open>The search for a bump seed\<close>

definition bump_address :: "(u8 list \<Rightarrow> Hash) \<Rightarrow> u8 list list \<Rightarrow> Pubkey \<Rightarrow> u8 \<Rightarrow> Pubkey" where
  "bump_address sha256 seeds program_id bump = sha256 (program_address_bytes (seeds @ [[bump]]) program_id)"

lemma u8_le_255: "b \<le> 255" for b :: u8
  using unsigned_less [of b, where ?'a = nat] by (simp add: word_le_nat_alt)

lemma bump_seed_loop_bad:
  "\<not> seeds_ok (seeds @ [[bump]]) \<Longrightarrow> bump_seed_loop sha256 on_curve seeds program_id n bump = None"
  by (cases n) (simp_all add: create_program_address_eq)

lemma seeds_ok_bump: "seeds_ok (seeds @ [[bump]]) \<longleftrightarrow> length seeds < 16 \<and> (\<forall>seed \<in> set seeds. length seed \<le> 32)"
  by (auto simp: seeds_ok_def)

lemma bump_seed_loop_iff:
  assumes "n \<le> unat bump" and "length seeds < 16 \<and> (\<forall>seed \<in> set seeds. length seed \<le> 32)"
  shows "bump_seed_loop sha256 on_curve seeds program_id n bump = Some (k, b) \<longleftrightarrow>
     unat bump < n + unat b \<and> b \<le> bump \<and> k = bump_address sha256 seeds program_id b \<and> \<not> on_curve k \<and>
     (\<forall>b'. b < b' \<and> b' \<le> bump \<longrightarrow> on_curve (bump_address sha256 seeds program_id b'))"
  using assms(1)
proof (induction n arbitrary: bump)
  case 0
  then show ?case by (auto simp: word_le_nat_alt)
next
  case (Suc n)
  let ?addr = "bump_address sha256 seeds program_id"
  have ok: "seeds_ok (seeds @ [[bump]])" using assms(2) by (simp add: seeds_ok_bump)
  have pred: "unat (bump - 1) = unat bump - 1" using Suc.prems by (simp add: unat_minus_one unat_eq_0 [symmetric])
  show ?case
  proof (cases "on_curve (?addr bump)")
    case False
    have "bump \<le> b \<and> b \<le> bump \<longleftrightarrow> b = bump" by auto
    moreover have "bump_seed_loop sha256 on_curve seeds program_id (Suc n) bump = Some (?addr bump, bump)"
      using False ok by (simp add: create_program_address_eq bump_address_def Let_def)
    ultimately show ?thesis using False by (auto simp: not_less order.order_iff_strict)
  next
    case True
    have "bump_seed_loop sha256 on_curve seeds program_id (Suc n) bump = bump_seed_loop sha256 on_curve seeds program_id n (bump - 1)"
      using True ok by (simp add: create_program_address_eq bump_address_def Let_def)
    moreover have le: "b' \<le> bump - 1 \<longleftrightarrow> b' \<le> bump \<and> b' \<noteq> bump" for b'
      using pred Suc.prems by (auto simp: word_le_nat_alt word_unat_eq_iff)
    ultimately show ?thesis using True Suc.IH [of "bump - 1"] Suc.prems pred by (auto simp: le)
  qed
qed

text \<open>
  C22: The search returns the program address of the greatest bump seed that is not on the curve, the
  seed 0 excepted; it fails exactly if there is none or the seeds break a limit.
\<close>

theorem try_find_program_address_iff:
  "try_find_program_address sha256 on_curve seeds program_id = Some (address, bump) \<longleftrightarrow>
     length seeds < 16 \<and> (\<forall>seed \<in> set seeds. length seed \<le> 32) \<and> bump \<noteq> 0 \<and>
     create_program_address sha256 on_curve (seeds @ [[bump]]) program_id = Ok address \<and>
     (\<forall>b > bump. create_program_address sha256 on_curve (seeds @ [[b]]) program_id = Err PK_InvalidSeeds)"
proof (cases "length seeds < 16 \<and> (\<forall>seed \<in> set seeds. length seed \<le> 32)")
  case True
  have max: "b \<le> 255" for b :: u8 by (rule u8_le_255)
  have "0 < unat bump \<longleftrightarrow> bump \<noteq> 0" by (simp add: unat_gt_0)
  then show ?thesis
    using True bump_seed_loop_iff [OF _ True, of 255 255 sha256 on_curve program_id address bump]
    by (auto simp: try_find_program_address_def create_program_address_eq seeds_ok_bump bump_address_def Let_def max)
next
  case False
  then have "\<not> seeds_ok (seeds @ [[255]])" by (simp add: seeds_ok_bump)
  then show ?thesis using False bump_seed_loop_bad [of seeds 255] by (auto simp: try_find_program_address_def)
qed

text \<open>A hash function for the examples: the first byte.\<close>

definition example_hash :: "u8 list \<Rightarrow> Hash" where
  "example_hash bytes = (case bytes of [] \<Rightarrow> 0 | b # _ \<Rightarrow> ucast b)"

lemma key_bytes_0: "key_bytes 0 = replicate 32 0"
  by (simp add: key_bytes_def map_replicate_const)

theorem create_with_seed_separated_witness:
  "\<exists>base seed owner seeds program_id address.
     create_with_seed (\<lambda>_. 7) base seed owner = Ok address \<and>
     create_program_address (\<lambda>_. 7) (\<lambda>_. False) seeds program_id = Ok address \<and>
     key_bytes base @ seed @ key_bytes owner \<noteq> concat seeds @ key_bytes program_id @ PDA_MARKER"
proof -
  have "hd (replicate 21 0) \<noteq> hd PDA_MARKER" by (simp add: PDA_MARKER_def hd_replicate)
  then have "replicate 21 0 \<noteq> PDA_MARKER" by metis
  then have 1: "create_with_seed (\<lambda>_. 7) 0 [1] 0 = Ok 7"
    by (simp add: create_with_seed_def MAX_SEED_LEN_def PDA_MARKER_def key_bytes_0 hashv_concat)
  have 2: "create_program_address (\<lambda>_. 7) (\<lambda>_. False) [[2]] 0 = Ok 7"
    by (simp add: create_program_address_eq seeds_ok_def)
  show ?thesis using 1 2 create_with_seed_separated [OF 1 2] by blast
qed

theorem try_find_program_address_iff_witness:
  "try_find_program_address example_hash (\<lambda>k. k = example_hash (program_address_bytes [[255]] 0)) [] 0 =
     Some (example_hash (program_address_bytes [[254]] 0), 254)"
proof -
  have "b = 255" if "254 < b" for b :: u8
    using that u8_le_255 [of b] by (simp add: word_less_nat_alt word_le_nat_alt word_unat_eq_iff)
  then show ?thesis
    by (subst try_find_program_address_iff)
      (auto simp: create_program_address_eq seeds_ok_def program_address_bytes_def key_bytes_0 PDA_MARKER_def example_hash_def)
qed

end
