(* ===== verification/Nonce.thy ===== *)
theory Nonce
  imports Reentrancy Pubkey_Seed
begin

text \<open>
  Durable nonces: \<open>sdk/program/src/nonce/state\<close> and the handlers of the nonce instructions in
  \<open>programs/system/src/system_instruction.rs\<close>. SHA-256 is a parameter.
\<close>

section \<open>Nonce state\<close>

type_synonym DurableNonce = Hash

text \<open>\<open>"DURABLE_NONCE"\<close>\<close>

definition DURABLE_NONCE_HASH_PREFIX :: "u8 list" where
  "DURABLE_NONCE_HASH_PREFIX = [68, 85, 82, 65, 66, 76, 69, 95, 78, 79, 78, 67, 69]"

definition durable_nonce_from_blockhash :: "(u8 list \<Rightarrow> Hash) \<Rightarrow> Hash \<Rightarrow> DurableNonce" where
  "durable_nonce_from_blockhash sha256 blockhash = hashv sha256 [DURABLE_NONCE_HASH_PREFIX, key_bytes blockhash]"

record NonceData =
  nd_authority :: Pubkey
  nd_durable_nonce :: DurableNonce
  nd_fee_calculator :: FeeCalculator

definition nonce_data_new :: "Pubkey \<Rightarrow> DurableNonce \<Rightarrow> u64 \<Rightarrow> NonceData" where
  "nonce_data_new authority durable_nonce lamports_per_signature =
     \<lparr>nd_authority = authority, nd_durable_nonce = durable_nonce,
      nd_fee_calculator = \<lparr>fc_lamports_per_signature = lamports_per_signature\<rparr>\<rparr>"

definition nd_blockhash :: "NonceData \<Rightarrow> Hash" where
  "nd_blockhash nd = nd_durable_nonce nd"

definition nd_get_lamports_per_signature :: "NonceData \<Rightarrow> u64" where
  "nd_get_lamports_per_signature nd = fc_lamports_per_signature (nd_fee_calculator nd)"

datatype NonceState = Uninitialized | Initialized NonceData

datatype NonceVersions = LegacyNonce NonceState | CurrentNonce NonceState

definition nonce_versions_new :: "NonceState \<Rightarrow> NonceVersions" where
  "nonce_versions_new state = CurrentNonce state"

fun nonce_state :: "NonceVersions \<Rightarrow> NonceState" where
  "nonce_state (LegacyNonce state) = state"
| "nonce_state (CurrentNonce state) = state"

fun verify_recent_blockhash :: "NonceVersions \<Rightarrow> Hash \<Rightarrow> NonceData option" where
  "verify_recent_blockhash (LegacyNonce state) recent_blockhash = None"
| "verify_recent_blockhash (CurrentNonce Uninitialized) recent_blockhash = None"
| "verify_recent_blockhash (CurrentNonce (Initialized nd)) recent_blockhash =
     (if recent_blockhash = nd_blockhash nd then Some nd else None)"

fun nonce_upgrade :: "(u8 list \<Rightarrow> Hash) \<Rightarrow> NonceVersions \<Rightarrow> NonceVersions option" where
  "nonce_upgrade sha256 (LegacyNonce Uninitialized) = None"
| "nonce_upgrade sha256 (LegacyNonce (Initialized nd)) =
     Some (CurrentNonce (Initialized (nd\<lparr>nd_durable_nonce := durable_nonce_from_blockhash sha256 (nd_blockhash nd)\<rparr>)))"
| "nonce_upgrade sha256 (CurrentNonce state) = None"

datatype AuthorizeNonceError = AN_MissingRequiredSignature Pubkey | AN_Uninitialized

definition nonce_authorize :: "NonceVersions \<Rightarrow> Pubkey set \<Rightarrow> Pubkey \<Rightarrow> (NonceVersions, AuthorizeNonceError) result" where
  "nonce_authorize versions signers authority =
     (case nonce_state versions of
        Uninitialized \<Rightarrow> Err AN_Uninitialized
      | Initialized nd \<Rightarrow>
          if nd_authority nd \<notin> signers then Err (AN_MissingRequiredSignature (nd_authority nd))
          else
            let nd' = nonce_data_new authority (nd_durable_nonce nd) (nd_get_lamports_per_signature nd);
                state = Initialized nd'
            in Ok (case versions of LegacyNonce _ \<Rightarrow> LegacyNonce state | CurrentNonce _ \<Rightarrow> CurrentNonce state))"

section \<open>Errors of the system program\<close>

datatype SystemError =
    AccountAlreadyInUse
  | ResultWithNegativeLamports
  | SE_InvalidProgramId
  | InvalidAccountDataLength
  | SE_MaxSeedLengthExceeded
  | AddressWithSeedMismatch
  | NonceNoRecentBlockhashes
  | NonceBlockhashNotExpired
  | NonceUnexpectedBlockhashValue

fun system_error_to_u64 :: "SystemError \<Rightarrow> u64" where
  "system_error_to_u64 AccountAlreadyInUse = 0"
| "system_error_to_u64 ResultWithNegativeLamports = 1"
| "system_error_to_u64 SE_InvalidProgramId = 2"
| "system_error_to_u64 InvalidAccountDataLength = 3"
| "system_error_to_u64 SE_MaxSeedLengthExceeded = 4"
| "system_error_to_u64 AddressWithSeedMismatch = 5"
| "system_error_to_u64 NonceNoRecentBlockhashes = 6"
| "system_error_to_u64 NonceBlockhashNotExpired = 7"
| "system_error_to_u64 NonceUnexpectedBlockhashValue = 8"

definition system_error_into :: "SystemError \<Rightarrow> InstructionError" where
  "system_error_into e = instruction_error_from (system_error_to_u64 e)"

section \<open>The instructions\<close>

text \<open>What the handlers use of code outside the repository.\<close>

record NonceExternals =
  ne_sha256 :: "u8 list \<Rightarrow> Hash"
  ne_bincode :: "NonceVersions bincode"

text \<open>Reading the account while it is borrowed.\<close>

abbreviation reads :: "(TransactionContext \<Rightarrow> ('a, InstructionError) result) \<Rightarrow> (TransactionContext, InstructionError, 'a) exec" where
  "reads f \<equiv> \<lambda>tc. (f tc, tc)"

definition advance_nonce_account ::
  "NonceExternals \<Rightarrow> BorrowedAccount \<Rightarrow> Pubkey set \<Rightarrow> InvokeContext \<Rightarrow> (TransactionContext, InstructionError, unit) exec" where
  "advance_nonce_account ne account signers ivc =
     bind_exec (require (is_writable account) InvalidArgument) (\<lambda>_.
     bind_exec (reads (get_state (ne_bincode ne) account)) (\<lambda>state.
     case nonce_state state of
       Initialized nd \<Rightarrow>
         bind_exec (require (nd_authority nd \<in> signers) MissingRequiredSignature) (\<lambda>_.
         let next_durable_nonce = durable_nonce_from_blockhash (ne_sha256 ne) (ivc_blockhash ivc)
         in bind_exec (require (nd_durable_nonce nd \<noteq> next_durable_nonce) (system_error_into NonceBlockhashNotExpired)) (\<lambda>_.
            let new_data = nonce_data_new (nd_authority nd) next_durable_nonce (ivc_lamports_per_signature ivc)
            in set_state (ne_bincode ne) account (nonce_versions_new (Initialized new_data))))
     | Uninitialized \<Rightarrow> throw InvalidAccountData))"

text \<open>The signer that a withdrawal needs, after the checks of the balance.\<close>

definition withdraw_nonce_signer ::
  "NonceExternals \<Rightarrow> BorrowedAccount \<Rightarrow> u64 \<Rightarrow> Rent \<Rightarrow> InvokeContext \<Rightarrow> NonceVersions \<Rightarrow> (TransactionContext, InstructionError, Pubkey) exec" where
  "withdraw_nonce_signer ne from lamports rent ivc state =
     (case nonce_state state of
        Uninitialized \<Rightarrow>
          bind_exec (gets (get_lamports from)) (\<lambda>from_lamports.
          bind_exec (require (\<not> from_lamports < lamports) InsufficientFunds) (\<lambda>_.
          reads (get_key from)))
      | Initialized nd \<Rightarrow>
          bind_exec (gets (get_lamports from)) (\<lambda>from_lamports.
          bind_exec
            (if lamports = from_lamports
             then
               bind_exec (require (nd_durable_nonce nd \<noteq> durable_nonce_from_blockhash (ne_sha256 ne) (ivc_blockhash ivc))
                 (system_error_into NonceBlockhashNotExpired)) (\<lambda>_.
               set_state (ne_bincode ne) from (nonce_versions_new Uninitialized))
             else
               bind_exec (gets (\<lambda>tc. minimum_balance rent (length (get_data from tc)))) (\<lambda>min_balance.
               bind_exec (lift (ok_or (checked_add lamports min_balance) InsufficientFunds)) (\<lambda>amount.
               require (\<not> from_lamports < amount) InsufficientFunds))) (\<lambda>_.
          ret (nd_authority nd))))"

definition withdraw_nonce_account ::
  "NonceExternals \<Rightarrow> IndexOfAccount \<Rightarrow> u64 \<Rightarrow> IndexOfAccount \<Rightarrow> Rent \<Rightarrow> Pubkey set \<Rightarrow> InvokeContext \<Rightarrow> InstructionContext \<Rightarrow>
   (TransactionContext, InstructionError, unit) exec" where
  "withdraw_nonce_account ne from_account_index lamports to_account_index rent signers ivc ic =
     bind_exec
       (with_instruction_account ic from_account_index (\<lambda>from.
          bind_exec (require (is_writable from) InvalidArgument) (\<lambda>_.
          bind_exec (reads (get_state (ne_bincode ne) from)) (\<lambda>state.
          bind_exec (withdraw_nonce_signer ne from lamports rent ivc state) (\<lambda>signer.
          bind_exec (require (signer \<in> signers) MissingRequiredSignature) (\<lambda>_.
          checked_sub_lamports from lamports)))))) (\<lambda>_.
     with_instruction_account ic to_account_index (\<lambda>to. checked_add_lamports to lamports))"

definition initialize_nonce_account ::
  "NonceExternals \<Rightarrow> BorrowedAccount \<Rightarrow> Pubkey \<Rightarrow> Rent \<Rightarrow> InvokeContext \<Rightarrow> (TransactionContext, InstructionError, unit) exec" where
  "initialize_nonce_account ne account nonce_authority rent ivc =
     bind_exec (require (is_writable account) InvalidArgument) (\<lambda>_.
     bind_exec (reads (get_state (ne_bincode ne) account)) (\<lambda>state.
     case nonce_state state of
       Uninitialized \<Rightarrow>
         bind_exec (gets (\<lambda>tc. minimum_balance rent (length (get_data account tc)))) (\<lambda>min_balance.
         bind_exec (gets (get_lamports account)) (\<lambda>lamports.
         bind_exec (require (\<not> lamports < min_balance) InsufficientFunds) (\<lambda>_.
         let durable_nonce = durable_nonce_from_blockhash (ne_sha256 ne) (ivc_blockhash ivc);
             nd = nonce_data_new nonce_authority durable_nonce (ivc_lamports_per_signature ivc)
         in set_state (ne_bincode ne) account (nonce_versions_new (Initialized nd)))))
     | Initialized _ \<Rightarrow> throw InvalidAccountData))"

definition authorize_nonce_account ::
  "NonceExternals \<Rightarrow> BorrowedAccount \<Rightarrow> Pubkey \<Rightarrow> Pubkey set \<Rightarrow> (TransactionContext, InstructionError, unit) exec" where
  "authorize_nonce_account ne account nonce_authority signers =
     bind_exec (require (is_writable account) InvalidArgument) (\<lambda>_.
     bind_exec (reads (get_state (ne_bincode ne) account)) (\<lambda>versions.
     case nonce_authorize versions signers nonce_authority of
       Ok versions' \<Rightarrow> set_state (ne_bincode ne) account versions'
     | Err AN_Uninitialized \<Rightarrow> throw InvalidAccountData
     | Err (AN_MissingRequiredSignature account_authority) \<Rightarrow> throw MissingRequiredSignature
     | Panic \<Rightarrow> panic))"

end
