(* ===== verification/Account_Authority.thy ===== *)
theory Account_Authority
  imports Cross_Program
begin

text \<open>
  Which accounts a program may spend from, give away or write to. A handler keeps a guarantee under a
  condition on the transaction it starts in, such as the content of the accounts that it reads.
\<close>

section \<open>Guarantees under a condition\<close>

definition keeps :: "('s \<Rightarrow> bool) \<Rightarrow> ('s \<Rightarrow> 's \<Rightarrow> bool) \<Rightarrow> ('s, 'e, 'a) exec \<Rightarrow> bool" where
  "keeps P R m \<longleftrightarrow> (\<forall>s. P s \<longrightarrow> R s (snd (m s)))"

named_theorems keeps_intro "composition of programs that keep a guarantee under a condition"

lemma keepsD: "keeps P R m \<Longrightarrow> P s \<Longrightarrow> m s = (r, s') \<Longrightarrow> R s s'"
  by (metis keeps_def snd_conv)

lemma preserves_iff: "preserves R m \<longleftrightarrow> (\<forall>s. R s (snd (m s)))"
  unfolding preserves_def by (metis prod.collapse snd_conv)

lemma preservesI: "(\<And>s. R s (snd (m s))) \<Longrightarrow> preserves R m"
  by (simp add: preserves_iff)

lemma preserves_keeps: "keeps (\<lambda>_. True) R m \<Longrightarrow> preserves R m"
  by (simp add: keeps_def preserves_iff)

lemma keeps_preserves: "preserves R m \<Longrightarrow> keeps P R m"
  unfolding preserves_def keeps_def by (metis prod.collapse)

lemma keeps_weaken: "keeps P R m \<Longrightarrow> (\<And>s. P' s \<Longrightarrow> P s) \<Longrightarrow> keeps P' R m"
  by (simp add: keeps_def)

lemma keeps_if [keeps_intro]: "(c \<Longrightarrow> keeps P R m) \<Longrightarrow> (\<not> c \<Longrightarrow> keeps P R n) \<Longrightarrow> keeps P R (if c then m else n)"
  by simp

context transition_guarantee
begin

lemma keeps_read: "(\<And>s. snd (m s) = s) \<Longrightarrow> keeps P R m"
  by (simp add: keeps_def R_refl)

lemma keeps_ends [keeps_intro]: "keeps P R (ret x)" "keeps P R (throw e)" "keeps P R panic"
  by (auto intro: keeps_read simp: exec_simps)

lemma keeps_reads_bind [keeps_intro]:
  "(\<And>x. keeps (\<lambda>s. P s \<and> f s = Ok x) R (g x)) \<Longrightarrow> keeps P R (bind_exec (\<lambda>s. (f s, s)) g)"
  unfolding keeps_def bind_exec_def by (auto simp: R_refl split: result.split)

lemma keeps_gets_bind [keeps_intro]:
  "(\<And>x. keeps (\<lambda>s. P s \<and> f s = x) R (g x)) \<Longrightarrow> keeps P R (bind_exec (gets f) g)"
  unfolding keeps_def by (simp add: exec_simps)

lemma keeps_lift_bind [keeps_intro]:
  "(\<And>x. r = Ok x \<Longrightarrow> keeps P R (g x)) \<Longrightarrow> keeps P R (bind_exec (lift r) g)"
  unfolding keeps_def bind_exec_def by (auto simp: R_refl lift_def split: result.split)

lemma keeps_require_bind [keeps_intro]:
  "(c \<Longrightarrow> keeps P R (g ())) \<Longrightarrow> keeps P R (bind_exec (require c e) g)"
  unfolding keeps_def bind_exec_def require_def by (auto simp: R_refl ret_def throw_def)

lemma keeps_check [keeps_intro]:
  "(c \<Longrightarrow> keeps P R (g ())) \<Longrightarrow>
   keeps P R (bind_exec (if c then ret () else bind_exec (\<lambda>s. (f s, s)) (\<lambda>_. throw e)) g)"
  by (cases c) (auto simp: keeps_def bind_exec_def ret_def throw_def R_refl split: result.split)

text \<open>
  After a first part the second one runs under what is known of its value and of the state it leaves; a first
  part that may have changed anything leaves only what is known of its value.
\<close>

lemma keeps_bind_state:
  assumes m: "keeps P R m" and Q: "\<And>s x s'. P s \<Longrightarrow> m s = (Ok x, s') \<Longrightarrow> Q x s'" and g: "\<And>x. keeps (Q x) R (g x)"
  shows "keeps P R (bind_exec m g)"
  unfolding keeps_def
proof (intro allI impI)
  fix s assume s: "P s"
  obtain r s1 where run: "m s = (r, s1)" by fastforce
  have R1: "R s s1" using keepsD [OF m s run] .
  show "R s (snd (bind_exec m g s))"
  proof (cases r)
    case (Ok x)
    then have "R s1 (snd (g x s1))" using Q [OF s] g run unfolding keeps_def by blast
    then show ?thesis using Ok run R_trans [OF R1] by (simp add: bind_exec_def)
  qed (use run R1 in \<open>simp_all add: bind_exec_def\<close>)
qed

lemma keeps_bind:
  assumes "keeps P R m" and "\<And>s x. P s \<Longrightarrow> fst (m s) = Ok x \<Longrightarrow> Q x" and "\<And>x. Q x \<Longrightarrow> preserves R (g x)"
  shows "keeps P R (bind_exec m g)"
  using assms(3) by (intro keeps_bind_state [OF assms(1), where Q = "\<lambda>x _. Q x"]) (auto simp: keeps_def preserves_iff intro: assms(2))

lemma keeps_then [keeps_intro]:
  "keeps P R m \<Longrightarrow> preserves R n \<Longrightarrow> keeps P R (bind_exec m (\<lambda>_. n))"
  by (rule keeps_bind [where Q = "\<lambda>_. True"]) simp_all

end

text \<open>Conditions that do not depend on what is borrowed.\<close>

definition borrow_free :: "(TransactionContext \<Rightarrow> bool) \<Rightarrow> bool" where
  "borrow_free P \<longleftrightarrow> (\<forall>tc index f. P tc \<longrightarrow> P (set_cell index (\<lambda>c. c\<lparr>rc_borrow := f\<rparr>) tc))"

context borrow_guarantee
begin

lemma keeps_with_account:
  assumes P: "borrow_free P" and small: "ic_small ic"
    and f: "\<And>b. valid_handle ic b \<Longrightarrow>
      get_index_of_instruction_account_in_transaction ic i = Ok (ba_index_in_transaction b) \<Longrightarrow>
      keeps (\<lambda>tc. P tc \<and> unat (ba_index_in_transaction b) < length (cells tc)) R (f b)"
  shows "keeps P R (with_instruction_account ic i f)"
  unfolding keeps_def
proof (intro allI impI)
  fix tc assume tc: "P tc"
  show "R tc (snd (with_instruction_account ic i f tc))"
  proof (cases "\<exists>index c. get_index_of_instruction_account_in_transaction ic i = Ok index \<and>
      ta_get (tc_accounts tc) index = Some c \<and> can_borrow_mut c")
    case True
    then obtain index where index: "get_index_of_instruction_account_in_transaction ic i = Ok index" by blast
    define b where "b = \<lparr>ba_instruction_context = ic, ba_index_in_transaction = index,
      ba_index_in_instruction = saturating_add (get_number_of_program_accounts ic) i\<rparr>"
    define tc1 where "tc1 = set_cell index (\<lambda>c. c\<lparr>rc_borrow := Writing\<rparr>) tc"
    have "valid_handle ic b" unfolding b_def using small index by (rule is_writable_handle)
    moreover have "P tc1" using P tc by (simp add: borrow_free_def tc1_def)
    moreover have "unat index < length (cells tc1)"
      using True index by (auto simp: tc1_def cells_set_cell ta_get_def vec_get_Some_iff)
    ultimately have "R tc1 (snd (f b tc1))" using f [of b] index by (simp add: b_def keeps_def)
    then have "R tc (snd (and_finally (f b) (drop_account b) tc1))"
      using R_trans [OF R_flag, of index Writing tc] R_trans [OF _ R_drop] by (auto simp: and_finally_def tc1_def split: prod.split)
    then show ?thesis
      using True by (auto simp: with_instruction_account_def try_borrow_instruction_account_def
          try_borrow_account_def index b_def tc1_def exec_simps)
  next
    case False
    then have "snd (with_instruction_account ic i f tc) = tc"
      by (cases "get_index_of_instruction_account_in_transaction ic i")
        (auto simp: with_instruction_account_def try_borrow_instruction_account_def
          try_borrow_account_def bind_exec_def exec_simps split: option.splits)
    then show ?thesis by (simp add: R_refl)
  qed
qed

end

section \<open>Spending, giving away and writing\<close>

text \<open>
  Only accounts in \<open>L\<close> lose lamports, only accounts in \<open>W\<close> change their owner and only accounts in \<open>D\<close>
  change their data.
\<close>

definition obeys :: "nat set \<Rightarrow> nat set \<Rightarrow> nat set \<Rightarrow> TransactionContext \<Rightarrow> TransactionContext \<Rightarrow> bool" where
  "obeys L W D tc tc' \<longleftrightarrow>
     tc_account_keys tc' = tc_account_keys tc \<and> length (cells tc') = length (cells tc) \<and>
     (\<forall>i < length (cells tc).
        (i \<notin> L \<longrightarrow> acc_lamports (rc_value (cells tc ! i)) \<le> acc_lamports (rc_value (cells tc' ! i))) \<and>
        (i \<notin> W \<longrightarrow> acc_owner (rc_value (cells tc' ! i)) = acc_owner (rc_value (cells tc ! i))) \<and>
        (i \<notin> D \<longrightarrow> acc_data (rc_value (cells tc' ! i)) = acc_data (rc_value (cells tc ! i))))"

lemma obeys_trans: "obeys L W D tc tc' \<Longrightarrow> obeys L W D tc' tc'' \<Longrightarrow> obeys L W D tc tc''"
  unfolding obeys_def by (auto intro: order_trans)

lemma obeys_same:
  assumes "tc_account_keys tc' = tc_account_keys tc" and "map rc_value (cells tc') = map rc_value (cells tc)"
  shows "obeys L W D tc tc'"
proof -
  have len: "length (cells tc') = length (cells tc)" using assms(2) by (metis length_map)
  then have "rc_value (cells tc' ! i) = rc_value (cells tc ! i)" if "i < length (cells tc)" for i
    using assms(2) that by (metis nth_map)
  then show ?thesis using assms(1) len by (simp add: obeys_def)
qed

lemma values_set_flag: "map rc_value (cells (set_cell index (\<lambda>c. c\<lparr>rc_borrow := f\<rparr>) tc)) = map rc_value (cells tc)"
  by (simp add: cells_set_cell map_update_same)

lemma keys_set_cell [simp]: "tc_account_keys (set_cell index f tc) = tc_account_keys tc"
  by (simp add: set_cell_def Let_def)

interpretation obeys: borrow_guarantee ic "obeys L W D" for ic L W D
proof unfold_locales
  show "obeys L W D tc tc" for tc by (simp add: obeys_same)
  show "obeys L W D tc tc' \<Longrightarrow> obeys L W D tc' tc'' \<Longrightarrow> obeys L W D tc tc''" for tc tc' tc''
    by (rule obeys_trans)
  show "obeys L W D tc (set_cell index (\<lambda>c. c\<lparr>rc_borrow := f\<rparr>) tc)" for tc index f
    by (rule obeys_same) (simp_all add: values_set_flag)
qed

lemma obeys_update:
  assumes "let a = ba_account b tc; i = unat (ba_index_in_transaction b) in
     (i \<in> L \<or> acc_lamports a \<le> acc_lamports (f a)) \<and> (i \<in> W \<or> acc_owner (f a) = acc_owner a) \<and>
     (i \<in> D \<or> acc_data (f a) = acc_data a)"
  shows "obeys L W D tc (update_account b f tc)"
proof -
  have "rc_value (cells (update_account b f tc) ! i) =
      (if i = unat (ba_index_in_transaction b) then f (ba_account b tc) else rc_value (cells tc ! i))"
    if "i < length (cells tc)" for i
    using that by (simp add: update_account_def cells_set_cell ba_account_def)
  then show ?thesis
    using assms by (auto simp: obeys_def Let_def ba_account_def) (simp_all add: update_account_def cells_set_cell)
qed

lemma obeys_touch_update:
  assumes step: "let a = ba_account b tc; i = unat (ba_index_in_transaction b) in
     (i \<in> L \<or> acc_lamports a \<le> acc_lamports (f a)) \<and> (i \<in> W \<or> acc_owner (f a) = acc_owner a) \<and>
     (i \<in> D \<or> acc_data (f a) = acc_data a)"
    and g: "\<And>tc. cells (g tc) = cells tc" "\<And>tc. tc_account_keys (g tc) = tc_account_keys tc"
  shows "obeys L W D tc (snd (bind_exec (touch b) (\<lambda>_. modify (\<lambda>tc. update_account b f (g tc))) tc))"
proof -
  obtain r tc1 where t: "touch b tc = (r, tc1)" by fastforce
  note frame = touch_frame(1,2) [OF t]
  have same: "obeys L W D tc tc1" "obeys L W D tc (g tc1)"
    using frame g by (auto intro!: obeys_same simp: same_frame_def)
  have "ba_account b (g tc1) = ba_account b tc" using g frame by (simp add: ba_account_def)
  then have "obeys L W D (g tc1) (update_account b f (g tc1))" using step by (intro obeys_update) simp
  then show ?thesis using same obeys_trans [OF same(2)] t by (cases r) (simp_all add: bind_exec_def modify_def)
qed

section \<open>The operations on accounts\<close>

lemma obeys_set_lamports:
  assumes "unat (ba_index_in_transaction b) \<in> L \<or> get_lamports b tc \<le> l"
  shows "obeys L W D tc (snd (set_lamports b l tc))"
  using assms obeys_touch_update [of b tc L "\<lambda>a. a\<lparr>acc_lamports := l\<rparr>" W D "\<lambda>tc. tc"]
  by (simp add: set_lamports_def obeys.R_refl get_lamports_def)

lemma obeys_add_lamports [preserves_intro]: "preserves (obeys L W D) (checked_add_lamports b l)"
proof (rule preservesI)
  fix tc show "obeys L W D tc (snd (checked_add_lamports b l tc))"
  proof (cases "checked_add (get_lamports b tc) l")
    case (Some x)
    then have "get_lamports b tc \<le> x" by (simp add: checked_add_Some_iff word_le_nat_alt)
    then show ?thesis using Some obeys_set_lamports [of b L tc x] by (simp add: checked_add_lamports_def)
  qed (simp add: checked_add_lamports_def obeys.R_refl)
qed

lemma obeys_sub_lamports:
  assumes "unat (ba_index_in_transaction b) \<in> L"
  shows "preserves (obeys L W D) (checked_sub_lamports b l)"
  by (rule preservesI) (simp add: checked_sub_lamports_def obeys_set_lamports assms obeys.R_refl split: option.split)

lemma obeys_set_owner:
  assumes "unat (ba_index_in_transaction b) \<in> W"
  shows "preserves (obeys L W D) (set_owner b owner)"
  using assms obeys_touch_update [of b _ L "\<lambda>a. a\<lparr>acc_owner := owner\<rparr>" W D "\<lambda>tc. tc"]
  by (intro preservesI) (simp add: set_owner_def obeys.R_refl)

lemma obeys_set_data_length:
  assumes "unat (ba_index_in_transaction b) \<in> D"
  shows "preserves (obeys L W D) (set_data_length b n)"
  using assms obeys_touch_update [of b _ L "acc_resize n 0" W D "update_accounts_resize_delta b n"]
  by (intro preservesI)
    (simp add: set_data_length_def bind_exec_def [of "\<lambda>tc. (_ tc, tc)"] obeys.R_refl update_accounts_resize_delta_def
      acc_resize_def split: result.split)

lemma obeys_with_data_mut:
  assumes "unat (ba_index_in_transaction b) \<in> D"
  shows "preserves (obeys L W D) (with_data_mut b m)"
proof (rule preservesI)
  fix tc
  obtain r tc1 where t: "touch b tc = (r, tc1)" by fastforce
  have same: "obeys L W D tc tc1" using touch_frame(1,2) [OF t] by (auto intro!: obeys_same simp: same_frame_def)
  have "obeys L W D tc1 (update_account b (\<lambda>a. a\<lparr>acc_data := d\<rparr>) tc1)" for d
    using assms by (intro obeys_update) simp
  then show "obeys L W D tc (snd (with_data_mut b m tc))"
    using same obeys_trans [OF same] t
    by (auto simp: with_data_mut_def bind_exec_def obeys.R_refl split: result.split prod.split)
qed

lemma obeys_set_state:
  "unat (ba_index_in_transaction b) \<in> D \<Longrightarrow> preserves (obeys L W D) (set_state bc b state)"
  unfolding set_state_def by (rule obeys_with_data_mut)

end
