(* ===== verification/Account_Runs.thy ===== *)
theory Account_Runs
  imports Account_Authority
begin

text \<open>
  Exact runs of the operations on accounts: how the values of the accounts change when a borrow is
  granted and the checks of an operation pass.
\<close>

section \<open>Values and borrows\<close>

abbreviation contents :: "TransactionContext \<Rightarrow> AccountSharedData list" where
  "contents tc \<equiv> map rc_value (cells tc)"

abbreviation borrows :: "TransactionContext \<Rightarrow> BorrowFlag list" where
  "borrows tc \<equiv> map rc_borrow (cells tc)"

text \<open>Everything but the values of the accounts, what is borrowed and which accounts were touched.\<close>

definition intact :: "TransactionContext \<Rightarrow> TransactionContext \<Rightarrow> bool" where
  "intact tc tc' \<longleftrightarrow> same_frame tc tc' \<and>
     length (ta_touched_flags (tc_accounts tc')) = length (ta_touched_flags (tc_accounts tc))"

lemma intact_refl: "intact tc tc"
  by (simp add: intact_def same_frame_def)

lemma intact_trans: "intact tc tc' \<Longrightarrow> intact tc' tc'' \<Longrightarrow> intact tc tc''"
  by (simp add: intact_def same_frame_def)

lemma intact_set_cell: "intact tc (set_cell index f tc)"
  by (simp add: intact_def same_frame_def set_cell_def Let_def)

lemma contents_update_account:
  "contents (update_account b f tc) =
     (contents tc)[unat (ba_index_in_transaction b) := f (contents tc ! unat (ba_index_in_transaction b))]"
  by (cases "unat (ba_index_in_transaction b) < length (cells tc)")
    (simp_all add: update_account_def cells_set_cell map_update list_update_beyond)

lemma borrows_update_account: "borrows (update_account b f tc) = borrows tc"
  by (simp add: update_account_def cells_set_cell map_update_same)

lemma borrows_flag: "borrows (set_cell index (\<lambda>c. c\<lparr>rc_borrow := x\<rparr>) tc) = (borrows tc)[unat index := x]"
  by (simp add: cells_set_cell map_update)

lemma contents_drop: "contents (drop_account b tc) = contents tc"
  by (simp add: drop_account_def values_set_flag)

lemma borrows_drop: "borrows (drop_account b tc) = (borrows tc)[unat (ba_index_in_transaction b) := Unused]"
  by (simp add: drop_account_def borrows_flag)

lemma intact_drop: "intact tc (drop_account b tc)"
  by (simp add: drop_account_def intact_set_cell)

lemma ba_account_values:
  "unat (ba_index_in_transaction b) < length (cells tc) \<Longrightarrow> ba_account b tc = contents tc ! unat (ba_index_in_transaction b)"
  by (simp add: ba_account_def)

section \<open>Borrowing an account of the instruction\<close>

definition handle :: "InstructionContext \<Rightarrow> IndexOfAccount \<Rightarrow> IndexOfAccount \<Rightarrow> BorrowedAccount" where
  "handle ic i index = \<lparr>ba_instruction_context = ic, ba_index_in_transaction = index,
     ba_index_in_instruction = saturating_add (get_number_of_program_accounts ic) i\<rparr>"

text \<open>The account at an index of the instruction, free to be borrowed.\<close>

definition free_account :: "InstructionContext \<Rightarrow> TransactionContext \<Rightarrow> IndexOfAccount \<Rightarrow> IndexOfAccount \<Rightarrow> bool" where
  "free_account ic tc i index \<longleftrightarrow>
     get_index_of_instruction_account_in_transaction ic i = Ok index \<and> unat index < length (cells tc) \<and>
     borrows tc ! unat index = Unused \<and> length (ta_touched_flags (tc_accounts tc)) = length (cells tc)"

lemma handle_index [simp]: "ba_index_in_transaction (handle ic i index) = index"
  by (simp add: handle_def)

lemma handle_writable:
  assumes "ic_small ic" and "get_index_of_instruction_account_in_transaction ic i = Ok index"
  shows "is_writable (handle ic i index) \<longleftrightarrow> is_instruction_account_writable ic i = Ok True"
proof -
  have i: "unat i < length (ic_instruction_accounts ic)"
    using assms(2) by (auto simp: get_index_of_instruction_account_in_transaction_def vec_get_Some_iff)
  then show ?thesis
    using handle_position [OF assms(1) i]
    by (simp add: is_writable_def handle_def is_instruction_account_writable_def unwrap_or_default_def vec_get_def)
qed

lemma handle_owned:
  "is_owned_by_current_program (handle ic i index) tc \<longleftrightarrow>
     get_last_program_key ic tc = Ok (acc_owner (ba_account (handle ic i index) tc))"
  by (simp add: is_owned_iff handle_def get_owner_def)

lemma with_account_run:
  assumes "free_account ic tc i index"
  shows "with_instruction_account ic i f tc =
    (case f (handle ic i index) (set_cell index (\<lambda>c. c\<lparr>rc_borrow := Writing\<rparr>) tc) of
       (r, tc1) \<Rightarrow> (r, drop_account (handle ic i index) tc1))"
  using assms
  by (auto simp: with_instruction_account_def try_borrow_instruction_account_def try_borrow_account_def free_account_def
      ta_get_def vec_get_def can_borrow_mut_def bind_exec_def lift_def and_finally_def handle_def split: prod.splits)

text \<open>The transaction while the account is borrowed.\<close>

abbreviation lent :: "IndexOfAccount \<Rightarrow> TransactionContext \<Rightarrow> TransactionContext" where
  "lent index \<equiv> set_cell index (\<lambda>c. c\<lparr>rc_borrow := Writing\<rparr>)"

lemma lent_account:
  assumes small: "ic_small ic" and free: "free_account ic tc i index"
  shows "ba_account (handle ic i index) (lent index tc) = contents tc ! unat index"
    and "unat index < length (cells (lent index tc))"
    and "length (ta_touched_flags (tc_accounts (lent index tc))) = length (cells (lent index tc))"
    and "is_writable (handle ic i index) \<longleftrightarrow> is_instruction_account_writable ic i = Ok True"
    and "is_owned_by_current_program (handle ic i index) (lent index tc) \<longleftrightarrow>
      get_last_program_key ic tc = Ok (acc_owner (contents tc ! unat index))"
    and "contents (lent index tc) = contents tc" and "intact tc (lent index tc)"
proof -
  show b: "ba_account (handle ic i index) (lent index tc) = contents tc ! unat index"
    using free by (simp add: ba_account_def free_account_def cells_set_cell)
  show frame: "intact tc (lent index tc)" by (rule intact_set_cell)
  then show "unat index < length (cells (lent index tc))"
    and "length (ta_touched_flags (tc_accounts (lent index tc))) = length (cells (lent index tc))"
    using free by (auto simp: intact_def same_frame_def free_account_def)
  show "is_writable (handle ic i index) \<longleftrightarrow> is_instruction_account_writable ic i = Ok True"
    using handle_writable [OF small] free by (simp add: free_account_def)
  have "get_last_program_key ic (lent index tc) = get_last_program_key ic tc"
    using frame by (simp add: intact_def get_last_program_key_frame)
  then show "is_owned_by_current_program (handle ic i index) (lent index tc) \<longleftrightarrow>
      get_last_program_key ic tc = Ok (acc_owner (contents tc ! unat index))"
    using b by (simp add: handle_owned)
qed (rule values_set_flag)

text \<open>Giving the account back.\<close>

lemma borrows_returned:
  assumes "free_account ic tc i index" and "borrows tc1 = borrows (lent index tc)"
  shows "borrows (drop_account (handle ic i index) tc1) = borrows tc"
  using assms by (simp add: borrows_drop borrows_flag free_account_def list_update_same_conv)

lemma free_account_intact:
  "free_account ic tc i index \<Longrightarrow> intact tc tc' \<Longrightarrow> borrows tc' = borrows tc \<Longrightarrow> free_account ic tc' i index"
  by (simp add: free_account_def intact_def same_frame_def)

section \<open>Changing lamports\<close>

lemma set_lamports_run:
  assumes "is_writable b" and "\<not> acc_executable (ba_account b tc)"
    and "is_owned_by_current_program b tc \<or> acc_lamports (ba_account b tc) \<le> l"
    and "unat (ba_index_in_transaction b) < length (cells tc)"
    and "length (ta_touched_flags (tc_accounts tc)) = length (cells tc)"
  obtains tc' where "set_lamports b l tc = (Ok (), tc')" and "intact tc tc'" and "borrows tc' = borrows tc"
    and "contents tc' = (contents tc)[unat (ba_index_in_transaction b) := (ba_account b tc)\<lparr>acc_lamports := l\<rparr>]"
proof (cases "acc_lamports (ba_account b tc) = l")
  case True
  then have "(ba_account b tc)\<lparr>acc_lamports := l\<rparr> = contents tc ! unat (ba_index_in_transaction b)"
    using assms(4) by (simp add: ba_account_values)
  moreover have "set_lamports b l tc = (Ok (), tc)"
    using assms True by (auto simp: set_lamports_def get_lamports_def is_executable_def)
  ultimately show ?thesis using that [of tc] by (simp add: intact_refl)
next
  case False
  obtain r tc1 where t: "touch b tc = (r, tc1)" by fastforce
  then have ok: "r = Ok ()" and "length (ta_touched_flags (tc_accounts tc1)) = length (ta_touched_flags (tc_accounts tc))"
    using assms(4,5) by (auto simp: touch_def ta_touch_def)
  then have 1: "intact tc tc1" "cells tc1 = cells tc" using touch_frame(1,2) [OF t] by (simp_all add: intact_def)
  define tc2 where "tc2 = update_account b (\<lambda>a. a\<lparr>acc_lamports := l\<rparr>) tc1"
  have "set_lamports b l tc = (Ok (), tc2)"
    using assms False t ok by (auto simp: set_lamports_def get_lamports_def is_executable_def bind_exec_def modify_def tc2_def)
  moreover have "intact tc tc2"
    using intact_trans [OF 1(1)] by (simp add: tc2_def update_account_def intact_set_cell)
  moreover have "borrows tc2 = borrows tc" by (simp only: tc2_def borrows_update_account 1(2))
  moreover have "contents tc2 = (contents tc)[unat (ba_index_in_transaction b) := (ba_account b tc)\<lparr>acc_lamports := l\<rparr>]"
    unfolding tc2_def contents_update_account using assms(4) 1(2) by (simp add: ba_account_def)
  ultimately show ?thesis using that by blast
qed

section \<open>Storing a state\<close>

lemma set_state_Ok:
  assumes laws: "bincode_laws bc" and run: "set_state bc b state tc = (Ok (), tc')"
    and b: "unat (ba_index_in_transaction b) < length (cells tc)" and len: "length (get_data b tc) < 2 ^ 64"
  shows "get_state bc b tc' = Ok state"
    and "contents tc' = (contents tc)[unat (ba_index_in_transaction b) := (ba_account b tc)\<lparr>acc_data := get_data b tc'\<rparr>]"
    and "length (get_data b tc') = length (get_data b tc)"
proof -
  let ?i = "unat (ba_index_in_transaction b)"
  obtain tc1 d' where touch: "touch b tc = (Ok (), tc1)" and n: "\<exists>n. bc_size bc state = Some n \<and> \<not> of_nat (length (get_data b tc1)) < n"
    and into: "bc_serialize_into bc (get_data b tc1) state = (True, d')" and tc': "tc' = update_account b (\<lambda>a. a\<lparr>acc_data := d'\<rparr>) tc1"
    using run
    by (auto simp: set_state_def with_data_mut_def bind_exec_Ok_iff split: option.splits if_splits prod.splits bool.splits)
  note frame = touch_frame(1) [OF touch]
  have d: "get_data b tc1 = get_data b tc" by (simp add: get_data_def ba_account_def frame)
  have a': "ba_account b tc' = (ba_account b tc)\<lparr>acc_data := d'\<rparr>"
    using b frame by (simp add: tc' update_account_def cells_set_cell ba_account_def)
  have "shared_serialize_data bc state (ba_account b tc) = (Ok (), ba_account b tc')"
    using n into d a' by (auto simp: shared_serialize_data_def get_data_def)
  note stored = shared_serialize_deserialize [OF laws this]
  show "get_state bc b tc' = Ok state" and "length (get_data b tc') = length (get_data b tc)"
    using stored len by (simp_all add: get_state_def get_data_def)
  show "contents tc' = (contents tc)[?i := (ba_account b tc)\<lparr>acc_data := get_data b tc'\<rparr>]"
    unfolding tc' contents_update_account frame using b a' by (simp add: ba_account_def get_data_def tc')
qed

lemma set_state_run:
  assumes "is_writable b" and "\<not> acc_executable (ba_account b tc)" and "is_owned_by_current_program b tc"
    and "unat (ba_index_in_transaction b) < length (cells tc)"
    and "length (ta_touched_flags (tc_accounts tc)) = length (cells tc)"
    and "bc_size bc state = Some n" and "\<not> of_nat (length (acc_data (ba_account b tc))) < n"
    and "bc_serialize_into bc (acc_data (ba_account b tc)) state = (True, d)"
  obtains tc' where "set_state bc b state tc = (Ok (), tc')" and "intact tc tc'" and "borrows tc' = borrows tc"
    and "contents tc' = (contents tc)[unat (ba_index_in_transaction b) := (ba_account b tc)\<lparr>acc_data := d\<rparr>]"
proof -
  obtain r tc1 where t: "touch b tc = (r, tc1)" by fastforce
  then have ok: "r = Ok ()" and "length (ta_touched_flags (tc_accounts tc1)) = length (ta_touched_flags (tc_accounts tc))"
    using assms(4,5) by (auto simp: touch_def ta_touch_def)
  then have 1: "intact tc tc1" "cells tc1 = cells tc" using touch_frame(1,2) [OF t] by (simp_all add: intact_def)
  have b: "ba_account b tc1 = ba_account b tc" using 1(2) by (simp add: ba_account_def)
  define tc2 where "tc2 = update_account b (\<lambda>a. a\<lparr>acc_data := d\<rparr>) tc1"
  have "set_state bc b state tc = (Ok (), tc2)"
    using assms t ok b
    by (simp add: set_state_def with_data_mut_def can_data_be_changed_def is_executable_def bind_exec_def get_data_def tc2_def)
  moreover have "intact tc tc2"
    using intact_trans [OF 1(1)] by (simp add: tc2_def update_account_def intact_set_cell)
  moreover have "borrows tc2 = borrows tc" by (simp only: tc2_def borrows_update_account 1(2))
  moreover have "contents tc2 = (contents tc)[unat (ba_index_in_transaction b) := (ba_account b tc)\<lparr>acc_data := d\<rparr>]"
    unfolding tc2_def contents_update_account using assms(4) 1(2) by (simp add: ba_account_def)
  ultimately show ?thesis using that by blast
qed

section \<open>A format for the examples\<close>

text \<open>The values of a list, each encoded by one byte, its position.\<close>

definition table_bincode :: "'a list \<Rightarrow> 'a bincode" where
  "table_bincode xs =
     (let encode = (\<lambda>v. map_option (\<lambda>i. [of_nat i]) (position (\<lambda>x. x = v) xs))
      in \<lparr>bc_size = (\<lambda>v. map_option (\<lambda>_. 1) (encode v)), bc_serialize = encode,
          bc_serialize_into = (\<lambda>d v. case encode v of Some bs \<Rightarrow> if d = [] then (False, d) else (True, bs @ tl d) | None \<Rightarrow> (False, d)),
          bc_deserialize = (\<lambda>d. if d = [] then None else vec_get xs (unat (hd d)))\<rparr>)"

lemma table_bincode_laws:
  assumes "length xs \<le> 256"
  shows "bincode_laws (table_bincode xs)"
proof -
  have "vec_get xs (unat (of_nat i :: u8)) = Some v" if "position (\<lambda>x. x = v) xs = Some i" for v i
  proof -
    have i: "i < length xs" "xs ! i = v" using that by (auto simp: position_Some_iff)
    then have "unat (of_nat i :: u8) = i" using assms by (intro unat_of_nat_lt) simp
    then show ?thesis using i by (simp add: vec_get_def)
  qed
  then show ?thesis
    by (auto simp: bincode_laws_def table_bincode_def Let_def drop_Suc split: option.split)
qed

end
