(* ===== verification/Nonce_Properties.thy ===== *)
theory Nonce_Properties
  imports Nonce Account_Runs
begin

text \<open>What the handlers of nonce instructions write, and that a nonce that was used cannot be used again.\<close>

section \<open>Advancing a nonce\<close>

text \<open>
  C13: A nonce is advanced only with the signature of its authority, and at most once for a blockhash. What
  is stored then is a current nonce of the same authority, derived from the blockhash, which no longer
  verifies the transactions that were signed for the nonce before; nothing else in any account changes.
\<close>

theorem advance_nonce_account_spec:
  assumes laws: "bincode_laws (ne_bincode ne)" and run: "advance_nonce_account ne b signers ivc tc = (Ok (), tc')"
    and b: "unat (ba_index_in_transaction b) < length (cells tc)" and len: "length (get_data b tc) < 2 ^ 64"
  shows "\<exists>versions nd nd'.
     get_state (ne_bincode ne) b tc = Ok versions \<and> nonce_state versions = Initialized nd \<and> nd_authority nd \<in> signers \<and>
     get_state (ne_bincode ne) b tc' = Ok (CurrentNonce (Initialized nd')) \<and>
     nd_authority nd' = nd_authority nd \<and> nd_durable_nonce nd' = durable_nonce_from_blockhash (ne_sha256 ne) (ivc_blockhash ivc) \<and>
     nd_get_lamports_per_signature nd' = ivc_lamports_per_signature ivc \<and>
     verify_recent_blockhash (CurrentNonce (Initialized nd')) (nd_blockhash nd) = None \<and>
     contents tc' = (contents tc)[unat (ba_index_in_transaction b) := (ba_account b tc)\<lparr>acc_data := get_data b tc'\<rparr>]"
proof -
  obtain versions nd where versions: "get_state (ne_bincode ne) b tc = Ok versions" "nonce_state versions = Initialized nd"
    and signs: "nd_authority nd \<in> signers"
    and new: "nd_durable_nonce nd \<noteq> durable_nonce_from_blockhash (ne_sha256 ne) (ivc_blockhash ivc)"
    and set: "set_state (ne_bincode ne) b (CurrentNonce (Initialized (nonce_data_new (nd_authority nd)
      (durable_nonce_from_blockhash (ne_sha256 ne) (ivc_blockhash ivc)) (ivc_lamports_per_signature ivc)))) tc = (Ok (), tc')"
  proof -
    obtain versions where "get_state (ne_bincode ne) b tc = Ok versions" using run by (auto simp: advance_nonce_account_def exec_ok)
    then show ?thesis
      using run that by (cases "nonce_state versions") (auto simp: advance_nonce_account_def Let_def exec_ok nonce_versions_new_def)
  qed
  show ?thesis
    using versions signs new set_state_Ok(1,2) [OF laws set b len]
    by (intro exI [of _ versions] exI [of _ nd] exI) (auto simp: nonce_data_new_def nd_blockhash_def nd_get_lamports_per_signature_def)
qed

text \<open>A format for two nonces, and an account that stores the first of them.\<close>

definition example_nonce :: "Hash \<Rightarrow> NonceVersions" where
  "example_nonce h = CurrentNonce (Initialized (nonce_data_new 5 h 9))"

definition example_format :: "NonceVersions bincode" where
  "example_format = table_bincode [example_nonce 3, example_nonce 7]"

definition example_nonce_instruction :: InstructionContext where
  "example_nonce_instruction = instruction_context_default\<lparr>ic_program_accounts := [1], ic_instruction_accounts :=
     [\<lparr>ia_index_in_transaction = 0, ia_index_in_caller = 0, ia_index_in_callee = 0, ia_is_signer = False, ia_is_writable = True\<rparr>]\<rparr>"

definition example_nonce_transaction :: TransactionContext where
  "example_nonce_transaction = transaction_context_new
     [(4, \<lparr>acc_lamports = 50, acc_data = [0, 9], acc_owner = 0, acc_executable = False, acc_rent_epoch = 0\<rparr>),
      (0, \<lparr>acc_lamports = 1, acc_data = [], acc_owner = 8, acc_executable = True, acc_rent_epoch = 0\<rparr>)] rent_default 5 64"

definition example_nonce_context :: InvokeContext where
  "example_nonce_context = invoke_context_new example_nonce_transaction sysvar_cache_default compute_budget_default 11 9"

lemma example_format_laws: "bincode_laws example_format"
  unfolding example_format_def by (rule table_bincode_laws) simp

theorem advance_nonce_account_spec_witness:
  "\<exists>nd'. get_state example_format (handle example_nonce_instruction 0 0)
     (snd (advance_nonce_account \<lparr>ne_sha256 = (\<lambda>_. 7), ne_bincode = example_format\<rparr> (handle example_nonce_instruction 0 0) {5}
        example_nonce_context example_nonce_transaction)) = Ok (CurrentNonce (Initialized nd')) \<and>
     verify_recent_blockhash (CurrentNonce (Initialized nd')) 3 = None"
proof -
  let ?ne = "\<lparr>ne_sha256 = (\<lambda>_. 7), ne_bincode = example_format\<rparr>" and ?b = "handle example_nonce_instruction 0 0"
  let ?run = "advance_nonce_account ?ne ?b {5} example_nonce_context example_nonce_transaction"
  have state: "get_state example_format ?b example_nonce_transaction = Ok (example_nonce 3)"
    by (simp add: get_state_def shared_deserialize_data_def ba_account_def example_nonce_transaction_def transaction_context_new_def
        transaction_accounts_new_def refcell_new_def example_format_def table_bincode_def vec_get_def)
  have handle: "is_writable ?b" "is_owned_by_current_program ?b example_nonce_transaction" "\<not> is_executable ?b example_nonce_transaction"
    "get_data ?b example_nonce_transaction = [0, 9]" "fst (touch ?b example_nonce_transaction) = Ok ()"
    by (simp_all add: handle_writable [unfolded ic_small_def] handle_owned is_executable_def get_data_def touch_def ta_touch_def
        example_nonce_transaction_def example_nonce_instruction_def ba_account_def transaction_context_new_def
        transaction_accounts_new_def refcell_new_def instruction_context_default_def get_last_program_key_def
        get_index_of_program_account_in_transaction_def get_key_of_account_at_index_def vec_get_def
        get_number_of_program_accounts_def saturating_sub_def is_instruction_account_writable_def
        get_index_of_instruction_account_in_transaction_def)
  obtain tc1 where touch: "touch ?b example_nonce_transaction = (Ok (), tc1)" using handle(5) by (metis prod.collapse)
  have "get_data ?b tc1 = [0, 9]" using handle(4) touch_frame(1) [OF touch] by (simp add: get_data_def ba_account_def)
  then have "fst (set_state example_format ?b (example_nonce 7) example_nonce_transaction) = Ok ()"
    using handle touch
    by (simp add: set_state_def with_data_mut_def bind_exec_def can_data_be_changed_def example_format_def table_bincode_def
        example_nonce_def nonce_data_new_def)
  then have "fst ?run = Ok ()"
    using handle(1) state
    by (simp add: advance_nonce_account_def bind_exec_def require_def ret_def example_nonce_def nonce_data_new_def Let_def
        nonce_versions_new_def durable_nonce_from_blockhash_def hashv_concat example_nonce_context_def invoke_context_new_def)
  then have run: "?run = (Ok (), snd ?run)" by (simp add: prod_eq_iff)
  have "unat (ba_index_in_transaction ?b) < length (cells example_nonce_transaction)"
    by (simp add: example_nonce_transaction_def transaction_context_new_def transaction_accounts_new_def)
  then obtain versions nd nd' where spec: "get_state example_format ?b example_nonce_transaction = Ok versions"
    "nonce_state versions = Initialized nd" "get_state example_format ?b (snd ?run) = Ok (CurrentNonce (Initialized nd'))"
    "verify_recent_blockhash (CurrentNonce (Initialized nd')) (nd_blockhash nd) = None"
    using advance_nonce_account_spec [OF _ run] example_format_laws handle(4) by auto
  then have "nd_blockhash nd = 3" using state by (auto simp: example_nonce_def nonce_data_new_def nd_blockhash_def)
  then show ?thesis using spec(3,4) by auto
qed

end
