(* ===== verification/System_Program.thy ===== *)
theory System_Program
  imports Nonce
begin

text \<open>
  The system program: \<open>programs/system/src/system_processor.rs\<close> and \<open>programs/system/src/lib.rs\<close>, with
  the instructions of \<open>sdk/program/src/system_instruction.rs\<close>. A seed is the bytes of its string. What
  comes from other packages is a parameter: SHA-256, and the bincode formats of nonces and of
  instructions.
\<close>

section \<open>Instructions\<close>

datatype SystemInstruction =
    CreateAccount u64 u64 Pubkey
  | Assign Pubkey
  | Transfer u64
  | CreateAccountWithSeed Pubkey "u8 list" u64 u64 Pubkey
  | AdvanceNonceAccount
  | WithdrawNonceAccount u64
  | InitializeNonceAccount Pubkey
  | AuthorizeNonceAccount Pubkey
  | Allocate u64
  | AllocateWithSeed Pubkey "u8 list" u64 Pubkey
  | AssignWithSeed Pubkey "u8 list" Pubkey
  | TransferWithSeed u64 "u8 list" Pubkey
  | UpgradeNonceAccount

definition system_program_id :: Pubkey where
  "system_program_id = 0"

definition PACKET_DATA_SIZE :: nat where
  "PACKET_DATA_SIZE = 1280 - 40 - 8"

text \<open>The decoder takes the limit on the bytes that it may read.\<close>

definition limited_deserialize :: "(u64 \<Rightarrow> u8 list \<Rightarrow> 'a option) \<Rightarrow> u8 list \<Rightarrow> u64 \<Rightarrow> ('a, InstructionError) result" where
  "limited_deserialize decode instruction_data limit = ok_or (decode limit instruction_data) InvalidInstructionData"

definition sdk_limited_deserialize :: "(u64 \<Rightarrow> u8 list \<Rightarrow> 'a option) \<Rightarrow> u8 list \<Rightarrow> ('a, InstructionError) result" where
  "sdk_limited_deserialize decode instruction_data =
     limited_deserialize decode instruction_data (of_nat PACKET_DATA_SIZE)"

section \<open>Kinds of system accounts\<close>

datatype SystemAccountKind = System | Nonce

definition nonce_state_size :: nat where
  "nonce_state_size = 80"

definition get_system_account_kind :: "NonceVersions bincode \<Rightarrow> AccountSharedData \<Rightarrow> SystemAccountKind option" where
  "get_system_account_kind bc account =
     (if acc_owner account = system_program_id
      then
        if acc_data account = [] then Some System
        else if length (acc_data account) = nonce_state_size
        then
          case shared_deserialize_data bc account of
            Ok nonce_versions \<Rightarrow>
              (case nonce_state nonce_versions of Uninitialized \<Rightarrow> None | Initialized _ \<Rightarrow> Some Nonce)
          | _ \<Rightarrow> None
        else None
      else None)"

section \<open>Addresses\<close>

record Address =
  ad_address :: Pubkey
  ad_base :: "Pubkey option"

definition address_is_signer :: "Address \<Rightarrow> Pubkey set \<Rightarrow> bool" where
  "address_is_signer address signers =
     (case ad_base address of
        Some base \<Rightarrow> base \<in> signers
      | None \<Rightarrow> ad_address address \<in> signers)"

definition address_create ::
  "(u8 list \<Rightarrow> Hash) \<Rightarrow> Pubkey \<Rightarrow> (Pubkey \<times> u8 list \<times> Pubkey) option \<Rightarrow> (Address, InstructionError) result" where
  "address_create sha256 address with_seed =
     (case with_seed of
        Some (base, seed, owner) \<Rightarrow>
          and_then (map_err pubkey_error_into (create_with_seed sha256 base seed owner)) (\<lambda>address_with_seed.
          if address \<noteq> address_with_seed then Err (system_error_into AddressWithSeedMismatch)
          else Ok \<lparr>ad_address = address, ad_base = Some base\<rparr>)
      | None \<Rightarrow> Ok \<lparr>ad_address = address, ad_base = None\<rparr>)"

text \<open>The key of an account of the instruction, as the handlers look it up.\<close>

definition key_of_instruction_account ::
  "InstructionContext \<Rightarrow> IndexOfAccount \<Rightarrow> TransactionContext \<Rightarrow> (Pubkey, InstructionError) result" where
  "key_of_instruction_account ic i tc =
     and_then (get_index_of_instruction_account_in_transaction ic i) (\<lambda>index. get_key_of_account_at_index tc index)"

section \<open>Handlers\<close>

definition allocate ::
  "BorrowedAccount \<Rightarrow> Address \<Rightarrow> u64 \<Rightarrow> Pubkey set \<Rightarrow> (TransactionContext, InstructionError, unit) exec" where
  "allocate account address space signers =
     bind_exec (require (address_is_signer address signers) MissingRequiredSignature) (\<lambda>_.
     bind_exec (gets (get_data account)) (\<lambda>account_data.
     bind_exec (gets (get_owner account)) (\<lambda>account_owner.
     bind_exec (require (\<not> (account_data \<noteq> [] \<or> account_owner \<noteq> system_program_id)) (system_error_into AccountAlreadyInUse)) (\<lambda>_.
     bind_exec (require (\<not> MAX_PERMITTED_DATA_LENGTH < space) (system_error_into InvalidAccountDataLength)) (\<lambda>_.
     set_data_length account (unat space))))))"

definition assign ::
  "BorrowedAccount \<Rightarrow> Address \<Rightarrow> Pubkey \<Rightarrow> Pubkey set \<Rightarrow> (TransactionContext, InstructionError, unit) exec" where
  "assign account address owner signers =
     bind_exec (gets (get_owner account)) (\<lambda>account_owner.
     if account_owner = owner then ret ()
     else
       bind_exec (require (address_is_signer address signers) MissingRequiredSignature) (\<lambda>_.
       set_owner account owner))"

definition allocate_and_assign ::
  "BorrowedAccount \<Rightarrow> Address \<Rightarrow> u64 \<Rightarrow> Pubkey \<Rightarrow> Pubkey set \<Rightarrow> (TransactionContext, InstructionError, unit) exec" where
  "allocate_and_assign to to_address space owner signers =
     bind_exec (allocate to to_address space signers) (\<lambda>_. assign to to_address owner signers)"

definition transfer_verified ::
  "IndexOfAccount \<Rightarrow> IndexOfAccount \<Rightarrow> u64 \<Rightarrow> InstructionContext \<Rightarrow> (TransactionContext, InstructionError, unit) exec" where
  "transfer_verified from_account_index to_account_index lamports ic =
     bind_exec
       (with_instruction_account ic from_account_index (\<lambda>from.
          bind_exec (gets (get_data from)) (\<lambda>from_data.
          bind_exec (require (from_data = []) InvalidArgument) (\<lambda>_.
          bind_exec (gets (get_lamports from)) (\<lambda>from_lamports.
          bind_exec (require (\<not> from_lamports < lamports) (system_error_into ResultWithNegativeLamports)) (\<lambda>_.
          checked_sub_lamports from lamports)))))) (\<lambda>_.
     with_instruction_account ic to_account_index (\<lambda>to. checked_add_lamports to lamports))"

text \<open>The key is looked up for the log message.\<close>

definition transfer ::
  "IndexOfAccount \<Rightarrow> IndexOfAccount \<Rightarrow> u64 \<Rightarrow> InstructionContext \<Rightarrow> (TransactionContext, InstructionError, unit) exec" where
  "transfer from_account_index to_account_index lamports ic =
     bind_exec (lift (is_instruction_account_signer ic from_account_index)) (\<lambda>from_signs.
     bind_exec
       (if from_signs then ret ()
        else bind_exec (reads (key_of_instruction_account ic from_account_index)) (\<lambda>_. throw MissingRequiredSignature)) (\<lambda>_.
     transfer_verified from_account_index to_account_index lamports ic))"

definition transfer_with_seed ::
  "(u8 list \<Rightarrow> Hash) \<Rightarrow> IndexOfAccount \<Rightarrow> IndexOfAccount \<Rightarrow> u8 list \<Rightarrow> Pubkey \<Rightarrow> IndexOfAccount \<Rightarrow> u64 \<Rightarrow>
   InstructionContext \<Rightarrow> (TransactionContext, InstructionError, unit) exec" where
  "transfer_with_seed sha256 from_account_index from_base_account_index from_seed from_owner to_account_index lamports ic =
     bind_exec (lift (is_instruction_account_signer ic from_base_account_index)) (\<lambda>base_signs.
     bind_exec
       (if base_signs then ret ()
        else bind_exec (reads (key_of_instruction_account ic from_base_account_index)) (\<lambda>_. throw MissingRequiredSignature)) (\<lambda>_.
     bind_exec (reads (key_of_instruction_account ic from_base_account_index)) (\<lambda>base.
     bind_exec (lift (map_err pubkey_error_into (create_with_seed sha256 base from_seed from_owner))) (\<lambda>address_from_seed.
     bind_exec (reads (key_of_instruction_account ic from_account_index)) (\<lambda>from_key.
     bind_exec (require (from_key = address_from_seed) (system_error_into AddressWithSeedMismatch)) (\<lambda>_.
     transfer_verified from_account_index to_account_index lamports ic))))))"

definition create_account ::
  "IndexOfAccount \<Rightarrow> IndexOfAccount \<Rightarrow> Address \<Rightarrow> u64 \<Rightarrow> u64 \<Rightarrow> Pubkey \<Rightarrow> Pubkey set \<Rightarrow> InstructionContext \<Rightarrow>
   (TransactionContext, InstructionError, unit) exec" where
  "create_account from_account_index to_account_index to_address lamports space owner signers ic =
     bind_exec
       (with_instruction_account ic to_account_index (\<lambda>to.
          bind_exec (gets (get_lamports to)) (\<lambda>to_lamports.
          bind_exec (require (\<not> 0 < to_lamports) (system_error_into AccountAlreadyInUse)) (\<lambda>_.
          allocate_and_assign to to_address space owner signers)))) (\<lambda>_.
     transfer from_account_index to_account_index lamports ic)"

section \<open>The entrypoint\<close>

definition create_address ::
  "(u8 list \<Rightarrow> Hash) \<Rightarrow> InstructionContext \<Rightarrow> IndexOfAccount \<Rightarrow> (Pubkey \<times> u8 list \<times> Pubkey) option \<Rightarrow>
   (TransactionContext, InstructionError, Address) exec" where
  "create_address sha256 ic i with_seed =
     bind_exec (reads (key_of_instruction_account ic i)) (\<lambda>address. lift (address_create sha256 address with_seed))"

text \<open>The blockhashes and the other sysvars are read through the cache of the invoke context.\<close>

definition system_instruction ::
  "NonceExternals \<Rightarrow> InvokeContext \<Rightarrow> InstructionContext \<Rightarrow> Pubkey set \<Rightarrow> SystemInstruction \<Rightarrow>
   (TransactionContext, InstructionError, unit) exec" where
  "system_instruction ne ivc ic signers instruction =
     (let sha256 = ne_sha256 ne; accounts = \<lambda>n. lift (check_number_of_instruction_accounts ic n)
      in case instruction of
        CreateAccount lamports space owner \<Rightarrow>
          bind_exec (accounts 2) (\<lambda>_.
          bind_exec (create_address sha256 ic 1 None) (\<lambda>to_address.
          create_account 0 1 to_address lamports space owner signers ic))
      | CreateAccountWithSeed base seed lamports space owner \<Rightarrow>
          bind_exec (accounts 2) (\<lambda>_.
          bind_exec (create_address sha256 ic 1 (Some (base, seed, owner))) (\<lambda>to_address.
          create_account 0 1 to_address lamports space owner signers ic))
      | Assign owner \<Rightarrow>
          bind_exec (accounts 1) (\<lambda>_.
          with_instruction_account ic 0 (\<lambda>account.
          bind_exec (create_address sha256 ic 0 None) (\<lambda>address.
          assign account address owner signers)))
      | Transfer lamports \<Rightarrow>
          bind_exec (accounts 2) (\<lambda>_. transfer 0 1 lamports ic)
      | TransferWithSeed lamports from_seed from_owner \<Rightarrow>
          bind_exec (accounts 3) (\<lambda>_. transfer_with_seed sha256 0 1 from_seed from_owner 2 lamports ic)
      | AdvanceNonceAccount \<Rightarrow>
          bind_exec (accounts 1) (\<lambda>_.
          with_instruction_account ic 0 (\<lambda>me.
          bind_exec (reads (\<lambda>tc. checked_recent_blockhashes (ivc_sysvar_cache ivc) tc ic 1)) (\<lambda>recent_blockhashes.
          bind_exec (require (recent_blockhashes \<noteq> []) (system_error_into NonceNoRecentBlockhashes)) (\<lambda>_.
          advance_nonce_account ne me signers ivc))))
      | WithdrawNonceAccount lamports \<Rightarrow>
          bind_exec (accounts 2) (\<lambda>_.
          bind_exec (reads (\<lambda>tc. checked_recent_blockhashes (ivc_sysvar_cache ivc) tc ic 2)) (\<lambda>_.
          bind_exec (reads (\<lambda>tc. checked_rent (ivc_sysvar_cache ivc) tc ic 3)) (\<lambda>rent.
          withdraw_nonce_account ne 0 lamports 1 rent signers ivc ic)))
      | InitializeNonceAccount authorized \<Rightarrow>
          bind_exec (accounts 1) (\<lambda>_.
          with_instruction_account ic 0 (\<lambda>me.
          bind_exec (reads (\<lambda>tc. checked_recent_blockhashes (ivc_sysvar_cache ivc) tc ic 1)) (\<lambda>recent_blockhashes.
          bind_exec (require (recent_blockhashes \<noteq> []) (system_error_into NonceNoRecentBlockhashes)) (\<lambda>_.
          bind_exec (reads (\<lambda>tc. checked_rent (ivc_sysvar_cache ivc) tc ic 2)) (\<lambda>rent.
          initialize_nonce_account ne me authorized rent ivc)))))
      | AuthorizeNonceAccount nonce_authority \<Rightarrow>
          bind_exec (accounts 1) (\<lambda>_.
          with_instruction_account ic 0 (\<lambda>me. authorize_nonce_account ne me nonce_authority signers))
      | UpgradeNonceAccount \<Rightarrow>
          bind_exec (accounts 1) (\<lambda>_.
          with_instruction_account ic 0 (\<lambda>nonce_account.
          bind_exec (gets (get_owner nonce_account)) (\<lambda>account_owner.
          bind_exec (require (account_owner = system_program_id) InvalidAccountOwner) (\<lambda>_.
          bind_exec (require (is_writable nonce_account) InvalidArgument) (\<lambda>_.
          bind_exec (reads (get_state (ne_bincode ne) nonce_account)) (\<lambda>nonce_versions.
          case nonce_upgrade sha256 nonce_versions of
            None \<Rightarrow> throw InvalidArgument
          | Some nonce_versions' \<Rightarrow> set_state (ne_bincode ne) nonce_account nonce_versions'))))))
      | Allocate space \<Rightarrow>
          bind_exec (accounts 1) (\<lambda>_.
          with_instruction_account ic 0 (\<lambda>account.
          bind_exec (create_address sha256 ic 0 None) (\<lambda>address.
          allocate account address space signers)))
      | AllocateWithSeed base seed space owner \<Rightarrow>
          bind_exec (accounts 1) (\<lambda>_.
          with_instruction_account ic 0 (\<lambda>account.
          bind_exec (create_address sha256 ic 0 (Some (base, seed, owner))) (\<lambda>address.
          allocate_and_assign account address space owner signers)))
      | AssignWithSeed base seed owner \<Rightarrow>
          bind_exec (accounts 1) (\<lambda>_.
          with_instruction_account ic 0 (\<lambda>account.
          bind_exec (create_address sha256 ic 0 (Some (base, seed, owner))) (\<lambda>address.
          assign account address owner signers))))"

definition system_process ::
  "NonceExternals \<Rightarrow> (u64 \<Rightarrow> u8 list \<Rightarrow> SystemInstruction option) \<Rightarrow> InvokeContext \<Rightarrow>
   (TransactionContext, InstructionError, unit) exec" where
  "system_process ne decode ivc =
     bind_exec (reads get_current_instruction_context) (\<lambda>ic.
     bind_exec (lift (sdk_limited_deserialize decode (ic_instruction_data ic))) (\<lambda>instruction.
     bind_exec (reads (get_signers ic)) (\<lambda>signers.
     system_instruction ne ivc ic signers instruction)))"

definition DEFAULT_COMPUTE_UNITS :: u64 where
  "DEFAULT_COMPUTE_UNITS = 150"

definition system_entrypoint :: "NonceExternals \<Rightarrow> (u64 \<Rightarrow> u8 list \<Rightarrow> SystemInstruction option) \<Rightarrow> Entrypoint" where
  "system_entrypoint ne decode =
     builtin_entrypoint DEFAULT_COMPUTE_UNITS (\<lambda>ivc. on_transaction (system_process ne decode ivc) ivc)"

end
