(* ===== verification/System_Guarantees.thy ===== *)
theory System_Guarantees
  imports System_Program
begin

text \<open>
  The system program stays within the guarantees of the runtime: whatever its instructions do is a run
  of a program, so that they take part in the conservation of lamports.
\<close>

lemma preserves_NonceState [preserves_intro]:
  "preserves R m \<Longrightarrow> (\<And>nd. preserves R (f nd)) \<Longrightarrow>
   preserves R (case state of Uninitialized \<Rightarrow> m | Initialized nd \<Rightarrow> f nd)"
  by (cases state) simp_all

lemma preserves_result [preserves_intro]:
  "(\<And>x. preserves R (f x)) \<Longrightarrow> (\<And>e. preserves R (g e)) \<Longrightarrow> preserves R m \<Longrightarrow>
   preserves R (case r of Ok x \<Rightarrow> f x | Err e \<Rightarrow> g e | Panic \<Rightarrow> m)"
  by (cases r) simp_all

lemma preserves_AuthorizeNonceError [preserves_intro]:
  "(\<And>k. preserves R (f k)) \<Longrightarrow> preserves R m \<Longrightarrow>
   preserves R (case e of AN_MissingRequiredSignature k \<Rightarrow> f k | AN_Uninitialized \<Rightarrow> m)"
  by (cases e) simp_all

context account_guarantee
begin

lemma preserves_advance_nonce:
  assumes "valid_handle ic b" and "bincode_laws (ne_bincode ne)"
  shows "preserves R (advance_nonce_account ne b signers ivc)"
  unfolding advance_nonce_account_def Let_def by (intro preserves_intro assms)

lemma preserves_initialize_nonce:
  assumes "valid_handle ic b" and "bincode_laws (ne_bincode ne)"
  shows "preserves R (initialize_nonce_account ne b authority rent ivc)"
  unfolding initialize_nonce_account_def Let_def by (intro preserves_intro assms)

lemma preserves_authorize_nonce:
  assumes "valid_handle ic b" and "bincode_laws (ne_bincode ne)"
  shows "preserves R (authorize_nonce_account ne b authority signers)"
  unfolding authorize_nonce_account_def
  by (intro preserves_intro assms)

lemma preserves_withdraw_nonce:
  assumes "ic_small ic" and "bincode_laws (ne_bincode ne)"
  shows "preserves R (withdraw_nonce_account ne from lamports to rent signers ivc ic)"
  unfolding withdraw_nonce_account_def withdraw_nonce_signer_def Let_def
  by (intro preserves_intro assms)

lemma preserves_transfer_verified:
  assumes "ic_small ic"
  shows "preserves R (transfer_verified from to lamports ic)"
  unfolding transfer_verified_def by (intro preserves_intro assms)

lemma preserves_transfer:
  assumes "ic_small ic"
  shows "preserves R (transfer from to lamports ic)"
  unfolding transfer_def by (intro preserves_intro preserves_transfer_verified assms)

lemma preserves_allocate: "valid_handle ic b \<Longrightarrow> preserves R (allocate b address space signers)"
  unfolding allocate_def by (intro preserves_intro)

lemma preserves_assign: "valid_handle ic b \<Longrightarrow> preserves R (assign b address owner signers)"
  unfolding assign_def by (intro preserves_intro)

lemma preserves_allocate_and_assign: "valid_handle ic b \<Longrightarrow> preserves R (allocate_and_assign b address space owner signers)"
  unfolding allocate_and_assign_def by (intro preserves_intro preserves_allocate preserves_assign)

lemma preserves_transfer_with_seed:
  assumes "ic_small ic"
  shows "preserves R (transfer_with_seed sha256 from base seed owner to lamports ic)"
  unfolding transfer_with_seed_def by (intro preserves_intro preserves_transfer_verified assms)

lemma preserves_create_account:
  assumes "ic_small ic"
  shows "preserves R (create_account from to address lamports space owner signers ic)"
  unfolding create_account_def
  by (intro preserves_intro preserves_transfer preserves_allocate_and_assign assms)

lemma preserves_create_address: "preserves R (create_address sha256 ic i with_seed)"
  unfolding create_address_def by (intro preserves_intro)

lemmas preserves_handlers =
  preserves_advance_nonce preserves_initialize_nonce preserves_authorize_nonce preserves_withdraw_nonce
  preserves_allocate preserves_assign preserves_allocate_and_assign preserves_transfer preserves_transfer_with_seed
  preserves_create_account preserves_create_address

lemma preserves_system_instruction:
  assumes "ic_small ic" and "bincode_laws (ne_bincode ne)"
  shows "preserves R (system_instruction ne ivc ic signers instruction)"
  by (cases instruction; simp only: system_instruction_def Let_def SystemInstruction.case;
      intro preserves_intro preserves_handlers assms)

end

text \<open>The whole entrypoint: it runs the instruction that is on top of the stack.\<close>

lemma system_process_guarded:
  assumes run: "running ic tc" and laws: "bincode_laws (ne_bincode ne)"
  shows "guarded ic tc (snd (system_process ne decode ivc tc))" and "accounted tc (snd (system_process ne decode ivc tc))"
proof -
  have current: "get_current_instruction_context tc = Ok ic" and small: "ic_small ic" using run by (simp_all add: running_def)
  have "preserves R m \<Longrightarrow> R tc (snd (m tc))" for R and m :: "(TransactionContext, InstructionError, unit) exec"
    by (simp add: preserves_def) (metis prod.collapse)
  note step = this [OF guarded.preserves_system_instruction [OF small laws]] this [OF accounted.preserves_system_instruction [OF small laws]]
  show "guarded ic tc (snd (system_process ne decode ivc tc))"
    unfolding system_process_def bind_exec_def using step(1) guarded_refl
    by (auto simp: current lift_def split: result.split)
  show "accounted tc (snd (system_process ne decode ivc tc))"
    unfolding system_process_def bind_exec_def using step(2) accounted_refl
    by (auto simp: current lift_def split: result.split)
qed

lemma builtin_entrypoint_run:
  assumes process: "\<And>ivc'. guarded ic (ivc_transaction_context ivc) (snd (process ivc' (ivc_transaction_context ivc)))"
  shows "program_run ic (ivc_transaction_context ivc)
    (ivc_transaction_context (snd (builtin_entrypoint units (\<lambda>ivc. on_transaction (process ivc) ivc) ivc)))"
proof (cases "(if 0 < units then consume_checked units else ret ()) ivc")
  case (Pair r ivc1)
  then have same: "ivc_transaction_context ivc1 = ivc_transaction_context ivc"
    by (auto simp: consume_checked_def ret_def Let_def split: if_splits)
  let ?process = "\<lambda>ivc. on_transaction (process ivc) ivc"
  have "snd (builtin_entrypoint units ?process ivc) = (case r of Ok _ \<Rightarrow> snd (?process ivc1) | _ \<Rightarrow> ivc1)"
    using Pair by (simp add: builtin_entrypoint_def bind_exec_def split: prod.split result.split)
  then show ?thesis
    using run_accounts [OF process run_done] run_done same by (cases r) (auto simp: exec_simps)
qed

lemma system_entrypoint_run:
  assumes "running ic (ivc_transaction_context ivc)" and "bincode_laws (ne_bincode ne)"
  shows "program_run ic (ivc_transaction_context ivc) (ivc_transaction_context (snd (system_entrypoint ne decode ivc)))"
  unfolding system_entrypoint_def by (rule builtin_entrypoint_run) (rule system_process_guarded(1) [OF assms])

end
