(* ===== verification/System_Authority.thy ===== *)
theory System_Authority
  imports System_Guarantees Account_Authority
begin

text \<open>
  Who must have signed for what the system program does: an account loses lamports only with its own
  signature, with that of the base of its derived address, or with that of the authority of its nonce;
  and it gets a new owner only with one of the first two.
\<close>

section \<open>Signatures\<close>

definition address_signed :: "(u8 list \<Rightarrow> Hash) \<Rightarrow> Pubkey set \<Rightarrow> Pubkey \<Rightarrow> bool" where
  "address_signed sha256 signers key \<longleftrightarrow>
     key \<in> signers \<or> (\<exists>base \<in> signers. \<exists>seed owner. create_with_seed sha256 base seed owner = Ok key)"

definition nonce_signed :: "NonceVersions bincode \<Rightarrow> Pubkey set \<Rightarrow> AccountSharedData \<Rightarrow> bool" where
  "nonce_signed bc signers a \<longleftrightarrow>
     (\<exists>versions nd. shared_deserialize_data bc a = Ok versions \<and> nonce_state versions = Initialized nd \<and> nd_authority nd \<in> signers)"

definition may_assign :: "NonceExternals \<Rightarrow> Pubkey set \<Rightarrow> TransactionContext \<Rightarrow> nat set" where
  "may_assign ne signers tc = {i. address_signed (ne_sha256 ne) signers (tc_account_keys tc ! i)}"

definition may_spend :: "NonceExternals \<Rightarrow> Pubkey set \<Rightarrow> TransactionContext \<Rightarrow> nat set" where
  "may_spend ne signers tc =
     may_assign ne signers tc \<union> {i. nonce_signed (ne_bincode ne) signers (rc_value (cells tc ! i))}"

abbreviation system_obeys :: "NonceExternals \<Rightarrow> Pubkey set \<Rightarrow> TransactionContext \<Rightarrow> TransactionContext \<Rightarrow> TransactionContext \<Rightarrow> bool" where
  "system_obeys ne signers tc0 \<equiv> obeys (may_spend ne signers tc0) (may_assign ne signers tc0) UNIV"

text \<open>The accounts are still those of the start.\<close>

definition unchanged :: "TransactionContext \<Rightarrow> TransactionContext \<Rightarrow> bool" where
  "unchanged tc0 tc \<longleftrightarrow> tc_account_keys tc = tc_account_keys tc0 \<and> map rc_value (cells tc) = map rc_value (cells tc0)"

lemma unchanged_borrow_free: "borrow_free (unchanged tc0)"
  by (simp add: borrow_free_def unchanged_def values_set_flag)

lemma unchanged_account:
  "unchanged tc0 tc \<Longrightarrow> unat (ba_index_in_transaction b) < length (cells tc0) \<Longrightarrow>
   ba_account b tc = rc_value (cells tc0 ! unat (ba_index_in_transaction b))"
  unfolding unchanged_def ba_account_def by (metis length_map nth_map)

lemma signers_loop_mono: "signers_loop tc accounts S = Ok S' \<Longrightarrow> S \<subseteq> S'"
  by (induction accounts arbitrary: S) (fastforce simp: and_then_Ok_iff split: if_splits)+

lemma signers_loop_signer:
  "signers_loop tc accounts S = Ok S' \<Longrightarrow> ia \<in> set accounts \<Longrightarrow> ia_is_signer ia \<Longrightarrow>
   tc_account_keys tc ! unat (ia_index_in_transaction ia) \<in> S'"
proof (induction accounts arbitrary: S)
  case (Cons a accounts)
  show ?case
  proof (cases "ia = a")
    case True
    then have "signers_loop tc accounts (insert (tc_account_keys tc ! unat (ia_index_in_transaction ia)) S) = Ok S'"
      using Cons.prems by (auto simp: and_then_Ok_iff get_key_of_account_at_index_def vec_get_Some_iff)
    then show ?thesis using signers_loop_mono by blast
  next
    case False
    then show ?thesis using Cons.prems Cons.IH by (auto simp: and_then_Ok_iff split: if_splits)
  qed
qed simp

lemma signer_signed:
  assumes "get_signers ic tc = Ok signers" and "is_instruction_account_signer ic i = Ok True"
    and "get_index_of_instruction_account_in_transaction ic i = Ok index"
  shows "tc_account_keys tc ! unat index \<in> signers"
  using assms signers_loop_signer [of tc "ic_instruction_accounts ic" "{}" signers]
  by (auto simp: get_signers_def is_instruction_account_signer_def get_index_of_instruction_account_in_transaction_def
      and_then_Ok_iff vec_get_Some_iff)

lemma key_of_instruction_account_Ok:
  assumes "key_of_instruction_account ic i tc = Ok key" and "unchanged tc0 tc"
    and "get_index_of_instruction_account_in_transaction ic i = Ok index"
  shows "tc_account_keys tc0 ! unat index = key"
  using assms
  by (auto simp: key_of_instruction_account_def get_key_of_account_at_index_def and_then_Ok_iff vec_get_Some_iff unchanged_def)

lemma address_create_signed:
  assumes "address_create sha256 key with_seed = Ok address" and "address_is_signer address signers"
  shows "address_signed sha256 signers key"
  using assms
  by (auto simp: address_create_def address_is_signer_def address_signed_def and_then_Ok_iff split: option.splits if_splits prod.splits)

section \<open>The handlers\<close>

lemma obeys_transfer_verified:
  assumes "ic_small ic" and "\<And>index. get_index_of_instruction_account_in_transaction ic from = Ok index \<Longrightarrow> unat index \<in> L"
  shows "preserves (obeys L W D) (transfer_verified from to lamports ic)"
  unfolding transfer_verified_def
proof (rule preserves_keeps, rule obeys.keeps_then)
  show "keeps (\<lambda>_. True) (obeys L W D) (with_instruction_account ic from (\<lambda>b.
          bind_exec (gets (get_data b)) (\<lambda>from_data.
          bind_exec (require (from_data = []) InvalidArgument) (\<lambda>_.
          bind_exec (gets (get_lamports b)) (\<lambda>from_lamports.
          bind_exec (require (\<not> from_lamports < lamports) (system_error_into ResultWithNegativeLamports)) (\<lambda>_.
          checked_sub_lamports b lamports))))))"
    by (intro obeys.keeps_with_account [OF _ assms(1)] keeps_intro keeps_preserves obeys_sub_lamports assms(2))
      (simp_all add: borrow_free_def)
qed (intro preserves_intro assms(1))

lemma obeys_transfer:
  assumes "ic_small ic" and signers: "get_signers ic tc0 = Ok signers"
  shows "preserves (system_obeys ne signers tc0) (transfer from to lamports ic)"
proof -
  have "unat index \<in> may_spend ne signers tc0"
    if "is_instruction_account_signer ic from = Ok True" "get_index_of_instruction_account_in_transaction ic from = Ok index" for index
    using signer_signed [OF signers that] by (simp add: may_spend_def may_assign_def address_signed_def)
  then show ?thesis
    unfolding transfer_def
    by (intro preserves_keeps [OF obeys.keeps_lift_bind] obeys.keeps_check keeps_preserves [OF obeys_transfer_verified] assms(1)) auto
qed

lemma obeys_allocate: "preserves (obeys L W UNIV) (allocate account address space signers)"
  unfolding allocate_def by (intro preserves_intro obeys_set_data_length) simp

lemma obeys_assign:
  assumes "address_is_signer address signers \<Longrightarrow> unat (ba_index_in_transaction account) \<in> W"
  shows "preserves (obeys L W D) (assign account address owner signers)"
  unfolding assign_def
  by (intro preserves_keeps [OF obeys.keeps_gets_bind] keeps_intro keeps_preserves [OF obeys_set_owner] assms)

lemma obeys_allocate_and_assign:
  assumes "address_is_signer address signers \<Longrightarrow> unat (ba_index_in_transaction account) \<in> W"
  shows "preserves (obeys L W UNIV) (allocate_and_assign account address space owner signers)"
  unfolding allocate_and_assign_def by (intro preserves_intro obeys_allocate obeys_assign assms)

lemma base_signed:
  assumes "get_signers ic tc0 = Ok signers" and "is_instruction_account_signer ic i = Ok True"
    and "key_of_instruction_account ic i tc = Ok base" and "unchanged tc0 tc"
  shows "base \<in> signers"
proof -
  obtain index where index: "get_index_of_instruction_account_in_transaction ic i = Ok index"
    using assms(3) by (auto simp: key_of_instruction_account_def and_then_Ok_iff)
  show ?thesis
    using signer_signed [OF assms(1,2) index] key_of_instruction_account_Ok [OF assms(3,4) index] by simp
qed

lemma obeys_transfer_with_seed:
  assumes small: "ic_small ic" and signers: "get_signers ic tc0 = Ok signers"
  shows "keeps (unchanged tc0) (system_obeys ne signers tc0) (transfer_with_seed (ne_sha256 ne) from base seed owner to lamports ic)"
proof -
  have verified: "keeps (\<lambda>tc. (unchanged tc0 tc \<and> key_of_instruction_account ic base tc = Ok base_key) \<and>
        key_of_instruction_account ic from tc = Ok from_key) (system_obeys ne signers tc0) (transfer_verified from to lamports ic)"
    if "is_instruction_account_signer ic base = Ok True"
      "map_err pubkey_error_into (create_with_seed (ne_sha256 ne) base_key seed owner) = Ok from_key" for base_key from_key
  proof -
    have "unat index \<in> may_spend ne signers tc0"
      if "get_index_of_instruction_account_in_transaction ic from = Ok index"
        and tc: "unchanged tc0 tc" "key_of_instruction_account ic base tc = Ok base_key" "key_of_instruction_account ic from tc = Ok from_key"
      for index tc
      using base_signed [OF signers \<open>is_instruction_account_signer ic base = Ok True\<close> tc(2,1)] \<open>map_err _ _ = _\<close>
        key_of_instruction_account_Ok [OF tc(3,1) that(1)]
      by (auto simp: may_spend_def may_assign_def address_signed_def)
    then show ?thesis
      using obeys_transfer_verified [OF small, of "from"] unfolding keeps_def preserves_iff by blast
  qed
  show ?thesis
    unfolding transfer_with_seed_def
    by (intro obeys.keeps_lift_bind obeys.keeps_check obeys.keeps_reads_bind obeys.keeps_require_bind)
      (use verified in auto)
qed

lemma obeys_create_account:
  assumes "ic_small ic" and "get_signers ic tc0 = Ok signers"
    and "\<And>index. address_is_signer address signers \<Longrightarrow> get_index_of_instruction_account_in_transaction ic to = Ok index \<Longrightarrow>
      unat index \<in> may_assign ne signers tc0"
  shows "preserves (system_obeys ne signers tc0) (create_account from to address lamports space owner signers ic)"
  unfolding create_account_def
proof (rule preserves_keeps, rule obeys.keeps_then)
  show "keeps (\<lambda>_. True) (system_obeys ne signers tc0)
     (with_instruction_account ic to (\<lambda>b.
          bind_exec (gets (get_lamports b)) (\<lambda>to_lamports.
          bind_exec (require (\<not> 0 < to_lamports) (system_error_into AccountAlreadyInUse)) (\<lambda>_.
          allocate_and_assign b address space owner signers))))"
    by (intro obeys.keeps_with_account [OF _ assms(1)] keeps_intro keeps_preserves obeys_allocate_and_assign assms(3))
      (simp_all add: borrow_free_def)
qed (rule obeys_transfer [OF assms(1,2)])

lemma obeys_advance: "preserves (obeys L W UNIV) (advance_nonce_account ne account signers ivc)"
  unfolding advance_nonce_account_def Let_def by (intro preserves_intro obeys_set_state) simp

lemma obeys_initialize: "preserves (obeys L W UNIV) (initialize_nonce_account ne account authority rent ivc)"
  unfolding initialize_nonce_account_def Let_def by (intro preserves_intro obeys_set_state) simp

lemma obeys_authorize: "preserves (obeys L W UNIV) (authorize_nonce_account ne account authority signers)"
  unfolding authorize_nonce_account_def by (intro preserves_intro obeys_set_state) simp

lemma obeys_withdraw_signer: "preserves (obeys L W UNIV) (withdraw_nonce_signer ne from lamports rent ivc state)"
  unfolding withdraw_nonce_signer_def Let_def by (intro preserves_intro obeys_set_state) simp

lemma withdraw_nonce_signer_Ok:
  assumes "fst (withdraw_nonce_signer ne b lamports rent ivc state tc) = Ok signer"
  shows "case nonce_state state of Uninitialized \<Rightarrow> get_key b tc = Ok signer | Initialized nd \<Rightarrow> signer = nd_authority nd"
  using assms
  by (cases "nonce_state state")
    (auto simp: withdraw_nonce_signer_def bind_exec_def gets_def require_def ret_def throw_def split: prod.splits result.splits if_splits)

lemma obeys_withdraw:
  assumes small: "ic_small ic" and signers: "get_signers ic tc0 = Ok signers"
  shows "keeps (unchanged tc0) (system_obeys ne signers tc0) (withdraw_nonce_account ne from lamports to rent signers ivc ic)"
  unfolding withdraw_nonce_account_def
proof (rule obeys.keeps_then, rule obeys.keeps_with_account [OF unchanged_borrow_free small])
  fix b :: BorrowedAccount
  assume index: "get_index_of_instruction_account_in_transaction ic from = Ok (ba_index_in_transaction b)"
  let ?P = "\<lambda>tc. unchanged tc0 tc \<and> unat (ba_index_in_transaction b) < length (cells tc)"
  let ?R = "system_obeys ne signers tc0"
  have sub: "keeps (\<lambda>tc. ?P tc \<and> get_state (ne_bincode ne) b tc = Ok state) ?R
     (bind_exec (withdraw_nonce_signer ne b lamports rent ivc state) (\<lambda>signer.
      bind_exec (require (signer \<in> signers) MissingRequiredSignature) (\<lambda>_.
      checked_sub_lamports b lamports)))" for state
  proof (rule obeys.keeps_bind [where Q = "\<lambda>signer. signer \<in> signers \<longrightarrow> unat (ba_index_in_transaction b) \<in> may_spend ne signers tc0"])
    fix tc signer
    assume tc: "?P tc \<and> get_state (ne_bincode ne) b tc = Ok state"
      and run: "fst (withdraw_nonce_signer ne b lamports rent ivc state tc) = Ok signer"
    have a: "ba_account b tc = rc_value (cells tc0 ! unat (ba_index_in_transaction b))"
      using tc unchanged_account [of tc0 tc b] by (auto simp: unchanged_def) (metis length_map)
    have "shared_deserialize_data (ne_bincode ne) (ba_account b tc) = Ok state" using tc by (simp add: get_state_def)
    moreover have "get_key b tc = Ok signer \<Longrightarrow> tc_account_keys tc0 ! unat (ba_index_in_transaction b) = signer"
      using tc by (auto simp: get_key_def vec_get_Some_iff unchanged_def)
    ultimately show "signer \<in> signers \<longrightarrow> unat (ba_index_in_transaction b) \<in> may_spend ne signers tc0"
      using withdraw_nonce_signer_Ok [OF run] a
      by (cases "nonce_state state") (auto simp: may_spend_def may_assign_def address_signed_def nonce_signed_def)
  next
    fix signer assume "signer \<in> signers \<longrightarrow> unat (ba_index_in_transaction b) \<in> may_spend ne signers tc0"
    then show "preserves ?R (bind_exec (require (signer \<in> signers) MissingRequiredSignature) (\<lambda>_. checked_sub_lamports b lamports))"
      by (intro preserves_keeps [OF obeys.keeps_require_bind] keeps_preserves [OF obeys_sub_lamports]) simp
  qed (rule keeps_preserves [OF obeys_withdraw_signer])
  show "keeps ?P ?R
     (bind_exec (require (is_writable b) InvalidArgument) (\<lambda>_.
      bind_exec (reads (get_state (ne_bincode ne) b)) (\<lambda>state.
      bind_exec (withdraw_nonce_signer ne b lamports rent ivc state) (\<lambda>signer.
      bind_exec (require (signer \<in> signers) MissingRequiredSignature) (\<lambda>_.
      checked_sub_lamports b lamports)))))"
    by (intro obeys.keeps_require_bind obeys.keeps_reads_bind sub)
qed (intro preserves_intro small)

text \<open>An address that was created for an account of the instruction.\<close>

lemma keeps_create_address:
  assumes "\<And>address. (\<And>index. address_is_signer address signers \<Longrightarrow>
      get_index_of_instruction_account_in_transaction ic i = Ok index \<Longrightarrow> unat index \<in> may_assign ne signers tc0) \<Longrightarrow>
    preserves (obeys L W D) (g address)" and P: "\<And>tc. P tc \<Longrightarrow> unchanged tc0 tc"
  shows "keeps P (obeys L W D) (bind_exec (create_address (ne_sha256 ne) ic i with_seed) g)"
proof (rule obeys.keeps_bind [where Q = "\<lambda>address. \<forall>index. address_is_signer address signers \<longrightarrow>
      get_index_of_instruction_account_in_transaction ic i = Ok index \<longrightarrow> unat index \<in> may_assign ne signers tc0"])
  show "keeps P (obeys L W D) (create_address (ne_sha256 ne) ic i with_seed)"
    unfolding create_address_def by (intro keeps_preserves preserves_intro)
next
  fix tc address assume tc: "P tc" and "fst (create_address (ne_sha256 ne) ic i with_seed tc) = Ok address"
  then obtain key where "key_of_instruction_account ic i tc = Ok key" "address_create (ne_sha256 ne) key with_seed = Ok address"
    by (auto simp: create_address_def bind_exec_def lift_def split: result.splits)
  then show "\<forall>index. address_is_signer address signers \<longrightarrow>
      get_index_of_instruction_account_in_transaction ic i = Ok index \<longrightarrow> unat index \<in> may_assign ne signers tc0"
    using address_create_signed key_of_instruction_account_Ok P [OF tc] by (fastforce simp: may_assign_def)
qed (use assms(1) in blast)

lemma obeys_system_instruction:
  assumes small: "ic_small ic" and signers: "get_signers ic tc0 = Ok signers"
  shows "keeps (unchanged tc0) (system_obeys ne signers tc0) (system_instruction ne ivc ic signers instruction)"
proof -
  note account = obeys.keeps_with_account [OF unchanged_borrow_free small]
  note case_simps = system_instruction_def Let_def SystemInstruction.case
  note nonce = obeys_advance obeys_initialize obeys_authorize
  show ?thesis
  proof (cases instruction)
    case (CreateAccount lamports space owner)
    show ?thesis unfolding CreateAccount case_simps
      by (intro obeys.keeps_lift_bind keeps_create_address [where ne = ne and signers = signers] obeys_create_account small signers)
  next
    case (Assign owner)
    show ?thesis unfolding Assign case_simps
      by (intro obeys.keeps_lift_bind account keeps_create_address [where ne = ne and signers = signers] obeys_assign) auto
  next
    case (Transfer lamports)
    show ?thesis unfolding Transfer case_simps
      by (intro obeys.keeps_lift_bind keeps_preserves [OF obeys_transfer [OF small signers]])
  next
    case (CreateAccountWithSeed base seed lamports space owner)
    show ?thesis unfolding CreateAccountWithSeed case_simps
      by (intro obeys.keeps_lift_bind keeps_create_address [where ne = ne and signers = signers] obeys_create_account small signers)
  next
    case AdvanceNonceAccount
    show ?thesis unfolding AdvanceNonceAccount case_simps by (intro keeps_preserves preserves_intro nonce small)
  next
    case (WithdrawNonceAccount lamports)
    show ?thesis unfolding WithdrawNonceAccount case_simps
      by (intro obeys.keeps_lift_bind obeys.keeps_reads_bind keeps_weaken [OF obeys_withdraw [OF small signers]]) simp
  next
    case (InitializeNonceAccount authorized)
    show ?thesis unfolding InitializeNonceAccount case_simps by (intro keeps_preserves preserves_intro nonce small)
  next
    case (AuthorizeNonceAccount authority)
    show ?thesis unfolding AuthorizeNonceAccount case_simps by (intro keeps_preserves preserves_intro nonce small)
  next
    case (Allocate space)
    show ?thesis unfolding Allocate case_simps create_address_def by (intro keeps_preserves preserves_intro obeys_allocate small)
  next
    case (AllocateWithSeed base seed space owner)
    show ?thesis unfolding AllocateWithSeed case_simps
      by (intro obeys.keeps_lift_bind account keeps_create_address [where ne = ne and signers = signers] obeys_allocate_and_assign) auto
  next
    case (AssignWithSeed base seed owner)
    show ?thesis unfolding AssignWithSeed case_simps
      by (intro obeys.keeps_lift_bind account keeps_create_address [where ne = ne and signers = signers] obeys_assign) auto
  next
    case (TransferWithSeed lamports seed owner)
    show ?thesis unfolding TransferWithSeed case_simps
      by (intro obeys.keeps_lift_bind obeys_transfer_with_seed small signers)
  next
    case UpgradeNonceAccount
    show ?thesis unfolding UpgradeNonceAccount case_simps
      by (intro keeps_preserves preserves_intro obeys_set_state small) simp
  qed
qed

end
