(* ===== verification/System_Transfer.thy ===== *)
theory System_Transfer
  imports System_Authority Account_Runs
begin

text \<open>The exact result of a transfer, on every branch, and a transaction that the examples share.\<close>

section \<open>Transfers\<close>

text \<open>
  The system program runs, and the instruction lists two writable accounts that are not executable and
  that nobody borrows, the first of them owned by the system program.
\<close>

definition transferable ::
  "InstructionContext \<Rightarrow> TransactionContext \<Rightarrow> IndexOfAccount \<Rightarrow> IndexOfAccount \<Rightarrow> IndexOfAccount \<Rightarrow> IndexOfAccount \<Rightarrow> bool" where
  "transferable ic tc from from_index to to_index \<longleftrightarrow>
     ic_small ic \<and> keys_ok tc \<and> get_last_program_key ic tc = Ok system_program_id \<and> from_index \<noteq> to_index \<and>
     free_account ic tc from from_index \<and> free_account ic tc to to_index \<and>
     is_instruction_account_writable ic from = Ok True \<and> is_instruction_account_writable ic to = Ok True \<and>
     acc_owner (contents tc ! unat from_index) = system_program_id \<and>
     \<not> acc_executable (contents tc ! unat from_index) \<and> \<not> acc_executable (contents tc ! unat to_index)"

definition transfer_result :: "bool \<Rightarrow> AccountSharedData \<Rightarrow> AccountSharedData \<Rightarrow> u64 \<Rightarrow> (unit, InstructionError) result" where
  "transfer_result signs a b lamports =
     (if \<not> signs then Err MissingRequiredSignature
      else if acc_data a \<noteq> [] then Err InvalidArgument
      else if acc_lamports a < lamports then Err (Custom 1)
      else if 2 ^ 64 \<le> unat (acc_lamports b) + unat lamports then Err ArithmeticOverflow
      else Ok ())"

text \<open>The first half of a transfer.\<close>

definition debit :: "u64 \<Rightarrow> BorrowedAccount \<Rightarrow> (TransactionContext, InstructionError, unit) exec" where
  "debit lamports from =
     bind_exec (gets (get_data from)) (\<lambda>from_data.
     bind_exec (require (from_data = []) InvalidArgument) (\<lambda>_.
     bind_exec (gets (get_lamports from)) (\<lambda>from_lamports.
     bind_exec (require (\<not> from_lamports < lamports) (system_error_into ResultWithNegativeLamports)) (\<lambda>_.
     checked_sub_lamports from lamports))))"

lemma transfer_verified_debit:
  "transfer_verified from to lamports ic =
     bind_exec (with_instruction_account ic from (debit lamports)) (\<lambda>_.
     with_instruction_account ic to (\<lambda>to. checked_add_lamports to lamports))"
  unfolding transfer_verified_def debit_def ..

lemma negative_lamports_code: "system_error_into ResultWithNegativeLamports = Custom 1"
  by (simp add: system_error_into_def instruction_error_from_custom)

lemma debit_run:
  assumes "transferable ic tc from i to j"
  defines "a \<equiv> contents tc ! unat i"
  obtains tc1 where
    "with_instruction_account ic from (debit lamports) tc =
       (if acc_data a \<noteq> [] then Err InvalidArgument else if acc_lamports a < lamports then Err (Custom 1) else Ok (), tc1)"
    and "intact tc tc1" and "borrows tc1 = borrows tc"
    and "acc_data a = [] \<Longrightarrow> lamports \<le> acc_lamports a \<Longrightarrow>
      contents tc1 = (contents tc)[unat i := a\<lparr>acc_lamports := acc_lamports a - lamports\<rparr>]"
proof -
  have small: "ic_small ic" and free: "free_account ic tc from i" using assms(1) by (simp_all add: transferable_def)
  let ?h = "handle ic from i"
  note lent = lent_account [OF small free]
  have h: "is_writable ?h" "is_owned_by_current_program ?h (lent i tc)" "\<not> acc_executable a" "ba_account ?h (lent i tc) = a"
    using assms(1) lent by (simp_all add: transferable_def a_def)
  note run = with_account_run [OF free] and h_simps = debit_def get_data_def get_lamports_def h(4) exec_simps
  show ?thesis
  proof (cases "acc_data a = [] \<and> lamports \<le> acc_lamports a")
    case True
    obtain tc1 where 1: "set_lamports ?h (acc_lamports a - lamports) (lent i tc) = (Ok (), tc1)" "intact (lent i tc) tc1"
      "borrows tc1 = borrows (lent i tc)" "contents tc1 = (contents (lent i tc))[unat i := a\<lparr>acc_lamports := acc_lamports a - lamports\<rparr>]"
      using set_lamports_run [OF h(1), of "lent i tc"] h lent by auto
    have "checked_sub_lamports ?h lamports (lent i tc) = (Ok (), tc1)"
      using 1(1) True by (simp add: checked_sub_lamports_def checked_sub_def h_simps)
    then show ?thesis
      using that [of "drop_account ?h tc1"] True 1(2-4) lent(6) borrows_returned [OF free 1(3)]
        intact_trans [OF lent(7) intact_trans [OF 1(2) intact_drop]]
      by (simp add: run h_simps contents_drop not_less)
  next
    case False
    then show ?thesis
      using that [of "drop_account ?h (lent i tc)"] borrows_returned [OF free refl] intact_trans [OF lent(7) intact_drop]
      by (cases "acc_data a = []") (simp_all add: run h_simps not_le negative_lamports_code)
  qed
qed

lemma credit_run:
  assumes small: "ic_small ic" and free: "free_account ic tc to j" and w: "is_instruction_account_writable ic to = Ok True"
    and executable: "\<not> acc_executable (contents tc ! unat j)"
  defines "b \<equiv> contents tc ! unat j"
  obtains tc1 where
    "with_instruction_account ic to (\<lambda>to. checked_add_lamports to lamports) tc =
       (if 2 ^ 64 \<le> unat (acc_lamports b) + unat lamports then Err ArithmeticOverflow else Ok (), tc1)"
    and "intact tc tc1" and "borrows tc1 = borrows tc"
    and "unat (acc_lamports b) + unat lamports < 2 ^ 64 \<Longrightarrow>
      contents tc1 = (contents tc)[unat j := b\<lparr>acc_lamports := acc_lamports b + lamports\<rparr>]"
proof -
  let ?h = "handle ic to j"
  note lent = lent_account [OF small free]
  have h: "is_writable ?h" "\<not> acc_executable b" "ba_account ?h (lent j tc) = b"
    using executable w lent by (simp_all add: b_def)
  note run = with_account_run [OF free]
  show ?thesis
  proof (cases "unat (acc_lamports b) + unat lamports < 2 ^ 64")
    case True
    then have add: "checked_add (acc_lamports b) lamports = Some (acc_lamports b + lamports)" by (simp add: checked_add_def)
    then have "acc_lamports b \<le> acc_lamports b + lamports" by (simp add: checked_add_Some_iff word_le_nat_alt)
    then obtain tc1 where 1: "set_lamports ?h (acc_lamports b + lamports) (lent j tc) = (Ok (), tc1)" "intact (lent j tc) tc1"
      "borrows tc1 = borrows (lent j tc)" "contents tc1 = (contents (lent j tc))[unat j := b\<lparr>acc_lamports := acc_lamports b + lamports\<rparr>]"
      using set_lamports_run [OF h(1), of "lent j tc" "acc_lamports b + lamports"] h lent by auto
    then have "checked_add_lamports ?h lamports (lent j tc) = (Ok (), tc1)"
      using add h(3) by (simp add: checked_add_lamports_def get_lamports_def)
    then show ?thesis
      using that [of "drop_account ?h tc1"] 1(4) True lent(6) borrows_returned [OF free 1(3)]
        intact_trans [OF lent(7) intact_trans [OF 1(2) intact_drop]]
      by (simp add: run contents_drop)
  next
    case False
    then have "checked_add_lamports ?h lamports (lent j tc) = (Err ArithmeticOverflow, lent j tc)"
      using h(3) by (simp add: checked_add_lamports_def get_lamports_def checked_add_def)
    then show ?thesis
      using that [of "drop_account ?h (lent j tc)"] False borrows_returned [OF free refl] intact_trans [OF lent(7) intact_drop]
      by (simp add: run)
  qed
qed

lemma transfer_run:
  assumes "transferable ic tc from i to j" and "is_instruction_account_signer ic from = Ok signs"
  defines "a \<equiv> contents tc ! unat i" and "b \<equiv> contents tc ! unat j"
  obtains tc' where "transfer from to lamports ic tc = (transfer_result signs a b lamports, tc')"
    and "intact tc tc'" and "borrows tc' = borrows tc"
    and "transfer_result signs a b lamports = Ok () \<Longrightarrow> contents tc' = (contents tc)
       [unat i := a\<lparr>acc_lamports := acc_lamports a - lamports\<rparr>, unat j := b\<lparr>acc_lamports := acc_lamports b + lamports\<rparr>]"
proof (cases signs)
  case False
  have "unat i < length (tc_account_keys tc)" using assms(1) by (simp add: transferable_def keys_ok_def free_account_def)
  then have "\<exists>key. key_of_instruction_account ic from tc = Ok key"
    using assms(1) by (simp add: transferable_def free_account_def key_of_instruction_account_def get_key_of_account_at_index_def vec_get_def)
  then have "transfer from to lamports ic tc = (transfer_result signs a b lamports, tc)"
    using assms(2) False by (auto simp: transfer_def exec_simps bind_exec_def transfer_result_def)
  then show ?thesis using that False by (simp add: transfer_result_def intact_refl)
next
  case True
  have verified: "transfer from to lamports ic tc = transfer_verified from to lamports ic tc"
    using assms(2) True by (simp add: transfer_def exec_simps)
  obtain tc1 where debit: "with_instruction_account ic from (debit lamports) tc =
       (if acc_data a \<noteq> [] then Err InvalidArgument else if acc_lamports a < lamports then Err (Custom 1) else Ok (), tc1)"
    and frame: "intact tc tc1" "borrows tc1 = borrows tc"
    and c1: "acc_data a = [] \<Longrightarrow> lamports \<le> acc_lamports a \<Longrightarrow>
      contents tc1 = (contents tc)[unat i := a\<lparr>acc_lamports := acc_lamports a - lamports\<rparr>]"
    by (rule debit_run [OF assms(1), of lamports, folded a_def]) (rule that)
  show ?thesis
  proof (cases "acc_data a = [] \<and> lamports \<le> acc_lamports a")
    case ok: True
    have "unat i \<noteq> unat j" using assms(1) by (simp add: transferable_def word_unat_eq_iff)
    then have b: "contents tc1 ! unat j = b" using c1 ok by (simp add: b_def)
    have free: "free_account ic tc1 to j" using assms(1) frame by (auto simp: transferable_def intro: free_account_intact)
    have "ic_small ic" and w: "is_instruction_account_writable ic to = Ok True" and e: "\<not> acc_executable b"
      using assms(1) by (simp_all add: transferable_def b_def)
    obtain tc2 where credit: "with_instruction_account ic to (\<lambda>to. checked_add_lamports to lamports) tc1 =
       (if 2 ^ 64 \<le> unat (acc_lamports b) + unat lamports then Err ArithmeticOverflow else Ok (), tc2)"
      and frame2: "intact tc1 tc2" "borrows tc2 = borrows tc1"
      and "unat (acc_lamports b) + unat lamports < 2 ^ 64 \<Longrightarrow>
        contents tc2 = (contents tc1)[unat j := b\<lparr>acc_lamports := acc_lamports b + lamports\<rparr>]"
      by (rule credit_run [OF \<open>ic_small ic\<close> free w, of lamports, unfolded b, OF e]) (rule that)
    moreover have "transfer from to lamports ic tc = (transfer_result signs a b lamports, tc2)"
      using debit credit ok True
      by (auto simp: verified transfer_verified_debit bind_exec_def transfer_result_def not_less split: if_splits)
    ultimately show ?thesis
      using that [of tc2] c1 ok frame True intact_trans [OF frame(1)] by (auto simp: transfer_result_def not_le split: if_splits)
  next
    case False
    then have "transfer from to lamports ic tc = (transfer_result signs a b lamports, tc1)"
      using debit True by (auto simp: verified transfer_verified_debit bind_exec_def transfer_result_def not_less)
    then show ?thesis using that [of tc1] frame False True by (auto simp: transfer_result_def split: if_splits)
  qed
qed

text \<open>
  C14: The system program transfers between two different accounts that the instruction lists as writable,
  that are not executable and not borrowed, and the first of which it owns (\<open>transferable\<close>). Such a
  transfer succeeds exactly if the sender has signed, holds no data and has the funds, and the receiver's
  balance does not overflow; otherwise the error says which of these fails first. A transfer that succeeds
  moves the lamports and changes nothing else in any account.
\<close>

theorem transfer_spec:
  assumes "transferable ic tc from i to j" and "is_instruction_account_signer ic from = Ok signs"
    and "transfer from to lamports ic tc = (r, tc')"
  defines "a \<equiv> contents tc ! unat i" and "b \<equiv> contents tc ! unat j"
  shows "r = transfer_result signs a b lamports \<and>
    (r = Ok () \<longrightarrow> contents tc' = (contents tc)
       [unat i := a\<lparr>acc_lamports := acc_lamports a - lamports\<rparr>, unat j := b\<lparr>acc_lamports := acc_lamports b + lamports\<rparr>])"
  using transfer_run [OF assms(1,2), of lamports] assms(3)
  by (metis a_def b_def prod.inject)

section \<open>A payment\<close>

text \<open>Two accounts of the system program, the first of which signs, and the instruction that is to move lamports.\<close>

definition payer :: "u64 \<Rightarrow> AccountSharedData" where
  "payer l = \<lparr>acc_lamports = l, acc_data = [], acc_owner = 0, acc_executable = False, acc_rent_epoch = 0\<rparr>"

definition system_account :: AccountSharedData where
  "system_account = \<lparr>acc_lamports = 1, acc_data = [], acc_owner = native_loader_id, acc_executable = True, acc_rent_epoch = 0\<rparr>"

definition payment_instruction :: InstructionContext where
  "payment_instruction = instruction_context_default
     \<lparr>ic_program_accounts := [2], ic_instruction_accounts :=
       [\<lparr>ia_index_in_transaction = 0, ia_index_in_caller = 0, ia_index_in_callee = 0, ia_is_signer = True, ia_is_writable = True\<rparr>,
        \<lparr>ia_index_in_transaction = 1, ia_index_in_caller = 1, ia_index_in_callee = 1, ia_is_signer = False, ia_is_writable = True\<rparr>],
      ic_instruction_data := [2]\<rparr>"

definition payment :: "u64 \<Rightarrow> u64 \<Rightarrow> TransactionContext" where
  "payment a b = transaction_context_new [(1, payer a), (2, payer b), (0, system_account)] rent_default 5 64"

abbreviation payment_current :: InstructionContext where
  "payment_current \<equiv> payment_instruction\<lparr>ic_instruction_accounts_lamport_sum := 105\<rparr>"

definition payment_running :: TransactionContext where
  "payment_running = (payment 100 5)
     \<lparr>tc_instruction_stack := [0], tc_instruction_trace := [payment_current, instruction_context_default]\<rparr>"

lemmas payment_defs = payer_def system_account_def payment_instruction_def payment_def payment_running_def
  transaction_context_new_def instruction_context_default_def transaction_accounts_new_def refcell_new_def

lemmas account_eval = is_instruction_account_signer_def is_instruction_account_writable_def vec_get_def
  get_index_of_instruction_account_in_transaction_def

lemma payment_transferable: "transferable payment_current payment_running 0 0 1 1"
  by (simp add: transferable_def ic_small_def keys_ok_def free_account_def payment_defs program_key_eval account_eval
      system_program_id_def)

lemma payment_signs: "is_instruction_account_signer payment_current 0 = Ok True"
  by (simp add: payment_defs account_eval)

theorem transfer_spec_witness:
  "fst (transfer 0 1 30 payment_current payment_running) = Ok () \<and>
   contents (snd (transfer 0 1 30 payment_current payment_running)) = [payer 70, payer 35, system_account] \<and>
   fst (transfer 0 1 101 payment_current payment_running) = Err (Custom 1)"
proof -
  have c: "contents payment_running = [payer 100, payer 5, system_account]" by (simp add: payment_defs)
  note spec = transfer_spec [OF payment_transferable payment_signs, of _ "fst (transfer 0 1 l payment_current payment_running)"
      "snd (transfer 0 1 l payment_current payment_running)" for l, unfolded c]
  show ?thesis using spec [of 30 30] spec [of 101 101] by (simp add: payer_def transfer_result_def)
qed

end
