(* ===== verification/System_Properties.thy ===== *)
theory System_Properties
  imports System_Transfer
begin

text \<open>
  The system program as a whole: who must sign for what its instructions do, and a message that pays
  through it, from the message processor down to the accounts.
\<close>

section \<open>Authority\<close>

text \<open>
  C4: Whatever instruction the system program executes, and whether it succeeds or not, an account loses
  lamports only if it signed, if the base of its derived address signed, or if the authority of the nonce
  that it stores signed; and it gets a new owner only if it or the base of its address signed.
\<close>

theorem system_process_authorized:
  assumes "running ic tc" and "get_signers ic tc = Ok signers"
    and "system_process ne decode ivc tc = (r, tc')" and "i < length (cells tc)"
  shows "(acc_lamports (contents tc' ! i) < acc_lamports (contents tc ! i) \<longrightarrow>
       address_signed (ne_sha256 ne) signers (tc_account_keys tc ! i) \<or> nonce_signed (ne_bincode ne) signers (contents tc ! i)) \<and>
    (acc_owner (contents tc' ! i) \<noteq> acc_owner (contents tc ! i) \<longrightarrow>
       address_signed (ne_sha256 ne) signers (tc_account_keys tc ! i))"
proof -
  have current: "get_current_instruction_context tc = Ok ic" and small: "ic_small ic"
    using assms(1) by (simp_all add: running_def)
  have "system_obeys ne signers tc tc tc1" if "system_instruction ne ivc ic signers instruction tc = (r, tc1)" for instruction r tc1
    using keepsD [OF obeys_system_instruction [OF small assms(2)] _ that] by (simp add: unchanged_def)
  then have "system_obeys ne signers tc tc tc'"
    using assms(2,3) current obeys.R_refl
    by (auto simp: system_process_def bind_exec_def lift_def split: result.splits)
  then have "length (cells tc') = length (cells tc)"
    "i \<in> may_spend ne signers tc \<or> acc_lamports (rc_value (cells tc ! i)) \<le> acc_lamports (rc_value (cells tc' ! i))"
    "i \<in> may_assign ne signers tc \<or> acc_owner (rc_value (cells tc' ! i)) = acc_owner (rc_value (cells tc ! i))"
    using assms(4) by (auto simp: obeys_def)
  then show ?thesis using assms(4) by (auto simp: may_spend_def may_assign_def)
qed

section \<open>A payment through the message processor\<close>

definition example_externals :: NonceExternals where
  "example_externals = \<lparr>ne_sha256 = (\<lambda>_. 7), ne_bincode =
     \<lparr>bc_size = (\<lambda>_. None), bc_serialize = (\<lambda>_. None), bc_serialize_into = (\<lambda>b _. (False, b)), bc_deserialize = (\<lambda>_. None)\<rparr>\<rparr>"

definition example_decode :: "u64 \<Rightarrow> u8 list \<Rightarrow> SystemInstruction option" where
  "example_decode limit d = (if d = [2] then Some (Transfer 30) else None)"

abbreviation pay :: "InvokeContext \<Rightarrow> (TransactionContext, InstructionError, unit) exec" where
  "pay \<equiv> system_process example_externals example_decode"

lemma payment_signers: "get_signers payment_current payment_running = Ok {1}"
  by (simp add: get_signers_def payment_defs get_key_of_account_at_index_def vec_get_def)

lemma payment_running_ok: "running payment_current payment_running"
  by (simp add: running_def keys_ok_def stack_ok_def payment_defs current_context_eval ic_small_def)

lemma payment_run:
  obtains tc where "pay ivc payment_running = (Ok (), tc)" and "intact payment_running tc"
    and "borrows tc = borrows payment_running" and "contents tc = [payer 70, payer 35, system_account]"
proof -
  have c: "contents payment_running = [payer 100, payer 5, system_account]" by (simp add: payment_defs)
  obtain tc where "transfer 0 1 30 payment_current payment_running = (Ok (), tc)" "intact payment_running tc"
    "borrows tc = borrows payment_running" "contents tc = [payer 70, payer 35, system_account]"
    by (rule transfer_run [OF payment_transferable payment_signs, of 30, unfolded c])
      (simp add: transfer_result_def payer_def)
  moreover have "pay ivc payment_running = transfer 0 1 30 payment_current payment_running"
    using payment_running_ok payment_signers
    by (simp add: system_process_def exec_simps running_def sdk_limited_deserialize_def limited_deserialize_def
        example_decode_def payment_instruction_def system_instruction_def check_number_of_instruction_accounts_def
        get_number_of_instruction_accounts_def)
  ultimately show ?thesis using that by simp
qed

definition payment_context :: InvokeContext where
  "payment_context = invoke_context_new (payment 100 5) sysvar_cache_default compute_budget_default 0 0"

theorem system_process_authorized_witness:
  "acc_lamports (contents (snd (pay payment_context payment_running)) ! 0) < acc_lamports (contents payment_running ! 0) \<and>
   (address_signed (\<lambda>_. 7) {1} 1 \<or> nonce_signed (ne_bincode example_externals) {1} (payer 100))"
proof -
  obtain tc where tc: "pay payment_context payment_running = (Ok (), tc)" "contents tc = [payer 70, payer 35, system_account]"
    by (rule payment_run)
  have "acc_lamports (contents tc ! 0) < acc_lamports (contents payment_running ! 0)"
    unfolding tc(2) by (simp add: payment_defs)
  moreover have "contents payment_running ! 0 = payer 100" "tc_account_keys payment_running ! 0 = 1"
    "0 < length (cells payment_running)" "ne_sha256 example_externals = (\<lambda>_. 7)"
    by (simp_all add: payment_defs example_externals_def)
  ultimately show ?thesis
    using system_process_authorized [OF payment_running_ok payment_signers tc(1), of 0] tc(1) by simp
qed

text \<open>The message, the programs, and the steps of its only instruction.\<close>

definition payment_message :: SanitizedMessage where
  "payment_message = \<lparr>sm_program_instructions = [(0, \<lparr>ci_program_id_index = 2, ci_accounts = [0, 1], ci_data = [2]\<rparr>)],
     sm_is_signer = (\<lambda>i. i = 0), sm_is_writable = (\<lambda>i. i < 2)\<rparr>"

definition payment_programs :: Programs where
  "payment_programs k = (if k = 0 then Some (Builtin (Some (system_entrypoint example_externals example_decode))) else None)"

lemma payment_programs_ok: "programs_ok payment_programs"
  unfolding programs_ok_def
proof (intro allI impI)
  fix builtin_id f ic and ivc :: InvokeContext
  assume "payment_programs builtin_id = Some (Builtin (Some f))" and run: "running ic (ivc_transaction_context ivc)"
  then have "f = system_entrypoint example_externals example_decode" by (simp add: payment_programs_def split: if_splits)
  moreover have "bincode_laws (ne_bincode example_externals)" by (simp add: example_externals_def bincode_laws_def)
  ultimately show "program_run ic (ivc_transaction_context ivc) (ivc_transaction_context (snd (f ivc)))"
    using system_entrypoint_run [OF run] by simp
qed

lemma payment_accounts: "message_instruction_accounts payment_message [0, 1] = ic_instruction_accounts payment_instruction"
  by (simp add: message_instruction_accounts_def payment_message_def payment_instruction_def index_in_callee_def upt_rec)

lemma payment_push:
  "bind_exec (with_next_instruction_context (ic_configure [2] (ic_instruction_accounts payment_instruction) [2])) (\<lambda>_. tc_push) (payment 100 5) =
     (Ok (), payment_running)"
  by (simp add: payment_defs tc_push_def exec_simps next_back_def with_next_instruction_context_def ic_configure_def
        get_instruction_trace_length_def get_instruction_context_stack_height_def lamport_sum_eval)

lemma cells_eqI:
  assumes "contents tc = map rc_value xs" and "borrows tc = map rc_borrow xs"
  shows "cells tc = xs"
proof (rule nth_equalityI)
  show len: "length (cells tc) = length xs" using assms(1) by (metis length_map)
  fix i assume "i < length (cells tc)"
  then have "rc_value (cells tc ! i) = rc_value (xs ! i)" and "rc_borrow (cells tc ! i) = rc_borrow (xs ! i)"
    using assms len by (metis nth_map)+
  then show "cells tc ! i = xs ! i" by simp
qed

lemma payment_pop:
  assumes "intact payment_running tc" and "borrows tc = borrows payment_running"
    and "contents tc = [payer 70, payer 35, system_account]"
  shows "fst (tc_pop tc) = Ok ()"
proof -
  have "cells tc = map refcell_new [payer 70, payer 35, system_account]"
    using assms(2,3) by (intro cells_eqI) (simp_all add: payment_defs)
  moreover have "tc_instruction_stack tc = [0]" "tc_instruction_trace tc = [payment_current, instruction_context_default]"
    using assms(1) by (simp_all add: intact_def same_frame_def payment_running_def)
  ultimately show ?thesis
    by (simp add: payment_defs tc_pop_def detect_unbalanced_instruction_def current_context_eval lamport_sum_eval can_borrow_mut_def)
qed

lemma payment_ivc_push:
  obtains ivc where
    "bind_exec (on_transaction (with_next_instruction_context (ic_configure [2] (ic_instruction_accounts payment_instruction) [2])))
       (\<lambda>_. ivc_push) payment_context = (Ok (), ivc)"
    and "ivc_transaction_context ivc = payment_running" and "ivc_compute_meter ivc = ivc_compute_meter payment_context"
proof -
  define tc where "tc = snd (with_next_instruction_context (ic_configure [2] (ic_instruction_accounts payment_instruction) [2]) (payment 100 5))"
  have conf: "with_next_instruction_context (ic_configure [2] (ic_instruction_accounts payment_instruction) [2]) (payment 100 5) = (Ok (), tc)"
    by (simp add: tc_def payment_defs with_next_instruction_context_def next_back_def)
  then have push: "tc_push tc = (Ok (), payment_running)" using payment_push by (simp add: exec_simps)
  have "get_instruction_context_at_index_in_trace tc (get_instruction_trace_length tc) = Ok payment_instruction"
    "get_last_program_key payment_instruction tc = Ok 0" "get_instruction_context_stack_height tc = 0"
    by (simp_all add: tc_def payment_defs with_next_instruction_context_def next_back_def ic_configure_def current_context_eval
        get_instruction_trace_length_def program_key_eval)
  then show ?thesis
    using that conf push
    by (simp add: payment_context_def invoke_context_new_def on_transaction_def ivc_push_def exec_simps)
qed

lemma payment_builtin:
  assumes "ivc_transaction_context ivc = payment_running"
  shows "find_builtin payment_programs ivc = Ok (0, system_entrypoint example_externals example_decode, 0)"
proof -
  define b where "b = \<lparr>ba_instruction_context = payment_current, ba_index_in_transaction = 2, ba_index_in_instruction = 0\<rparr>"
  have "fst (try_borrow_program_account payment_current 0 payment_running) = Ok b"
    by (simp add: try_borrow_program_account_def exec_simps payment_defs try_borrow_account_def program_key_eval ta_get_def
        can_borrow_mut_def b_def)
  moreover have "get_owner b payment_running = native_loader_id" "get_key b payment_running = Ok 0"
    "get_last_program_key payment_current payment_running = Ok 0"
    by (simp_all add: b_def get_owner_def ba_account_def get_key_def payment_defs program_key_eval)
  ultimately show ?thesis
    using payment_running_ok assms by (simp add: find_builtin_def running_def payment_programs_def)
qed

lemma payment_chain:
  assumes "ivc_transaction_context ivc = payment_running" and "ivc_compute_meter ivc = ivc_compute_meter payment_context"
  obtains consumed ivc' where "process_executable_chain payment_programs ivc = (Ok (), consumed, ivc')"
    and "fst (tc_pop (ivc_transaction_context ivc')) = Ok ()"
proof -
  have same: "payment_running\<lparr>tc_return_data := \<lparr>rd_program_id = 0, rd_data = []\<rparr>\<rparr> = payment_running"
    by (simp add: payment_defs)
  obtain tc where tc: "pay (ivc\<lparr>ivc_compute_meter := saturating_sub (ivc_compute_meter ivc) 150\<rparr>) payment_running = (Ok (), tc)"
    and pop: "fst (tc_pop tc) = Ok ()"
    by (rule payment_run) (rule that, assumption, rule payment_pop)
  have meter: "ivc_compute_meter payment_context = cb_compute_unit_limit compute_budget_default"
    by (simp add: payment_context_def invoke_context_new_def)
  have limit: "cb_compute_unit_limit compute_budget_default = 1400000"
    by (simp add: compute_budget_default_def compute_budget_new_def MAX_COMPUTE_UNIT_LIMIT_def)
  define ivc' where "ivc' = ivc\<lparr>ivc_compute_meter := 1399850, ivc_transaction_context := tc\<rparr>"
  have "ivc\<lparr>ivc_transaction_context := payment_running\<rparr> = ivc" using assms(1) by (cases ivc) simp
  then have "system_entrypoint example_externals example_decode ivc = (Ok (), ivc')"
    using tc assms meter limit
    by (simp add: system_entrypoint_def builtin_entrypoint_def DEFAULT_COMPUTE_UNITS_def consume_checked_def bind_exec_def
        on_transaction_def saturating_sub_def ivc'_def)
  moreover have "on_transaction (set_return_data 0 []) ivc = (Ok (), ivc)"
    using assms(1) same by (simp add: on_transaction_def set_return_data_def)
  ultimately have "process_executable_chain payment_programs ivc = (Ok (), 150, ivc')"
    using payment_builtin [OF assms(1)] assms(2) meter limit
    by (simp add: process_executable_chain_def instruction_result_def get_remaining_def ivc'_def saturating_sub_def Let_def)
  then show ?thesis using that pop by (simp add: ivc'_def)
qed

lemma payment_fixup: "on_transaction (fixup_instructions 0) payment_context = (Ok (), payment_context)"
proof -
  have "find_index_of_account (payment 100 5) instructions_id = None"
    by (simp add: payment_defs find_index_of_account_def instructions_id_def)
  then show ?thesis
    by (simp add: payment_context_def invoke_context_new_def on_transaction_def fixup_instructions_def)
qed

lemma payment_message_run:
  "fst (process_message payment_programs (\<lambda>_. False) payment_message [[2]] compute_budget_default sysvar_cache_default 0 0
     (payment 100 5, 0)) = Ok ()"
proof -
  obtain ivc1 where 1: "bind_exec (on_transaction (with_next_instruction_context (ic_configure [2] (ic_instruction_accounts payment_instruction) [2])))
       (\<lambda>_. ivc_push) payment_context = (Ok (), ivc1)"
    and ivc1: "ivc_transaction_context ivc1 = payment_running" "ivc_compute_meter ivc1 = ivc_compute_meter payment_context"
    by (rule payment_ivc_push)
  obtain consumed ivc2 where 2: "process_executable_chain payment_programs ivc1 = (Ok (), consumed, ivc2)"
    and pop: "fst (tc_pop (ivc_transaction_context ivc2)) = Ok ()"
    using ivc1 by (rule payment_chain)
  obtain ivc3 where 3: "ivc_pop ivc2 = (Ok (), ivc3)"
    using pop ivc_pop_transaction(1) [of ivc2] by (cases "ivc_pop ivc2") simp
  have "process_instruction payment_programs [2] (ic_instruction_accounts payment_instruction) [2] payment_context = (Ok (), consumed, ivc3)"
    by (simp add: process_instruction_def 1 2 3)
  moreover have "\<not> is_precompile 0 (\<lambda>_. False)"
    by (simp add: is_precompile_def PRECOMPILES_def precompile_check_id_def secp256k1_program_id_def ed25519_program_id_def)
  moreover have "sm_program_instructions payment_message = [(0, \<lparr>ci_program_id_index = 2, ci_accounts = [0, 1], ci_data = [2]\<rparr>)]"
    by (simp add: payment_message_def)
  ultimately show ?thesis
    by (simp add: process_message_def process_message_instruction_def payment_context_def [symmetric] payment_fixup payment_accounts
        bind_exec_def ret_def)
qed

lemma payment_ok: "transaction_ok (payment 100 5)"
  by (simp add: transaction_ok_def keys_ok_def stack_ok_def payment_defs)

end
