(* ===== verification/Vote_Versions.thy ===== *)
theory Vote_Versions
  imports Vote_Update Account_Runs
begin

text \<open>
  The versions in which a vote state is stored: \<open>sdk/program/src/vote/state/vote_state_versions.rs\<close>,
  \<open>vote_state_1_14_11.rs\<close> and \<open>vote_state_0_23_5.rs\<close>.
\<close>

section \<open>Versions\<close>

record VoteState0_23_5 =
  v0_node_pubkey :: Pubkey
  v0_authorized_voter :: Pubkey
  v0_authorized_voter_epoch :: Epoch
  v0_prior_voters :: "(Pubkey \<times> Epoch \<times> Epoch \<times> Slot) CircBuf"
  v0_authorized_withdrawer :: Pubkey
  v0_commission :: u8
  v0_votes :: "Lockout list"
  v0_root_slot :: "u64 option"
  v0_epoch_credits :: EpochCredits
  v0_last_timestamp :: BlockTimestamp

record VoteState1_14_11 =
  v1_node_pubkey :: Pubkey
  v1_authorized_withdrawer :: Pubkey
  v1_commission :: u8
  v1_votes :: "Lockout list"
  v1_root_slot :: "Slot option"
  v1_authorized_voters :: AuthorizedVoters
  v1_prior_voters :: "PriorVoter CircBuf"
  v1_epoch_credits :: EpochCredits
  v1_last_timestamp :: BlockTimestamp

datatype VoteStateVersions = V0_23_5 VoteState0_23_5 | V1_14_11 VoteState1_14_11 | Current VoteState

definition new_current :: "VoteState \<Rightarrow> VoteStateVersions" where
  "new_current vote_state = Current vote_state"

definition landed_votes_from_lockouts :: "Lockout list \<Rightarrow> LandedVote list" where
  "landed_votes_from_lockouts lockouts = map landed_vote_from lockouts"

fun convert_to_current :: "VoteStateVersions \<Rightarrow> VoteState" where
  "convert_to_current (V0_23_5 state) =
     \<lparr>node_pubkey = v0_node_pubkey state,
      authorized_withdrawer = v0_authorized_withdrawer state,
      commission = v0_commission state,
      votes = landed_votes_from_lockouts (v0_votes state),
      root_slot = v0_root_slot state,
      authorized_voters = av_new (v0_authorized_voter_epoch state) (v0_authorized_voter state),
      prior_voters = circbuf_default (0, 0, 0),
      epoch_credits = v0_epoch_credits state,
      last_timestamp = v0_last_timestamp state\<rparr>"
| "convert_to_current (V1_14_11 state) =
     \<lparr>node_pubkey = v1_node_pubkey state,
      authorized_withdrawer = v1_authorized_withdrawer state,
      commission = v1_commission state,
      votes = landed_votes_from_lockouts (v1_votes state),
      root_slot = v1_root_slot state,
      authorized_voters = v1_authorized_voters state,
      prior_voters = v1_prior_voters state,
      epoch_credits = v1_epoch_credits state,
      last_timestamp = v1_last_timestamp state\<rparr>"
| "convert_to_current (Current state) = state"

fun is_uninitialized :: "VoteStateVersions \<Rightarrow> bool" where
  "is_uninitialized (V0_23_5 vote_state) \<longleftrightarrow> v0_authorized_voter vote_state = 0"
| "is_uninitialized (V1_14_11 vote_state) \<longleftrightarrow> av_is_empty (v1_authorized_voters vote_state)"
| "is_uninitialized (Current vote_state) \<longleftrightarrow> av_is_empty (authorized_voters vote_state)"

definition v1_size_of :: nat where
  "v1_size_of = 3731"

definition versions_size_of :: "bool \<Rightarrow> nat" where
  "versions_size_of is_current = (if is_current then vote_state_size_of else v1_size_of)"

text \<open>The slice starts after the version; a sequence of zeros there is an account that was never initialized.\<close>

definition v1_is_correct_size_and_initialized :: "u8 list \<Rightarrow> bool" where
  "v1_is_correct_size_and_initialized d \<longleftrightarrow> length d = v1_size_of \<and> take 82 (drop 4 d) \<noteq> replicate 82 0"

definition current_is_correct_size_and_initialized :: "u8 list \<Rightarrow> bool" where
  "current_is_correct_size_and_initialized d \<longleftrightarrow> length d = vote_state_size_of \<and> take 114 (drop 4 d) \<noteq> replicate 114 0"

definition is_correct_size_and_initialized :: "u8 list \<Rightarrow> bool" where
  "is_correct_size_and_initialized d \<longleftrightarrow>
     current_is_correct_size_and_initialized d \<or> v1_is_correct_size_and_initialized d"

definition v1_from :: "VoteState \<Rightarrow> VoteState1_14_11" where
  "v1_from vote_state =
     \<lparr>v1_node_pubkey = node_pubkey vote_state,
      v1_authorized_withdrawer = authorized_withdrawer vote_state,
      v1_commission = commission vote_state,
      v1_votes = map lv_lockout (votes vote_state),
      v1_root_slot = root_slot vote_state,
      v1_authorized_voters = authorized_voters vote_state,
      v1_prior_voters = prior_voters vote_state,
      v1_epoch_credits = epoch_credits vote_state,
      v1_last_timestamp = last_timestamp vote_state\<rparr>"

section \<open>Storing a vote state\<close>

definition set_vote_account_state ::
  "VoteStateVersions bincode \<Rightarrow> BorrowedAccount \<Rightarrow> VoteState \<Rightarrow> FeatureSet \<Rightarrow> (TransactionContext, InstructionError, unit) exec" where
  "set_vote_account_state bc vote_account vote_state feature_set =
     (if feature_set VoteStateAddVoteLatency
      then
        bind_exec (gets (get_data vote_account)) (\<lambda>d.
        bind_exec
          (if length d < versions_size_of True
           then
             bind_exec (gets (is_rent_exempt_at_data_length vote_account (versions_size_of True))) (\<lambda>exempt.
             if \<not> exempt then ret True
             else bind_exec (outcome (set_data_length vote_account (versions_size_of True))) (\<lambda>r. ret (\<not> is_ok r)))
           else ret False) (\<lambda>too_small.
        if too_small then set_state bc vote_account (V1_14_11 (v1_from vote_state))
        else set_state bc vote_account (new_current vote_state)))
      else set_state bc vote_account (V1_14_11 (v1_from vote_state)))"

section \<open>What is stored is what is read\<close>

text \<open>The older version does not store how late the votes landed.\<close>

definition forget_latencies :: "VoteState \<Rightarrow> VoteState" where
  "forget_latencies vs = vs\<lparr>votes := map (\<lambda>v. v\<lparr>latency := 0\<rparr>) (votes vs)\<rparr>"

lemma convert_v1_from: "convert_to_current (V1_14_11 (v1_from vs)) = forget_latencies vs"
proof -
  have "landed_vote_from (lv_lockout v) = v\<lparr>latency := 0\<rparr>" for v by (cases v) (simp add: landed_vote_from_def)
  then show ?thesis by (cases vs) (simp add: v1_from_def forget_latencies_def landed_votes_from_lockouts_def)
qed

lemma set_data_length_cells:
  assumes "set_data_length b n tc = (r, tc')" and "unat (ba_index_in_transaction b) < length (cells tc)"
  shows "length (cells tc') = length (cells tc)" and "is_ok r \<Longrightarrow> length (get_data b tc') = n"
    and "\<not> is_ok r \<Longrightarrow> cells tc' = cells tc"
proof -
  obtain r1 tc1 where touch: "touch b tc = (r1, tc1)" by fastforce
  note frame = touch_frame(1) [OF touch]
  have "is_ok r \<and> cells tc' = cells tc \<and> length (get_data b tc) = n \<or> \<not> is_ok r \<and> cells tc' = cells tc \<or>
      is_ok r \<and> tc' = update_account b (acc_resize n 0) (update_accounts_resize_delta b n tc1)"
    using assms(1) touch frame
    by (auto simp: set_data_length_def bind_exec_def modify_def is_ok_def split: result.splits if_splits)
  then show "length (cells tc') = length (cells tc)" and "is_ok r \<Longrightarrow> length (get_data b tc') = n"
    and "\<not> is_ok r \<Longrightarrow> cells tc' = cells tc"
    using assms(2) frame
    by (auto simp: update_account_def cells_set_cell update_delta_frame get_data_def ba_account_def acc_resize_def)
qed

text \<open>
  C40: a vote state that was stored is read back. It is stored in the current version, and read back as
  it was, exactly if votes are to be stored with their latency and the account has the room for that, or
  is exempt from rent with that room and could be resized; otherwise it is stored in the version 1.14.11,
  and is read back without the latencies of its votes.
\<close>

theorem set_vote_account_state_roundtrip:
  assumes laws: "bincode_laws bc" and run: "set_vote_account_state bc b vs feature_set tc = (Ok (), tc')"
    and b: "unat (ba_index_in_transaction b) < length (cells tc)" and len: "length (get_data b tc) < 2 ^ 64"
  shows "let current = feature_set VoteStateAddVoteLatency \<and> (3762 \<le> length (get_data b tc) \<or>
           is_rent_exempt_at_data_length b 3762 tc \<and> is_ok (fst (set_data_length b 3762 tc)));
         v = (if current then Current vs else V1_14_11 (v1_from vs))
       in get_state bc b tc' = Ok v \<and> convert_to_current v = (if current then vs else forget_latencies vs)"
proof -
  define stored where "stored v \<longleftrightarrow> get_state bc b tc' = Ok v" for v
  have V1: "stored (V1_14_11 (v1_from vs))" if "set_state bc b (V1_14_11 (v1_from vs)) tc1 = (Ok (), tc')" and "cells tc1 = cells tc" for tc1
    using set_state_Ok(1) [OF laws that(1)] b len that(2) by (simp add: stored_def get_data_def ba_account_def)
  have cur: "stored (Current vs)" if "set_state bc b (new_current vs) tc1 = (Ok (), tc')" "length (cells tc1) = length (cells tc)"
      "length (get_data b tc1) < 2 ^ 64" for tc1
    using set_state_Ok(1) [OF laws that(1) _ that(3)] b that(2) by (simp add: stored_def new_current_def)
  have "stored (if feature_set VoteStateAddVoteLatency \<and> (3762 \<le> length (get_data b tc) \<or>
      is_rent_exempt_at_data_length b 3762 tc \<and> is_ok (fst (set_data_length b 3762 tc)))
    then Current vs else V1_14_11 (v1_from vs))"
  proof (cases "feature_set VoteStateAddVoteLatency \<and> length (get_data b tc) < 3762 \<and> is_rent_exempt_at_data_length b 3762 tc")
    case True
    obtain r tc1 where resize: "set_data_length b 3762 tc = (r, tc1)" by fastforce
    note step = set_data_length_cells [OF resize b]
    show ?thesis
      using run True resize step V1 [of tc1] cur [of tc1]
      by (auto simp: set_vote_account_state_def versions_size_of_def vote_state_size_of_def exec_ok gets_def outcome_def bind_exec_def
          ret_def split: if_splits)
  next
    case False
    then show ?thesis
      using run V1 [of tc] cur [of tc] len
      by (auto simp: set_vote_account_state_def versions_size_of_def vote_state_size_of_def gets_def bind_exec_def ret_def
          split: if_splits)
  qed
  then show ?thesis by (auto simp: Let_def stored_def convert_v1_from simp del: convert_to_current.simps(2))
qed

text \<open>An account that is owned by the running program and large enough for the newer version.\<close>

definition example_vote_instruction :: InstructionContext where
  "example_vote_instruction = instruction_context_default\<lparr>ic_program_accounts := [1], ic_instruction_accounts :=
     [\<lparr>ia_index_in_transaction = 0, ia_index_in_caller = 0, ia_index_in_callee = 0, ia_is_signer = False, ia_is_writable = True\<rparr>]\<rparr>"

definition example_vote_transaction :: TransactionContext where
  "example_vote_transaction = transaction_context_new
     [(4, \<lparr>acc_lamports = 50, acc_data = replicate 3762 0, acc_owner = 3, acc_executable = False, acc_rent_epoch = 0\<rparr>),
      (3, \<lparr>acc_lamports = 1, acc_data = [], acc_owner = 8, acc_executable = True, acc_rent_epoch = 0\<rparr>)] rent_default 5 64"

theorem set_vote_account_state_roundtrip_witness:
  "\<exists>v. get_state (table_bincode [Current vote_state_default]) (handle example_vote_instruction 0 0)
     (snd (set_vote_account_state (table_bincode [Current vote_state_default]) (handle example_vote_instruction 0 0) vote_state_default
        (\<lambda>_. True) example_vote_transaction)) = Ok v \<and> convert_to_current v = vote_state_default"
proof -
  let ?bc = "table_bincode [Current vote_state_default]" and ?b = "handle example_vote_instruction 0 0"
  let ?run = "set_vote_account_state ?bc ?b vote_state_default (\<lambda>_. True) example_vote_transaction"
  have handle: "is_writable ?b" "is_owned_by_current_program ?b example_vote_transaction" "\<not> is_executable ?b example_vote_transaction"
    "get_data ?b example_vote_transaction = replicate 3762 0" "fst (touch ?b example_vote_transaction) = Ok ()"
    by (simp_all add: handle_writable [unfolded ic_small_def] handle_owned is_executable_def get_data_def touch_def ta_touch_def
        example_vote_transaction_def example_vote_instruction_def ba_account_def transaction_context_new_def
        transaction_accounts_new_def refcell_new_def instruction_context_default_def get_last_program_key_def
        get_index_of_program_account_in_transaction_def get_key_of_account_at_index_def vec_get_def
        get_number_of_program_accounts_def saturating_sub_def is_instruction_account_writable_def
        get_index_of_instruction_account_in_transaction_def)
  obtain tc1 where touch: "touch ?b example_vote_transaction = (Ok (), tc1)" using handle(5) by (metis prod.collapse)
  have "get_data ?b tc1 = replicate 3762 0" using handle(4) touch_frame(1) [OF touch] by (simp add: get_data_def ba_account_def)
  then have "fst ?run = Ok ()"
    using handle touch
    by (simp add: set_vote_account_state_def new_current_def set_state_def with_data_mut_def bind_exec_def can_data_be_changed_def
        table_bincode_def versions_size_of_def vote_state_size_of_def gets_def ret_def)
  then have run: "?run = (Ok (), snd ?run)" by (simp add: prod_eq_iff)
  have "unat (ba_index_in_transaction ?b) < length (cells example_vote_transaction)"
    by (simp add: example_vote_transaction_def transaction_context_new_def transaction_accounts_new_def)
  then show ?thesis
    using set_vote_account_state_roundtrip [OF table_bincode_laws run] handle(4) by (auto simp: Let_def)
qed

end
