(* ===== verification/Vote_Account.thy ===== *)
theory Vote_Account
  imports Vote_Versions Nonce
begin

text \<open>
  The operations of the vote program on vote accounts: \<open>programs/vote/src/vote_state/mod.rs\<close>. The
  bincode format of a stored vote state is a parameter.
\<close>

section \<open>Running a change of a vote state\<close>

text \<open>A function that changes a local vote state: its value and the state after it.\<close>

definition on_local :: "('s, 'e, 'a) exec \<Rightarrow> 's \<Rightarrow> ('a \<times> 's, 'e) result" where
  "on_local m s = (case m s of (Ok x, s') \<Rightarrow> Ok (x, s') | (Err e, s') \<Rightarrow> Err e | (Panic, s') \<Rightarrow> Panic)"

definition get_current_state ::
  "VoteStateVersions bincode \<Rightarrow> BorrowedAccount \<Rightarrow> TransactionContext \<Rightarrow> (VoteState, InstructionError) result" where
  "get_current_state bc vote_account tc = and_then (get_state bc vote_account tc) (\<lambda>v. Ok (convert_to_current v))"

definition verify_authorized_signer :: "Pubkey \<Rightarrow> Pubkey set \<Rightarrow> (unit, InstructionError) result" where
  "verify_authorized_signer authorized signers = (if authorized \<in> signers then Ok () else Err MissingRequiredSignature)"

section \<open>Authorities, identity and commission\<close>

definition authorize_state ::
  "Pubkey \<Rightarrow> VoteAuthorize \<Rightarrow> Pubkey set \<Rightarrow> Clock \<Rightarrow> VoteState \<Rightarrow> (VoteState, InstructionError) result" where
  "authorize_state authorized vote_authorize signers clock vote_state =
     (case vote_authorize of
        Voter \<Rightarrow>
          let authorized_withdrawer_signer = is_ok (verify_authorized_signer (authorized_withdrawer vote_state) signers)
          in and_then (expect (checked_add (clock_leader_schedule_epoch clock) 1)) (\<lambda>target_epoch.
             and_then
               (on_local (set_new_authorized_voter authorized (clock_epoch clock) target_epoch
                  (\<lambda>epoch_authorized_voter.
                     if authorized_withdrawer_signer then Ok () else verify_authorized_signer epoch_authorized_voter signers))
                  vote_state) (\<lambda>(_, vote_state'). Ok vote_state'))
      | Withdrawer \<Rightarrow>
          and_then (verify_authorized_signer (authorized_withdrawer vote_state) signers) (\<lambda>_.
          Ok (vote_state\<lparr>authorized_withdrawer := authorized\<rparr>)))"

definition authorize ::
  "VoteStateVersions bincode \<Rightarrow> BorrowedAccount \<Rightarrow> Pubkey \<Rightarrow> VoteAuthorize \<Rightarrow> Pubkey set \<Rightarrow> Clock \<Rightarrow> FeatureSet \<Rightarrow>
   (TransactionContext, InstructionError, unit) exec" where
  "authorize bc vote_account authorized vote_authorize signers clock feature_set =
     bind_exec (reads (get_current_state bc vote_account)) (\<lambda>vote_state.
     bind_exec (lift (authorize_state authorized vote_authorize signers clock vote_state)) (\<lambda>vote_state'.
     set_vote_account_state bc vote_account vote_state' feature_set))"

definition update_validator_identity ::
  "VoteStateVersions bincode \<Rightarrow> BorrowedAccount \<Rightarrow> Pubkey \<Rightarrow> Pubkey set \<Rightarrow> FeatureSet \<Rightarrow>
   (TransactionContext, InstructionError, unit) exec" where
  "update_validator_identity bc vote_account node_pubkey' signers feature_set =
     bind_exec (reads (get_current_state bc vote_account)) (\<lambda>vote_state.
     bind_exec (lift (verify_authorized_signer (authorized_withdrawer vote_state) signers)) (\<lambda>_.
     bind_exec (lift (verify_authorized_signer node_pubkey' signers)) (\<lambda>_.
     set_vote_account_state bc vote_account (vote_state\<lparr>node_pubkey := node_pubkey'\<rparr>) feature_set)))"

definition is_commission_increase :: "VoteState \<Rightarrow> u8 \<Rightarrow> bool" where
  "is_commission_increase vote_state commission' \<longleftrightarrow> commission vote_state < commission'"

definition is_commission_update_allowed :: "Slot \<Rightarrow> EpochSchedule \<Rightarrow> bool" where
  "is_commission_update_allowed slot' epoch_schedule =
     (case checked_rem (saturating_sub slot' (first_normal_slot epoch_schedule)) (slots_per_epoch epoch_schedule) of
        Some relative_slot \<Rightarrow> saturating_mul relative_slot 2 \<le> slots_per_epoch epoch_schedule
      | None \<Rightarrow> True)"

definition enforce_commission_update_rule ::
  "VoteStateVersions bincode \<Rightarrow> BorrowedAccount \<Rightarrow> u8 \<Rightarrow> FeatureSet \<Rightarrow> TransactionContext \<Rightarrow> bool" where
  "enforce_commission_update_rule bc vote_account commission' feature_set tc =
     (if feature_set AllowCommissionDecreaseAtAnyTime
      then
        (case get_state bc vote_account tc of
           Ok decoded_vote_state \<Rightarrow> is_commission_increase (convert_to_current decoded_vote_state) commission'
         | _ \<Rightarrow> True)
      else True)"

definition update_commission ::
  "VoteStateVersions bincode \<Rightarrow> BorrowedAccount \<Rightarrow> u8 \<Rightarrow> Pubkey set \<Rightarrow> EpochSchedule \<Rightarrow> Clock \<Rightarrow> FeatureSet \<Rightarrow>
   (TransactionContext, InstructionError, unit) exec" where
  "update_commission bc vote_account commission' signers epoch_schedule clock feature_set =
     bind_exec (gets (enforce_commission_update_rule bc vote_account commission' feature_set)) (\<lambda>enforce.
     bind_exec
       (require (\<not> (enforce \<and> feature_set CommissionUpdatesOnlyAllowedInFirstHalfOfEpoch \<and>
                    \<not> is_commission_update_allowed (clock_slot clock) epoch_schedule))
          (vote_error_into CommissionUpdateTooLate)) (\<lambda>_.
     bind_exec (reads (get_current_state bc vote_account)) (\<lambda>vote_state.
     bind_exec (lift (verify_authorized_signer (authorized_withdrawer vote_state) signers)) (\<lambda>_.
     set_vote_account_state bc vote_account (vote_state\<lparr>commission := commission'\<rparr>) feature_set))))"

section \<open>Withdrawals\<close>

definition reject_active_vote_account_close :: "VoteState \<Rightarrow> Clock \<Rightarrow> bool" where
  "reject_active_vote_account_close vote_state clock =
     (case next_back (epoch_credits vote_state) of
        Some (last_epoch_with_credits, _, _) \<Rightarrow> saturating_sub (clock_epoch clock) last_epoch_with_credits < 2
      | None \<Rightarrow> False)"

definition withdraw_from_vote_account ::
  "VoteStateVersions bincode \<Rightarrow> BorrowedAccount \<Rightarrow> u64 \<Rightarrow> Pubkey set \<Rightarrow> Rent \<Rightarrow> Clock \<Rightarrow> FeatureSet \<Rightarrow>
   (TransactionContext, InstructionError, unit) exec" where
  "withdraw_from_vote_account bc vote_account lamports signers rent_sysvar clock feature_set =
     bind_exec (reads (get_current_state bc vote_account)) (\<lambda>vote_state.
     bind_exec (lift (verify_authorized_signer (authorized_withdrawer vote_state) signers)) (\<lambda>_.
     bind_exec (gets (get_lamports vote_account)) (\<lambda>balance.
     bind_exec (lift (ok_or (checked_sub balance lamports) InsufficientFunds)) (\<lambda>remaining_balance.
     bind_exec
       (if remaining_balance = 0
        then
          if reject_active_vote_account_close vote_state clock then throw (vote_error_into ActiveVoteAccountClose)
          else set_vote_account_state bc vote_account vote_state_default feature_set
        else
          bind_exec (gets (get_data vote_account)) (\<lambda>d.
          require (\<not> remaining_balance < minimum_balance rent_sysvar (length d)) InsufficientFunds)) (\<lambda>_.
     checked_sub_lamports vote_account lamports)))))"

definition withdraw ::
  "VoteStateVersions bincode \<Rightarrow> InstructionContext \<Rightarrow> IndexOfAccount \<Rightarrow> u64 \<Rightarrow> IndexOfAccount \<Rightarrow> Pubkey set \<Rightarrow> Rent \<Rightarrow> Clock \<Rightarrow>
   FeatureSet \<Rightarrow> (TransactionContext, InstructionError, unit) exec" where
  "withdraw bc ic vote_account_index lamports to_account_index signers rent_sysvar clock feature_set =
     bind_exec
       (with_instruction_account ic vote_account_index (\<lambda>vote_account.
          withdraw_from_vote_account bc vote_account lamports signers rent_sysvar clock feature_set)) (\<lambda>_.
     with_instruction_account ic to_account_index (\<lambda>to_account. checked_add_lamports to_account lamports))"

section \<open>Initialization and votes\<close>

definition initialize_account ::
  "VoteStateVersions bincode \<Rightarrow> BorrowedAccount \<Rightarrow> VoteInit \<Rightarrow> Pubkey set \<Rightarrow> Clock \<Rightarrow> FeatureSet \<Rightarrow>
   (TransactionContext, InstructionError, unit) exec" where
  "initialize_account bc vote_account vote_init signers clock feature_set =
     bind_exec (gets (get_data vote_account)) (\<lambda>d.
     bind_exec (require (length d = versions_size_of (feature_set VoteStateAddVoteLatency)) InvalidAccountData) (\<lambda>_.
     bind_exec (reads (get_state bc vote_account)) (\<lambda>versioned.
     bind_exec (require (is_uninitialized versioned) AccountAlreadyInitialized) (\<lambda>_.
     bind_exec (lift (verify_authorized_signer (init_node_pubkey vote_init) signers)) (\<lambda>_.
     set_vote_account_state bc vote_account (vote_state_new vote_init clock) feature_set)))))"

definition verify_and_get_vote_state ::
  "VoteStateVersions bincode \<Rightarrow> BorrowedAccount \<Rightarrow> Clock \<Rightarrow> Pubkey set \<Rightarrow> TransactionContext \<Rightarrow> (VoteState, InstructionError) result" where
  "verify_and_get_vote_state bc vote_account clock signers tc =
     and_then (get_state bc vote_account tc) (\<lambda>versioned.
     if is_uninitialized versioned then Err UninitializedAccount
     else
       and_then (on_local (get_and_update_authorized_voter (clock_epoch clock)) (convert_to_current versioned))
         (\<lambda>(authorized_voter, vote_state).
       and_then (verify_authorized_signer authorized_voter signers) (\<lambda>_. Ok vote_state)))"

definition max_slot :: "Slot list \<Rightarrow> Slot option" where
  "max_slot slots = (case slots of [] \<Rightarrow> None | s # ss \<Rightarrow> Some (fold max ss s))"

definition process_vote_timestamp :: "Vote \<Rightarrow> (VoteState, VoteError, unit) exec" where
  "process_vote_timestamp vote =
     (case vote_timestamp vote of
        None \<Rightarrow> ret ()
      | Some timestamp \<Rightarrow>
          bind_exec (lift (ok_or (max_slot (vote_slots vote)) EmptySlots)) (\<lambda>s. process_timestamp s timestamp))"

definition process_vote_with_account ::
  "VoteStateVersions bincode \<Rightarrow> BorrowedAccount \<Rightarrow> SlotHash list \<Rightarrow> Clock \<Rightarrow> Vote \<Rightarrow> Pubkey set \<Rightarrow> FeatureSet \<Rightarrow>
   (TransactionContext, InstructionError, unit) exec" where
  "process_vote_with_account bc vote_account slot_hashes clock vote signers feature_set =
     bind_exec (reads (verify_and_get_vote_state bc vote_account clock signers)) (\<lambda>vote_state.
     bind_exec
       (lift (map_err vote_error_into (on_local
          (bind_exec
             (process_vote vote slot_hashes (clock_epoch clock) (clock_slot clock)
                (feature_set TimelyVoteCredits) (feature_set DeprecateUnusedLegacyVotePlumbing)) (\<lambda>_.
           process_vote_timestamp vote)) vote_state))) (\<lambda>(_, vote_state').
     set_vote_account_state bc vote_account vote_state' feature_set))"

definition process_vote_state_update ::
  "VoteStateVersions bincode \<Rightarrow> BorrowedAccount \<Rightarrow> SlotHash list \<Rightarrow> Clock \<Rightarrow> VoteStateUpdate \<Rightarrow> Pubkey set \<Rightarrow> FeatureSet \<Rightarrow>
   (TransactionContext, InstructionError, unit) exec" where
  "process_vote_state_update bc vote_account slot_hashes clock vote_state_update signers feature_set =
     bind_exec (reads (verify_and_get_vote_state bc vote_account clock signers)) (\<lambda>vote_state.
     bind_exec
       (lift (map_err vote_error_into (on_local
          (do_process_vote_state_update slot_hashes (clock_epoch clock) (clock_slot clock) vote_state_update (Some feature_set))
          vote_state))) (\<lambda>(_, vote_state').
     set_vote_account_state bc vote_account vote_state' feature_set))"

section \<open>New accounts\<close>

definition vote_program_id :: Pubkey where
  "vote_program_id = 0x761481d357474bb7c4d7624ebd3bdb3d8355e73d11043fc0da3538000000000"

definition clock_default :: Clock where
  "clock_default = \<lparr>clock_slot = 0, clock_epoch_start_timestamp = 0, clock_epoch = 0, clock_leader_schedule_epoch = 0,
     clock_unix_timestamp = 0\<rparr>"

definition create_account_with_authorized ::
  "VoteStateVersions bincode \<Rightarrow> Pubkey \<Rightarrow> Pubkey \<Rightarrow> Pubkey \<Rightarrow> u8 \<Rightarrow> u64 \<Rightarrow> (AccountSharedData, 'e) result" where
  "create_account_with_authorized bc node_pubkey' authorized_voter authorized_withdrawer' commission' lamports =
     (let vote_account = acc_create lamports (replicate vote_state_size_of 0) vote_program_id False 0;
          vote_state = vote_state_new
            \<lparr>init_node_pubkey = node_pubkey', init_authorized_voter = authorized_voter,
             init_authorized_withdrawer = authorized_withdrawer', init_commission = commission'\<rparr> clock_default
      in case bc_serialize_into bc (acc_data vote_account) (Current vote_state) of
           (True, d) \<Rightarrow> Ok (vote_account\<lparr>acc_data := d\<rparr>)
         | (False, _) \<Rightarrow> Panic)"

definition vote_create_account ::
  "VoteStateVersions bincode \<Rightarrow> Pubkey \<Rightarrow> Pubkey \<Rightarrow> u8 \<Rightarrow> u64 \<Rightarrow> (AccountSharedData, 'e) result" where
  "vote_create_account bc vote_pubkey node_pubkey' commission' lamports =
     create_account_with_authorized bc node_pubkey' vote_pubkey vote_pubkey commission' lamports"

end
