(* ===== verification/Vote_Program.thy ===== *)
theory Vote_Program
  imports Vote_Account System_Program
begin

text \<open>
  The vote program: the instructions of \<open>sdk/program/src/vote/instruction.rs\<close> and the entrypoint of
  \<open>programs/vote/src/vote_processor.rs\<close>. SHA-256 and the bincode formats are parameters.
\<close>

section \<open>Instructions\<close>

datatype VoteInstruction =
    InitializeAccount VoteInit
  | Authorize Pubkey VoteAuthorize
  | VoteIx Vote
  | Withdraw u64
  | UpdateValidatorIdentity
  | UpdateCommission u8
  | VoteSwitch Vote Hash
  | AuthorizeChecked VoteAuthorize
  | UpdateVoteState VoteStateUpdate
  | UpdateVoteStateSwitch VoteStateUpdate Hash
  | AuthorizeWithSeed VoteAuthorizeWithSeedArgs
  | AuthorizeCheckedWithSeed VoteAuthorizeCheckedWithSeedArgs
  | CompactUpdateVoteState VoteStateUpdate
  | CompactUpdateVoteStateSwitch VoteStateUpdate Hash

fun is_simple_vote :: "VoteInstruction \<Rightarrow> bool" where
  "is_simple_vote (VoteIx _) = True"
| "is_simple_vote (VoteSwitch _ _) = True"
| "is_simple_vote (UpdateVoteState _) = True"
| "is_simple_vote (UpdateVoteStateSwitch _ _) = True"
| "is_simple_vote (CompactUpdateVoteState _) = True"
| "is_simple_vote (CompactUpdateVoteStateSwitch _ _) = True"
| "is_simple_vote _ = False"

fun is_single_vote_state_update :: "VoteInstruction \<Rightarrow> bool" where
  "is_single_vote_state_update (UpdateVoteState _) = True"
| "is_single_vote_state_update (UpdateVoteStateSwitch _ _) = True"
| "is_single_vote_state_update (CompactUpdateVoteState _) = True"
| "is_single_vote_state_update (CompactUpdateVoteStateSwitch _ _) = True"
| "is_single_vote_state_update _ = False"

text \<open>Both panic for other instructions.\<close>

fun instruction_last_voted_slot :: "VoteInstruction \<Rightarrow> (Slot option, 'e) result" where
  "instruction_last_voted_slot (VoteIx v) = Ok (vote_last_voted_slot v)"
| "instruction_last_voted_slot (VoteSwitch v _) = Ok (vote_last_voted_slot v)"
| "instruction_last_voted_slot (UpdateVoteState u) = Ok (vsu_last_voted_slot u)"
| "instruction_last_voted_slot (UpdateVoteStateSwitch u _) = Ok (vsu_last_voted_slot u)"
| "instruction_last_voted_slot (CompactUpdateVoteState u) = Ok (vsu_last_voted_slot u)"
| "instruction_last_voted_slot (CompactUpdateVoteStateSwitch u _) = Ok (vsu_last_voted_slot u)"
| "instruction_last_voted_slot _ = Panic"

fun instruction_timestamp :: "VoteInstruction \<Rightarrow> (UnixTimestamp option, 'e) result" where
  "instruction_timestamp (VoteIx v) = Ok (vote_timestamp v)"
| "instruction_timestamp (VoteSwitch v _) = Ok (vote_timestamp v)"
| "instruction_timestamp (UpdateVoteState u) = Ok (vsu_timestamp u)"
| "instruction_timestamp (UpdateVoteStateSwitch u _) = Ok (vsu_timestamp u)"
| "instruction_timestamp (CompactUpdateVoteState u) = Ok (vsu_timestamp u)"
| "instruction_timestamp (CompactUpdateVoteStateSwitch u _) = Ok (vsu_timestamp u)"
| "instruction_timestamp _ = Panic"

section \<open>The entrypoint\<close>

record VoteExternals =
  ve_sha256 :: "u8 list \<Rightarrow> Hash"
  ve_bincode :: "VoteStateVersions bincode"
  ve_feature_set :: FeatureSet

definition expected_authority_keys ::
  "VoteExternals \<Rightarrow> InstructionContext \<Rightarrow> Pubkey \<Rightarrow> u8 list \<Rightarrow> TransactionContext \<Rightarrow> (Pubkey set, InstructionError) result" where
  "expected_authority_keys ve ic key_owner key_seed tc =
     and_then (is_instruction_account_signer ic 2) (\<lambda>base_signs.
     if base_signs
     then
       and_then (key_of_instruction_account ic 2 tc) (\<lambda>base_pubkey.
       and_then (map_err pubkey_error_into (create_with_seed (ve_sha256 ve) base_pubkey key_seed key_owner)) (\<lambda>key. Ok {key}))
     else Ok {})"

definition process_authorize_with_seed_instruction ::
  "VoteExternals \<Rightarrow> InvokeContext \<Rightarrow> InstructionContext \<Rightarrow> BorrowedAccount \<Rightarrow> Pubkey \<Rightarrow> VoteAuthorize \<Rightarrow> Pubkey \<Rightarrow> u8 list \<Rightarrow>
   (TransactionContext, InstructionError, unit) exec" where
  "process_authorize_with_seed_instruction ve ivc ic vote_account new_authority authorization_type key_owner key_seed =
     bind_exec (reads (\<lambda>tc. checked_clock (ivc_sysvar_cache ivc) tc ic 1)) (\<lambda>clock.
     bind_exec (reads (expected_authority_keys ve ic key_owner key_seed)) (\<lambda>keys.
     authorize (ve_bincode ve) vote_account new_authority authorization_type keys clock (ve_feature_set ve)))"

text \<open>
  What is done while the vote account is borrowed. A withdrawal gives the account back and borrows it anew,
  so its value is what remains to be withdrawn, with what was looked up for it. The sysvars come from the
  cache, with a check of the account that names them or without one.
\<close>

type_synonym Withdrawal = "u64 \<times> Pubkey set \<times> Rent \<times> Clock"

definition vote_instruction ::
  "VoteExternals \<Rightarrow> InvokeContext \<Rightarrow> InstructionContext \<Rightarrow> BorrowedAccount \<Rightarrow> Pubkey set \<Rightarrow> VoteInstruction \<Rightarrow>
   (TransactionContext, InstructionError, Withdrawal option) exec" where
  "vote_instruction ve ivc ic me signers instruction =
     (let bc = ve_bincode ve; feature_set = ve_feature_set ve; cache = ivc_sysvar_cache ivc;
          accounts = \<lambda>n. lift (check_number_of_instruction_accounts ic n);
          handled = \<lambda>m. bind_exec m (\<lambda>_. ret None);
          update = \<lambda>u.
            bind_exec (lift (get_slot_hashes cache)) (\<lambda>slot_hashes.
            bind_exec (lift (get_clock cache)) (\<lambda>clock.
            process_vote_state_update bc me slot_hashes clock u signers feature_set));
          vote = \<lambda>v.
            bind_exec (reads (\<lambda>tc. checked_slot_hashes cache tc ic 1)) (\<lambda>slot_hashes.
            bind_exec (reads (\<lambda>tc. checked_clock cache tc ic 2)) (\<lambda>clock.
            process_vote_with_account bc me slot_hashes clock v signers feature_set))
      in case instruction of
        InitializeAccount vote_init \<Rightarrow> handled (
          bind_exec (reads (\<lambda>tc. checked_rent cache tc ic 1)) (\<lambda>rent.
          bind_exec (gets (\<lambda>tc. is_exempt rent (get_lamports me tc) (length (get_data me tc)))) (\<lambda>exempt.
          bind_exec (require exempt InsufficientFunds) (\<lambda>_.
          bind_exec (reads (\<lambda>tc. checked_clock cache tc ic 2)) (\<lambda>clock.
          initialize_account bc me vote_init signers clock feature_set)))))
      | Authorize voter_pubkey vote_authorize \<Rightarrow> handled (
          bind_exec (reads (\<lambda>tc. checked_clock cache tc ic 1)) (\<lambda>clock.
          authorize bc me voter_pubkey vote_authorize signers clock feature_set))
      | AuthorizeWithSeed args \<Rightarrow> handled (
          bind_exec (accounts 3) (\<lambda>_.
          process_authorize_with_seed_instruction ve ivc ic me (ws_new_authority args) (ws_authorization_type args)
            (ws_current_authority_derived_key_owner args) (ws_current_authority_derived_key_seed args)))
      | AuthorizeCheckedWithSeed args \<Rightarrow> handled (
          bind_exec (accounts 4) (\<lambda>_.
          bind_exec (reads (key_of_instruction_account ic 3)) (\<lambda>new_authority.
          bind_exec (lift (is_instruction_account_signer ic 3)) (\<lambda>authority_signs.
          bind_exec (require authority_signs MissingRequiredSignature) (\<lambda>_.
          process_authorize_with_seed_instruction ve ivc ic me new_authority (cws_authorization_type args)
            (cws_current_authority_derived_key_owner args) (cws_current_authority_derived_key_seed args))))))
      | UpdateValidatorIdentity \<Rightarrow> handled (
          bind_exec (accounts 2) (\<lambda>_.
          bind_exec (reads (key_of_instruction_account ic 1)) (\<lambda>node.
          update_validator_identity bc me node signers feature_set)))
      | UpdateCommission new_commission \<Rightarrow> handled (
          bind_exec (lift (get_epoch_schedule cache)) (\<lambda>epoch_schedule.
          bind_exec (lift (get_clock cache)) (\<lambda>clock.
          update_commission bc me new_commission signers epoch_schedule clock feature_set)))
      | VoteIx v \<Rightarrow> handled (vote v)
      | VoteSwitch v _ \<Rightarrow> handled (vote v)
      | UpdateVoteState u \<Rightarrow> handled (update u)
      | UpdateVoteStateSwitch u _ \<Rightarrow> handled (update u)
      | CompactUpdateVoteState u \<Rightarrow> handled (update u)
      | CompactUpdateVoteStateSwitch u _ \<Rightarrow> handled (update u)
      | Withdraw lamports \<Rightarrow>
          bind_exec (accounts 2) (\<lambda>_.
          bind_exec (lift (get_rent cache)) (\<lambda>rent_sysvar.
          bind_exec (lift (get_clock cache)) (\<lambda>clock_sysvar.
          ret (Some (lamports, signers, rent_sysvar, clock_sysvar)))))
      | AuthorizeChecked vote_authorize \<Rightarrow> handled (
          bind_exec (accounts 4) (\<lambda>_.
          bind_exec (reads (key_of_instruction_account ic 3)) (\<lambda>voter_pubkey.
          bind_exec (lift (is_instruction_account_signer ic 3)) (\<lambda>authority_signs.
          bind_exec (require authority_signs MissingRequiredSignature) (\<lambda>_.
          bind_exec (reads (\<lambda>tc. checked_clock cache tc ic 1)) (\<lambda>clock.
          authorize bc me voter_pubkey vote_authorize signers clock feature_set)))))))"

definition vote_process_borrowed ::
  "VoteExternals \<Rightarrow> (u64 \<Rightarrow> u8 list \<Rightarrow> VoteInstruction option) \<Rightarrow> InvokeContext \<Rightarrow> InstructionContext \<Rightarrow> BorrowedAccount \<Rightarrow>
   (TransactionContext, InstructionError, Withdrawal option) exec" where
  "vote_process_borrowed ve decode ivc ic me =
     bind_exec (gets (get_owner me)) (\<lambda>owner.
     bind_exec (require (owner = vote_program_id) InvalidAccountOwner) (\<lambda>_.
     bind_exec (reads (get_signers ic)) (\<lambda>signers.
     bind_exec (lift (sdk_limited_deserialize decode (ic_instruction_data ic))) (\<lambda>instruction.
     vote_instruction ve ivc ic me signers instruction))))"

definition vote_process ::
  "VoteExternals \<Rightarrow> (u64 \<Rightarrow> u8 list \<Rightarrow> VoteInstruction option) \<Rightarrow> InvokeContext \<Rightarrow> (TransactionContext, InstructionError, unit) exec" where
  "vote_process ve decode ivc =
     bind_exec (reads get_current_instruction_context) (\<lambda>ic.
     bind_exec (with_instruction_account ic 0 (vote_process_borrowed ve decode ivc ic)) (\<lambda>withdrawal.
     case withdrawal of
       None \<Rightarrow> ret ()
     | Some (lamports, signers, rent_sysvar, clock_sysvar) \<Rightarrow>
         withdraw (ve_bincode ve) ic 0 lamports 1 signers rent_sysvar clock_sysvar (ve_feature_set ve)))"

definition VOTE_DEFAULT_COMPUTE_UNITS :: u64 where
  "VOTE_DEFAULT_COMPUTE_UNITS = 2100"

definition vote_entrypoint :: "VoteExternals \<Rightarrow> (u64 \<Rightarrow> u8 list \<Rightarrow> VoteInstruction option) \<Rightarrow> Entrypoint" where
  "vote_entrypoint ve decode =
     builtin_entrypoint VOTE_DEFAULT_COMPUTE_UNITS (\<lambda>ivc. on_transaction (vote_process ve decode ivc) ivc)"

end
