(* ===== verification/Vote_Guarantees.thy ===== *)
theory Vote_Guarantees
  imports Vote_Program System_Guarantees
begin

text \<open>
  The vote program stays within the guarantees of the runtime: whatever its instructions do is a run of a
  program, so that they take part in the conservation of lamports.
\<close>

lemma preserves_outcome:
  assumes "preserves R m" shows "preserves R (outcome m)"
  using assms unfolding preserves_def outcome_def by (auto split: prod.splits)

context account_guarantee
begin

lemma preserves_set_vote_account_state:
  assumes "valid_handle ic b" and "bincode_laws bc"
  shows "preserves R (set_vote_account_state bc b vs feature_set)"
  unfolding set_vote_account_state_def by (intro preserves_intro preserves_outcome assms)

lemmas stored = preserves_set_vote_account_state

lemma preserves_authorize:
  assumes "valid_handle ic b" and "bincode_laws bc"
  shows "preserves R (authorize bc b authorized vote_authorize signers clock feature_set)"
  unfolding authorize_def by (intro preserves_intro stored assms)

lemma preserves_update_validator_identity:
  assumes "valid_handle ic b" and "bincode_laws bc"
  shows "preserves R (update_validator_identity bc b node signers feature_set)"
  unfolding update_validator_identity_def by (intro preserves_intro stored assms)

lemma preserves_update_commission:
  assumes "valid_handle ic b" and "bincode_laws bc"
  shows "preserves R (update_commission bc b new_commission signers epoch_schedule clock feature_set)"
  unfolding update_commission_def by (intro preserves_intro stored assms)

lemma preserves_withdraw_from:
  assumes "valid_handle ic b" and "bincode_laws bc"
  shows "preserves R (withdraw_from_vote_account bc b lamports signers rent clock feature_set)"
  unfolding withdraw_from_vote_account_def by (intro preserves_intro stored assms)

lemma preserves_withdraw:
  assumes "ic_small ic" and "bincode_laws bc"
  shows "preserves R (withdraw bc ic from lamports to signers rent clock feature_set)"
  unfolding withdraw_def by (intro preserves_intro preserves_withdraw_from assms)

lemma preserves_initialize_account:
  assumes "valid_handle ic b" and "bincode_laws bc"
  shows "preserves R (initialize_account bc b vote_init signers clock feature_set)"
  unfolding initialize_account_def by (intro preserves_intro stored assms)

lemma preserves_vote:
  assumes "valid_handle ic b" and "bincode_laws bc"
  shows "preserves R (process_vote_with_account bc b slot_hashes clock vote signers feature_set)"
  unfolding process_vote_with_account_def case_prod_beta by (intro preserves_intro stored assms)

lemma preserves_update:
  assumes "valid_handle ic b" and "bincode_laws bc"
  shows "preserves R (process_vote_state_update bc b slot_hashes clock vote_state_update signers feature_set)"
  unfolding process_vote_state_update_def case_prod_beta by (intro preserves_intro stored assms)

lemma preserves_authorize_with_seed:
  assumes "valid_handle ic b" and "bincode_laws (ve_bincode ve)"
  shows "preserves R (process_authorize_with_seed_instruction ve ivc ic' b new_authority authorization_type key_owner key_seed)"
  unfolding process_authorize_with_seed_instruction_def by (intro preserves_intro preserves_authorize assms)

lemmas preserves_vote_handlers =
  preserves_authorize preserves_update_validator_identity preserves_update_commission preserves_initialize_account
  preserves_vote preserves_update preserves_authorize_with_seed

lemma preserves_vote_instruction:
  assumes "valid_handle ic b" and "bincode_laws (ve_bincode ve)"
  shows "preserves R (vote_instruction ve ivc ic' b signers instruction)"
  by (cases instruction; simp only: vote_instruction_def Let_def VoteInstruction.case;
      intro preserves_intro preserves_vote_handlers assms)

lemma preserves_vote_process_with:
  assumes small: "ic_small ic" and laws: "bincode_laws (ve_bincode ve)"
  shows "preserves R (bind_exec (with_instruction_account ic 0 (vote_process_borrowed ve decode ivc ic)) (\<lambda>withdrawal.
     case withdrawal of
       None \<Rightarrow> ret ()
     | Some (lamports, signers, rent_sysvar, clock_sysvar) \<Rightarrow>
         withdraw (ve_bincode ve) ic 0 lamports 1 signers rent_sysvar clock_sysvar (ve_feature_set ve)))"
  unfolding vote_process_borrowed_def case_prod_beta
  by (intro preserves_intro preserves_vote_instruction preserves_withdraw assms)

end

text \<open>The whole entrypoint: it runs the instruction that is on top of the stack.\<close>

lemma vote_process_guarded:
  assumes run: "running ic tc" and laws: "bincode_laws (ve_bincode ve)"
  shows "guarded ic tc (snd (vote_process ve decode ivc tc))" and "accounted tc (snd (vote_process ve decode ivc tc))"
proof -
  have current: "get_current_instruction_context tc = Ok ic" and small: "ic_small ic" using run by (simp_all add: running_def)
  have "preserves R m \<Longrightarrow> R tc (snd (m tc))" for R and m :: "(TransactionContext, InstructionError, unit) exec"
    by (simp add: preserves_def) (metis prod.collapse)
  note step = this [OF guarded.preserves_vote_process_with [OF small laws, of decode ivc]]
    this [OF accounted.preserves_vote_process_with [OF small laws, of decode ivc]]
  have "vote_process ve decode ivc tc = bind_exec (with_instruction_account ic 0 (vote_process_borrowed ve decode ivc ic)) (\<lambda>withdrawal.
     case withdrawal of
       None \<Rightarrow> ret ()
     | Some (lamports, signers, rent_sysvar, clock_sysvar) \<Rightarrow>
         withdraw (ve_bincode ve) ic 0 lamports 1 signers rent_sysvar clock_sysvar (ve_feature_set ve)) tc"
    by (simp add: vote_process_def bind_exec_def [of "\<lambda>tc. (_ tc, tc)"] current)
  then show "guarded ic tc (snd (vote_process ve decode ivc tc))" and "accounted tc (snd (vote_process ve decode ivc tc))"
    using step by simp_all
qed

lemma vote_entrypoint_run:
  assumes "running ic (ivc_transaction_context ivc)" and "bincode_laws (ve_bincode ve)"
  shows "program_run ic (ivc_transaction_context ivc) (ivc_transaction_context (snd (vote_entrypoint ve decode ivc)))"
  unfolding vote_entrypoint_def by (rule builtin_entrypoint_run) (rule vote_process_guarded(1) [OF assms])

text \<open>Messages that call the two programs, and no other builtin, meet what the runtime asks of its programs.\<close>

lemma native_programs_ok:
  assumes "\<And>k f. programs k = Some (Builtin (Some f)) \<Longrightarrow> f = system_entrypoint ne system_decode \<or> f = vote_entrypoint ve vote_decode"
    and "bincode_laws (ne_bincode ne)" and "bincode_laws (ve_bincode ve)"
  shows "programs_ok programs"
  unfolding programs_ok_def
  using assms(1) system_entrypoint_run [OF _ assms(2)] vote_entrypoint_run [OF _ assms(3)] by blast

end
