(* ===== verification/Vote_Process_Authority.thy ===== *)
theory Vote_Process_Authority
  imports Vote_Guarantees System_Authority System_Properties
begin

text \<open>
  Who must have signed for what the vote program does: a vote account loses lamports only with the
  signature of its authorized withdrawer, and its state changes only with that of the withdrawer or of the
  voter of the epoch, unless it was not initialized.
\<close>

section \<open>The authorities of a stored vote state\<close>

definition stored_withdrawer :: "VoteStateVersions bincode \<Rightarrow> AccountSharedData \<Rightarrow> Pubkey \<Rightarrow> bool" where
  "stored_withdrawer bc a key \<longleftrightarrow>
     (\<exists>v. shared_deserialize_data bc a = Ok v \<and> authorized_withdrawer (convert_to_current v) = key)"

definition stored_voter :: "VoteStateVersions bincode \<Rightarrow> Epoch \<Rightarrow> AccountSharedData \<Rightarrow> Pubkey \<Rightarrow> bool" where
  "stored_voter bc epoch a key \<longleftrightarrow>
     (\<exists>v. shared_deserialize_data bc a = Ok v \<and> fst (get_and_update_authorized_voter epoch (convert_to_current v)) = Ok key)"

definition stored_uninitialized :: "VoteStateVersions bincode \<Rightarrow> AccountSharedData \<Rightarrow> bool" where
  "stored_uninitialized bc a \<longleftrightarrow> (\<exists>v. shared_deserialize_data bc a = Ok v \<and> is_uninitialized v)"

text \<open>Whether the holder of one of the keys may have the vote account changed in the epoch of the cached clock.\<close>

definition vote_state_signed ::
  "VoteExternals \<Rightarrow> SysvarCache \<Rightarrow> (Pubkey \<Rightarrow> bool) \<Rightarrow> AccountSharedData \<Rightarrow> bool" where
  "vote_state_signed ve cache allowed a \<longleftrightarrow>
     stored_uninitialized (ve_bincode ve) a \<or>
     (\<exists>key. allowed key \<and>
        (stored_withdrawer (ve_bincode ve) a key \<or>
         (\<exists>clock. get_clock cache = Ok clock \<and> stored_voter (ve_bincode ve) (clock_epoch clock) a key)))"

lemma vote_state_signed_mono:
  "vote_state_signed ve cache allowed a \<Longrightarrow> (\<And>key. allowed key \<Longrightarrow> allowed' key) \<Longrightarrow> vote_state_signed ve cache allowed' a"
  unfolding vote_state_signed_def by blast

section \<open>The handlers\<close>

lemma obeys_store:
  assumes "unat (ba_index_in_transaction b) \<in> D"
  shows "preserves (obeys L W D) (set_vote_account_state bc b vs feature_set)"
  unfolding set_vote_account_state_def
  by (intro preserves_intro preserves_outcome obeys_set_state obeys_set_data_length assms)

text \<open>A handler that writes only after it has found the signatures.\<close>

lemma get_current_state_Ok:
  "get_current_state bc b tc = Ok vs \<longleftrightarrow> (\<exists>v. shared_deserialize_data bc (ba_account b tc) = Ok v \<and> vs = convert_to_current v)"
  by (auto simp: get_current_state_def get_state_def and_then_Ok_iff)

lemma verify_authorized_signer_Ok [simp]: "verify_authorized_signer key signers = Ok x \<longleftrightarrow> key \<in> signers"
  by (simp add: verify_authorized_signer_def)

lemma set_new_authorized_voter_verified:
  assumes "on_local (set_new_authorized_voter key epoch target verify) vs = Ok x"
  shows "\<exists>voter. fst (get_and_update_authorized_voter epoch vs) = Ok voter \<and> verify voter = Ok ()"
  using assms
  by (auto simp: on_local_def set_new_authorized_voter_def bind_exec_def lift_def split: prod.splits result.splits)

lemma authorize_state_signed:
  assumes "authorize_state key kind signers clock vs = Ok vs'"
  shows "authorized_withdrawer vs \<in> signers \<or>
    (\<exists>voter \<in> signers. fst (get_and_update_authorized_voter (clock_epoch clock) vs) = Ok voter)"
proof (cases kind)
  case Voter
  then obtain target x where "on_local (set_new_authorized_voter key (clock_epoch clock) target
      (\<lambda>voter. if is_ok (verify_authorized_signer (authorized_withdrawer vs) signers) then Ok () else verify_authorized_signer voter signers)) vs = Ok x"
    using assms by (auto simp: authorize_state_def Let_def and_then_Ok_iff)
  from set_new_authorized_voter_verified [OF this] show ?thesis
    by (auto simp: is_ok_def verify_authorized_signer_def split: if_splits)
next
  case Withdrawer
  then show ?thesis using assms by (auto simp: authorize_state_def and_then_Ok_iff)
qed

lemma verify_and_get_vote_state_signed:
  assumes "verify_and_get_vote_state bc b clock signers tc = Ok vs"
  shows "\<exists>voter \<in> signers. stored_voter bc (clock_epoch clock) (ba_account b tc) voter"
  using assms
  by (auto simp: verify_and_get_vote_state_def get_state_def stored_voter_def and_then_Ok_iff on_local_def
      split: if_splits prod.splits result.splits)

text \<open>A handler that runs only under a condition that gives it its authority.\<close>

lemma keeps_because: "(\<And>s. P s \<Longrightarrow> preserves R m) \<Longrightarrow> keeps P R m"
  unfolding keeps_def preserves_iff by blast

lemma keeps_store:
  assumes "\<And>tc. P tc \<Longrightarrow> unat (ba_index_in_transaction b) \<in> D"
  shows "keeps P (obeys L W D) (set_vote_account_state bc b vs feature_set)"
  by (rule keeps_because) (rule obeys_store [OF assms])

lemma signed_by_authorize:
  assumes "authorize_state key kind keys clock vs = Ok vs'" and "get_current_state (ve_bincode ve) b tc = Ok vs"
    and "get_clock cache = Ok clock"
  shows "vote_state_signed ve cache (\<lambda>k. k \<in> keys) (ba_account b tc)"
  using authorize_state_signed [OF assms(1)] assms(2,3)
  by (auto simp: vote_state_signed_def get_current_state_Ok stored_withdrawer_def stored_voter_def)

lemma signed_by_withdrawer:
  assumes "get_current_state (ve_bincode ve) b tc = Ok vs" and "authorized_withdrawer vs \<in> keys"
  shows "\<exists>key \<in> keys. stored_withdrawer (ve_bincode ve) (ba_account b tc) key"
    and "vote_state_signed ve cache (\<lambda>k. k \<in> keys) (ba_account b tc)"
  using assms by (auto simp: vote_state_signed_def get_current_state_Ok stored_withdrawer_def)

lemma signed_by_voter:
  assumes "verify_and_get_vote_state (ve_bincode ve) b clock keys tc = Ok vs" and "get_clock cache = Ok clock"
  shows "vote_state_signed ve cache (\<lambda>k. k \<in> keys) (ba_account b tc)"
  using verify_and_get_vote_state_signed [OF assms(1)] assms(2) by (auto simp: vote_state_signed_def)

lemma signed_by_nobody:
  assumes "get_state (ve_bincode ve) b tc = Ok v" and "is_uninitialized v"
  shows "vote_state_signed ve cache (\<lambda>k. k \<in> keys) (ba_account b tc)"
  using assms by (auto simp: vote_state_signed_def stored_uninitialized_def get_state_def)

text \<open>
  What the handlers of one instruction share: the account that they are given stores \<open>a\<close>, and it may be
  written if that state allows it to the holders of the keys.
\<close>

locale vote_handler =
  fixes ve :: VoteExternals and cache :: SysvarCache and keys :: "Pubkey set" 
    and b :: BorrowedAccount and a :: AccountSharedData and P :: "TransactionContext \<Rightarrow> bool"
    and L W D :: "nat set"
  assumes account: "\<And>tc. P tc \<Longrightarrow> ba_account b tc = a"
    and may_write: "vote_state_signed ve cache (\<lambda>k. k \<in> keys) a \<Longrightarrow> unat (ba_index_in_transaction b) \<in> D"
begin

lemma writes: "P tc \<Longrightarrow> vote_state_signed ve cache (\<lambda>k. k \<in> keys) (ba_account b tc) \<Longrightarrow> unat (ba_index_in_transaction b) \<in> D"
  using account may_write by simp

lemma keeps_authorize:
  assumes "get_clock cache = Ok clock"
  shows "keeps P (obeys L W D) (authorize (ve_bincode ve) b key kind keys clock feature_set)"
  unfolding authorize_def
  by (intro obeys.keeps_reads_bind obeys.keeps_lift_bind keeps_store)
    (use assms in \<open>auto intro: writes signed_by_authorize\<close>)

lemma keeps_update_validator_identity:
  "keeps P (obeys L W D) (update_validator_identity (ve_bincode ve) b node keys feature_set)"
  unfolding update_validator_identity_def
  by (intro obeys.keeps_reads_bind obeys.keeps_lift_bind keeps_store) (auto intro: writes signed_by_withdrawer)

lemma keeps_update_commission:
  "keeps P (obeys L W D) (update_commission (ve_bincode ve) b new_commission keys epoch_schedule clock feature_set)"
  unfolding update_commission_def
  by (intro obeys.keeps_reads_bind obeys.keeps_gets_bind obeys.keeps_require_bind obeys.keeps_lift_bind keeps_store)
    (auto intro: writes signed_by_withdrawer)

lemma keeps_initialize_account:
  "keeps P (obeys L W D) (initialize_account (ve_bincode ve) b vote_init keys clock feature_set)"
  unfolding initialize_account_def
  by (intro obeys.keeps_reads_bind obeys.keeps_gets_bind obeys.keeps_require_bind obeys.keeps_lift_bind keeps_store)
    (auto intro: writes signed_by_nobody)

lemma keeps_process_vote:
  assumes "get_clock cache = Ok clock"
  shows "keeps P (obeys L W D) (process_vote_with_account (ve_bincode ve) b slot_hashes clock vote keys feature_set)"
  unfolding process_vote_with_account_def case_prod_beta
  by (intro obeys.keeps_reads_bind obeys.keeps_lift_bind keeps_store) (use assms in \<open>auto intro: writes signed_by_voter\<close>)

lemma keeps_process_update:
  assumes "get_clock cache = Ok clock"
  shows "keeps P (obeys L W D) (process_vote_state_update (ve_bincode ve) b slot_hashes clock vote_state_update keys feature_set)"
  unfolding process_vote_state_update_def case_prod_beta
  by (intro obeys.keeps_reads_bind obeys.keeps_lift_bind keeps_store) (use assms in \<open>auto intro: writes signed_by_voter\<close>)

end

text \<open>A withdrawal also takes lamports from the account.\<close>

locale vote_withdrawal = vote_handler +
  assumes may_spend: "\<exists>key \<in> keys. stored_withdrawer (ve_bincode ve) a key \<Longrightarrow> unat (ba_index_in_transaction b) \<in> L"
begin

lemma keeps_withdraw_from:
  "keeps P (obeys L W D) (withdraw_from_vote_account (ve_bincode ve) b lamports keys rent clock feature_set)"
proof -
  have "unat (ba_index_in_transaction b) \<in> L \<inter> D"
    if "P tc" "get_current_state (ve_bincode ve) b tc = Ok vs" "authorized_withdrawer vs \<in> keys" for tc vs
    using signed_by_withdrawer [OF that(2,3)] account [OF that(1)] may_spend may_write by auto
  then show ?thesis
    unfolding withdraw_from_vote_account_def
    by (intro obeys.keeps_reads_bind obeys.keeps_lift_bind keeps_because)
      (intro preserves_intro obeys_store obeys_sub_lamports; auto)
qed

end

section \<open>The instructions\<close>

definition may_withdraw :: "VoteExternals \<Rightarrow> Pubkey set \<Rightarrow> TransactionContext \<Rightarrow> nat set" where
  "may_withdraw ve signers tc = {i. \<exists>key \<in> signers. stored_withdrawer (ve_bincode ve) (rc_value (cells tc ! i)) key}"

definition may_store :: "VoteExternals \<Rightarrow> SysvarCache \<Rightarrow> (Pubkey \<Rightarrow> bool) \<Rightarrow> TransactionContext \<Rightarrow> nat set" where
  "may_store ve cache allowed tc = {i. vote_state_signed ve cache allowed (rc_value (cells tc ! i))}"

lemma may_store_mono: "(\<And>key. allowed key \<Longrightarrow> allowed' key) \<Longrightarrow> may_store ve cache allowed tc \<subseteq> may_store ve cache allowed' tc"
  unfolding may_store_def using vote_state_signed_mono by blast

lemma obeys_mono: "obeys L W D tc tc' \<Longrightarrow> L \<subseteq> L' \<Longrightarrow> W \<subseteq> W' \<Longrightarrow> D \<subseteq> D' \<Longrightarrow> obeys L' W' D' tc tc'"
  unfolding obeys_def by blast

lemma keeps_mono: "keeps P R m \<Longrightarrow> (\<And>s s'. R s s' \<Longrightarrow> R' s s') \<Longrightarrow> keeps P R' m"
  unfolding keeps_def by blast

text \<open>The transaction while the vote account is borrowed: its accounts are those of the start.\<close>

definition borrowing :: "TransactionContext \<Rightarrow> BorrowedAccount \<Rightarrow> TransactionContext \<Rightarrow> bool" where
  "borrowing tc0 b tc \<longleftrightarrow> unchanged tc0 tc \<and> unat (ba_index_in_transaction b) < length (cells tc)"

interpretation vh: vote_handler ve cache keys b "rc_value (cells tc0 ! unat (ba_index_in_transaction b))" "borrowing tc0 b"
  L W "may_store ve cache (\<lambda>k. k \<in> keys) tc0"
  for ve cache keys b tc0 L W
proof unfold_locales
  fix tc assume "borrowing tc0 b tc"
  then have "unchanged tc0 tc" "unat (ba_index_in_transaction b) < length (cells tc0)"
    by (auto simp: borrowing_def unchanged_def dest!: map_eq_imp_length_eq)
  then show "ba_account b tc = rc_value (cells tc0 ! unat (ba_index_in_transaction b))"
    by (rule unchanged_account)
qed (simp add: may_store_def)

interpretation vw: vote_withdrawal ve cache keys b "rc_value (cells tc0 ! unat (ba_index_in_transaction b))" "borrowing tc0 b"
  "may_withdraw ve keys tc0" W "may_store ve cache (\<lambda>k. k \<in> keys) tc0"
  for ve cache keys b tc0 W
  by unfold_locales (simp add: may_withdraw_def)

abbreviation vote_obeys :: "VoteExternals \<Rightarrow> SysvarCache \<Rightarrow> Pubkey set \<Rightarrow> TransactionContext \<Rightarrow> TransactionContext \<Rightarrow> TransactionContext \<Rightarrow> bool" where
  "vote_obeys ve cache signers tc0 \<equiv>
     obeys (may_withdraw ve signers tc0) {} (may_store ve cache (address_signed (ve_sha256 ve) signers) tc0)"

lemma keeps_signers:
  assumes "keeps P (obeys (may_withdraw ve signers tc0) {} (may_store ve cache (\<lambda>k. k \<in> signers) tc0)) m"
  shows "keeps P (vote_obeys ve cache signers tc0) m"
  using assms by (rule keeps_mono) (erule obeys_mono; simp add: may_store_mono address_signed_def)

lemma expected_keys_signed:
  assumes "get_signers ic tc0 = Ok signers" and "unchanged tc0 tc"
    and "expected_authority_keys ve ic key_owner key_seed tc = Ok keys" and "key \<in> keys"
  shows "address_signed (ve_sha256 ve) signers key"
  using assms base_signed [OF assms(1) _ _ assms(2)]
  by (fastforce simp: expected_authority_keys_def address_signed_def and_then_Ok_iff split: if_splits)

lemma keeps_authorize_with_seed:
  assumes signers: "get_signers ic tc0 = Ok signers"
  shows "keeps (borrowing tc0 b) (vote_obeys ve (ivc_sysvar_cache ivc) signers tc0)
     (process_authorize_with_seed_instruction ve ivc ic b new_authority kind key_owner key_seed)"
  unfolding process_authorize_with_seed_instruction_def
proof (intro obeys.keeps_reads_bind)
  fix clock keys
  let ?P = "\<lambda>tc. (borrowing tc0 b tc \<and> checked_clock (ivc_sysvar_cache ivc) tc ic 1 = Ok clock) \<and>
    expected_authority_keys ve ic key_owner key_seed tc = Ok keys"
  let ?m = "authorize (ve_bincode ve) b new_authority kind keys clock (ve_feature_set ve)"
  show "keeps ?P (vote_obeys ve (ivc_sysvar_cache ivc) signers tc0) ?m"
    unfolding keeps_def
  proof (intro allI impI)
    fix tc assume tc: "?P tc"
    then have "get_clock (ivc_sysvar_cache ivc) = Ok clock" by (auto simp: checked_clock_def and_then_Ok_iff)
    then have "obeys (may_withdraw ve signers tc0) {} (may_store ve (ivc_sysvar_cache ivc) (\<lambda>k. k \<in> keys) tc0) tc (snd (?m tc))"
      using vh.keeps_authorize tc unfolding keeps_def by blast
    moreover have "may_store ve (ivc_sysvar_cache ivc) (\<lambda>k. k \<in> keys) tc0 \<subseteq>
        may_store ve (ivc_sysvar_cache ivc) (address_signed (ve_sha256 ve) signers) tc0"
      using tc expected_keys_signed [OF signers] by (intro may_store_mono) (auto simp: borrowing_def)
    ultimately show "vote_obeys ve (ivc_sysvar_cache ivc) signers tc0 tc (snd (?m tc))"
      using obeys_mono by blast
  qed
qed

lemma checked_clock_Ok: "checked_clock cache tc ic i = Ok clock \<Longrightarrow> get_clock cache = Ok clock"
  by (auto simp: checked_clock_def and_then_Ok_iff)

text \<open>A handler that uses the clock of the cache, whatever was checked before.\<close>

lemma keeps_clock:
  assumes "get_clock cache = Ok clock \<Longrightarrow> keeps P R m" and "\<And>tc. P' tc \<Longrightarrow> P tc \<and> get_clock cache = Ok clock"
  shows "keeps P' R m"
  using assms unfolding keeps_def by blast

lemma keeps_vote_instruction:
  assumes signers: "get_signers ic tc0 = Ok signers"
  shows "keeps (borrowing tc0 b) (vote_obeys ve (ivc_sysvar_cache ivc) signers tc0) (vote_instruction ve ivc ic b signers instruction)"
proof -
  let ?cache = "ivc_sysvar_cache ivc"
  note case_simps = vote_instruction_def Let_def VoteInstruction.case
  note handled = obeys.keeps_then [OF _ obeys.preserves_ret]
  note bind = obeys.keeps_reads_bind obeys.keeps_gets_bind obeys.keeps_lift_bind obeys.keeps_require_bind
  note direct = keeps_signers [OF vh.keeps_authorize] keeps_signers [OF vh.keeps_process_vote] keeps_signers [OF vh.keeps_process_update]
  have update: "keeps (borrowing tc0 b) (vote_obeys ve ?cache signers tc0)
     (bind_exec (lift (get_slot_hashes ?cache)) (\<lambda>slot_hashes. bind_exec (lift (get_clock ?cache)) (\<lambda>clock.
        process_vote_state_update (ve_bincode ve) b slot_hashes clock u signers (ve_feature_set ve))))" for u
    by (intro bind direct)
  have vote: "keeps (borrowing tc0 b) (vote_obeys ve ?cache signers tc0)
     (bind_exec (reads (\<lambda>tc. checked_slot_hashes ?cache tc ic 1)) (\<lambda>slot_hashes.
      bind_exec (reads (\<lambda>tc. checked_clock ?cache tc ic 2)) (\<lambda>clock.
        process_vote_with_account (ve_bincode ve) b slot_hashes clock v signers (ve_feature_set ve))))" for v
    by (intro bind, rule keeps_clock [OF direct(2)]) (auto dest: checked_clock_Ok)
  show ?thesis
  proof (cases instruction)
    case (InitializeAccount vote_init)
    show ?thesis unfolding InitializeAccount case_simps
      by (intro handled bind keeps_weaken [OF keeps_signers [OF vh.keeps_initialize_account]]) simp
  next
    case (Authorize key kind)
    show ?thesis unfolding Authorize case_simps
      by (intro handled bind, rule keeps_clock [OF direct(1)]) (auto dest: checked_clock_Ok)
  next
    case (AuthorizeChecked kind)
    show ?thesis unfolding AuthorizeChecked case_simps
      by (intro handled bind, rule keeps_clock [OF direct(1)]) (auto dest: checked_clock_Ok)
  next
    case UpdateValidatorIdentity
    show ?thesis unfolding UpdateValidatorIdentity case_simps
      by (intro handled bind keeps_weaken [OF keeps_signers [OF vh.keeps_update_validator_identity]]) simp
  next
    case (UpdateCommission new_commission)
    show ?thesis unfolding UpdateCommission case_simps
      by (intro handled bind keeps_weaken [OF keeps_signers [OF vh.keeps_update_commission]]) simp
  next
    case (AuthorizeWithSeed args)
    show ?thesis unfolding AuthorizeWithSeed case_simps by (intro handled bind keeps_authorize_with_seed signers)
  next
    case (AuthorizeCheckedWithSeed args)
    show ?thesis unfolding AuthorizeCheckedWithSeed case_simps
      by (intro handled bind keeps_weaken [OF keeps_authorize_with_seed [OF signers]]) simp
  next
    case (Withdraw lamports)
    show ?thesis unfolding Withdraw case_simps by (intro keeps_preserves preserves_intro)
  qed (simp_all only: case_simps, (intro handled update vote)+)
qed

section \<open>The program\<close>

lemma vote_instruction_Some:
  assumes "vote_instruction ve ivc ic b signers instruction tc = (Ok (Some (lamports, keys, rent, clock)), tc')"
  shows "tc' = tc \<and> keys = signers"
  using assms by (cases instruction) (auto simp: vote_instruction_def Let_def bind_exec_Ok_iff lift_def ret_def)

lemma vote_process_borrowed_Some:
  assumes "vote_process_borrowed ve decode ivc ic b tc = (Ok (Some (lamports, keys, rent, clock)), tc')"
  shows "tc' = tc \<and> get_signers ic tc = Ok keys"
  using assms
  by (auto dest!: vote_instruction_Some simp: vote_process_borrowed_def bind_exec_Ok_iff lift_def gets_def require_def ret_def throw_def split: if_splits)

lemma unchanged_signers: "unchanged tc0 tc \<Longrightarrow> get_signers ic tc = get_signers ic tc0"
proof -
  assume "unchanged tc0 tc"
  then have "signers_loop tc accounts S = signers_loop tc0 accounts S" for accounts S
    by (induction accounts arbitrary: S) (auto simp: unchanged_def get_key_of_account_at_index_def)
  then show ?thesis by (simp add: get_signers_def)
qed

lemma with_account_Ok:
  assumes "with_instruction_account ic i f tc = (Ok x, tc')"
  obtains b tc1 tc2 where "f b tc1 = (Ok x, tc2)" and "unchanged tc tc1" and "unchanged tc2 tc'"
proof -
  obtain b tc1 where borrow: "try_borrow_instruction_account ic i tc = (Ok b, tc1)" and "and_finally (f b) (drop_account b) tc1 = (Ok x, tc')"
    using assms by (auto simp: with_instruction_account_def bind_exec_Ok_iff)
  then obtain tc2 where "f b tc1 = (Ok x, tc2)" "tc' = drop_account b tc2"
    by (cases "f b tc1") (auto simp: and_finally_def)
  moreover have "unchanged tc tc1"
    using borrow by (auto simp: try_borrow_instruction_account_def try_borrow_account_def bind_exec_Ok_iff unchanged_def
        lift_def values_set_flag split: option.split_asm if_split_asm)
  ultimately show ?thesis using that [of b tc1 tc2] by (simp add: drop_account_def unchanged_def values_set_flag)
qed

lemma unchanged_trans: "unchanged tc0 tc1 \<Longrightarrow> unchanged tc1 tc2 \<Longrightarrow> unchanged tc0 tc2"
  by (simp add: unchanged_def)

lemma keeps_vote_process:
  assumes small: "ic_small ic" and signers: "get_signers ic tc0 = Ok signers"
  shows "keeps (unchanged tc0) (vote_obeys ve (ivc_sysvar_cache ivc) signers tc0)
    (bind_exec (with_instruction_account ic 0 (vote_process_borrowed ve decode ivc ic)) (\<lambda>withdrawal.
     case withdrawal of
       None \<Rightarrow> ret ()
     | Some (lamports, signers, rent_sysvar, clock_sysvar) \<Rightarrow>
         withdraw (ve_bincode ve) ic 0 lamports 1 signers rent_sysvar clock_sysvar (ve_feature_set ve)))"
proof (rule obeys.keeps_bind_state [where Q = "\<lambda>w tc. case w of None \<Rightarrow> True | Some (_, keys, _, _) \<Rightarrow> keys = signers \<and> unchanged tc0 tc"])
  let ?R = "vote_obeys ve (ivc_sysvar_cache ivc) signers tc0"
  note account = obeys.keeps_with_account [OF unchanged_borrow_free small]
  have borrowed: "keeps (borrowing tc0 b) ?R (vote_process_borrowed ve decode ivc ic b)" for b
  proof -
    have "keeps (\<lambda>tc. (borrowing tc0 b tc \<and> get_owner b tc = owner) \<and> get_signers ic tc = Ok keys) ?R
        (vote_instruction ve ivc ic b keys instruction)" for owner keys instruction
      using keeps_vote_instruction [OF signers, of b ve ivc instruction] unchanged_signers [of tc0 _ ic] signers
      by (auto simp: keeps_def borrowing_def)
    then show ?thesis
      unfolding vote_process_borrowed_def
      by (intro obeys.keeps_reads_bind obeys.keeps_gets_bind obeys.keeps_lift_bind obeys.keeps_require_bind)
  qed
  show "keeps (unchanged tc0) ?R (with_instruction_account ic 0 (vote_process_borrowed ve decode ivc ic))"
    by (intro account keeps_weaken [OF borrowed]) (simp add: borrowing_def)
  show "case w of None \<Rightarrow> True | Some (_, keys, _, _) \<Rightarrow> keys = signers \<and> unchanged tc0 tc'"
    if tc: "unchanged tc0 tc" and run: "with_instruction_account ic 0 (vote_process_borrowed ve decode ivc ic) tc = (Ok w, tc')" for tc w tc'
  proof (cases w)
    case (Some w')
    obtain lamports keys rent clock where w: "w = Some (lamports, keys, rent, clock)" using Some by (cases w') auto
    obtain b tc1 tc2 where f: "vote_process_borrowed ve decode ivc ic b tc1 = (Ok w, tc2)" and "unchanged tc tc1" "unchanged tc2 tc'"
      using run by (rule with_account_Ok)
    moreover have "tc2 = tc1" and "get_signers ic tc1 = Ok keys"
      using vote_process_borrowed_Some [OF f [unfolded w]] by simp_all
    ultimately have "unchanged tc0 tc1" "unchanged tc0 tc'" "get_signers ic tc1 = Ok keys"
      using tc unchanged_trans by blast+
    then have "unchanged tc0 tc'" and "keys = signers" using unchanged_signers [of tc0 tc1 ic] signers by simp_all
    then show ?thesis using w by simp
  qed simp
  have "keeps (\<lambda>tc. keys = signers \<and> unchanged tc0 tc) ?R
      (withdraw (ve_bincode ve) ic 0 lamports 1 keys rent clock (ve_feature_set ve))" for lamports keys rent clock
    unfolding withdraw_def
  proof (rule obeys.keeps_then)
    have "keeps (unchanged tc0) ?R (with_instruction_account ic 0 (\<lambda>b.
        withdraw_from_vote_account (ve_bincode ve) b lamports signers rent clock (ve_feature_set ve)))"
      by (intro account keeps_weaken [OF keeps_signers [OF vw.keeps_withdraw_from]]) (simp add: borrowing_def)
    then show "keeps (\<lambda>tc. keys = signers \<and> unchanged tc0 tc) ?R (with_instruction_account ic 0 (\<lambda>b.
        withdraw_from_vote_account (ve_bincode ve) b lamports keys rent clock (ve_feature_set ve)))"
      by (auto simp: keeps_def)
  qed (intro preserves_intro small)
  then show "keeps (\<lambda>tc. case w of None \<Rightarrow> True | Some (_, keys, _, _) \<Rightarrow> keys = signers \<and> unchanged tc0 tc) ?R
     (case w of
       None \<Rightarrow> ret ()
     | Some (lamports, signers, rent_sysvar, clock_sysvar) \<Rightarrow>
         withdraw (ve_bincode ve) ic 0 lamports 1 signers rent_sysvar clock_sysvar (ve_feature_set ve))" for w
    by (auto intro: obeys.keeps_ends split: option.split)
qed

text \<open>
  C5: Whatever instruction the vote program executes, and whether it succeeds or not, no account changes its
  owner, an account loses lamports only if the authorized withdrawer of the vote state that it stores
  signed, and the data of an account changes only if the vote state that it stores is not initialized, or
  its authorized withdrawer or the voter that it authorizes for the epoch signed, or one of these two is
  an address derived from a base key that signed (with which \<open>AuthorizeWithSeed\<close> can act for it).
\<close>

theorem vote_process_authorized:
  assumes "running ic tc" and "get_signers ic tc = Ok signers"
    and "vote_process ve decode ivc tc = (r, tc')" and "i < length (cells tc)"
  shows "acc_owner (contents tc' ! i) = acc_owner (contents tc ! i) \<and>
    (acc_lamports (contents tc' ! i) < acc_lamports (contents tc ! i) \<longrightarrow>
       (\<exists>key \<in> signers. stored_withdrawer (ve_bincode ve) (contents tc ! i) key)) \<and>
    (acc_data (contents tc' ! i) \<noteq> acc_data (contents tc ! i) \<longrightarrow>
       vote_state_signed ve (ivc_sysvar_cache ivc) (address_signed (ve_sha256 ve) signers) (contents tc ! i))"
proof -
  have current: "get_current_instruction_context tc = Ok ic" and small: "ic_small ic"
    using assms(1) by (simp_all add: running_def)
  have "vote_obeys ve (ivc_sysvar_cache ivc) signers tc tc tc'"
    using assms(3) keepsD [OF keeps_vote_process [OF small assms(2), of ve ivc decode], of tc]
    by (simp add: vote_process_def bind_exec_def [of "\<lambda>tc. (_ tc, tc)"] current unchanged_def)
  then have "length (cells tc') = length (cells tc)"
    "acc_owner (rc_value (cells tc' ! i)) = acc_owner (rc_value (cells tc ! i))"
    "i \<in> may_withdraw ve signers tc \<or> acc_lamports (rc_value (cells tc ! i)) \<le> acc_lamports (rc_value (cells tc' ! i))"
    "i \<in> may_store ve (ivc_sysvar_cache ivc) (address_signed (ve_sha256 ve) signers) tc \<or>
       acc_data (rc_value (cells tc' ! i)) = acc_data (rc_value (cells tc ! i))"
    using assms(4) by (auto simp: obeys_def)
  then show ?thesis using assms(4) by (auto simp: may_withdraw_def may_store_def)
qed

text \<open>A vote account whose withdrawer, the key 5, makes itself the identity of the validator.\<close>

definition identity_state :: "Pubkey \<Rightarrow> VoteState" where
  "identity_state node = vote_state_default\<lparr>node_pubkey := node, authorized_withdrawer := 5\<rparr>"

definition identity_externals :: VoteExternals where
  "identity_externals = \<lparr>ve_sha256 = (\<lambda>_. 7),
     ve_bincode = table_bincode [Current (identity_state 0), V1_14_11 (v1_from (identity_state 5))], ve_feature_set = (\<lambda>_. False)\<rparr>"

definition identity_instruction :: InstructionContext where
  "identity_instruction = instruction_context_default\<lparr>ic_program_accounts := [2], ic_instruction_accounts :=
     [\<lparr>ia_index_in_transaction = 0, ia_index_in_caller = 0, ia_index_in_callee = 0, ia_is_signer = False, ia_is_writable = True\<rparr>,
      \<lparr>ia_index_in_transaction = 1, ia_index_in_caller = 1, ia_index_in_callee = 1, ia_is_signer = True, ia_is_writable = False\<rparr>]\<rparr>"

definition identity_account :: "u8 \<Rightarrow> AccountSharedData" where
  "identity_account x =
     \<lparr>acc_lamports = 50, acc_data = [x], acc_owner = vote_program_id, acc_executable = False, acc_rent_epoch = 0\<rparr>"

definition identity_transaction :: TransactionContext where
  "identity_transaction = (transaction_context_new
     [(4, identity_account 0), (5, payer 9), (vote_program_id, system_account)] rent_default 5 64)
     \<lparr>tc_instruction_stack := [0], tc_instruction_trace := [identity_instruction, instruction_context_default]\<rparr>"

lemmas identity_defs = identity_transaction_def identity_instruction_def identity_account_def payer_def system_account_def
  transaction_context_new_def instruction_context_default_def transaction_accounts_new_def refcell_new_def

lemma identity_running: "running identity_instruction identity_transaction"
  by (simp add: running_def keys_ok_def stack_ok_def identity_defs current_context_eval ic_small_def vote_program_id_def)

lemma identity_signers: "get_signers identity_instruction identity_transaction = Ok {5}"
  by (simp add: get_signers_def identity_defs get_key_of_account_at_index_def vec_get_def)

lemma identity_state_eval: "authorized_withdrawer (identity_state n) = 5" "(identity_state n)\<lparr>node_pubkey := m\<rparr> = identity_state m"
  "\<not> ve_feature_set identity_externals feature"
  by (simp_all add: identity_state_def identity_externals_def vote_state_default_def)

lemma identity_accounts: "check_number_of_instruction_accounts identity_instruction 2 = Ok ()"
  by (simp add: check_number_of_instruction_accounts_def get_number_of_instruction_accounts_def identity_defs)

lemma identity_free: "free_account identity_instruction identity_transaction 0 0"
  by (simp add: free_account_def identity_defs account_eval)

abbreviation set_identity :: "InvokeContext \<Rightarrow> (TransactionContext, InstructionError, unit) exec" where
  "set_identity \<equiv> vote_process identity_externals (\<lambda>_ _. Some UpdateValidatorIdentity)"

lemma identity_run:
  obtains tc where "set_identity ivc identity_transaction = (Ok (), tc)"
    and "contents tc = [identity_account 1, payer 9, system_account]"
proof -
  let ?ic = identity_instruction and ?tc = identity_transaction and ?bc = "ve_bincode identity_externals"
  let ?b = "handle ?ic 0 0" and ?lent = "lent 0 identity_transaction"
  have small: "ic_small ?ic" using identity_running by (simp add: running_def)
  note account = lent_account [OF small identity_free]
  have a: "ba_account ?b ?lent = identity_account 0" using account(1) by (simp add: identity_defs)
  have owned: "is_owned_by_current_program ?b ?lent" unfolding account(5) by (simp add: identity_defs program_key_eval)
  have writable: "is_writable ?b" unfolding account(4) by (simp add: identity_defs account_eval)
  have format: "bc_size ?bc (V1_14_11 (v1_from (identity_state 5))) = Some 1"
    "bc_serialize_into ?bc [0] (V1_14_11 (v1_from (identity_state 5))) = (True, [1])"
    "bc_deserialize ?bc [0] = Some (Current (identity_state 0))"
    by (simp_all add: identity_externals_def table_bincode_def vec_get_def)
  obtain tc1 where store: "set_state ?bc ?b (V1_14_11 (v1_from (identity_state 5))) ?lent = (Ok (), tc1)"
    and tc1: "contents tc1 = (contents ?lent)[0 := (identity_account 0)\<lparr>acc_data := [1]\<rparr>]"
    by (rule set_state_run [OF writable _ owned, of ?bc "V1_14_11 (v1_from (identity_state 5))" 1 "[1]"])
      (use a account(2,3) format in \<open>simp_all add: identity_account_def\<close>)
  have unchanged: "unchanged ?tc ?lent" by (simp add: unchanged_def values_set_flag)
  have node: "key_of_instruction_account ?ic 1 ?lent = Ok 5"
    by (simp add: key_of_instruction_account_def identity_defs account_eval get_key_of_account_at_index_def)
  have state: "get_current_state ?bc ?b ?lent = Ok (identity_state 0)"
    using a format(3) by (simp add: get_current_state_def get_state_def shared_deserialize_data_def identity_account_def)
  have "update_validator_identity ?bc ?b 5 {5} (ve_feature_set identity_externals) ?lent = (Ok (), tc1)"
    using state store
    by (simp add: update_validator_identity_def bind_exec_def lift_def verify_authorized_signer_def set_vote_account_state_def
        identity_state_eval)
  then have "vote_instruction identity_externals ivc ?ic ?b {5} UpdateValidatorIdentity ?lent = (Ok None, tc1)"
    using node by (simp add: vote_instruction_def Let_def bind_exec_def lift_def ret_def identity_accounts)
  then have "vote_process_borrowed identity_externals (\<lambda>_ _. Some UpdateValidatorIdentity) ivc ?ic ?b ?lent = (Ok None, tc1)"
    using a unchanged_signers [OF unchanged, of ?ic] identity_signers
    by (simp add: vote_process_borrowed_def bind_exec_def gets_def require_def lift_def ret_def get_owner_def identity_account_def
        sdk_limited_deserialize_def limited_deserialize_def)
  then have "set_identity ivc ?tc = (Ok (), drop_account ?b tc1)"
    using identity_running
    by (simp add: vote_process_def bind_exec_def running_def ret_def with_account_run [OF identity_free])
  moreover have "contents (drop_account ?b tc1) = [identity_account 1, payer 9, system_account]"
    unfolding contents_drop tc1 by (simp add: identity_defs values_set_flag)
  ultimately show ?thesis by (rule that)
qed

theorem vote_process_authorized_witness:
  "acc_data (contents (snd (set_identity payment_context identity_transaction)) ! 0) \<noteq> acc_data (contents identity_transaction ! 0) \<and>
   vote_state_signed identity_externals (ivc_sysvar_cache payment_context) (address_signed (\<lambda>_. 7) {5}) (identity_account 0)"
proof -
  obtain tc where tc: "set_identity payment_context identity_transaction = (Ok (), tc)"
    "contents tc = [identity_account 1, payer 9, system_account]" by (rule identity_run)
  have 0: "contents identity_transaction ! 0 = identity_account 0" "0 < length (cells identity_transaction)"
    "ve_sha256 identity_externals = (\<lambda>_. 7)"
    by (simp_all add: identity_defs identity_externals_def)
  have "acc_data (contents tc ! 0) \<noteq> acc_data (contents identity_transaction ! 0)"
    unfolding tc(2) 0 by (simp add: identity_account_def)
  then show ?thesis
    using vote_process_authorized [OF identity_running identity_signers tc(1) 0(2)] 0 tc(1) by simp
qed

end
