(* ===== verification/Fork_Choice.thy ===== *)
theory Fork_Choice
  imports Epoch_Schedule BTree_Map Search "HOL-Library.Finite_Map" "HOL-Library.Product_Lexorder"
begin

text \<open>
  \<open>core/src/consensus/heaviest_subtree_fork_choice.rs\<close>: the tree of the blocks that a validator knows, with
  the stake that voted for each of them, from which it picks the block to build on. A \<open>HashMap\<close> is a finite
  map and a \<open>BTreeSet\<close> a finite set that is iterated in ascending order. The time of the last root, which
  only decides when the state is printed, is left out.

  Loops over the parents or the children of blocks run with fuel, one unit for each block and one more. A run
  without enough of it, which a cycle of blocks would cause, counts as a panic, so that a run that does not
  panic also ends.
\<close>

section \<open>Data\<close>

type_synonym ForkWeight = u64

type_synonym SlotHashKey = "Slot \<times> Hash"

datatype UpdateLabel = AggregateLabel | AddLabel | MarkValidLabel Slot | MarkInvalidLabel Slot | SubtractLabel

text \<open>The derived order of the labels: by the position of the constructor, then by the slot.\<close>

fun label_rank :: "UpdateLabel \<Rightarrow> nat \<times> Slot" where
  "label_rank AggregateLabel = (0, 0)"
| "label_rank AddLabel = (1, 0)"
| "label_rank (MarkValidLabel s) = (2, s)"
| "label_rank (MarkInvalidLabel s) = (3, s)"
| "label_rank SubtractLabel = (4, 0)"

lemma label_rank_inject: "label_rank a = label_rank b \<Longrightarrow> a = b"
  by (cases a; cases b) simp_all

instantiation UpdateLabel :: linorder
begin

definition less_eq_UpdateLabel :: "UpdateLabel \<Rightarrow> UpdateLabel \<Rightarrow> bool" where
  "a \<le> b \<longleftrightarrow> label_rank a \<le> label_rank b"

definition less_UpdateLabel :: "UpdateLabel \<Rightarrow> UpdateLabel \<Rightarrow> bool" where
  "a < b \<longleftrightarrow> label_rank a < label_rank b"

instance
  by standard (auto simp: less_eq_UpdateLabel_def less_UpdateLabel_def intro: label_rank_inject)

end

datatype UpdateOperation = Add u64 | MarkValid Slot | MarkInvalid Slot | Subtract u64 | Aggregate

type_synonym UpdateOperations = "(SlotHashKey \<times> UpdateLabel, UpdateOperation) btree"

fun update_stake :: "u64 \<Rightarrow> UpdateOperation \<Rightarrow> (UpdateOperation, unit) result" where
  "update_stake new_stake Aggregate = Panic"
| "update_stake new_stake (Add stake) = Ok (Add (stake + new_stake))"
| "update_stake new_stake (MarkValid _) = Panic"
| "update_stake new_stake (MarkInvalid _) = Panic"
| "update_stake new_stake (Subtract stake) = Ok (Subtract (stake + new_stake))"

record ForkInfo =
  fi_stake_voted_at :: ForkWeight
  fi_stake_voted_subtree :: ForkWeight
  fi_height :: nat
  fi_best_slot :: SlotHashKey
  fi_deepest_slot :: SlotHashKey
  fi_parent :: "SlotHashKey option"
  fi_children :: "SlotHashKey fset"
  fi_latest_invalid_ancestor :: "Slot option"
  fi_is_duplicate_confirmed :: bool

definition fi_is_unconfirmed_duplicate :: "ForkInfo \<Rightarrow> Slot \<Rightarrow> bool" where
  "fi_is_unconfirmed_duplicate i my_slot = (case fi_latest_invalid_ancestor i of Some ancestor \<Rightarrow> ancestor = my_slot | None \<Rightarrow> False)"

definition fi_is_candidate :: "ForkInfo \<Rightarrow> bool" where
  "fi_is_candidate i \<longleftrightarrow> fi_latest_invalid_ancestor i = None"

definition set_duplicate_confirmed :: "ForkInfo \<Rightarrow> ForkInfo" where
  "set_duplicate_confirmed i = i\<lparr>fi_is_duplicate_confirmed := True, fi_latest_invalid_ancestor := None\<rparr>"

definition update_with_newly_valid_ancestor :: "Slot \<Rightarrow> ForkInfo \<Rightarrow> ForkInfo" where
  "update_with_newly_valid_ancestor newly_valid_ancestor i =
     (case fi_latest_invalid_ancestor i of
        Some latest \<Rightarrow> if latest \<le> newly_valid_ancestor then i\<lparr>fi_latest_invalid_ancestor := None\<rparr> else i
      | None \<Rightarrow> i)"

definition update_with_newly_invalid_ancestor :: "Slot \<Rightarrow> ForkInfo \<Rightarrow> (ForkInfo, unit) result" where
  "update_with_newly_invalid_ancestor newly_invalid_ancestor i =
     (if fi_is_duplicate_confirmed i then Panic
      else Ok (if (case fi_latest_invalid_ancestor i of Some latest \<Rightarrow> latest < newly_invalid_ancestor | None \<Rightarrow> True)
               then i\<lparr>fi_latest_invalid_ancestor := Some newly_invalid_ancestor\<rparr> else i))"

record HeaviestSubtreeForkChoice =
  fork_infos :: "(SlotHashKey, ForkInfo) fmap"
  latest_votes :: "(Pubkey, SlotHashKey) fmap"
  tree_root :: SlotHashKey

type_synonym 'a forks = "(HeaviestSubtreeForkChoice, unit, 'a) exec"

abbreviation info :: "HeaviestSubtreeForkChoice \<Rightarrow> SlotHashKey \<Rightarrow> ForkInfo option" where
  "info fc \<equiv> fmlookup (fork_infos fc)"

abbreviation put_info :: "SlotHashKey \<Rightarrow> ForkInfo \<Rightarrow> HeaviestSubtreeForkChoice \<Rightarrow> HeaviestSubtreeForkChoice" where
  "put_info key i \<equiv> fork_infos_update (fmupd key i)"

text \<open>A function of the tree that may panic, and a change of the entry of a block that must be there.\<close>

abbreviation observe :: "(HeaviestSubtreeForkChoice \<Rightarrow> ('a, unit) result) \<Rightarrow> 'a forks" where
  "observe f \<equiv> (\<lambda>fc. (f fc, fc))"

definition with_info :: "SlotHashKey \<Rightarrow> (ForkInfo \<Rightarrow> ForkInfo) \<Rightarrow> unit forks" where
  "with_info key f fc = (case info fc key of None \<Rightarrow> (Panic, fc) | Some i \<Rightarrow> (Ok (), put_info key (f i) fc))"

section \<open>Reading the tree\<close>

definition contains_block :: "HeaviestSubtreeForkChoice \<Rightarrow> SlotHashKey \<Rightarrow> bool" where
  "contains_block fc key \<longleftrightarrow> info fc key \<noteq> None"

definition best_slot :: "HeaviestSubtreeForkChoice \<Rightarrow> SlotHashKey \<Rightarrow> SlotHashKey option" where
  "best_slot fc key = map_option fi_best_slot (info fc key)"

definition deepest_slot :: "HeaviestSubtreeForkChoice \<Rightarrow> SlotHashKey \<Rightarrow> SlotHashKey option" where
  "deepest_slot fc key = map_option fi_deepest_slot (info fc key)"

definition best_overall_slot :: "HeaviestSubtreeForkChoice \<Rightarrow> (SlotHashKey, unit) result" where
  "best_overall_slot fc = expect (best_slot fc (tree_root fc))"

definition deepest_overall_slot :: "HeaviestSubtreeForkChoice \<Rightarrow> (SlotHashKey, unit) result" where
  "deepest_overall_slot fc = expect (deepest_slot fc (tree_root fc))"

definition stake_voted_subtree :: "HeaviestSubtreeForkChoice \<Rightarrow> SlotHashKey \<Rightarrow> u64 option" where
  "stake_voted_subtree fc key = map_option fi_stake_voted_subtree (info fc key)"

definition stake_voted_at :: "HeaviestSubtreeForkChoice \<Rightarrow> SlotHashKey \<Rightarrow> u64 option" where
  "stake_voted_at fc key = map_option fi_stake_voted_at (info fc key)"

definition fork_height :: "HeaviestSubtreeForkChoice \<Rightarrow> SlotHashKey \<Rightarrow> nat option" where
  "fork_height fc key = map_option fi_height (info fc key)"

definition latest_invalid_ancestor :: "HeaviestSubtreeForkChoice \<Rightarrow> SlotHashKey \<Rightarrow> Slot option" where
  "latest_invalid_ancestor fc key = (case info fc key of Some i \<Rightarrow> fi_latest_invalid_ancestor i | None \<Rightarrow> None)"

definition is_duplicate_confirmed :: "HeaviestSubtreeForkChoice \<Rightarrow> SlotHashKey \<Rightarrow> bool option" where
  "is_duplicate_confirmed fc key = map_option fi_is_duplicate_confirmed (info fc key)"

definition is_unconfirmed_duplicate :: "HeaviestSubtreeForkChoice \<Rightarrow> SlotHashKey \<Rightarrow> bool option" where
  "is_unconfirmed_duplicate fc key = map_option (\<lambda>i. fi_is_unconfirmed_duplicate i (fst key)) (info fc key)"

definition is_candidate :: "HeaviestSubtreeForkChoice \<Rightarrow> SlotHashKey \<Rightarrow> bool option" where
  "is_candidate fc key = map_option fi_is_candidate (info fc key)"

definition fork_parent :: "HeaviestSubtreeForkChoice \<Rightarrow> SlotHashKey \<Rightarrow> SlotHashKey option" where
  "fork_parent fc key = (case info fc key of Some i \<Rightarrow> fi_parent i | None \<Rightarrow> None)"

definition fork_children :: "HeaviestSubtreeForkChoice \<Rightarrow> SlotHashKey \<Rightarrow> SlotHashKey list option" where
  "fork_children fc key = map_option (\<lambda>i. sorted_list_of_fset (fi_children i)) (info fc key)"

definition max_by_weight :: "HeaviestSubtreeForkChoice \<Rightarrow> SlotHashKey \<Rightarrow> SlotHashKey \<Rightarrow> (ordering, unit) result" where
  "max_by_weight fc slot1 slot2 =
     and_then (expect (stake_voted_subtree fc slot1)) (\<lambda>weight1.
     and_then (expect (stake_voted_subtree fc slot2)) (\<lambda>weight2.
     Ok (if weight1 = weight2 then cmp slot2 slot1 else cmp weight1 weight2)))"

text \<open>As many rounds as a loop over the blocks can need.\<close>

definition rounds :: "HeaviestSubtreeForkChoice \<Rightarrow> nat" where
  "rounds fc = Suc (fcard (fmdom (fork_infos fc)))"

fun ancestors_loop :: "nat \<Rightarrow> HeaviestSubtreeForkChoice \<Rightarrow> SlotHashKey \<Rightarrow> (SlotHashKey list, unit) result" where
  "ancestors_loop 0 fc current = Panic"
| "ancestors_loop (Suc n) fc current =
     (case fork_parent fc current of
        None \<Rightarrow> Ok []
      | Some p \<Rightarrow> and_then (ancestors_loop n fc p) (\<lambda>ancestors. Ok (p # ancestors)))"

definition ancestor_iterator :: "HeaviestSubtreeForkChoice \<Rightarrow> SlotHashKey \<Rightarrow> (SlotHashKey list, unit) result" where
  "ancestor_iterator fc start = ancestors_loop (rounds fc) fc start"

definition is_strict_ancestor :: "HeaviestSubtreeForkChoice \<Rightarrow> SlotHashKey \<Rightarrow> SlotHashKey \<Rightarrow> (bool, unit) result" where
  "is_strict_ancestor fc maybe_ancestor_key node_key =
     (if maybe_ancestor_key = node_key then Ok False
      else if fst node_key < fst maybe_ancestor_key then Ok False
      else and_then (ancestor_iterator fc node_key) (\<lambda>ancestors. Ok (maybe_ancestor_key \<in> set ancestors)))"

text \<open>The top of the stack of pending keys is the head of the list.\<close>

fun subtree_diff_loop ::
  "nat \<Rightarrow> HeaviestSubtreeForkChoice \<Rightarrow> SlotHashKey \<Rightarrow> SlotHashKey list \<Rightarrow> SlotHashKey fset \<Rightarrow> (SlotHashKey fset, unit) result" where
  "subtree_diff_loop 0 fc root2 pending reachable = Panic"
| "subtree_diff_loop (Suc n) fc root2 [] reachable = Ok reachable"
| "subtree_diff_loop (Suc n) fc root2 (current # pending) reachable =
     (if current = root2 then subtree_diff_loop n fc root2 pending reachable
      else
        and_then (expect (fork_children fc current)) (\<lambda>cs.
        subtree_diff_loop n fc root2 (rev cs @ pending) (finsert current reachable)))"

definition subtree_diff :: "HeaviestSubtreeForkChoice \<Rightarrow> SlotHashKey \<Rightarrow> SlotHashKey \<Rightarrow> (SlotHashKey fset, unit) result" where
  "subtree_diff fc root1 root2 =
     (if \<not> contains_block fc root1 then Ok {||} else subtree_diff_loop (rounds fc) fc root2 [root1] {||})"

section \<open>New leaves\<close>

fun best_child_loop :: "HeaviestSubtreeForkChoice \<Rightarrow> SlotHashKey \<Rightarrow> u64 \<Rightarrow> SlotHashKey list \<Rightarrow> (bool, unit) result" where
  "best_child_loop fc maybe_best_child weight [] = Ok True"
| "best_child_loop fc maybe_best_child weight (child # rest) =
     and_then (expect (stake_voted_subtree fc child)) (\<lambda>child_weight.
     and_then (expect (is_candidate fc child)) (\<lambda>candidate.
     if \<not> candidate then best_child_loop fc maybe_best_child weight rest
     else if weight < child_weight \<or> weight = child_weight \<and> child < maybe_best_child then Ok False
     else best_child_loop fc maybe_best_child weight rest))"

definition is_best_child :: "HeaviestSubtreeForkChoice \<Rightarrow> SlotHashKey \<Rightarrow> (bool, unit) result" where
  "is_best_child fc maybe_best_child =
     and_then (expect (stake_voted_subtree fc maybe_best_child)) (\<lambda>weight.
     case fork_parent fc maybe_best_child of
       None \<Rightarrow> Ok True
     | Some p \<Rightarrow> and_then (expect (fork_children fc p)) (best_child_loop fc maybe_best_child weight))"

fun deepest_child_loop ::
  "HeaviestSubtreeForkChoice \<Rightarrow> SlotHashKey \<Rightarrow> nat \<Rightarrow> u64 \<Rightarrow> SlotHashKey list \<Rightarrow> (bool, unit) result" where
  "deepest_child_loop fc maybe_deepest_child height weight [] = Ok True"
| "deepest_child_loop fc maybe_deepest_child height weight (child # rest) =
     and_then (expect (fork_height fc child)) (\<lambda>child_height.
     and_then (expect (stake_voted_subtree fc child)) (\<lambda>child_weight.
     case (cmp child_height height, cmp child_weight weight, cmp child maybe_deepest_child) of
       (Greater, _, _) \<Rightarrow> Ok False
     | (Equal, Greater, _) \<Rightarrow> Ok False
     | (Equal, Equal, Less) \<Rightarrow> Ok False
     | _ \<Rightarrow> deepest_child_loop fc maybe_deepest_child height weight rest))"

definition is_deepest_child :: "HeaviestSubtreeForkChoice \<Rightarrow> SlotHashKey \<Rightarrow> (bool, unit) result" where
  "is_deepest_child fc maybe_deepest_child =
     and_then (expect (stake_voted_subtree fc maybe_deepest_child)) (\<lambda>weight.
     and_then (expect (fork_height fc maybe_deepest_child)) (\<lambda>height.
     case fork_parent fc maybe_deepest_child of
       None \<Rightarrow> Ok True
     | Some p \<Rightarrow> and_then (expect (fork_children fc p)) (deepest_child_loop fc maybe_deepest_child height weight)))"

fun propagate_best_slot :: "nat \<Rightarrow> SlotHashKey \<Rightarrow> SlotHashKey \<Rightarrow> SlotHashKey option \<Rightarrow> unit forks" where
  "propagate_best_slot 0 key parent_best_slot ancestor fc = (Panic, fc)"
| "propagate_best_slot (Suc n) key parent_best_slot None fc = (Ok (), fc)"
| "propagate_best_slot (Suc n) key parent_best_slot (Some ancestor) fc =
     (case info fc ancestor of
        None \<Rightarrow> (Panic, fc)
      | Some i \<Rightarrow>
          if fi_best_slot i = parent_best_slot
          then propagate_best_slot n key parent_best_slot (fi_parent i) (put_info ancestor (i\<lparr>fi_best_slot := key\<rparr>) fc)
          else (Ok (), fc))"

fun propagate_deepest_slot :: "nat \<Rightarrow> SlotHashKey \<Rightarrow> SlotHashKey option \<Rightarrow> SlotHashKey \<Rightarrow> nat \<Rightarrow> unit forks" where
  "propagate_deepest_slot 0 key ancestor current_child current_height fc = (Panic, fc)"
| "propagate_deepest_slot (Suc n) key None current_child current_height fc = (Ok (), fc)"
| "propagate_deepest_slot (Suc n) key (Some ancestor) current_child current_height fc =
     (case is_deepest_child fc current_child of
        Ok deepest \<Rightarrow>
          if \<not> deepest then (Ok (), fc)
          else
            (case info fc ancestor of
               None \<Rightarrow> (Panic, fc)
             | Some i \<Rightarrow>
                 propagate_deepest_slot n key (fi_parent i) ancestor (current_height + 1)
                   (put_info ancestor (i\<lparr>fi_deepest_slot := key, fi_height := current_height + 1\<rparr>) fc))
      | Err e \<Rightarrow> (Err e, fc)
      | Panic \<Rightarrow> (Panic, fc))"

definition propagate_new_leaf :: "SlotHashKey \<Rightarrow> SlotHashKey \<Rightarrow> unit forks" where
  "propagate_new_leaf key parent_key =
     bind_exec (observe (\<lambda>fc. expect (best_slot fc parent_key))) (\<lambda>parent_best_slot.
     bind_exec (gets rounds) (\<lambda>n.
     bind_exec (observe (\<lambda>fc. is_best_child fc key)) (\<lambda>best.
     bind_exec (if best then propagate_best_slot n key parent_best_slot (Some parent_key) else ret ()) (\<lambda>_.
     propagate_deepest_slot n key (Some parent_key) key 1))))"

definition leaf_info :: "SlotHashKey \<Rightarrow> SlotHashKey option \<Rightarrow> Slot option \<Rightarrow> ForkInfo" where
  "leaf_info key parent invalid_ancestor =
     \<lparr>fi_stake_voted_at = 0, fi_stake_voted_subtree = 0, fi_height = 1, fi_best_slot = key, fi_deepest_slot = key,
      fi_parent = parent, fi_children = {||}, fi_latest_invalid_ancestor = invalid_ancestor,
      fi_is_duplicate_confirmed = (parent = None)\<rparr>"

definition add_new_leaf_slot :: "SlotHashKey \<Rightarrow> SlotHashKey option \<Rightarrow> unit forks" where
  "add_new_leaf_slot key parent fc =
     (if contains_block fc key then (Ok (), fc)
      else
        let parent_latest_invalid_ancestor = Option.bind parent (latest_invalid_ancestor fc);
            fc1 = put_info key (leaf_info key parent parent_latest_invalid_ancestor) fc
        in case parent of
             None \<Rightarrow> (Ok (), fc1)
           | Some p \<Rightarrow>
               bind_exec (with_info p (fi_children_update (finsert key))) (\<lambda>_. propagate_new_leaf key p) fc1)"

definition fork_choice_new :: "SlotHashKey \<Rightarrow> (unit, unit) result \<times> HeaviestSubtreeForkChoice" where
  "fork_choice_new root =
     add_new_leaf_slot root None \<lparr>fork_infos = fmempty, latest_votes = fmempty, tree_root = root\<rparr>"

end
