(* ===== verification/Fork_Updates.thy ===== *)
theory Fork_Updates
  imports Fork_Choice
begin

text \<open>
  The operations on the tree of blocks: votes, marks of valid and invalid forks, new roots, and splitting and
  merging of trees. They collect update operations, which are applied from the greatest block to the smallest.
\<close>

section \<open>Aggregation\<close>

text \<open>The local variables of \<open>aggregate_slot\<close>.\<close>

record Aggregation =
  ag_stake_voted_subtree :: u64
  ag_deepest_child_height :: nat
  ag_best_slot :: SlotHashKey
  ag_deepest_slot :: SlotHashKey
  ag_is_duplicate_confirmed :: bool
  ag_best_child_stake :: u64
  ag_best_child :: SlotHashKey
  ag_deepest_child_stake :: u64
  ag_deepest_child :: SlotHashKey

definition aggregation_start :: "SlotHashKey \<Rightarrow> ForkInfo \<Rightarrow> Aggregation" where
  "aggregation_start key i =
     \<lparr>ag_stake_voted_subtree = fi_stake_voted_at i, ag_deepest_child_height = 0, ag_best_slot = key, ag_deepest_slot = key,
      ag_is_duplicate_confirmed = False, ag_best_child_stake = 0, ag_best_child = key, ag_deepest_child_stake = 0,
      ag_deepest_child = key\<rparr>"

definition aggregate_best :: "SlotHashKey \<Rightarrow> SlotHashKey \<Rightarrow> ForkInfo \<Rightarrow> Aggregation \<Rightarrow> Aggregation" where
  "aggregate_best key child_key child a =
     (if fi_is_candidate child \<and>
         (ag_best_child a = key \<or> ag_best_child_stake a < fi_stake_voted_subtree child \<or>
          fi_stake_voted_subtree child = ag_best_child_stake a \<and> child_key < ag_best_child a)
      then a\<lparr>ag_best_child_stake := fi_stake_voted_subtree child, ag_best_child := child_key, ag_best_slot := fi_best_slot child\<rparr>
      else a)"

definition aggregate_deepest :: "SlotHashKey \<Rightarrow> SlotHashKey \<Rightarrow> ForkInfo \<Rightarrow> Aggregation \<Rightarrow> Aggregation" where
  "aggregate_deepest key child_key child a =
     (if (case (ag_deepest_child a = key, cmp (fi_height child) (ag_deepest_child_height a),
             cmp (fi_stake_voted_subtree child) (ag_deepest_child_stake a), cmp child_key (ag_deepest_child a)) of
            (True, _, _, _) \<Rightarrow> True
          | (_, Greater, _, _) \<Rightarrow> True
          | (_, Equal, Greater, _) \<Rightarrow> True
          | (_, Equal, Equal, Less) \<Rightarrow> True
          | _ \<Rightarrow> False)
      then a\<lparr>ag_deepest_child_height := fi_height child, ag_deepest_child_stake := fi_stake_voted_subtree child,
             ag_deepest_child := child_key, ag_deepest_slot := fi_deepest_slot child\<rparr>
      else a)"

definition aggregate_child :: "SlotHashKey \<Rightarrow> SlotHashKey \<Rightarrow> ForkInfo \<Rightarrow> Aggregation \<Rightarrow> Aggregation" where
  "aggregate_child key child_key child a =
     aggregate_deepest key child_key child (aggregate_best key child_key child
       (a\<lparr>ag_is_duplicate_confirmed := (ag_is_duplicate_confirmed a \<or> fi_is_duplicate_confirmed child),
          ag_stake_voted_subtree := ag_stake_voted_subtree a + fi_stake_voted_subtree child\<rparr>))"

fun aggregate_children ::
  "HeaviestSubtreeForkChoice \<Rightarrow> SlotHashKey \<Rightarrow> SlotHashKey list \<Rightarrow> Aggregation \<Rightarrow> (Aggregation, unit) result" where
  "aggregate_children fc key [] a = Ok a"
| "aggregate_children fc key (child_key # rest) a =
     and_then (expect (info fc child_key)) (\<lambda>child. aggregate_children fc key rest (aggregate_child key child_key child a))"

definition aggregated :: "Aggregation \<Rightarrow> ForkInfo \<Rightarrow> ForkInfo" where
  "aggregated a i =
     (if ag_is_duplicate_confirmed a then set_duplicate_confirmed i else i)
       \<lparr>fi_stake_voted_subtree := ag_stake_voted_subtree a, fi_height := ag_deepest_child_height a + 1,
        fi_best_slot := ag_best_slot a, fi_deepest_slot := ag_deepest_slot a\<rparr>"

definition aggregate_slot :: "SlotHashKey \<Rightarrow> unit forks" where
  "aggregate_slot key fc =
     (case info fc key of
        None \<Rightarrow> (Ok (), fc)
      | Some i \<Rightarrow>
          bind_exec (observe (\<lambda>fc. aggregate_children fc key (sorted_list_of_fset (fi_children i)) (aggregation_start key i))) (\<lambda>a.
          with_info key (aggregated a)) fc)"

section \<open>Update operations\<close>

definition add_slot_stake :: "SlotHashKey \<Rightarrow> u64 \<Rightarrow> unit forks" where
  "add_slot_stake key stake fc =
     (case info fc key of
        None \<Rightarrow> (Ok (), fc)
      | Some i \<Rightarrow> (Ok (), put_info key (i\<lparr>fi_stake_voted_at := fi_stake_voted_at i + stake,
                                     fi_stake_voted_subtree := fi_stake_voted_subtree i + stake\<rparr>) fc))"

definition subtract_slot_stake :: "SlotHashKey \<Rightarrow> u64 \<Rightarrow> unit forks" where
  "subtract_slot_stake key stake fc =
     (case info fc key of
        None \<Rightarrow> (Ok (), fc)
      | Some i \<Rightarrow> (Ok (), put_info key (i\<lparr>fi_stake_voted_at := fi_stake_voted_at i - stake,
                                     fi_stake_voted_subtree := fi_stake_voted_subtree i - stake\<rparr>) fc))"

definition mark_fork_valid :: "SlotHashKey \<Rightarrow> Slot \<Rightarrow> unit forks" where
  "mark_fork_valid key valid_slot fc =
     (case info fc key of
        None \<Rightarrow> (Ok (), fc)
      | Some i \<Rightarrow>
          let i' = update_with_newly_valid_ancestor valid_slot i
          in (Ok (), put_info key (if fst key = valid_slot then i'\<lparr>fi_is_duplicate_confirmed := True\<rparr> else i') fc))"

definition mark_fork_invalid :: "SlotHashKey \<Rightarrow> Slot \<Rightarrow> unit forks" where
  "mark_fork_invalid key invalid_slot fc =
     (case info fc key of
        None \<Rightarrow> (Ok (), fc)
      | Some i \<Rightarrow> bind_exec (lift (update_with_newly_invalid_ancestor invalid_slot i)) (\<lambda>i'. modify (put_info key i')) fc)"

fun apply_operation :: "SlotHashKey \<Rightarrow> UpdateOperation \<Rightarrow> unit forks" where
  "apply_operation key (MarkValid valid_slot) = mark_fork_valid key valid_slot"
| "apply_operation key (MarkInvalid invalid_slot) = mark_fork_invalid key invalid_slot"
| "apply_operation key Aggregate = aggregate_slot key"
| "apply_operation key (Add stake) = add_slot_stake key stake"
| "apply_operation key (Subtract stake) = subtract_slot_stake key stake"

fun apply_operations :: "((SlotHashKey \<times> UpdateLabel) \<times> UpdateOperation) list \<Rightarrow> unit forks" where
  "apply_operations [] = ret ()"
| "apply_operations (((key, label), operation) # rest) = bind_exec (apply_operation key operation) (\<lambda>_. apply_operations rest)"

definition process_update_operations :: "UpdateOperations \<Rightarrow> unit forks" where
  "process_update_operations update_operations = apply_operations (rev update_operations)"

definition do_insert_aggregate_operation ::
  "UpdateOperation option \<Rightarrow> SlotHashKey \<Rightarrow> UpdateOperations \<Rightarrow> bool \<times> UpdateOperations" where
  "do_insert_aggregate_operation modify_fork_validity key ops =
     (if btree_get ops (key, AggregateLabel) \<noteq> None then (False, ops)
      else
        let ops' = (case modify_fork_validity of
                Some (MarkValid s) \<Rightarrow> btree_insert (key, MarkValidLabel s) (MarkValid s) ops
              | Some (MarkInvalid s) \<Rightarrow> btree_insert (key, MarkInvalidLabel s) (MarkInvalid s) ops
              | _ \<Rightarrow> ops)
        in (True, btree_insert (key, AggregateLabel) Aggregate ops'))"

fun insert_across_ancestors :: "UpdateOperation option \<Rightarrow> SlotHashKey list \<Rightarrow> UpdateOperations \<Rightarrow> UpdateOperations" where
  "insert_across_ancestors modify_fork_validity [] ops = ops"
| "insert_across_ancestors modify_fork_validity (p # ps) ops =
     (case do_insert_aggregate_operation modify_fork_validity p ops of
        (True, ops') \<Rightarrow> insert_across_ancestors modify_fork_validity ps ops'
      | (False, ops') \<Rightarrow> ops')"

definition insert_aggregate_operations ::
  "HeaviestSubtreeForkChoice \<Rightarrow> SlotHashKey \<Rightarrow> UpdateOperations \<Rightarrow> (UpdateOperations, unit) result" where
  "insert_aggregate_operations fc key ops =
     and_then (ancestor_iterator fc key) (\<lambda>ancestors. Ok (insert_across_ancestors None ancestors ops))"

section \<open>Votes\<close>

text \<open>The stakes of the vote accounts by epoch; nothing else is read of \<open>EpochStakes\<close>.\<close>

type_synonym EpochStakes = "Epoch \<Rightarrow> (Pubkey \<Rightarrow> u64) option"

definition vote_stake :: "EpochStakes \<Rightarrow> EpochSchedule \<Rightarrow> Pubkey \<Rightarrow> Slot \<Rightarrow> u64" where
  "vote_stake epoch_stakes epoch_schedule pubkey s =
     (case epoch_stakes (get_epoch epoch_schedule s) of Some vote_account_stake \<Rightarrow> vote_account_stake pubkey | None \<Rightarrow> 0)"

definition add_stake_operation ::
  "SlotHashKey \<times> UpdateLabel \<Rightarrow> UpdateOperation \<Rightarrow> u64 \<Rightarrow> UpdateOperations \<Rightarrow> (UpdateOperations, unit) result" where
  "add_stake_operation label operation stake ops =
     (case btree_get ops label of
        None \<Rightarrow> Ok (btree_insert label operation ops)
      | Some update \<Rightarrow> and_then (update_stake stake update) (\<lambda>update'. Ok (btree_insert label update' ops)))"

definition is_outdated_vote :: "SlotHashKey option \<Rightarrow> SlotHashKey \<Rightarrow> bool" where
  "is_outdated_vote pubkey_latest_vote new_vote =
     (case pubkey_latest_vote of
        Some (latest_slot, latest_hash) \<Rightarrow>
          fst new_vote < latest_slot \<or> fst new_vote = latest_slot \<and> latest_hash \<le> snd new_vote
      | None \<Rightarrow> False)"

text \<open>What is done for a vote that is not outdated: the stake moves from the old vote to the new one.\<close>

definition subtract_old_vote ::
  "EpochStakes \<Rightarrow> EpochSchedule \<Rightarrow> HeaviestSubtreeForkChoice \<Rightarrow> Pubkey \<Rightarrow> SlotHashKey \<Rightarrow> SlotHashKey option \<Rightarrow> UpdateOperations \<Rightarrow>
   (UpdateOperations, unit) result" where
  "subtract_old_vote epoch_stakes epoch_schedule fc pubkey new_vote old_vote ops =
     (case old_vote of
        None \<Rightarrow> Ok ops
      | Some (old_slot, old_hash) \<Rightarrow>
          if \<not> (if fst new_vote = old_slot then snd new_vote < old_hash else old_slot < fst new_vote) then Panic
          else
            let stake_update = vote_stake epoch_stakes epoch_schedule pubkey old_slot
            in if 0 < stake_update
               then
                 and_then (add_stake_operation ((old_slot, old_hash), SubtractLabel) (Subtract stake_update) stake_update ops)
                   (insert_aggregate_operations fc (old_slot, old_hash))
               else Ok ops)"

definition move_vote ::
  "EpochStakes \<Rightarrow> EpochSchedule \<Rightarrow> HeaviestSubtreeForkChoice \<Rightarrow> Pubkey \<Rightarrow> SlotHashKey \<Rightarrow> SlotHashKey option \<Rightarrow> UpdateOperations \<Rightarrow>
   (UpdateOperations, unit) result" where
  "move_vote epoch_stakes epoch_schedule fc pubkey new_vote old_vote ops =
     and_then (subtract_old_vote epoch_stakes epoch_schedule fc pubkey new_vote old_vote ops) (\<lambda>ops.
     let stake_update = vote_stake epoch_stakes epoch_schedule pubkey (fst new_vote)
     in and_then (add_stake_operation (new_vote, AddLabel) (Add stake_update) stake_update ops)
          (insert_aggregate_operations fc new_vote))"

fun generate_update_operations_loop ::
  "EpochStakes \<Rightarrow> EpochSchedule \<Rightarrow> (Pubkey \<times> SlotHashKey) list \<Rightarrow> Pubkey fset \<Rightarrow> UpdateOperations \<Rightarrow> UpdateOperations forks" where
  "generate_update_operations_loop epoch_stakes epoch_schedule [] observed_pubkeys ops = ret ops"
| "generate_update_operations_loop epoch_stakes epoch_schedule ((pubkey, new_vote) # rest) observed_pubkeys ops =
     (\<lambda>fc.
        if fst new_vote < fst (tree_root fc)
        then generate_update_operations_loop epoch_stakes epoch_schedule rest observed_pubkeys ops fc
        else if pubkey |\<in>| observed_pubkeys then (Panic, fc)
        else if is_outdated_vote (fmlookup (latest_votes fc) pubkey) new_vote
        then generate_update_operations_loop epoch_stakes epoch_schedule rest (finsert pubkey observed_pubkeys) ops fc
        else
          let old_vote = fmlookup (latest_votes fc) pubkey in
          bind_exec (modify (latest_votes_update (fmupd pubkey new_vote))) (\<lambda>_.
          bind_exec (observe (\<lambda>fc. move_vote epoch_stakes epoch_schedule fc pubkey new_vote old_vote ops)) (\<lambda>ops'.
          generate_update_operations_loop epoch_stakes epoch_schedule rest (finsert pubkey observed_pubkeys) ops')) fc)"

definition generate_update_operations ::
  "EpochStakes \<Rightarrow> EpochSchedule \<Rightarrow> (Pubkey \<times> SlotHashKey) list \<Rightarrow> UpdateOperations forks" where
  "generate_update_operations epoch_stakes epoch_schedule pubkey_votes =
     generate_update_operations_loop epoch_stakes epoch_schedule pubkey_votes {||} []"

definition add_votes :: "EpochStakes \<Rightarrow> EpochSchedule \<Rightarrow> (Pubkey \<times> SlotHashKey) list \<Rightarrow> SlotHashKey forks" where
  "add_votes epoch_stakes epoch_schedule pubkey_votes =
     bind_exec (generate_update_operations epoch_stakes epoch_schedule pubkey_votes) (\<lambda>update_operations_batch.
     bind_exec (process_update_operations update_operations_batch) (\<lambda>_.
     observe best_overall_slot))"

section \<open>Valid and invalid forks\<close>

fun insert_for_subtree :: "UpdateOperation \<Rightarrow> SlotHashKey list \<Rightarrow> UpdateOperations \<Rightarrow> UpdateOperations" where
  "insert_for_subtree mark [] ops = ops"
| "insert_for_subtree mark (key # keys) ops =
     insert_for_subtree mark keys (snd (do_insert_aggregate_operation (Some mark) key ops))"

definition mark_operations ::
  "UpdateOperation \<Rightarrow> SlotHashKey \<Rightarrow> HeaviestSubtreeForkChoice \<Rightarrow> (UpdateOperations, unit) result" where
  "mark_operations mark key fc =
     and_then (subtree_diff fc key (0, 0)) (\<lambda>descendants.
     insert_aggregate_operations fc key (insert_for_subtree mark (sorted_list_of_fset descendants) []))"

definition mark_fork_invalid_candidate :: "SlotHashKey \<Rightarrow> unit forks" where
  "mark_fork_invalid_candidate invalid_key fc =
     (case info fc invalid_key of
        None \<Rightarrow> (Ok (), fc)
      | Some i \<Rightarrow>
          if fi_is_duplicate_confirmed i then (Panic, fc)
          else bind_exec (observe (mark_operations (MarkInvalid (fst invalid_key)) invalid_key)) process_update_operations fc)"

fun not_confirmed :: "HeaviestSubtreeForkChoice \<Rightarrow> SlotHashKey list \<Rightarrow> (SlotHashKey list, unit) result" where
  "not_confirmed fc [] = Ok []"
| "not_confirmed fc (key # keys) =
     and_then (expect (is_duplicate_confirmed fc key)) (\<lambda>confirmed.
     and_then (not_confirmed fc keys) (\<lambda>rest. Ok (if confirmed then rest else key # rest)))"

definition mark_fork_valid_candidate :: "SlotHashKey \<Rightarrow> SlotHashKey list forks" where
  "mark_fork_valid_candidate valid_key =
     bind_exec (observe (\<lambda>fc.
       and_then (ancestor_iterator fc valid_key) (\<lambda>ancestors. not_confirmed fc (valid_key # ancestors))))
       (\<lambda>newly_duplicate_confirmed_ancestors.
     bind_exec (observe (mark_operations (MarkValid (fst valid_key)) valid_key)) (\<lambda>ops.
     bind_exec (process_update_operations ops) (\<lambda>_.
     ret newly_duplicate_confirmed_ancestors)))"

section \<open>Roots\<close>

fun remove_blocks :: "SlotHashKey list \<Rightarrow> unit forks" where
  "remove_blocks [] = ret ()"
| "remove_blocks (key # keys) =
     (\<lambda>fc. if contains_block fc key then remove_blocks keys (fork_infos_update (fmdrop key) fc) else (Panic, fc))"

definition set_tree_root :: "SlotHashKey \<Rightarrow> unit forks" where
  "set_tree_root new_root =
     bind_exec (observe (\<lambda>fc. subtree_diff fc (tree_root fc) new_root)) (\<lambda>remove_set.
     bind_exec (remove_blocks (sorted_list_of_fset remove_set)) (\<lambda>_.
     bind_exec (with_info new_root (\<lambda>i. i\<lparr>fi_parent := None\<rparr>)) (\<lambda>_.
     modify (\<lambda>fc. fc\<lparr>tree_root := new_root\<rparr>))))"

definition add_root_parent :: "SlotHashKey \<Rightarrow> unit forks" where
  "add_root_parent root_parent fc =
     (if \<not> fst root_parent < fst (tree_root fc) then (Panic, fc)
      else if contains_block fc root_parent then (Panic, fc)
      else
        case info fc (tree_root fc) of
          None \<Rightarrow> (Panic, fc)
        | Some root_info \<Rightarrow>
            let root_parent_info =
                  \<lparr>fi_stake_voted_at = 0, fi_stake_voted_subtree = fi_stake_voted_subtree root_info,
                   fi_height = fi_height root_info + 1, fi_best_slot = fi_best_slot root_info,
                   fi_deepest_slot = fi_deepest_slot root_info, fi_parent = None, fi_children = {|tree_root fc|},
                   fi_latest_invalid_ancestor = None, fi_is_duplicate_confirmed = fi_is_duplicate_confirmed root_info\<rparr>
            in (Ok (), (put_info root_parent root_parent_info
                         (put_info (tree_root fc) (root_info\<lparr>fi_parent := Some root_parent\<rparr>) fc))\<lparr>tree_root := root_parent\<rparr>))"

section \<open>Splitting and merging\<close>

text \<open>The top of the stack of nodes to visit is the head of the list.\<close>

fun split_off_loop :: "nat \<Rightarrow> SlotHashKey list \<Rightarrow> (SlotHashKey, ForkInfo) fmap \<Rightarrow> (SlotHashKey, ForkInfo) fmap forks" where
  "split_off_loop 0 to_visit split_infos fc = (Panic, fc)"
| "split_off_loop (Suc n) [] split_infos fc = (Ok split_infos, fc)"
| "split_off_loop (Suc n) (current # to_visit) split_infos fc =
     (case info fc current of
        None \<Rightarrow> (Panic, fc)
      | Some i \<Rightarrow>
          split_off_loop n (rev (sorted_list_of_fset (fi_children i)) @ to_visit) (fmupd current i split_infos)
            (fork_infos_update (fmdrop current) fc))"

definition remove_child :: "SlotHashKey \<Rightarrow> SlotHashKey \<Rightarrow> unit forks" where
  "remove_child p key fc =
     (case info fc p of
        None \<Rightarrow> (Panic, fc)
      | Some i \<Rightarrow> if key |\<in>| fi_children i then with_info p (fi_children_update (\<lambda>cs. cs |-| {|key|})) fc else (Panic, fc))"

definition retain_votes :: "(SlotHashKey, ForkInfo) fmap \<Rightarrow> (Pubkey, SlotHashKey) fmap \<Rightarrow> (Pubkey, SlotHashKey) fmap" where
  "retain_votes infos votes' =
     fmfilter (\<lambda>pubkey. case fmlookup votes' pubkey of Some node \<Rightarrow> fmlookup infos node \<noteq> None | None \<Rightarrow> False) votes'"

definition split_off :: "SlotHashKey \<Rightarrow> HeaviestSubtreeForkChoice forks" where
  "split_off key =
     bind_exec (observe (\<lambda>fc. if tree_root fc = key then Panic else Ok ())) (\<lambda>_.
     bind_exec (observe (\<lambda>fc. expect (info fc key))) (\<lambda>split_tree_root.
     bind_exec (lift (expect (fi_parent split_tree_root))) (\<lambda>p.
     bind_exec (observe (\<lambda>fc. insert_aggregate_operations fc key [])) (\<lambda>update_operations.
     bind_exec (remove_child p key) (\<lambda>_.
     bind_exec (process_update_operations update_operations) (\<lambda>_.
     bind_exec (gets rounds) (\<lambda>n.
     bind_exec (split_off_loop n [key] fmempty) (\<lambda>split_infos.
     bind_exec (with_info p (fi_children_update (\<lambda>cs. cs |-| {|key|}))) (\<lambda>_.
     let split_infos' = fmupd key (split_tree_root\<lparr>fi_parent := None\<rparr>) split_infos in
     bind_exec (gets (\<lambda>fc. retain_votes split_infos' (latest_votes fc))) (\<lambda>split_tree_latest_votes.
     bind_exec (modify (\<lambda>fc. fc\<lparr>latest_votes := retain_votes (fork_infos fc) (latest_votes fc)\<rparr>)) (\<lambda>_.
     ret \<lparr>fork_infos = split_infos', latest_votes = split_tree_latest_votes, tree_root = key\<rparr>)))))))))))"

fun purge_prune_loop ::
  "nat \<Rightarrow> SlotHashKey \<Rightarrow> SlotHashKey list \<Rightarrow> SlotHashKey option \<Rightarrow> SlotHashKey list \<Rightarrow> HeaviestSubtreeForkChoice list \<Rightarrow>
   (SlotHashKey option \<times> SlotHashKey list \<times> HeaviestSubtreeForkChoice list) forks" where
  "purge_prune_loop 0 new_root to_visit root purged_slots pruned_subtrees fc = (Panic, fc)"
| "purge_prune_loop (Suc n) new_root [] root purged_slots pruned_subtrees fc = (Ok (root, purged_slots, pruned_subtrees), fc)"
| "purge_prune_loop (Suc n) new_root (cur_slot # to_visit) root purged_slots pruned_subtrees fc =
     (if cur_slot = new_root then purge_prune_loop n new_root to_visit (Some new_root) purged_slots pruned_subtrees fc
      else if cur_slot < new_root
      then
        bind_exec (observe (\<lambda>fc. expect (fork_children fc cur_slot))) (\<lambda>cs.
        purge_prune_loop n new_root (rev cs @ to_visit) root (purged_slots @ [cur_slot]) pruned_subtrees) fc
      else
        bind_exec (split_off cur_slot) (\<lambda>subtree.
        purge_prune_loop n new_root to_visit root purged_slots (pruned_subtrees @ [subtree])) fc)"

definition purge_prune :: "SlotHashKey \<Rightarrow> (SlotHashKey list \<times> HeaviestSubtreeForkChoice list) forks" where
  "purge_prune new_root =
     bind_exec (gets rounds) (\<lambda>n.
     bind_exec (\<lambda>fc. purge_prune_loop n new_root [tree_root fc] None [] [] fc) (\<lambda>(root, purged_slots, pruned_subtrees).
     bind_exec (remove_blocks purged_slots) (\<lambda>_.
     bind_exec
       (case root of
          None \<Rightarrow> ret ()
        | Some r \<Rightarrow>
            bind_exec (with_info r (\<lambda>i. i\<lparr>fi_parent := None\<rparr>)) (\<lambda>_. modify (\<lambda>fc. fc\<lparr>tree_root := r\<rparr>))) (\<lambda>_.
     ret (purged_slots, pruned_subtrees)))))"

fun add_leaves :: "(SlotHashKey \<times> SlotHashKey) list \<Rightarrow> unit forks" where
  "add_leaves [] = ret ()"
| "add_leaves ((key, p) # rest) = bind_exec (add_new_leaf_slot key (Some p)) (\<lambda>_. add_leaves rest)"

text \<open>The votes of the other tree come in the order of a \<open>HashMap\<close>, here in that of their keys.\<close>

definition fork_choice_merge ::
  "EpochStakes \<Rightarrow> EpochSchedule \<Rightarrow> HeaviestSubtreeForkChoice \<Rightarrow> SlotHashKey \<Rightarrow> unit forks" where
  "fork_choice_merge epoch_stakes epoch_schedule other merge_leaf =
     bind_exec (observe (\<lambda>fc. if contains_block fc merge_leaf then Ok () else Panic)) (\<lambda>_.
     let other_slots_nodes = map (\<lambda>key. (key, case fork_parent other key of Some p \<Rightarrow> p | None \<Rightarrow> merge_leaf))
           (sorted_list_of_fset (fmdom (fork_infos other)));
         other_votes = map (\<lambda>pubkey. (pubkey, the (fmlookup (latest_votes other) pubkey)))
           (sorted_list_of_fset (fmdom (latest_votes other)))
     in bind_exec (add_leaves other_slots_nodes) (\<lambda>_.
        bind_exec (add_votes epoch_stakes epoch_schedule other_votes) (\<lambda>_. ret ())))"

section \<open>The validator's own fork\<close>

text \<open>What is read of a frozen bank.\<close>

record FrozenBank =
  fb_is_frozen :: bool
  fb_slot :: Slot
  fb_hash :: Hash
  fb_parent_slot :: Slot
  fb_parent_hash :: Hash

fun add_frozen_banks :: "Slot \<Rightarrow> Slot \<Rightarrow> FrozenBank list \<Rightarrow> unit forks" where
  "add_frozen_banks root prev_slot [] = ret ()"
| "add_frozen_banks root prev_slot (bank # banks) =
     (if \<not> fb_is_frozen bank then panic
      else if root < fb_slot bank
      then
        if \<not> prev_slot < fb_slot bank \<or> fb_hash bank = 0 \<or> fb_parent_hash bank = 0 then panic
        else
          bind_exec (add_new_leaf_slot (fb_slot bank, fb_hash bank) (Some (fb_parent_slot bank, fb_parent_hash bank))) (\<lambda>_.
          add_frozen_banks root (fb_slot bank) banks)
      else add_frozen_banks root prev_slot banks)"

definition new_from_frozen_banks :: "SlotHashKey \<Rightarrow> FrozenBank list \<Rightarrow> (unit, unit) result \<times> HeaviestSubtreeForkChoice" where
  "new_from_frozen_banks root frozen_banks =
     (case fork_choice_new root of
        (Ok _, fc) \<Rightarrow> add_frozen_banks (fst root) (fst root) frozen_banks fc
      | (Err e, fc) \<Rightarrow> (Err e, fc)
      | (Panic, fc) \<Rightarrow> (Panic, fc))"

text \<open>What the tower answers to \<open>last_voted_slot_hash\<close> and \<open>is_stray_last_vote\<close> are arguments.\<close>

definition heaviest_slot_on_same_voted_fork ::
  "HeaviestSubtreeForkChoice \<Rightarrow> SlotHashKey option \<Rightarrow> bool \<Rightarrow> (SlotHashKey option, unit) result" where
  "heaviest_slot_on_same_voted_fork fc last_voted_slot_hash is_stray_last_vote =
     (case last_voted_slot_hash of
        None \<Rightarrow> Ok None
      | Some voted \<Rightarrow>
          (case is_candidate fc voted of
             Some True \<Rightarrow> Ok (best_slot fc voted)
           | Some False \<Rightarrow> Ok (deepest_slot fc voted)
           | None \<Rightarrow> if \<not> is_stray_last_vote then Panic else Ok None))"

end
