(* ===== verification/Fork_Tree.thy ===== *)
theory Fork_Tree
  imports Fork_Updates
begin

text \<open>The blocks of a fork choice form a tree: its children, subtrees and ancestors, and the loops over them.\<close>

declare split_paired_All [simp del] and split_paired_Ex [simp del]

section \<open>Trees\<close>

abbreviation blocks :: "HeaviestSubtreeForkChoice \<Rightarrow> SlotHashKey set" where
  "blocks fc \<equiv> fset (fmdom (fork_infos fc))"

lemma blocks_iff: "k \<in> blocks fc \<longleftrightarrow> (\<exists>i. info fc k = Some i)"
  by (simp add: fmlookup_dom_iff)

definition child_of :: "HeaviestSubtreeForkChoice \<Rightarrow> (SlotHashKey \<times> SlotHashKey) set" where
  "child_of fc = {(p, c). \<exists>i. info fc p = Some i \<and> c |\<in>| fi_children i}"

lemma child_of_iff: "child_of fc = {(p, c). \<exists>cs. fork_children fc p = Some cs \<and> c \<in> set cs}"
  by (auto simp: child_of_def fork_children_def)

abbreviation subtree :: "HeaviestSubtreeForkChoice \<Rightarrow> SlotHashKey \<Rightarrow> SlotHashKey set" where
  "subtree fc n \<equiv> (child_of fc)\<^sup>* `` {n}"

text \<open>Children and parents agree, a child has a later slot than its parent, and only the root has no parent.\<close>

definition tree_ok :: "HeaviestSubtreeForkChoice \<Rightarrow> bool" where
  "tree_ok fc \<longleftrightarrow>
     (\<forall>p c. (p, c) \<in> child_of fc \<longleftrightarrow> p \<in> blocks fc \<and> c \<in> blocks fc \<and> fork_parent fc c = Some p) \<and>
     (\<forall>p c. c \<in> blocks fc \<and> fork_parent fc c = Some p \<longrightarrow> p \<in> blocks fc \<and> fst p < fst c) \<and>
     (\<forall>c \<in> blocks fc. fork_parent fc c = None \<longleftrightarrow> c = tree_root fc) \<and> tree_root fc \<in> blocks fc"

text \<open>Two fork choices with the same blocks, parents and children.\<close>

definition same_shape :: "HeaviestSubtreeForkChoice \<Rightarrow> HeaviestSubtreeForkChoice \<Rightarrow> bool" where
  "same_shape fc fc' \<longleftrightarrow> tree_root fc' = tree_root fc \<and>
     (\<forall>k. map_option (\<lambda>i. (fi_parent i, fi_children i)) (info fc' k) = map_option (\<lambda>i. (fi_parent i, fi_children i)) (info fc k))"

lemma same_shape_refl [simp]: "same_shape fc fc"
  by (simp add: same_shape_def)

lemma same_shape_trans: "same_shape fc fc' \<Longrightarrow> same_shape fc' fc'' \<Longrightarrow> same_shape fc fc''"
  by (simp add: same_shape_def)

lemma same_shape_sym: "same_shape fc fc' \<Longrightarrow> same_shape fc' fc"
  by (simp add: same_shape_def)

lemma same_shape_info:
  assumes "same_shape fc fc'" and "info fc k = Some i"
  obtains i' where "info fc' k = Some i'" and "fi_parent i' = fi_parent i" and "fi_children i' = fi_children i"
proof -
  have "map_option (\<lambda>i. (fi_parent i, fi_children i)) (info fc' k) = Some (fi_parent i, fi_children i)"
    using assms by (simp add: same_shape_def)
  then show ?thesis using that by auto
qed

lemma same_shape_simps:
  assumes "same_shape fc fc'"
  shows "fmdom (fork_infos fc') = fmdom (fork_infos fc)" and "child_of fc' = child_of fc"
    and "fork_parent fc' = fork_parent fc" and "tree_root fc' = tree_root fc" and "rounds fc' = rounds fc"
    and "fork_children fc' = fork_children fc" and "contains_block fc' = contains_block fc"
proof -
  have eq: "map_option (\<lambda>i. (fi_parent i, fi_children i)) (info fc' k) = map_option (\<lambda>i. (fi_parent i, fi_children i)) (info fc k)" for k
    using assms by (simp add: same_shape_def)
  have none: "info fc' k = None \<longleftrightarrow> info fc k = None" for k
    using eq [of k] by (cases "info fc k"; cases "info fc' k") simp_all
  show dom: "fmdom (fork_infos fc') = fmdom (fork_infos fc)"
    by (rule fset_eqI) (simp add: fmdom_notI fmlookup_dom_iff flip: not_None_eq, simp add: none)
  show "fork_parent fc' = fork_parent fc"
  proof
    fix k show "fork_parent fc' k = fork_parent fc k"
      using eq [of k] by (cases "info fc k"; cases "info fc' k") (simp_all add: fork_parent_def)
  qed
  show cs: "fork_children fc' = fork_children fc"
  proof
    fix k show "fork_children fc' k = fork_children fc k"
      using eq [of k] by (cases "info fc k"; cases "info fc' k") (simp_all add: fork_children_def)
  qed
  show "child_of fc' = child_of fc" unfolding child_of_iff cs ..
  show "tree_root fc' = tree_root fc" using assms by (simp add: same_shape_def)
  show "rounds fc' = rounds fc" by (simp add: rounds_def dom)
  show "contains_block fc' = contains_block fc" by (simp add: contains_block_def fun_eq_iff none del: not_None_eq)
qed

lemma same_shape_tree_ok: "same_shape fc fc' \<Longrightarrow> tree_ok fc' \<longleftrightarrow> tree_ok fc"
  by (simp add: tree_ok_def same_shape_simps)

lemma same_shape_put:
  "info fc k = Some i \<Longrightarrow> fi_parent i' = fi_parent i \<Longrightarrow> fi_children i' = fi_children i \<Longrightarrow> same_shape fc (put_info k i' fc)"
  by (simp add: same_shape_def)


section \<open>Facts of trees\<close>

lemma tree_child:
  assumes "tree_ok fc"
  shows "(p, c) \<in> child_of fc \<longleftrightarrow> c \<in> blocks fc \<and> fork_parent fc c = Some p"
  using assms unfolding tree_ok_def by blast

lemma tree_parent:
  assumes "tree_ok fc" and "c \<in> blocks fc" and "fork_parent fc c = Some p"
  shows "p \<in> blocks fc" and "fst p < fst c" and "p < c"
proof -
  show "p \<in> blocks fc" and less: "fst p < fst c" using assms unfolding tree_ok_def by blast+
  show "p < c" using less by (simp add: less_prod_def)
qed

lemma tree_root_block: "tree_ok fc \<Longrightarrow> tree_root fc \<in> blocks fc"
  by (simp add: tree_ok_def)

lemma tree_root_iff: "tree_ok fc \<Longrightarrow> c \<in> blocks fc \<Longrightarrow> fork_parent fc c = None \<longleftrightarrow> c = tree_root fc"
  by (simp add: tree_ok_def)

lemma child_less: "tree_ok fc \<Longrightarrow> (p, c) \<in> child_of fc \<Longrightarrow> fst p < fst c \<and> p < c"
  using tree_child tree_parent by blast

lemma child_blocks: "tree_ok fc \<Longrightarrow> (p, c) \<in> child_of fc \<Longrightarrow> p \<in> blocks fc \<and> c \<in> blocks fc"
  unfolding tree_ok_def by blast

lemma child_unique: "tree_ok fc \<Longrightarrow> (p, c) \<in> child_of fc \<Longrightarrow> (q, c) \<in> child_of fc \<Longrightarrow> p = q"
  by (simp add: tree_child)

lemma child_info: "info fc p = Some i \<Longrightarrow> (p, c) \<in> child_of fc \<longleftrightarrow> c |\<in>| fi_children i"
  by (simp add: child_of_def)

lemma descendant_le: "(n, m) \<in> (child_of fc)\<^sup>* \<Longrightarrow> tree_ok fc \<Longrightarrow> n \<le> m \<and> (m \<noteq> n \<longrightarrow> fst n < fst m)"
proof (induction rule: rtrancl_induct)
  case (step y z)
  then have "fst y < fst z" "y < z" using child_less by blast+
  then show ?case using step by (cases "y = n") (auto intro: order_trans less_imp_le)
qed simp

lemma descendant_block: "tree_ok fc \<Longrightarrow> n \<in> blocks fc \<Longrightarrow> (n, m) \<in> (child_of fc)\<^sup>* \<Longrightarrow> m \<in> blocks fc"
  by (erule rtranclE) (auto dest: child_blocks)

lemma finite_child_of: "tree_ok fc \<Longrightarrow> finite (child_of fc)"
  by (rule finite_subset [of _ "blocks fc \<times> blocks fc"]) (auto dest: child_blocks)

lemma child_of_wf: "tree_ok fc \<Longrightarrow> wf ((child_of fc)\<inverse>)"
proof (rule finite_acyclic_wf_converse)
  assume ok: "tree_ok fc"
  show "finite (child_of fc)" using ok by (rule finite_child_of)
  have "(n, m) \<in> (child_of fc)\<^sup>+ \<Longrightarrow> n < m" for n m
    by (induction rule: trancl_induct) (auto dest: child_less [OF ok] intro: less_trans)
  then show "acyclic (child_of fc)" by (auto simp: acyclic_def)
qed

text \<open>Induction from the leaves to the root, and from the root to the leaves.\<close>

lemma leaf_induct [consumes 2, case_names block]:
  assumes ok: "tree_ok fc" and "n \<in> blocks fc"
    and "\<And>n. n \<in> blocks fc \<Longrightarrow> (\<And>c. (n, c) \<in> child_of fc \<Longrightarrow> P c) \<Longrightarrow> P n"
  shows "P n"
  using child_of_wf [OF ok] assms(2)
proof (induction n)
  case (less n)
  then show ?case using assms(3) child_blocks [OF ok] by (metis converse_iff)
qed

lemma root_induct [consumes 2, case_names root child]:
  assumes ok: "tree_ok fc" and "n \<in> blocks fc" and "P (tree_root fc)"
    and "\<And>p c. (p, c) \<in> child_of fc \<Longrightarrow> P p \<Longrightarrow> P c"
  shows "P n"
  using assms(2)
proof (induction "unat (fst n)" arbitrary: n rule: less_induct)
  case less
  show ?case
  proof (cases "fork_parent fc n")
    case None
    then show ?thesis using tree_root_iff [OF ok less.prems] assms(3) by simp
  next
    case (Some p)
    note p = tree_parent [OF ok less.prems Some]
    then have "P p" using less.hyps by (simp add: word_less_nat_alt)
    then show ?thesis using assms(4) tree_child [OF ok] less.prems Some by blast
  qed
qed

lemma root_reaches: "tree_ok fc \<Longrightarrow> n \<in> blocks fc \<Longrightarrow> (tree_root fc, n) \<in> (child_of fc)\<^sup>*"
  by (induction n rule: root_induct) (auto intro: rtrancl_into_rtrancl)

text \<open>Two ancestors of a block are ancestors of each other, and the subtrees of two children are disjoint.\<close>

lemma ancestors_linear:
  assumes ok: "tree_ok fc" and "(a, n) \<in> (child_of fc)\<^sup>*" and "(b, n) \<in> (child_of fc)\<^sup>*"
  shows "(a, b) \<in> (child_of fc)\<^sup>* \<or> (b, a) \<in> (child_of fc)\<^sup>*"
  using assms(2,3)
proof (induction arbitrary: rule: rtrancl_induct)
  case base
  then show ?case by simp
next
  case (step y z)
  from step.prems show ?case
  proof (cases rule: rtranclE)
    case base
    then show ?thesis using step.hyps by (auto intro: rtrancl_into_rtrancl)
  next
    case (step w)
    then have "w = y" using child_unique [OF ok] \<open>(y, z) \<in> child_of fc\<close> by blast
    then show ?thesis using step \<open>(b, y) \<in> (child_of fc)\<^sup>* \<Longrightarrow> _\<close> by blast
  qed
qed

lemma children_disjoint:
  assumes ok: "tree_ok fc" and c: "(n, c) \<in> child_of fc" and d: "(n, d) \<in> child_of fc"
    and "(c, m) \<in> (child_of fc)\<^sup>*" and "(d, m) \<in> (child_of fc)\<^sup>*"
  shows "c = d"
proof -
  have "(x, y) \<in> (child_of fc)\<^sup>* \<Longrightarrow> (n, x) \<in> child_of fc \<Longrightarrow> (n, y) \<in> child_of fc \<Longrightarrow> x = y" for x y
  proof (erule rtranclE)
    fix w assume "(x, w) \<in> (child_of fc)\<^sup>*" "(w, y) \<in> child_of fc" "(n, x) \<in> child_of fc" "(n, y) \<in> child_of fc"
    then have "w = n" "n < x" "x \<le> w" using child_unique [OF ok] child_less [OF ok] descendant_le [OF _ ok] by blast+
    then show "x = y" by simp
  qed
  then show ?thesis using ancestors_linear [OF ok assms(4,5)] c d by metis
qed

section \<open>Ancestors\<close>

lemma ancestors_loop_Ok:
  assumes ok: "tree_ok fc"
  shows "card {b \<in> blocks fc. b < n} < k \<Longrightarrow> n \<in> blocks fc \<Longrightarrow>
    \<exists>as. ancestors_loop k fc n = Ok as \<and> set as = {a. (a, n) \<in> (child_of fc)\<^sup>+}"
proof (induction k arbitrary: n)
  case (Suc k)
  show ?case
  proof (cases "fork_parent fc n")
    case None
    then have "(a, n) \<notin> (child_of fc)\<^sup>+" for a
      by (auto simp: tree_child [OF ok] dest!: tranclD2)
    then show ?thesis using None by simp
  next
    case (Some p)
    note p = tree_parent [OF ok Suc.prems(2) Some]
    have "card {b \<in> blocks fc. b < p} < card {b \<in> blocks fc. b < n}"
      using p by (intro psubset_card_mono) auto
    then obtain as where as: "ancestors_loop k fc p = Ok as" "set as = {a. (a, p) \<in> (child_of fc)\<^sup>+}"
      using Suc.IH [of p] Suc.prems(1) p(1) by auto
    have pn: "(q, n) \<in> child_of fc \<longleftrightarrow> q = p" for q
      using tree_child [OF ok] Suc.prems(2) Some by auto
    have "(a, n) \<in> (child_of fc)\<^sup>+ \<longleftrightarrow> a = p \<or> (a, p) \<in> (child_of fc)\<^sup>+" for a
      by (subst trancl.simps) (metis pn)
    then show ?thesis using as Some by auto
  qed
qed simp

lemma ancestor_iterator_Ok:
  assumes "tree_ok fc" and "n \<in> blocks fc"
  obtains as where "ancestor_iterator fc n = Ok as" and "set as = {a. (a, n) \<in> (child_of fc)\<^sup>+}"
proof -
  have "card {b \<in> blocks fc. b < n} < rounds fc"
    unfolding rounds_def by (simp add: less_Suc_eq_le fcard.rep_eq card_mono)
  then show ?thesis using ancestors_loop_Ok [OF assms(1) _ assms(2)] that unfolding ancestor_iterator_def by blast
qed

lemma ancestor_iterator_unknown: "n \<notin> blocks fc \<Longrightarrow> ancestor_iterator fc n = Ok []"
  by (simp add: ancestor_iterator_def rounds_def fork_parent_def blocks_iff split: option.split)

lemma ancestors_loop_chain:
  assumes "ancestors_loop k fc n = Ok (p # as)"
  shows "fork_parent fc n = Some p" and "\<exists>k'. ancestors_loop k' fc p = Ok as"
  using assms by (cases k; auto split: option.splits)+

lemma is_strict_ancestor_iff:
  assumes "tree_ok fc" and "n \<in> blocks fc"
  shows "is_strict_ancestor fc a n = Ok ((a, n) \<in> (child_of fc)\<^sup>+)"
proof -
  obtain as where "ancestor_iterator fc n = Ok as" "set as = {a. (a, n) \<in> (child_of fc)\<^sup>+}"
    using assms by (rule ancestor_iterator_Ok)
  moreover have "fst a < fst n" if "(a, n) \<in> (child_of fc)\<^sup>+"
    using that by (induction rule: trancl_induct) (meson child_less [OF assms(1)] less_trans)+
  ultimately show ?thesis by (auto simp: is_strict_ancestor_def)
qed

section \<open>Subtrees\<close>

lemma subtree_unfold: "subtree fc n = insert n (\<Union>c \<in> child_of fc `` {n}. subtree fc c)"
proof (intro set_eqI iffI)
  fix m assume "m \<in> subtree fc n"
  then have "(n, m) \<in> (child_of fc)\<^sup>*" by simp
  then show "m \<in> insert n (\<Union>c \<in> child_of fc `` {n}. subtree fc c)" by (cases rule: converse_rtranclE) blast+
next
  fix m assume "m \<in> insert n (\<Union>c \<in> child_of fc `` {n}. subtree fc c)"
  then show "m \<in> subtree fc n" using converse_rtrancl_into_rtrancl [of n _ "child_of fc" m] by blast
qed

lemma finite_subtree: "tree_ok fc \<Longrightarrow> finite (subtree fc n)"
  by (rule finite_subset [of _ "insert n (blocks fc)"]) (blast elim: rtranclE dest: child_blocks, simp)

lemma card_subtree:
  assumes ok: "tree_ok fc"
  shows "card (subtree fc n) = Suc (\<Sum>c \<in> child_of fc `` {n}. card (subtree fc c))"
proof -
  let ?C = "child_of fc `` {n}"
  have fin: "finite ?C" by (rule finite_subset [of _ "blocks fc"]) (use child_blocks [OF ok] in \<open>blast, simp\<close>)
  have "n \<notin> (\<Union>c \<in> ?C. subtree fc c)" using child_less [OF ok] descendant_le [OF _ ok] by force
  moreover have "card (\<Union>c \<in> ?C. subtree fc c) = (\<Sum>c \<in> ?C. card (subtree fc c))"
    using children_disjoint [OF ok] fin finite_subtree [OF ok] by (intro card_UN_disjoint) blast+
  moreover have "finite (\<Union>c \<in> ?C. subtree fc c)" using fin finite_subtree [OF ok] by blast
  ultimately show ?thesis by (subst subtree_unfold) simp
qed

text \<open>The blocks below the first block, without those of the subtree of the second.\<close>

definition spared :: "HeaviestSubtreeForkChoice \<Rightarrow> SlotHashKey \<Rightarrow> SlotHashKey \<Rightarrow> SlotHashKey set" where
  "spared fc root2 n = {m. (n, m) \<in> (child_of fc)\<^sup>* \<and> \<not> ((n, root2) \<in> (child_of fc)\<^sup>* \<and> (root2, m) \<in> (child_of fc)\<^sup>*)}"

lemma spared_unfold:
  assumes ok: "tree_ok fc" and "n \<noteq> root2"
  shows "spared fc root2 n = insert n (\<Union>c \<in> child_of fc `` {n}. spared fc root2 c)"
proof (intro set_eqI iffI)
  fix m assume m: "m \<in> spared fc root2 n"
  show "m \<in> insert n (\<Union>c \<in> child_of fc `` {n}. spared fc root2 c)"
  proof (cases "m = n")
    case False
    then obtain c where c: "(n, c) \<in> child_of fc" "(c, m) \<in> (child_of fc)\<^sup>*"
      using m by (auto simp: spared_def elim: converse_rtranclE)
    then have "m \<in> spared fc root2 c" using m by (auto simp: spared_def intro: converse_rtrancl_into_rtrancl)
    then show ?thesis using c by blast
  qed simp
next
  fix m assume "m \<in> insert n (\<Union>c \<in> child_of fc `` {n}. spared fc root2 c)"
  then consider "m = n" | c where "(n, c) \<in> child_of fc" "m \<in> spared fc root2 c" by blast
  then show "m \<in> spared fc root2 n"
  proof cases
    case 1
    have "n \<noteq> root2 \<Longrightarrow> (n, root2) \<in> (child_of fc)\<^sup>* \<Longrightarrow> (root2, n) \<notin> (child_of fc)\<^sup>*"
      using descendant_le [OF _ ok] by (metis order_antisym)
    then show ?thesis using 1 assms(2) by (auto simp: spared_def)
  next
    case 2
    have "(c, root2) \<in> (child_of fc)\<^sup>*" if r: "(n, root2) \<in> (child_of fc)\<^sup>*" "(root2, m) \<in> (child_of fc)\<^sup>*"
    proof -
      obtain d where d: "(n, d) \<in> child_of fc" "(d, root2) \<in> (child_of fc)\<^sup>*"
        using r(1) assms(2) by (auto elim: converse_rtranclE)
      then have "(d, m) \<in> (child_of fc)\<^sup>*" using r(2) by simp
      then show ?thesis using children_disjoint [OF ok 2(1) d(1), of m] 2(2) d(2) by (auto simp: spared_def)
    qed
    then show ?thesis using 2 by (auto simp: spared_def intro: converse_rtrancl_into_rtrancl)
  qed
qed

lemma subtree_diff_loop_Ok:
  assumes ok: "tree_ok fc"
  shows "(\<Sum>n \<leftarrow> pending. card (subtree fc n)) < k \<Longrightarrow> set pending \<subseteq> blocks fc \<Longrightarrow>
    \<exists>r. subtree_diff_loop k fc root2 pending reachable = Ok r \<and> fset r = fset reachable \<union> (\<Union>n \<in> set pending. spared fc root2 n)"
proof (induction k arbitrary: pending reachable)
  case (Suc k)
  show ?case
  proof (cases pending)
    case (Cons n rest)
    show ?thesis
    proof (cases "n = root2")
      case True
      have "spared fc root2 root2 = {}" by (simp add: spared_def)
      moreover have "0 < card (subtree fc n)" using card_subtree [OF ok, of n] by simp
      ultimately show ?thesis using Suc.IH [of rest reachable] Suc.prems Cons True by simp
    next
      case False
      obtain i where i: "info fc n = Some i" using Suc.prems(2) Cons by (auto simp: fmlookup_dom_iff)
      let ?cs = "sorted_list_of_fset (fi_children i)"
      have C: "child_of fc `` {n} = fset (fi_children i)" using child_info [OF i] by auto
      have "(\<Sum>c \<leftarrow> ?cs. card (subtree fc c)) = (\<Sum>c \<in> child_of fc `` {n}. card (subtree fc c))"
        unfolding C by (subst sum_list_distinct_conv_sum_set) (simp_all add: sorted_list_of_fset.rep_eq)
      then have size: "(\<Sum>m \<leftarrow> rev ?cs @ rest. card (subtree fc m)) < k"
        using Suc.prems(1) Cons card_subtree [OF ok, of n] by (simp add: rev_map [symmetric] sum_list_rev)
      have "set (rev ?cs @ rest) \<subseteq> blocks fc" using Suc.prems(2) Cons C child_blocks [OF ok, of n] by auto
      from Suc.IH [OF size this, of "finsert n reachable"] obtain r where
        "subtree_diff_loop k fc root2 (rev ?cs @ rest) (finsert n reachable) = Ok r"
        "fset r = fset (finsert n reachable) \<union> (\<Union>m \<in> set (rev ?cs @ rest). spared fc root2 m)" by blast
      then show ?thesis using Cons False i C spared_unfold [OF ok False] by (simp add: fork_children_def Un_ac)
    qed
  qed simp
qed simp

lemma subtree_diff_Ok:
  assumes ok: "tree_ok fc" and n: "n \<in> blocks fc"
  obtains r where "subtree_diff fc n root2 = Ok r" and "fset r = spared fc root2 n"
proof -
  have "card (subtree fc n) \<le> card (blocks fc)" using descendant_block [OF ok n] by (intro card_mono) auto
  then have "(\<Sum>m \<leftarrow> [n]. card (subtree fc m)) < rounds fc" by (simp add: rounds_def fcard.rep_eq)
  from subtree_diff_loop_Ok [OF ok this, of root2 "{||}"] n that show ?thesis
    by (auto simp: subtree_diff_def contains_block_def fmlookup_dom_iff)
qed

end
