(* ===== verification/Fork_Aggregate.thy ===== *)
theory Fork_Aggregate
  imports Fork_Tree
begin

text \<open>
  What \<open>aggregate_slot\<close> computes: the stake of a subtree, its heaviest and its deepest child. A block is
  settled if aggregating it again would change nothing that fork choice uses.
\<close>

section \<open>Picking the best of a set\<close>

definition best_in :: "('a \<Rightarrow> 'a \<Rightarrow> bool) \<Rightarrow> 'a set \<Rightarrow> 'a \<Rightarrow> bool" where
  "best_in better S b \<longleftrightarrow> b \<in> S \<and> (\<forall>d \<in> S. d \<noteq> b \<longrightarrow> better b d)"

lemma best_in_cong: "(\<And>c d. c \<in> S \<Longrightarrow> d \<in> S \<Longrightarrow> better' c d = better c d) \<Longrightarrow> best_in better' S b = best_in better S b"
  by (auto simp: best_in_def)

lemma best_in_mem: "best_in better S b \<Longrightarrow> b \<in> S"
  by (simp add: best_in_def)

locale ranking =
  fixes better :: "'a \<Rightarrow> 'a \<Rightarrow> bool"
  assumes better_irrefl: "\<not> better x x" and better_trans: "better x y \<Longrightarrow> better y z \<Longrightarrow> better x z"
    and better_total: "x \<noteq> y \<Longrightarrow> better x y \<or> better y x"
begin

lemma best_unique: "best_in better S b \<Longrightarrow> best_in better S b' \<Longrightarrow> b' = b"
  unfolding best_in_def by (metis better_trans better_irrefl)

lemma best_single: "best_in better {c} b \<longleftrightarrow> b = c"
  by (auto simp: best_in_def)

lemma best_insert:
  assumes "best_in better S b" and "c \<notin> S"
  shows "best_in better (insert c S) (if better c b then c else b)"
proof (cases "better c b")
  case True
  then have "better c d" if "d \<in> S" for d
    using assms(1) that better_trans unfolding best_in_def by (cases "d = b") blast+
  then show ?thesis using True by (auto simp: best_in_def)
next
  case False
  then have "better b c" using better_total assms unfolding best_in_def by metis
  then show ?thesis using False assms(1) by (auto simp: best_in_def)
qed

lemma best_exists: "finite S \<Longrightarrow> S \<noteq> {} \<Longrightarrow> \<exists>b. best_in better S b"
proof (induction S rule: finite_ne_induct)
  case (insert c S)
  then show ?case using best_insert by blast
qed (simp add: best_single)

end

section \<open>The weight and the depth of forks\<close>

abbreviation node :: "HeaviestSubtreeForkChoice \<Rightarrow> SlotHashKey \<Rightarrow> ForkInfo" where
  "node fc n \<equiv> the (info fc n)"

abbreviation weight :: "HeaviestSubtreeForkChoice \<Rightarrow> SlotHashKey \<Rightarrow> u64" where
  "weight fc n \<equiv> fi_stake_voted_subtree (node fc n)"

definition heavier :: "HeaviestSubtreeForkChoice \<Rightarrow> SlotHashKey \<Rightarrow> SlotHashKey \<Rightarrow> bool" where
  "heavier fc c d \<longleftrightarrow> weight fc d < weight fc c \<or> weight fc c = weight fc d \<and> c < d"

definition deeper :: "HeaviestSubtreeForkChoice \<Rightarrow> SlotHashKey \<Rightarrow> SlotHashKey \<Rightarrow> bool" where
  "deeper fc c d \<longleftrightarrow> fi_height (node fc d) < fi_height (node fc c) \<or> fi_height (node fc c) = fi_height (node fc d) \<and> heavier fc c d"

interpretation heavier: ranking "heavier fc" for fc
  by unfold_locales (auto simp: heavier_def)

interpretation deeper: ranking "deeper fc" for fc
  by unfold_locales (auto simp: deeper_def heavier_def)

abbreviation child_keys :: "HeaviestSubtreeForkChoice \<Rightarrow> SlotHashKey \<Rightarrow> SlotHashKey set" where
  "child_keys fc n \<equiv> fset (fi_children (node fc n))"

abbreviation candidates :: "HeaviestSubtreeForkChoice \<Rightarrow> SlotHashKey set \<Rightarrow> SlotHashKey set" where
  "candidates fc S \<equiv> {c \<in> S. fi_is_candidate (node fc c)}"

text \<open>The best slot over a set of children, and the deepest slot with the height.\<close>

definition best_over :: "HeaviestSubtreeForkChoice \<Rightarrow> SlotHashKey \<Rightarrow> SlotHashKey set \<Rightarrow> SlotHashKey \<Rightarrow> bool" where
  "best_over fc n S x \<longleftrightarrow>
     (if candidates fc S = {} then x = n else \<exists>b. best_in (heavier fc) (candidates fc S) b \<and> x = fi_best_slot (node fc b))"

definition deepest_over :: "HeaviestSubtreeForkChoice \<Rightarrow> SlotHashKey \<Rightarrow> SlotHashKey set \<Rightarrow> SlotHashKey \<Rightarrow> nat \<Rightarrow> bool" where
  "deepest_over fc n S x h \<longleftrightarrow>
     (if S = {} then x = n \<and> h = 0
      else \<exists>b. best_in (deeper fc) S b \<and> x = fi_deepest_slot (node fc b) \<and> h = fi_height (node fc b))"

definition settled :: "HeaviestSubtreeForkChoice \<Rightarrow> SlotHashKey \<Rightarrow> bool" where
  "settled fc n \<longleftrightarrow>
     weight fc n = fi_stake_voted_at (node fc n) + (\<Sum>c \<in> child_keys fc n. weight fc c) \<and>
     ((\<exists>c \<in> child_keys fc n. fi_is_duplicate_confirmed (node fc c)) \<longrightarrow> fi_is_duplicate_confirmed (node fc n)) \<and>
     (fi_is_candidate (node fc n) \<longrightarrow> best_over fc n (child_keys fc n) (fi_best_slot (node fc n))) \<and>
     (\<exists>h. fi_height (node fc n) = Suc h \<and> deepest_over fc n (child_keys fc n) (fi_deepest_slot (node fc n)) h)"

section \<open>The loop over the children\<close>

definition picks_best :: "HeaviestSubtreeForkChoice \<Rightarrow> SlotHashKey \<Rightarrow> SlotHashKey set \<Rightarrow> Aggregation \<Rightarrow> bool" where
  "picks_best fc n K a \<longleftrightarrow>
     (if K = {} then ag_best_child a = n \<and> ag_best_slot a = n
      else best_in (heavier fc) K (ag_best_child a) \<and> ag_best_child_stake a = weight fc (ag_best_child a) \<and>
           ag_best_slot a = fi_best_slot (node fc (ag_best_child a)))"

definition picks_deepest :: "HeaviestSubtreeForkChoice \<Rightarrow> SlotHashKey \<Rightarrow> SlotHashKey set \<Rightarrow> Aggregation \<Rightarrow> bool" where
  "picks_deepest fc n S a \<longleftrightarrow>
     (if S = {} then ag_deepest_child a = n \<and> ag_deepest_slot a = n \<and> ag_deepest_child_height a = 0
      else best_in (deeper fc) S (ag_deepest_child a) \<and> ag_deepest_child_stake a = weight fc (ag_deepest_child a) \<and>
           ag_deepest_slot a = fi_deepest_slot (node fc (ag_deepest_child a)) \<and>
           ag_deepest_child_height a = fi_height (node fc (ag_deepest_child a)))"

definition aggregating :: "HeaviestSubtreeForkChoice \<Rightarrow> SlotHashKey \<Rightarrow> u64 \<Rightarrow> SlotHashKey set \<Rightarrow> Aggregation \<Rightarrow> bool" where
  "aggregating fc n at S a \<longleftrightarrow>
     ag_stake_voted_subtree a = at + (\<Sum>c \<in> S. weight fc c) \<and>
     (ag_is_duplicate_confirmed a \<longleftrightarrow> (\<exists>c \<in> S. fi_is_duplicate_confirmed (node fc c))) \<and>
     picks_best fc n (candidates fc S) a \<and> picks_deepest fc n S a"

lemma aggregating_start: "aggregating fc n (fi_stake_voted_at i) {} (aggregation_start n i)"
  by (simp add: aggregating_def aggregation_start_def picks_best_def picks_deepest_def)

lemma aggregate_best_skip: "\<not> fi_is_candidate child \<Longrightarrow> aggregate_best n c child a = a"
  by (simp add: aggregate_best_def)

lemma aggregate_best_step:
  assumes "picks_best fc n K a" and "n \<notin> K" and "c \<notin> K" and cand: "fi_is_candidate (node fc c)"
  shows "picks_best fc n (insert c K) (aggregate_best n c (node fc c) a)"
proof (cases "K = {}")
  case True
  then show ?thesis using assms(1) cand by (simp add: picks_best_def aggregate_best_def heavier.best_single)
next
  case False
  then have b: "best_in (heavier fc) K (ag_best_child a)" "ag_best_child a \<noteq> n"
    and s: "ag_best_child_stake a = weight fc (ag_best_child a)" "ag_best_slot a = fi_best_slot (node fc (ag_best_child a))"
    using assms(1,2) by (auto simp: best_in_def picks_best_def)
  have "best_in (heavier fc) (insert c K) (if heavier fc c (ag_best_child a) then c else ag_best_child a)"
    by (intro heavier.best_insert b assms(3))
  then show ?thesis using s b cand by (auto simp: picks_best_def aggregate_best_def heavier_def)
qed

lemma aggregate_deepest_step:
  assumes "picks_deepest fc n S a" and "n \<notin> S" and "c \<notin> S"
  shows "picks_deepest fc n (insert c S) (aggregate_deepest n c (node fc c) a)"
proof (cases "S = {}")
  case True
  then show ?thesis using assms(1) by (simp add: picks_deepest_def aggregate_deepest_def deeper.best_single split: ordering.split)
next
  case False
  then have b: "best_in (deeper fc) S (ag_deepest_child a)" "ag_deepest_child a \<noteq> n"
    and s: "ag_deepest_child_stake a = weight fc (ag_deepest_child a)"
      "ag_deepest_slot a = fi_deepest_slot (node fc (ag_deepest_child a))"
      "ag_deepest_child_height a = fi_height (node fc (ag_deepest_child a))"
    using assms(1,2) by (auto simp: best_in_def picks_deepest_def)
  have better: "best_in (deeper fc) (insert c S) (if deeper fc c (ag_deepest_child a) then c else ag_deepest_child a)"
    by (intro deeper.best_insert b assms(3))
  have "(case (ag_deepest_child a = n, cmp (fi_height (node fc c)) (ag_deepest_child_height a),
             cmp (weight fc c) (ag_deepest_child_stake a), cmp c (ag_deepest_child a)) of
            (True, _, _, _) \<Rightarrow> True
          | (_, Greater, _, _) \<Rightarrow> True
          | (_, Equal, Greater, _) \<Rightarrow> True
          | (_, Equal, Equal, Less) \<Rightarrow> True
          | _ \<Rightarrow> False) \<longleftrightarrow> deeper fc c (ag_deepest_child a)"
    using s b(2) by (auto simp: cmp_def deeper_def heavier_def)
  then show ?thesis using s better by (auto simp: picks_deepest_def aggregate_deepest_def)
qed

lemma aggregate_other_fields:
  "ag_stake_voted_subtree (aggregate_best n c child a) = ag_stake_voted_subtree a"
  "ag_is_duplicate_confirmed (aggregate_best n c child a) = ag_is_duplicate_confirmed a"
  "ag_stake_voted_subtree (aggregate_deepest n c child a) = ag_stake_voted_subtree a"
  "ag_is_duplicate_confirmed (aggregate_deepest n c child a) = ag_is_duplicate_confirmed a"
  "picks_deepest fc n S (aggregate_best n c child a) = picks_deepest fc n S a"
  "picks_best fc n S (aggregate_deepest n c child a) = picks_best fc n S a"
  by (simp_all add: aggregate_best_def aggregate_deepest_def picks_best_def picks_deepest_def)

lemma aggregate_child_step:
  assumes "aggregating fc n at S a" and "n \<notin> S" and "c \<notin> S" and "finite S"
  shows "aggregating fc n at (insert c S) (aggregate_child n c (node fc c) a)"
proof -
  define a1 where "a1 = a\<lparr>ag_is_duplicate_confirmed := (ag_is_duplicate_confirmed a \<or> fi_is_duplicate_confirmed (node fc c)),
      ag_stake_voted_subtree := ag_stake_voted_subtree a + weight fc c\<rparr>"
  have child: "aggregate_child n c (node fc c) a = aggregate_deepest n c (node fc c) (aggregate_best n c (node fc c) a1)"
    by (simp add: aggregate_child_def a1_def)
  have a1: "picks_best fc n (candidates fc S) a1" "picks_deepest fc n S a1"
    using assms(1) by (simp_all add: aggregating_def a1_def picks_best_def picks_deepest_def)
  have "picks_best fc n (candidates fc (insert c S)) (aggregate_best n c (node fc c) a1)"
  proof (cases "fi_is_candidate (node fc c)")
    case True
    then have C: "candidates fc (insert c S) = insert c (candidates fc S)" by auto
    show ?thesis unfolding C using assms(2,3) True by (intro aggregate_best_step a1) simp_all
  next
    case False
    then have C: "candidates fc (insert c S) = candidates fc S" by auto
    show ?thesis unfolding C using a1 False by (simp add: aggregate_best_skip)
  qed
  moreover have "picks_deepest fc n (insert c S) (aggregate_deepest n c (node fc c) (aggregate_best n c (node fc c) a1))"
    using a1 assms(2,3) by (intro aggregate_deepest_step) (simp_all add: aggregate_other_fields)
  ultimately show ?thesis
    using assms by (simp add: aggregating_def child aggregate_other_fields) (auto simp: a1_def aggregating_def)
qed

lemma aggregate_children_Ok:
  assumes "aggregating fc n at S a" and "set cs \<subseteq> blocks fc" and "n \<notin> S \<union> set cs" and "distinct cs" and "S \<inter> set cs = {}" and "finite S"
  shows "\<exists>a'. aggregate_children fc n cs a = Ok a' \<and> aggregating fc n at (S \<union> set cs) a'"
  using assms
proof (induction cs arbitrary: S a)
  case (Cons c cs)
  obtain i where i: "info fc c = Some i" using Cons.prems(2) by (auto simp: fmlookup_dom_iff)
  have "aggregating fc n at (insert c S) (aggregate_child n c i a)"
    using aggregate_child_step [of fc n at S a c] Cons.prems i by auto
  then have "\<exists>a'. aggregate_children fc n cs (aggregate_child n c i a) = Ok a' \<and> aggregating fc n at (insert c S \<union> set cs) a'"
    using Cons.prems by (intro Cons.IH) auto
  then show ?case using i by simp
qed simp

section \<open>Aggregating a block\<close>

text \<open>What aggregation makes of a block of a tree: a settled one.\<close>

definition settled_info :: "HeaviestSubtreeForkChoice \<Rightarrow> SlotHashKey \<Rightarrow> ForkInfo \<Rightarrow> bool" where
  "settled_info fc n i \<longleftrightarrow>
     fi_stake_voted_subtree i = fi_stake_voted_at i + (\<Sum>c \<in> fset (fi_children i). weight fc c) \<and>
     ((\<exists>c \<in> fset (fi_children i). fi_is_duplicate_confirmed (node fc c)) \<longrightarrow> fi_is_duplicate_confirmed i) \<and>
     (fi_is_candidate i \<longrightarrow> best_over fc n (fset (fi_children i)) (fi_best_slot i)) \<and>
     (\<exists>h. fi_height i = Suc h \<and> deepest_over fc n (fset (fi_children i)) (fi_deepest_slot i) h)"

lemma settled_iff: "settled fc n \<longleftrightarrow> settled_info fc n (node fc n)"
  by (simp add: settled_def settled_info_def)

lemma picks_best_over: "picks_best fc n (candidates fc S) a \<Longrightarrow> best_over fc n S (ag_best_slot a)"
  unfolding picks_best_def best_over_def by (metis (lifting))

lemma picks_deepest_over: "picks_deepest fc n S a \<Longrightarrow> deepest_over fc n S (ag_deepest_slot a) (ag_deepest_child_height a)"
  unfolding picks_deepest_def deepest_over_def by (metis (lifting))

lemma aggregated_settled:
  assumes "aggregating fc n (fi_stake_voted_at i) (fset (fi_children i)) a"
  shows "settled_info fc n (aggregated a i)"
  using assms picks_best_over [of fc n "fset (fi_children i)" a] picks_deepest_over [of fc n "fset (fi_children i)" a]
  by (simp add: aggregating_def settled_info_def aggregated_def set_duplicate_confirmed_def)

lemma aggregate_slot_Ok:
  assumes ok: "tree_ok fc" and i: "info fc n = Some i"
  obtains a where "aggregate_slot n fc = (Ok (), put_info n (aggregated a i) fc)"
    and "aggregating fc n (fi_stake_voted_at i) (fset (fi_children i)) a"
proof -
  have c: "c \<in> blocks fc \<and> n < c" if "c |\<in>| fi_children i" for c
    using child_less [OF ok] child_blocks [OF ok] child_info [OF i] that by blast
  then have "n |\<notin>| fi_children i" by blast
  then have "\<exists>a. aggregate_children fc n (sorted_list_of_fset (fi_children i)) (aggregation_start n i) = Ok a \<and>
      aggregating fc n (fi_stake_voted_at i) ({} \<union> set (sorted_list_of_fset (fi_children i))) a"
    using c by (intro aggregate_children_Ok aggregating_start) (auto simp: sorted_list_of_fset.rep_eq)
  then show ?thesis using that i by (auto simp: aggregate_slot_def bind_exec_def with_info_def)
qed

text \<open>Whether a block is settled depends on its entry and on those of its children only.\<close>

lemma settled_info_cong:
  assumes "\<And>c. c |\<in>| fi_children i \<Longrightarrow> info fc' c = info fc c"
  shows "settled_info fc' n i = settled_info fc n i"
proof -
  let ?S = "fset (fi_children i)"
  have same: "node fc' c = node fc c" if "c \<in> ?S" for c using assms that by simp
  then have h: "heavier fc' c d = heavier fc c d" "deeper fc' c d = deeper fc c d" if "c \<in> ?S" "d \<in> ?S" for c d
    using that by (simp_all add: heavier_def deeper_def)
  have C: "candidates fc' ?S = candidates fc ?S" using same by auto
  have "best_in (heavier fc') (candidates fc ?S) b \<longleftrightarrow> best_in (heavier fc) (candidates fc ?S) b"
    and "best_in (deeper fc') ?S b \<longleftrightarrow> best_in (deeper fc) ?S b" for b
    by (intro best_in_cong h; simp)+
  then have "best_over fc' n ?S x = best_over fc n ?S x" "deepest_over fc' n ?S x k = deepest_over fc n ?S x k" for x k
    unfolding best_over_def deepest_over_def C using same best_in_mem by (metis (mono_tags, lifting) mem_Collect_eq)+
  moreover have "(\<Sum>c \<in> ?S. weight fc' c) = (\<Sum>c \<in> ?S. weight fc c)" using same by (intro sum.cong) simp_all
  ultimately show ?thesis using same by (simp add: settled_info_def)
qed

end
