(* ===== verification/Fork_Process.thy ===== *)
theory Fork_Process
  imports Fork_Aggregate
begin

text \<open>
  Applying a batch of update operations settles the whole tree again: the operations come from the greatest
  block to the smallest, and whenever a block changes, its parent is aggregated later.
\<close>

section \<open>The invariant\<close>

text \<open>What holds of every block at any time, and what holds between operations.\<close>

definition sane :: "HeaviestSubtreeForkChoice \<Rightarrow> bool" where
  "sane fc \<longleftrightarrow> (\<forall>n \<in> blocks fc.
     (n, fi_best_slot (node fc n)) \<in> (child_of fc)\<^sup>* \<and>
     (fi_is_duplicate_confirmed (node fc n) \<longrightarrow> fi_is_candidate (node fc n)) \<and>
     (\<forall>s. fi_latest_invalid_ancestor (node fc n) = Some s \<longrightarrow> s \<le> fst n))"

definition fork_ok :: "HeaviestSubtreeForkChoice \<Rightarrow> bool" where
  "fork_ok fc \<longleftrightarrow> tree_ok fc \<and> sane fc \<and> (\<forall>n \<in> blocks fc. settled fc n)"

definition sane_info :: "HeaviestSubtreeForkChoice \<Rightarrow> SlotHashKey \<Rightarrow> ForkInfo \<Rightarrow> bool" where
  "sane_info fc n i \<longleftrightarrow> (n, fi_best_slot i) \<in> (child_of fc)\<^sup>* \<and> (fi_is_duplicate_confirmed i \<longrightarrow> fi_is_candidate i) \<and>
     (\<forall>s. fi_latest_invalid_ancestor i = Some s \<longrightarrow> s \<le> fst n)"

lemma sane_iff: "sane fc \<longleftrightarrow> (\<forall>n \<in> blocks fc. sane_info fc n (node fc n))"
  by (simp add: sane_def sane_info_def)

lemma node_put: "node (put_info n i fc) m = (if m = n then i else node fc m)"
  by simp

lemma sane_put:
  assumes "sane fc" and "info fc n = Some i" and "same_shape fc (put_info n i' fc)" and "sane_info fc n i'"
  shows "sane (put_info n i' fc)"
  unfolding sane_iff
proof
  note shape = same_shape_simps [OF assms(3)]
  fix m assume "m \<in> blocks (put_info n i' fc)"
  then have "m \<in> blocks fc" by (simp only: shape)
  then have "sane_info fc m (node (put_info n i' fc) m)"
    unfolding node_put using assms(1,4) by (simp add: sane_iff)
  then show "sane_info (put_info n i' fc) m (node (put_info n i' fc) m)"
    unfolding sane_info_def shape(2) .
qed

section \<open>Batches of operations\<close>

fun label_of :: "UpdateOperation \<Rightarrow> UpdateLabel" where
  "label_of (Add _) = AddLabel"
| "label_of (MarkValid s) = MarkValidLabel s"
| "label_of (MarkInvalid s) = MarkInvalidLabel s"
| "label_of (Subtract _) = SubtractLabel"
| "label_of Aggregate = AggregateLabel"

lemma label_least: "AggregateLabel \<le> l"
  by (cases l) (simp_all add: less_eq_UpdateLabel_def)

type_synonym Batch = "((SlotHashKey \<times> UpdateLabel) \<times> UpdateOperation) list"

abbreviation aggregates :: "Batch \<Rightarrow> SlotHashKey set" where
  "aggregates L \<equiv> {n. (n, AggregateLabel) \<in> fst ` set L}"

text \<open>
  An operation has the label of its kind; the parent of its block is aggregated, and so is a block that is
  marked.
\<close>

definition operation_ok :: "HeaviestSubtreeForkChoice \<Rightarrow> SlotHashKey set \<Rightarrow> (SlotHashKey \<times> UpdateLabel) \<times> UpdateOperation \<Rightarrow> bool" where
  "operation_ok fc A x \<longleftrightarrow> (case x of ((n, l), operation) \<Rightarrow>
     label_of operation = l \<and> (\<forall>p. (p, n) \<in> child_of fc \<longrightarrow> p \<in> A) \<and>
     (case operation of MarkValid s \<Rightarrow> n \<in> A | MarkInvalid s \<Rightarrow> n \<in> A \<and> s \<le> fst n | _ \<Rightarrow> True))"

definition batch_ok :: "HeaviestSubtreeForkChoice \<Rightarrow> Batch \<Rightarrow> bool" where
  "batch_ok fc L \<longleftrightarrow> sorted_wrt (\<lambda>x y. fst y < fst x) L \<and> (\<forall>x \<in> set L. operation_ok fc (aggregates L) x)"

lemma batch_ok_tail:
  assumes ok: "tree_ok fc" and batch: "batch_ok fc (x # L)"
  shows "batch_ok fc L"
proof -
  obtain n l operation where x: "x = ((n, l), operation)" by (metis prod.collapse)
  have "operation_ok fc (aggregates L) y" if y: "y \<in> set L" for y
  proof -
    obtain m l' operation' where y': "y = ((m, l'), operation')" by (metis prod.collapse)
    have "(m, l') < (n, l)" using batch y x y' by (auto simp: batch_ok_def)
    then have less: "m \<le> n" "m = n \<Longrightarrow> l' < l" using less_prod_def [of "(m, l')" "(n, l)"] by (auto intro: less_imp_le)
    have y_ok: "operation_ok fc (aggregates (x # L)) y" using batch y by (simp add: batch_ok_def)
    have "p \<in> aggregates L" if "p \<in> aggregates (x # L)" "p < m" for p
      using that x less(1) by auto
    then have parents: "\<forall>p. (p, m) \<in> child_of fc \<longrightarrow> p \<in> aggregates L"
      using child_less [OF ok] y_ok unfolding y' operation_ok_def prod.case by blast
    have "m \<in> aggregates L" if "m \<in> aggregates (x # L)"
      using that x less(2) label_least [of l'] by auto
    then show ?thesis
      using y_ok parents unfolding y' operation_ok_def prod.case by (cases operation') simp_all
  qed
  then show ?thesis using batch by (auto simp: batch_ok_def)
qed

text \<open>Between the operations of a batch, the blocks that are still to be aggregated need not be settled.\<close>

definition settling :: "HeaviestSubtreeForkChoice \<Rightarrow> Batch \<Rightarrow> bool" where
  "settling fc L \<longleftrightarrow> tree_ok fc \<and> sane fc \<and> (\<forall>n \<in> blocks fc - aggregates L. settled fc n)"

lemma settling_put:
  assumes settling: "settling fc (x # L)" and batch: "batch_ok fc (x # L)" and x: "x = ((n, l), operation)"
    and i: "info fc n = Some i" and shape: "same_shape fc (put_info n i' fc)" and sane: "sane_info fc n i'"
    and n: "n \<notin> aggregates L \<Longrightarrow> settled_info fc n i'"
  shows "settling (put_info n i' fc) L"
proof -
  let ?fc' = "put_info n i' fc"
  note shapes = same_shape_simps [OF shape]
  have ok: "tree_ok fc" "tree_ok ?fc'" using settling same_shape_tree_ok [OF shape] by (simp_all add: settling_def)
  have kids: "fi_children i' = fi_children i" using shape i by (auto simp: same_shape_def dest!: spec [of _ n])
  have self: "n |\<notin>| fi_children i" using child_less [OF ok(1), of n n] child_info [OF i] by blast
  have "settled ?fc' m" if m: "m \<in> blocks fc" "m \<notin> aggregates L" for m
  proof (cases "m = n")
    case True
    have "settled_info ?fc' n i' = settled_info fc n i'"
      using self kids by (intro settled_info_cong) auto
    then show ?thesis using n m(2) True by (simp add: settled_iff)
  next
    case False
    obtain j where j: "info fc m = Some j" using m(1) by (auto simp: fmlookup_dom_iff)
    have away: "n |\<notin>| fi_children j"
    proof
      assume "n |\<in>| fi_children j"
      then have "m \<in> aggregates (x # L)"
        using batch x child_info [OF j] by (auto simp: batch_ok_def operation_ok_def)
      then show False using m(2) False x by auto
    qed
    then have "m \<notin> aggregates (x # L)" using m(2) False x by auto
    then have "settled fc m" using settling m(1) unfolding settling_def by blast
    then have "settled_info fc m j" using j by (simp add: settled_iff)
    moreover have "settled_info ?fc' m j = settled_info fc m j" using away by (intro settled_info_cong) auto
    ultimately show ?thesis using False j by (simp add: settled_iff)
  qed
  moreover have "sane ?fc'" using settling i shape sane by (intro sane_put) (simp_all add: settling_def)
  ultimately show ?thesis using ok(2) unfolding settling_def shapes(1) by blast
qed

section \<open>The operations\<close>

lemma settling_skip:
  assumes "settling fc (x # L)" and "x = ((n, l), operation)" and "n \<notin> blocks fc"
  shows "settling fc L"
proof -
  have "blocks fc - aggregates L \<subseteq> blocks fc - aggregates (x # L)" using assms(2,3) by auto
  then show ?thesis using assms(1) unfolding settling_def by blast
qed

lemma sane_nodeD: "sane fc \<Longrightarrow> info fc n = Some i \<Longrightarrow> sane_info fc n i"
  unfolding sane_iff by (metis fmdomI option.sel)

lemma sane_aggregated:
  assumes "sane fc" and i: "info fc n = Some i" and "aggregating fc n at (fset (fi_children i)) a" and ok: "tree_ok fc"
  shows "sane_info fc n (aggregated a i)"
proof -
  have "(n, ag_best_slot a) \<in> (child_of fc)\<^sup>*"
  proof (cases "candidates fc (fset (fi_children i)) = {}")
    case True
    then show ?thesis using assms(3) by (simp add: aggregating_def picks_best_def)
  next
    case False
    let ?b = "ag_best_child a"
    have "picks_best fc n (candidates fc (fset (fi_children i))) a" using assms(3) by (simp add: aggregating_def)
    then have b: "best_in (heavier fc) (candidates fc (fset (fi_children i))) ?b" and s: "ag_best_slot a = fi_best_slot (node fc ?b)"
      unfolding picks_best_def if_not_P [OF False] by blast+
    have "(n, ?b) \<in> child_of fc" using best_in_mem [OF b] by (simp add: child_info [OF i])
    moreover from this have "?b \<in> blocks fc" using child_blocks [OF ok] by blast
    ultimately show ?thesis using assms(1) s by (auto simp: sane_def intro: converse_rtrancl_into_rtrancl)
  qed
  then show ?thesis
    using sane_nodeD [OF assms(1) i]
    by (auto simp: sane_info_def aggregated_def set_duplicate_confirmed_def fi_is_candidate_def)
qed

lemma apply_operation_step:
  assumes settling: "settling fc (((n, l), operation) # L)" and batch: "batch_ok fc (((n, l), operation) # L)"
    and confirmed: "\<And>s i. operation = MarkInvalid s \<Longrightarrow> info fc n = Some i \<Longrightarrow> \<not> fi_is_duplicate_confirmed i"
  shows "\<exists>fc'. apply_operation n operation fc = (Ok (), fc') \<and> same_shape fc fc' \<and> settling fc' L"
proof (cases "info fc n")
  case None
  then have "n \<notin> blocks fc" by (simp add: fmlookup_dom_iff)
  then have "settling fc L" using settling settling_skip by blast
  then show ?thesis
    using None by (cases operation) (simp_all add: mark_fork_valid_def mark_fork_invalid_def aggregate_slot_def add_slot_stake_def
        subtract_slot_stake_def)
next
  case (Some i)
  have ok: "tree_ok fc" and sane: "sane fc" using settling by (simp_all add: settling_def)
  have si: "sane_info fc n i" using sane_nodeD [OF sane Some] .
  have label: "label_of operation = l" and marked: "operation = MarkValid s \<Longrightarrow> n \<in> aggregates (((n, l), operation) # L)"
    "operation = MarkInvalid s \<Longrightarrow> n \<in> aggregates (((n, l), operation) # L) \<and> s \<le> fst n" for s
    using batch by (auto simp: batch_ok_def operation_ok_def)
  have later: "settled_info fc n i" if "n \<notin> aggregates L" "l \<noteq> AggregateLabel"
  proof -
    have "n \<notin> aggregates (((n, l), operation) # L)" using that by auto
    then have "settled fc n" using settling Some unfolding settling_def by (blast intro: fmdomI)
    then show ?thesis using Some by (simp add: settled_iff)
  qed
  note put = settling_put [OF settling batch refl Some]
  show ?thesis
  proof (cases operation)
    case (Add stake)
    let ?i = "i\<lparr>fi_stake_voted_at := fi_stake_voted_at i + stake, fi_stake_voted_subtree := fi_stake_voted_subtree i + stake\<rparr>"
    have "settling (put_info n ?i fc) L"
      using si later label Add by (intro put same_shape_put [OF Some]) (auto simp: sane_info_def settled_info_def fi_is_candidate_def)
    then show ?thesis using Some Add same_shape_put [OF Some, of ?i] by (simp add: add_slot_stake_def)
  next
    case (Subtract stake)
    let ?i = "i\<lparr>fi_stake_voted_at := fi_stake_voted_at i - stake, fi_stake_voted_subtree := fi_stake_voted_subtree i - stake\<rparr>"
    have "settling (put_info n ?i fc) L"
      using si later label Subtract by (intro put same_shape_put [OF Some]) (auto simp: sane_info_def settled_info_def fi_is_candidate_def)
    then show ?thesis using Some Subtract same_shape_put [OF Some, of ?i] by (simp add: subtract_slot_stake_def)
  next
    case Aggregate
    obtain a where run: "aggregate_slot n fc = (Ok (), put_info n (aggregated a i) fc)"
      and a: "aggregating fc n (fi_stake_voted_at i) (fset (fi_children i)) a"
      using ok Some by (rule aggregate_slot_Ok)
    have shape: "same_shape fc (put_info n (aggregated a i) fc)"
      by (intro same_shape_put [OF Some]) (simp_all add: aggregated_def set_duplicate_confirmed_def)
    have "settling (put_info n (aggregated a i) fc) L"
      using shape sane_aggregated [OF sane Some a ok] aggregated_settled [OF a] by (intro put)
    then show ?thesis using Aggregate run shape by simp
  next
    case (MarkValid s)
    define i' where "i' = (let i' = update_with_newly_valid_ancestor s i in if fst n = s then i'\<lparr>fi_is_duplicate_confirmed := True\<rparr> else i')"
    have shape: "same_shape fc (put_info n i' fc)"
      by (intro same_shape_put [OF Some]) (simp_all add: i'_def Let_def update_with_newly_valid_ancestor_def split: option.split)
    have "sane_info fc n i'"
      using si by (auto simp: i'_def Let_def update_with_newly_valid_ancestor_def sane_info_def fi_is_candidate_def split: option.splits)
    moreover have "n \<in> aggregates L" using marked(1) MarkValid label by auto
    ultimately have "settling (put_info n i' fc) L" using shape by (intro put) auto
    then show ?thesis using MarkValid shape Some by (simp add: mark_fork_valid_def i'_def Let_def)
  next
    case (MarkInvalid s)
    obtain i' where i': "update_with_newly_invalid_ancestor s i = Ok i'"
      using confirmed [OF MarkInvalid Some] by (simp add: update_with_newly_invalid_ancestor_def)
    have shape: "same_shape fc (put_info n i' fc)"
      using i' by (intro same_shape_put [OF Some]) (auto simp: update_with_newly_invalid_ancestor_def split: if_splits option.splits)
    have "sane_info fc n i'"
      using si i' marked(2) MarkInvalid
      by (auto simp: update_with_newly_invalid_ancestor_def sane_info_def fi_is_candidate_def split: option.splits if_splits)
    moreover have "n \<in> aggregates L" using marked(2) MarkInvalid label by auto
    ultimately have "settling (put_info n i' fc) L" using shape by (intro put) auto
    then show ?thesis using MarkInvalid shape Some i' by (simp add: mark_fork_invalid_def bind_exec_def lift_def modify_def)
  qed
qed

text \<open>What an operation does to the fields that are not aggregated.\<close>

fun stake_delta :: "UpdateOperation \<Rightarrow> u64" where
  "stake_delta (Add stake) = stake"
| "stake_delta (Subtract stake) = - stake"
| "stake_delta _ = 0"

lemma aggregated_fields [simp]:
  "fi_stake_voted_at (aggregated a i) = fi_stake_voted_at i"
  "fi_is_duplicate_confirmed (aggregated a i) \<longleftrightarrow> ag_is_duplicate_confirmed a \<or> fi_is_duplicate_confirmed i"
  "fi_latest_invalid_ancestor (aggregated a i) = (if ag_is_duplicate_confirmed a then None else fi_latest_invalid_ancestor i)"
  by (simp_all add: aggregated_def set_duplicate_confirmed_def)

text \<open>
  The operations of a batch on one block: \<open>marked\<close> tells whether the block is among those that a mark of
  an invalid fork concerns.
\<close>

definition node_effect :: "bool \<Rightarrow> Slot \<Rightarrow> UpdateOperation list \<Rightarrow> ForkInfo \<Rightarrow> ForkInfo \<Rightarrow> bool" where
  "node_effect marked s operations i i' \<longleftrightarrow>
     fi_stake_voted_at i' = fi_stake_voted_at i + (\<Sum>operation \<leftarrow> operations. stake_delta operation) \<and>
     (fi_is_duplicate_confirmed i \<or> MarkValid s \<in> set operations \<longrightarrow> fi_is_duplicate_confirmed i') \<and>
     (if marked
      then \<not> fi_is_duplicate_confirmed i \<longrightarrow> \<not> fi_is_duplicate_confirmed i' \<and>
             (\<not> fi_is_candidate i \<or> (\<exists>t. MarkInvalid t \<in> set operations) \<longrightarrow> \<not> fi_is_candidate i')
      else (fi_latest_invalid_ancestor i' = None \<or> fi_latest_invalid_ancestor i' = fi_latest_invalid_ancestor i) \<and>
           (\<forall>t u. fi_latest_invalid_ancestor i = Some t \<and> MarkValid u \<in> set operations \<and> t \<le> u \<longrightarrow>
                  fi_latest_invalid_ancestor i' = None))"

lemma node_effect_Nil: "node_effect marked s [] i i"
  by (simp add: node_effect_def)

lemma node_effect_append:
  "node_effect marked s as i j \<Longrightarrow> node_effect marked s bs j k \<Longrightarrow> node_effect marked s (as @ bs) i k"
  unfolding node_effect_def by (cases marked) (auto simp: add.assoc)

abbreviation operations_at :: "SlotHashKey \<Rightarrow> Batch \<Rightarrow> UpdateOperation list" where
  "operations_at n L \<equiv> map snd (filter (\<lambda>x. fst (fst x) = n) L)"

definition effect :: "SlotHashKey set \<Rightarrow> Batch \<Rightarrow> HeaviestSubtreeForkChoice \<Rightarrow> HeaviestSubtreeForkChoice \<Rightarrow> bool" where
  "effect U L fc fc' \<longleftrightarrow> same_shape fc fc' \<and> latest_votes fc' = latest_votes fc \<and>
     (\<forall>n \<in> blocks fc. node_effect (n \<in> U) (fst n) (operations_at n L) (node fc n) (node fc' n))"

lemma effectD: "effect U L fc fc' \<Longrightarrow> n \<in> blocks fc \<Longrightarrow> node_effect (n \<in> U) (fst n) (operations_at n L) (node fc n) (node fc' n)"
  unfolding effect_def by blast

lemma effect_Nil: "effect U [] fc fc"
  by (simp add: effect_def node_effect_Nil)

lemma effect_append:
  assumes "effect U L fc fc'" and "effect U M fc' fc''"
  shows "effect U (L @ M) fc fc''"
proof -
  have shape: "same_shape fc fc'" "same_shape fc' fc''" using assms by (simp_all add: effect_def)
  have "node_effect (n \<in> U) (fst n) (operations_at n (L @ M)) (node fc n) (node fc'' n)" if "n \<in> blocks fc" for n
    using assms that same_shape_simps(1) [OF shape(1)] unfolding filter_append map_append
    by (intro node_effect_append [of _ _ _ _ "node fc' n"]) (simp_all add: effect_def)
  then show ?thesis using assms same_shape_trans [OF shape] by (simp add: effect_def)
qed

text \<open>
  No block of a set \<open>U\<close> that is closed under children is confirmed as a duplicate: the condition under which a
  mark of an invalid fork does not panic.
\<close>

definition unconfirmed :: "SlotHashKey set \<Rightarrow> HeaviestSubtreeForkChoice \<Rightarrow> bool" where
  "unconfirmed U fc \<longleftrightarrow> child_of fc `` U \<subseteq> U \<and> (\<forall>n \<in> U \<inter> blocks fc. \<not> fi_is_duplicate_confirmed (node fc n))"

definition marks_ok :: "SlotHashKey set \<Rightarrow> SlotHashKey \<Rightarrow> UpdateOperation \<Rightarrow> bool" where
  "marks_ok U n operation \<longleftrightarrow> (case operation of MarkInvalid _ \<Rightarrow> n \<in> U | MarkValid _ \<Rightarrow> n \<notin> U | _ \<Rightarrow> True)"

lemma unconfirmedD: "unconfirmed U fc \<Longrightarrow> n \<in> U \<Longrightarrow> info fc n = Some i \<Longrightarrow> \<not> fi_is_duplicate_confirmed i"
  unfolding unconfirmed_def by (drule conjunct2, drule bspec [of _ _ n]) (auto simp: fmlookup_dom_iff)

lemma effect_unconfirmed:
  assumes "effect U L fc fc'" and "unconfirmed U fc"
  shows "unconfirmed U fc'"
proof -
  have "same_shape fc fc'" using assms(1) by (simp add: effect_def)
  note shape = same_shape_simps [OF this]
  have "\<not> fi_is_duplicate_confirmed (node fc' n)" if "n \<in> U" "n \<in> blocks fc" for n
  proof -
    have "\<not> fi_is_duplicate_confirmed (node fc n)" using assms(2) that by (simp add: unconfirmed_def)
    moreover have "node_effect True (fst n) (operations_at n L) (node fc n) (node fc' n)"
      using effectD [OF assms(1) that(2)] that(1) by simp
    ultimately show ?thesis by (simp add: node_effect_def)
  qed
  then show ?thesis using assms(2) by (simp add: unconfirmed_def shape)
qed

lemma effect_put:
  assumes "info fc n = Some i" and "same_shape fc (put_info n i' fc)" and "node_effect (n \<in> U) (fst n) [operation] i i'"
  shows "effect U [((n, l), operation)] fc (put_info n i' fc)"
  using assms by (auto simp: effect_def node_effect_Nil)

lemma apply_operation_effect:
  assumes ok: "tree_ok fc" and run: "apply_operation n operation fc = (Ok (), fc')" and shape: "same_shape fc fc'"
    and U: "unconfirmed U fc" "marks_ok U n operation"
  shows "effect U [((n, l), operation)] fc fc'"
proof (cases "info fc n")
  case None
  then have "n \<notin> blocks fc" by (simp add: fmlookup_dom_iff)
  moreover have "fc' = fc"
    using run None by (cases operation) (simp_all add: mark_fork_valid_def mark_fork_invalid_def aggregate_slot_def add_slot_stake_def
        subtract_slot_stake_def)
  ultimately show ?thesis by (auto simp: effect_def node_effect_Nil)
next
  case (Some i)
  have "\<exists>i'. fc' = put_info n i' fc \<and> node_effect (n \<in> U) (fst n) [operation] i i'"
  proof (cases operation)
    case Aggregate
    obtain a where r: "aggregate_slot n fc = (Ok (), put_info n (aggregated a i) fc)"
      and a: "aggregating fc n (fi_stake_voted_at i) (fset (fi_children i)) a"
      using ok Some by (rule aggregate_slot_Ok)
    have "\<not> ag_is_duplicate_confirmed a" if "n \<in> U"
    proof -
      have "c \<in> U \<inter> blocks fc" if "c |\<in>| fi_children i" for c
        using that \<open>n \<in> U\<close> U(1) child_info [OF Some] child_blocks [OF ok] unfolding unconfirmed_def by blast
      then show ?thesis using a U(1) unfolding aggregating_def unconfirmed_def by blast
    qed
    then have "node_effect (n \<in> U) (fst n) [operation] i (aggregated a i)"
      using Aggregate by (auto simp: node_effect_def fi_is_candidate_def)
    then show ?thesis using run Aggregate r by auto
  next
    case (MarkInvalid s)
    then have "n \<in> U" "\<not> fi_is_duplicate_confirmed i"
      using U Some unconfirmedD by (auto simp: marks_ok_def)
    then obtain i' where i': "update_with_newly_invalid_ancestor s i = Ok i'" and "node_effect (n \<in> U) (fst n) [operation] i i'"
      using MarkInvalid
      by (simp add: update_with_newly_invalid_ancestor_def node_effect_def fi_is_candidate_def split: option.split)
    then show ?thesis using run Some MarkInvalid by (auto simp: mark_fork_invalid_def bind_exec_def lift_def modify_def)
  next
    case (MarkValid s)
    let ?v = "update_with_newly_valid_ancestor s i"
    let ?i = "if fst n = s then ?v\<lparr>fi_is_duplicate_confirmed := True\<rparr> else ?v"
    have "n \<notin> U" using U MarkValid by (simp add: marks_ok_def)
    then have "node_effect (n \<in> U) (fst n) [operation] i ?i"
      using MarkValid by (auto simp: update_with_newly_valid_ancestor_def node_effect_def split: option.splits)
    then show ?thesis using run Some MarkValid by (intro exI [of _ ?i]) (simp add: mark_fork_valid_def Let_def)
  qed (use run Some in \<open>auto simp: add_slot_stake_def subtract_slot_stake_def node_effect_def fi_is_candidate_def\<close>)
  then show ?thesis using effect_put [OF Some] shape by blast
qed

section \<open>Whole batches\<close>

lemma batch_ok_shape: "same_shape fc fc' \<Longrightarrow> batch_ok fc' L = batch_ok fc L"
  by (simp add: batch_ok_def operation_ok_def same_shape_simps)

lemma apply_operations_Ok:
  assumes "settling fc L" and "batch_ok fc L" and "unconfirmed U fc" and "\<forall>x \<in> set L. marks_ok U (fst (fst x)) (snd x)"
  shows "\<exists>fc'. apply_operations L fc = (Ok (), fc') \<and> effect U L fc fc' \<and> fork_ok fc'"
  using assms
proof (induction L arbitrary: fc)
  case Nil
  then show ?case by (auto simp: settling_def fork_ok_def effect_Nil exec_simps)
next
  case (Cons x L)
  obtain n l operation where x: "x = ((n, l), operation)" by (metis prod.collapse)
  have ok: "tree_ok fc" and marks: "marks_ok U n operation" using Cons.prems x by (simp_all add: settling_def)
  have "\<not> fi_is_duplicate_confirmed i" if "operation = MarkInvalid s" "info fc n = Some i" for s i
    using that marks unconfirmedD [OF Cons.prems(3), of n i] by (simp add: marks_ok_def)
  then obtain fc1 where run: "apply_operation n operation fc = (Ok (), fc1)" and shape: "same_shape fc fc1" and rest: "settling fc1 L"
    using apply_operation_step [of fc n l operation L] Cons.prems(1,2) x by blast
  have eff: "effect U [x] fc fc1" unfolding x using ok run shape Cons.prems(3) marks by (rule apply_operation_effect)
  have "batch_ok fc1 L" using batch_ok_tail [OF ok Cons.prems(2)] batch_ok_shape [OF shape] by simp
  moreover have "unconfirmed U fc1" using effect_unconfirmed [OF eff Cons.prems(3)] .
  ultimately obtain fc' where "apply_operations L fc1 = (Ok (), fc')" "effect U L fc1 fc'" "fork_ok fc'"
    using Cons.IH [OF rest] Cons.prems(4) by auto
  then show ?case using run x effect_append [OF eff, of L fc'] by (auto simp: exec_simps bind_exec_def)
qed

end
