(* ===== verification/Fork_Batch.thy ===== *)
theory Fork_Batch
  imports Fork_Process
begin

text \<open>
  The batches that votes and marks collect are in order: whenever an operation is collected for a block, all
  ancestors of the block are aggregated, although the walk up the tree stops at the first ancestor that is
  aggregated already.
\<close>

section \<open>Insertion into a batch\<close>

lemma set_btree_insert: "btree_inv m \<Longrightarrow> set (btree_insert k v m) = insert (k, v) {x \<in> set m. fst x \<noteq> k}"
  by (induction k v m rule: btree_insert.induct) (auto simp: btree_inv_def)

lemma btree_get_set: "btree_inv m \<Longrightarrow> btree_get m k = Some v \<longleftrightarrow> (k, v) \<in> set m"
  by (simp add: btree_get_def btree_inv_distinct)

lemma btree_get_key: "btree_get m k = None \<longleftrightarrow> k \<notin> fst ` set m"
  by (simp add: btree_get_def map_of_eq_None_iff)

lemma sum_btree_insert:
  fixes f :: "_ \<Rightarrow> 'a::ab_group_add"
  shows "btree_inv m \<Longrightarrow> (\<Sum>x \<leftarrow> btree_insert k v m. f x) =
    (\<Sum>x \<leftarrow> m. f x) - (case btree_get m k of Some v' \<Rightarrow> f (k, v') | None \<Rightarrow> 0) + f (k, v)"
proof (induction k v m rule: btree_insert.induct)
  case (2 k v k' v' m)
  have "btree_get ((k', v') # m) k = None" if "k < k'"
    using 2(2) that by (auto simp: btree_inv_def btree_get_def map_of_eq_None_iff)
  then show ?case using 2 by (auto simp: btree_inv_def btree_get_def algebra_simps split: option.splits)
qed (simp add: btree_get_def)

lemma filter_insert_not: "\<not> P a \<Longrightarrow> {x \<in> insert a S. P x} = {x \<in> S. P x}"
  by auto

text \<open>What holds of the operations collected so far, and what holds while those of one block are being added.\<close>

definition labelled :: "SlotHashKey set \<Rightarrow> (SlotHashKey \<times> UpdateLabel) \<times> UpdateOperation \<Rightarrow> bool" where
  "labelled A x \<longleftrightarrow> label_of (snd x) = snd (fst x) \<and>
     (case snd x of MarkValid s \<Rightarrow> fst (fst x) \<in> A | MarkInvalid s \<Rightarrow> fst (fst x) \<in> A \<and> s \<le> fst (fst (fst x)) | _ \<Rightarrow> True)"

definition parent_aggregated :: "HeaviestSubtreeForkChoice \<Rightarrow> SlotHashKey set \<Rightarrow> SlotHashKey \<Rightarrow> bool" where
  "parent_aggregated fc A n \<longleftrightarrow> (\<forall>p. (p, n) \<in> child_of fc \<longrightarrow> p \<in> A)"

lemma operation_ok_iff: "operation_ok fc A x \<longleftrightarrow> labelled A x \<and> parent_aggregated fc A (fst (fst x))"
  unfolding operation_ok_def labelled_def parent_aggregated_def by (cases x, cases "fst x", cases "snd x") auto

definition collecting :: "HeaviestSubtreeForkChoice \<Rightarrow> SlotHashKey set \<Rightarrow> UpdateOperations \<Rightarrow> bool" where
  "collecting fc N ops \<longleftrightarrow> btree_inv ops \<and> (\<forall>x \<in> set ops. labelled (aggregates ops) x) \<and>
     (\<forall>x \<in> set ops. fst (fst x) \<in> N \<or> parent_aggregated fc (aggregates ops) (fst (fst x)))"

lemma collecting_inv: "collecting fc N ops \<Longrightarrow> btree_inv ops"
  by (simp add: collecting_def)

lemma collecting_Nil: "collecting fc N []"
  by (simp add: collecting_def btree_inv_def)

lemma collecting_mono: "collecting fc N ops \<Longrightarrow> N \<subseteq> N' \<Longrightarrow> collecting fc N' ops"
  unfolding collecting_def by blast

lemma collecting_aggregated:
  assumes "collecting fc (insert n N) ops" and "parent_aggregated fc (aggregates ops) n"
  shows "collecting fc N ops"
proof -
  have "fst (fst x) \<in> N \<or> parent_aggregated fc (aggregates ops) (fst (fst x))" if "x \<in> set ops" for x
    using assms that unfolding collecting_def by (cases "fst (fst x) = n") (simp, blast)
  then show ?thesis using assms(1) unfolding collecting_def by blast
qed

lemma labelled_mono: "labelled A x \<Longrightarrow> A \<subseteq> A' \<Longrightarrow> labelled A' x"
  by (auto simp: labelled_def split: UpdateOperation.splits)

lemma parent_aggregated_mono: "parent_aggregated fc A n \<Longrightarrow> A \<subseteq> A' \<Longrightarrow> parent_aggregated fc A' n"
  unfolding parent_aggregated_def by blast

lemma aggregates_insert:
  "btree_inv ops \<Longrightarrow> aggregates (btree_insert (n, l) operation ops) = (if l = AggregateLabel then insert n (aggregates ops) else aggregates ops)"
  unfolding keys_btree_insert by auto

lemma collecting_insert:
  assumes c: "collecting fc N ops" and l: "label_of operation = l" and n: "n \<in> N"
    and mark: "labelled (aggregates ops) ((n, l), operation)"
  shows "collecting fc N (btree_insert (n, l) operation ops)"
proof -
  let ?ops = "btree_insert (n, l) operation ops"
  have inv: "btree_inv ops" using c by (rule collecting_inv)
  have sub: "aggregates ops \<subseteq> aggregates ?ops" unfolding keys_btree_insert by blast
  have "labelled (aggregates ?ops) x \<and> (fst (fst x) \<in> N \<or> parent_aggregated fc (aggregates ?ops) (fst (fst x)))" if "x \<in> set ?ops" for x
  proof (cases "x = ((n, l), operation)")
    case True
    then show ?thesis using labelled_mono [OF mark sub] n by simp
  next
    case False
    then have "x \<in> set ops" using that inv by (simp add: set_btree_insert)
    then have "labelled (aggregates ops) x" and "fst (fst x) \<in> N \<or> parent_aggregated fc (aggregates ops) (fst (fst x))"
      using c unfolding collecting_def by blast+
    then show ?thesis using labelled_mono [OF _ sub] parent_aggregated_mono [OF _ sub] by blast
  qed
  then show ?thesis using btree_inv_insert [OF inv] unfolding collecting_def by blast
qed

lemma batch_ok_rev:
  assumes "collecting fc {} ops"
  shows "batch_ok fc (rev ops)"
proof -
  have "sorted_wrt (\<lambda>x y. fst x < fst y) ops" using assms by (simp add: collecting_def btree_inv_def sorted_wrt_map)
  then have "sorted_wrt (\<lambda>x y. fst y < fst x) (rev ops)" by (simp add: sorted_wrt_rev)
  moreover have "\<forall>x \<in> set (rev ops). operation_ok fc (aggregates (rev ops)) x"
    unfolding operation_ok_iff set_rev using assms unfolding collecting_def by blast
  ultimately show ?thesis unfolding batch_ok_def by blast
qed

section \<open>The walk up the tree\<close>

text \<open>What the operations add to the stake at a block, and what is left alone: the operations with other labels.\<close>

definition stake_change :: "UpdateOperations \<Rightarrow> SlotHashKey \<Rightarrow> u64" where
  "stake_change ops n = (\<Sum>x \<leftarrow> ops. if fst (fst x) = n then stake_delta (snd x) else 0)"

lemma stake_change_at: "(\<Sum>operation \<leftarrow> operations_at n (rev ops). stake_delta operation) = stake_change ops n"
proof -
  have "(\<Sum>operation \<leftarrow> operations_at n ops. stake_delta operation) = stake_change ops n"
    unfolding stake_change_def by (induction ops) auto
  then show ?thesis by (simp only: rev_filter [symmetric] rev_map [symmetric] sum_list_rev)
qed

lemma stake_change_insert:
  "btree_inv ops \<Longrightarrow> stake_change (btree_insert (n, l) operation ops) m = stake_change ops m +
     (if m = n then stake_delta operation - (case btree_get ops (n, l) of Some operation' \<Rightarrow> stake_delta operation' | None \<Rightarrow> 0) else 0)"
  unfolding stake_change_def by (simp add: sum_btree_insert split: option.split)

definition same_but_aggregates :: "UpdateOperations \<Rightarrow> UpdateOperations \<Rightarrow> bool" where
  "same_but_aggregates ops ops' \<longleftrightarrow> {x \<in> set ops'. snd x \<noteq> Aggregate} = {x \<in> set ops. snd x \<noteq> Aggregate} \<and>
     stake_change ops' = stake_change ops"

lemma same_but_aggregates_refl: "same_but_aggregates ops ops"
  by (simp add: same_but_aggregates_def)

lemma same_but_aggregates_trans: "same_but_aggregates a b \<Longrightarrow> same_but_aggregates b c \<Longrightarrow> same_but_aggregates a c"
  by (simp add: same_but_aggregates_def)

lemma same_but_aggregates_insert:
  assumes "btree_inv ops" and "(n, AggregateLabel) \<notin> fst ` set ops"
  shows "same_but_aggregates ops (btree_insert (n, AggregateLabel) Aggregate ops)"
proof -
  have get: "btree_get ops (n, AggregateLabel) = None" using assms(2) btree_get_key [of ops "(n, AggregateLabel)"] by simp
  have "fst x \<noteq> (n, AggregateLabel)" if "x \<in> set ops" for x using assms(2) imageI [OF that, of fst] by metis
  then have "set (btree_insert (n, AggregateLabel) Aggregate ops) = insert ((n, AggregateLabel), Aggregate) (set ops)"
    unfolding set_btree_insert [OF assms(1)] by blast
  then have "{x \<in> set (btree_insert (n, AggregateLabel) Aggregate ops). snd x \<noteq> Aggregate} = {x \<in> set ops. snd x \<noteq> Aggregate}"
    by (simp only: filter_insert_not snd_conv not_True_eq_False simp_thms)
  then show ?thesis by (simp add: same_but_aggregates_def fun_eq_iff stake_change_insert [OF assms(1)] get)
qed

lemma insert_across_ancestors_Ok:
  assumes ok: "tree_ok fc"
  shows "ancestors_loop k fc n = Ok ps \<Longrightarrow> collecting fc {n} ops \<Longrightarrow> n \<in> blocks fc \<Longrightarrow>
    collecting fc {} (insert_across_ancestors None ps ops) \<and> same_but_aggregates ops (insert_across_ancestors None ps ops)"
proof (induction ps arbitrary: k n ops)
  case Nil
  then have "fork_parent fc n = None" by (cases k) (auto split: option.splits)
  then have "parent_aggregated fc A n" for A unfolding parent_aggregated_def tree_child [OF ok] by simp
  then have "collecting fc {} ops" using collecting_aggregated [OF Nil.prems(2)] by blast
  then show ?case by (simp add: same_but_aggregates_refl)
next
  case (Cons p ps)
  obtain k' where p: "fork_parent fc n = Some p" and k': "ancestors_loop k' fc p = Ok ps"
    using ancestors_loop_chain [OF Cons.prems(1)] by blast
  have parents: "parent_aggregated fc A n" if "p \<in> A" for A
    using that p unfolding parent_aggregated_def tree_child [OF ok] by simp
  have inv: "btree_inv ops" using Cons.prems(2) by (rule collecting_inv)
  show ?case
  proof (cases "(p, AggregateLabel) \<in> fst ` set ops")
    case True
    then have "collecting fc {} ops" using collecting_aggregated [OF Cons.prems(2)] parents by simp
    moreover have "insert_across_ancestors None (p # ps) ops = ops"
      using True by (simp add: do_insert_aggregate_operation_def btree_get_key)
    ultimately show ?thesis by (simp add: same_but_aggregates_refl)
  next
    case False
    let ?ops = "btree_insert (p, AggregateLabel) Aggregate ops"
    have "btree_get ops (p, AggregateLabel) = None" using False btree_get_key [of ops "(p, AggregateLabel)"] by simp
    then have step: "insert_across_ancestors None (p # ps) ops = insert_across_ancestors None ps ?ops"
      by (simp add: do_insert_aggregate_operation_def)
    have both: "collecting fc {n, p} ?ops"
      by (intro collecting_insert collecting_mono [OF Cons.prems(2)]) (simp_all add: labelled_def)
    have "p \<in> aggregates ?ops" unfolding keys_btree_insert by simp
    then have "collecting fc {p} ?ops" by (intro collecting_aggregated [OF both] parents)
    from Cons.IH [OF k' this] tree_parent(1) [OF ok Cons.prems(3) p] same_but_aggregates_insert [OF inv False]
    show ?thesis unfolding step using same_but_aggregates_trans by blast
  qed
qed

lemma insert_aggregate_operations_Ok:
  assumes ok: "tree_ok fc" and c: "collecting fc {n} ops"
  obtains ops' where "insert_aggregate_operations fc n ops = Ok ops'" and "collecting fc {} ops'" and "same_but_aggregates ops ops'"
proof (cases "n \<in> blocks fc")
  case True
  then obtain ps where ps: "ancestor_iterator fc n = Ok ps" using ancestor_iterator_Ok [OF ok] by blast
  show ?thesis
    using that insert_across_ancestors_Ok [OF ok ps [unfolded ancestor_iterator_def] c True] ps
    by (simp add: insert_aggregate_operations_def)
next
  case False
  then have "parent_aggregated fc A n" for A using child_blocks [OF ok] unfolding parent_aggregated_def by blast
  then have "collecting fc {} ops" using collecting_aggregated [OF c] by blast
  then show ?thesis
    using that ancestor_iterator_unknown [OF False] same_but_aggregates_refl by (simp add: insert_aggregate_operations_def)
qed

end
