(* ===== verification/Fork_Votes.thy ===== *)
theory Fork_Votes
  imports Fork_Batch
begin

text \<open>
  \<open>add_votes\<close>: a batch of votes moves the stake of each voter from its old vote to its new one, and the
  answer is the block that the reference definition of the heaviest fork gives.
\<close>

section \<open>Collecting the operations\<close>

definition stake_only :: "UpdateOperations \<Rightarrow> bool" where
  "stake_only ops \<longleftrightarrow> (\<forall>x \<in> set ops. case snd x of MarkValid _ \<Rightarrow> False | MarkInvalid _ \<Rightarrow> False | _ \<Rightarrow> True)"

lemma stake_only_same:
  assumes "same_but_aggregates ops ops'" and "stake_only ops"
  shows "stake_only ops'"
  unfolding stake_only_def
proof
  fix x assume x: "x \<in> set ops'"
  show "case snd x of MarkValid _ \<Rightarrow> False | MarkInvalid _ \<Rightarrow> False | _ \<Rightarrow> True"
  proof (cases "snd x = Aggregate")
    case False
    then have "x \<in> set ops" using x assms(1) unfolding same_but_aggregates_def by blast
    then show ?thesis using assms(2) unfolding stake_only_def by blast
  qed simp
qed

lemma stake_only_insert:
  assumes "btree_inv ops" and "stake_only ops" and "operation = Add s \<or> operation = Subtract s"
  shows "stake_only (btree_insert k operation ops)"
  using assms(2,3) unfolding stake_only_def set_btree_insert [OF assms(1)] by auto

lemma add_stake_operation_Ok:
  assumes c: "collecting fc {} ops" and only: "stake_only ops" and operation: "operation = Add s \<or> operation = Subtract s"
    and l: "l = label_of operation"
  obtains ops' where "add_stake_operation (n, l) operation s ops = Ok ops'" and "collecting fc {n} ops'" and "stake_only ops'"
    and "stake_change ops' = (\<lambda>m. stake_change ops m + (if m = n then stake_delta operation else 0))"
proof -
  have inv: "btree_inv ops" using c by (rule collecting_inv)
  have c': "collecting fc {n} ops" using c by (rule collecting_mono) simp
  obtain op' where run: "add_stake_operation (n, l) operation s ops = Ok (btree_insert (n, l) op' ops)"
    and op': "\<exists>t. op' = Add t \<or> op' = Subtract t" "label_of op' = l"
    and d: "stake_delta op' - (case btree_get ops (n, l) of Some operation' \<Rightarrow> stake_delta operation' | None \<Rightarrow> 0) = stake_delta operation"
  proof (cases "btree_get ops (n, l)")
    case None
    show ?thesis by (rule that [of operation]) (use None operation l in \<open>auto simp: add_stake_operation_def\<close>)
  next
    case (Some update)
    then have "((n, l), update) \<in> set ops" using btree_get_set [OF inv] by simp
    then have "labelled (aggregates ops) ((n, l), update)" using c unfolding collecting_def by blast
    then have u: "label_of update = l" by (simp add: labelled_def)
    show ?thesis
    proof (cases operation)
      case (Add t)
      then obtain t' where t': "update = Add t'" using u l by (cases update) auto
      show ?thesis by (rule that [of "Add (t' + s)"]) (use Some t' operation Add l in \<open>auto simp: add_stake_operation_def\<close>)
    next
      case (Subtract t)
      then obtain t' where t': "update = Subtract t'" using u l by (cases update) auto
      show ?thesis by (rule that [of "Subtract (t' + s)"]) (use Some t' operation Subtract l in \<open>auto simp: add_stake_operation_def\<close>)
    qed (use operation in auto)
  qed
  have "labelled (aggregates ops) ((n, l), op')" using op' by (auto simp: labelled_def)
  then have "collecting fc {n} (btree_insert (n, l) op' ops)" by (intro collecting_insert [OF c'] op'(2)) simp_all
  moreover have "stake_only (btree_insert (n, l) op' ops)" using stake_only_insert [OF inv only] op'(1) by blast
  moreover have "stake_change (btree_insert (n, l) op' ops) m = stake_change ops m + (if m = n then stake_delta operation else 0)" for m
    unfolding stake_change_insert [OF inv] d ..
  ultimately show ?thesis using that run by blast
qed

text \<open>An operation on the stake of a block, with the aggregation of its ancestors.\<close>

lemma stake_operation_Ok:
  assumes ok: "tree_ok fc" and c: "collecting fc {} ops" and only: "stake_only ops" and operation: "operation = Add s \<or> operation = Subtract s"
  obtains ops' where "and_then (add_stake_operation (n, label_of operation) operation s ops) (insert_aggregate_operations fc n) = Ok ops'"
    and "collecting fc {} ops'" and "stake_only ops'"
    and "stake_change ops' = (\<lambda>m. stake_change ops m + (if m = n then stake_delta operation else 0))"
proof -
  obtain ops1 where 1: "add_stake_operation (n, label_of operation) operation s ops = Ok ops1" "collecting fc {n} ops1" "stake_only ops1"
    "stake_change ops1 = (\<lambda>m. stake_change ops m + (if m = n then stake_delta operation else 0))"
    using add_stake_operation_Ok [OF c only operation refl, of n] by blast
  obtain ops2 where 2: "insert_aggregate_operations fc n ops1 = Ok ops2" "collecting fc {} ops2" "same_but_aggregates ops1 ops2"
    using insert_aggregate_operations_Ok [OF ok 1(2)] by blast
  show ?thesis
    using 1 2 stake_only_same [OF 2(3) 1(3)] by (intro that [of ops2]) (simp_all add: same_but_aggregates_def)
qed

lemma move_vote_Ok:
  assumes ok: "tree_ok fc" and c: "collecting fc {} ops" and only: "stake_only ops" and new: "\<not> is_outdated_vote old_vote new_vote"
  obtains ops' where "move_vote epoch_stakes epoch_schedule fc pubkey new_vote old_vote ops = Ok ops'"
    and "collecting fc {} ops'" and "stake_only ops'"
    and "stake_change ops' = (\<lambda>m. stake_change ops m - (if old_vote = Some m then vote_stake epoch_stakes epoch_schedule pubkey (fst m) else 0)
           + (if m = new_vote then vote_stake epoch_stakes epoch_schedule pubkey (fst m) else 0))"
proof -
  let ?stake = "vote_stake epoch_stakes epoch_schedule pubkey"
  obtain ops1 where 1: "subtract_old_vote epoch_stakes epoch_schedule fc pubkey new_vote old_vote ops = Ok ops1"
    "collecting fc {} ops1" "stake_only ops1"
    "stake_change ops1 = (\<lambda>m. stake_change ops m - (if old_vote = Some m then ?stake (fst m) else 0))"
  proof (cases old_vote)
    case None
    then show ?thesis using that [of ops] c only by (simp add: subtract_old_vote_def)
  next
    case (Some v)
    have assertion: "if fst new_vote = fst v then snd new_vote < snd v else fst v < fst new_vote"
      using new Some by (auto simp: is_outdated_vote_def split: prod.splits)
    then have run: "subtract_old_vote epoch_stakes epoch_schedule fc pubkey new_vote old_vote ops =
        (if 0 < ?stake (fst v)
         then and_then (add_stake_operation (v, SubtractLabel) (Subtract (?stake (fst v))) (?stake (fst v)) ops) (insert_aggregate_operations fc v)
         else Ok ops)"
      using Some by (cases v) (auto simp: subtract_old_vote_def Let_def)
    show ?thesis
    proof (cases "0 < ?stake (fst v)")
      case True
      obtain ops1 where "and_then (add_stake_operation (v, SubtractLabel) (Subtract (?stake (fst v))) (?stake (fst v)) ops)
            (insert_aggregate_operations fc v) = Ok ops1"
        "collecting fc {} ops1" "stake_only ops1"
        "stake_change ops1 = (\<lambda>m. stake_change ops m + (if m = v then - ?stake (fst v) else 0))"
        by (rule stake_operation_Ok [OF ok c only disjI2 [OF refl], of v "?stake (fst v)", unfolded label_of.simps stake_delta.simps])
      then show ?thesis
        using Some True run by (intro that [of ops1]) (simp_all add: fun_eq_iff)
    next
      case False
      then have "?stake (fst v) = 0" by (simp add: word_gt_0)
      then show ?thesis
        using c only Some run by (intro that [of ops]) (simp_all add: fun_eq_iff)
    qed
  qed
  obtain ops2 where "and_then (add_stake_operation (new_vote, AddLabel) (Add (?stake (fst new_vote))) (?stake (fst new_vote)) ops1)
        (insert_aggregate_operations fc new_vote) = Ok ops2"
    "collecting fc {} ops2" "stake_only ops2"
    "stake_change ops2 = (\<lambda>m. stake_change ops1 m + (if m = new_vote then ?stake (fst new_vote) else 0))"
    by (rule stake_operation_Ok [OF ok 1(2,3) disjI1 [OF refl], of new_vote "?stake (fst new_vote)", unfolded label_of.simps stake_delta.simps])
  then show ?thesis using 1 by (intro that [of ops2]) (simp_all add: move_vote_def Let_def fun_eq_iff)
qed

section \<open>The votes of a batch\<close>

text \<open>The latest votes after a batch, and the stake that the latest votes give a block.\<close>

fun record_votes :: "Slot \<Rightarrow> (Pubkey \<times> SlotHashKey) list \<Rightarrow> (Pubkey, SlotHashKey) fmap \<Rightarrow> (Pubkey, SlotHashKey) fmap" where
  "record_votes root [] m = m"
| "record_votes root ((pubkey, new_vote) # rest) m =
     record_votes root rest (if fst new_vote < root \<or> is_outdated_vote (fmlookup m pubkey) new_vote then m else fmupd pubkey new_vote m)"

definition voters :: "HeaviestSubtreeForkChoice \<Rightarrow> SlotHashKey \<Rightarrow> Pubkey set" where
  "voters fc n = {pubkey. fmlookup (latest_votes fc) pubkey = Some n}"

definition voted_stake :: "EpochStakes \<Rightarrow> EpochSchedule \<Rightarrow> HeaviestSubtreeForkChoice \<Rightarrow> SlotHashKey \<Rightarrow> u64" where
  "voted_stake epoch_stakes epoch_schedule fc n = (\<Sum>pubkey \<in> voters fc n. vote_stake epoch_stakes epoch_schedule pubkey (fst n))"

lemma finite_voters: "finite (voters fc n)"
proof (rule finite_subset)
  show "voters fc n \<subseteq> fset (fmdom (latest_votes fc))" by (auto simp: voters_def fmlookup_dom_iff)
qed simp

lemma voted_stake_move:
  "voted_stake epoch_stakes epoch_schedule (latest_votes_update (fmupd pubkey new_vote) fc) n = voted_stake epoch_stakes epoch_schedule fc n
     - (if fmlookup (latest_votes fc) pubkey = Some n then vote_stake epoch_stakes epoch_schedule pubkey (fst n) else 0)
     + (if n = new_vote then vote_stake epoch_stakes epoch_schedule pubkey (fst n) else 0)"
proof -
  let ?others = "\<Sum>other \<in> voters fc n - {pubkey}. vote_stake epoch_stakes epoch_schedule other (fst n)"
  let ?stake = "vote_stake epoch_stakes epoch_schedule pubkey (fst n)"
  have "voters (latest_votes_update (fmupd pubkey new_vote) fc) n =
      (if n = new_vote then insert pubkey (voters fc n - {pubkey}) else voters fc n - {pubkey})"
    by (auto simp: voters_def)
  then have after: "voted_stake epoch_stakes epoch_schedule (latest_votes_update (fmupd pubkey new_vote) fc) n =
      ?others + (if n = new_vote then ?stake else 0)"
    by (simp add: voted_stake_def finite_voters sum.insert_remove add.commute)
  have "voted_stake epoch_stakes epoch_schedule fc n = ?others + (if pubkey \<in> voters fc n then ?stake else 0)"
    unfolding voted_stake_def using finite_voters by (auto simp: sum.remove)
  then show ?thesis unfolding after by (simp add: voters_def)
qed

definition votes_only :: "HeaviestSubtreeForkChoice \<Rightarrow> HeaviestSubtreeForkChoice \<Rightarrow> bool" where
  "votes_only fc fc' \<longleftrightarrow> fork_infos fc' = fork_infos fc \<and> tree_root fc' = tree_root fc"

lemma votes_only_child_of: "votes_only fc fc' \<Longrightarrow> child_of fc' = child_of fc"
  by (simp add: votes_only_def child_of_def)

lemma votes_only_collecting: "votes_only fc fc' \<Longrightarrow> collecting fc' N ops = collecting fc N ops"
  by (simp add: collecting_def parent_aggregated_def votes_only_child_of)

lemma votes_only_shape: "votes_only fc fc' \<Longrightarrow> same_shape fc fc'"
  by (simp add: votes_only_def same_shape_def)

lemma generate_update_operations_loop_Ok:
  assumes "tree_ok fc" and "collecting fc {} ops" and "stake_only ops" and "distinct (map fst votes)"
    and "fst ` set votes \<inter> fset observed = {}"
  shows "\<exists>ops' fc'. generate_update_operations_loop epoch_stakes epoch_schedule votes observed ops fc = (Ok ops', fc') \<and>
    votes_only fc fc' \<and> collecting fc {} ops' \<and> stake_only ops' \<and>
    latest_votes fc' = record_votes (fst (tree_root fc)) votes (latest_votes fc) \<and>
    (\<forall>n. voted_stake epoch_stakes epoch_schedule fc' n - stake_change ops' n =
         voted_stake epoch_stakes epoch_schedule fc n - stake_change ops n)"
  using assms
proof (induction votes arbitrary: fc ops observed)
  case Nil
  then show ?case by (simp add: votes_only_def exec_simps)
next
  case (Cons x votes)
  obtain pubkey v where x: "x = (pubkey, v)" by (metis prod.collapse)
  let ?old = "fmlookup (latest_votes fc) pubkey"
  let ?more = "finsert pubkey observed"
  have d: "distinct (map fst votes)" "fst ` set votes \<inter> fset observed = {}" "fst ` set votes \<inter> fset ?more = {}" "pubkey |\<notin>| observed"
    using Cons.prems(4,5) x by auto
  note IH = Cons.IH [OF _ _ _ d(1)]
  consider "fst v < fst (tree_root fc)" | "\<not> fst v < fst (tree_root fc)" "is_outdated_vote ?old v"
    | "\<not> fst v < fst (tree_root fc)" "\<not> is_outdated_vote ?old v" by blast
  then show ?case
  proof cases
    case 1
    then show ?thesis using IH [OF Cons.prems(1-3) d(2)] x by simp
  next
    case 2
    then show ?thesis using IH [OF Cons.prems(1-3) d(3)] x d(4) by simp
  next
    case 3
    let ?fc = "latest_votes_update (fmupd pubkey v) fc"
    have only: "votes_only fc ?fc" by (simp add: votes_only_def)
    have ok: "tree_ok ?fc" using Cons.prems(1) same_shape_tree_ok [OF votes_only_shape [OF only]] by simp
    have c: "collecting ?fc {} ops" using Cons.prems(2) votes_only_collecting [OF only] by simp
    obtain ops1 where ops1: "move_vote epoch_stakes epoch_schedule ?fc pubkey v ?old ops = Ok ops1" "collecting ?fc {} ops1" "stake_only ops1"
      and change: "stake_change ops1 = (\<lambda>m. stake_change ops m - (if ?old = Some m then vote_stake epoch_stakes epoch_schedule pubkey (fst m) else 0)
           + (if m = v then vote_stake epoch_stakes epoch_schedule pubkey (fst m) else 0))"
      by (rule move_vote_Ok [OF ok c Cons.prems(3) 3(2), of epoch_stakes epoch_schedule pubkey])
    have balance: "voted_stake epoch_stakes epoch_schedule ?fc n - stake_change ops1 n =
        voted_stake epoch_stakes epoch_schedule fc n - stake_change ops n" for n
      unfolding voted_stake_move change by simp
    obtain ops' fc' where
      rest: "generate_update_operations_loop epoch_stakes epoch_schedule votes ?more ops1 ?fc = (Ok ops', fc')"
      and only': "votes_only ?fc fc'" and c': "collecting ?fc {} ops'" and "stake_only ops'"
      and "latest_votes fc' = record_votes (fst (tree_root ?fc)) votes (latest_votes ?fc)"
      and "\<forall>n. voted_stake epoch_stakes epoch_schedule fc' n - stake_change ops' n =
         voted_stake epoch_stakes epoch_schedule ?fc n - stake_change ops1 n"
      using IH [OF ok ops1(2,3) d(3)] by blast
    moreover have "generate_update_operations_loop epoch_stakes epoch_schedule (x # votes) observed ops fc = (Ok ops', fc')"
      using 3 rest ops1(1) d(4) x by (simp add: exec_simps bind_exec_def modify_def)
    moreover have "votes_only fc fc'" using only only' by (simp add: votes_only_def)
    moreover have "collecting fc {} ops'" using c' votes_only_collecting [OF only] by simp
    ultimately show ?thesis using 3 x by (simp add: balance)
  qed
qed

lemma record_votes_get:
  "distinct (map fst votes) \<Longrightarrow> fmlookup (record_votes root votes m) pubkey =
     (case map_of votes pubkey of
        Some v \<Rightarrow> if fst v < root \<or> is_outdated_vote (fmlookup m pubkey) v then fmlookup m pubkey else Some v
      | None \<Rightarrow> fmlookup m pubkey)"
proof (induction root votes m rule: record_votes.induct)
  case (2 root key v rest m)
  then have "map_of rest key = None" by (simp add: map_of_eq_None_iff)
  then show ?case using 2 by (auto split: option.splits)
qed simp

end
