(* ===== verification/Fork_Heaviest.thy ===== *)
theory Fork_Heaviest
  imports Fork_Votes
begin

text \<open>
  The reference definition of the heaviest fork, over the stakes at the single blocks: from a block, go to the
  candidate child whose subtree has most stake, or the least key among those with most, until there is none.
  In a settled tree the cached best slots agree with it, so that votes are answered with the heaviest fork.
\<close>

section \<open>The heaviest fork\<close>

definition subtree_stake :: "HeaviestSubtreeForkChoice \<Rightarrow> SlotHashKey \<Rightarrow> u64" where
  "subtree_stake fc n = (\<Sum>m \<in> subtree fc n. fi_stake_voted_at (node fc m))"

definition preferred :: "HeaviestSubtreeForkChoice \<Rightarrow> SlotHashKey \<Rightarrow> SlotHashKey \<Rightarrow> bool" where
  "preferred fc c d \<longleftrightarrow> subtree_stake fc d < subtree_stake fc c \<or> subtree_stake fc c = subtree_stake fc d \<and> c < d"

abbreviation open_children :: "HeaviestSubtreeForkChoice \<Rightarrow> SlotHashKey \<Rightarrow> SlotHashKey set" where
  "open_children fc n \<equiv> {c \<in> child_of fc `` {n}. fi_is_candidate (node fc c)}"

inductive heaviest :: "HeaviestSubtreeForkChoice \<Rightarrow> SlotHashKey \<Rightarrow> SlotHashKey \<Rightarrow> bool" for fc where
  heaviest_stop: "open_children fc n = {} \<Longrightarrow> heaviest fc n n"
| heaviest_child: "best_in (preferred fc) (open_children fc n) c \<Longrightarrow> heaviest fc c b \<Longrightarrow> heaviest fc n b"

interpretation preferred: ranking "preferred fc" for fc
  by unfold_locales (auto simp: preferred_def)

lemma heaviest_unique: "heaviest fc n b \<Longrightarrow> heaviest fc n b' \<Longrightarrow> b' = b"
proof (induction rule: heaviest.induct)
  case (heaviest_stop n)
  from heaviest_stop(2) show ?case
  proof (cases rule: heaviest.cases)
    case (heaviest_child c)
    then show ?thesis using best_in_mem [OF local.heaviest_child(1)] heaviest_stop(1) by blast
  qed
next
  case (heaviest_child n c b)
  from heaviest_child(4) show ?case
  proof (cases rule: heaviest.cases)
    case heaviest_stop
    then show ?thesis using best_in_mem [OF heaviest_child(1)] by blast
  next
    case other: (heaviest_child d)
    have "d = c" using preferred.best_unique [OF heaviest_child(1) other(1)] .
    then show ?thesis using heaviest_child(3) other(2) by blast
  qed
qed

section \<open>Settled trees\<close>

lemma child_keys_iff: "n \<in> blocks fc \<Longrightarrow> child_keys fc n = child_of fc `` {n}"
  by (auto simp: fmlookup_dom_iff child_of_def)

lemma fork_okD:
  assumes "fork_ok fc"
  shows "tree_ok fc" and "sane fc" and "n \<in> blocks fc \<Longrightarrow> settled fc n"
  using assms unfolding fork_ok_def by blast+

lemma subtree_stake_unfold:
  assumes ok: "tree_ok fc"
  shows "subtree_stake fc n = fi_stake_voted_at (node fc n) + (\<Sum>c \<in> child_of fc `` {n}. subtree_stake fc c)"
proof -
  let ?C = "child_of fc `` {n}"
  have fin: "finite ?C" by (rule finite_subset [of _ "blocks fc"]) (use child_blocks [OF ok] in \<open>blast, simp\<close>)
  have "n \<notin> (\<Union>c \<in> ?C. subtree fc c)" using child_less [OF ok] descendant_le [OF _ ok] by force
  moreover have "(\<Sum>m \<in> (\<Union>c \<in> ?C. subtree fc c). fi_stake_voted_at (node fc m)) = (\<Sum>c \<in> ?C. subtree_stake fc c)"
    unfolding subtree_stake_def
    using fin finite_subtree [OF ok] children_disjoint [OF ok] by (intro sum.UNION_disjoint) blast+
  moreover have "finite (\<Union>c \<in> ?C. subtree fc c)" using fin finite_subtree [OF ok] by blast
  ultimately show ?thesis unfolding subtree_stake_def [of fc n] subtree_unfold [of fc n] by simp
qed

lemma weight_subtree_stake:
  assumes ok: "fork_ok fc" and "n \<in> blocks fc"
  shows "weight fc n = subtree_stake fc n"
  using fork_okD(1) [OF ok] assms(2)
proof (induction rule: leaf_induct)
  case (block n)
  have "weight fc n = fi_stake_voted_at (node fc n) + (\<Sum>c \<in> child_of fc `` {n}. weight fc c)"
    using fork_okD(3) [OF ok block(1)] unfolding settled_def child_keys_iff [OF block(1)] by blast
  also have "\<dots> = subtree_stake fc n"
    unfolding subtree_stake_unfold [OF fork_okD(1) [OF ok], of n] using block(2) by simp
  finally show ?case .
qed

lemma heavier_preferred:
  assumes ok: "fork_ok fc" and "(n, c) \<in> child_of fc" and "(n, d) \<in> child_of fc"
  shows "heavier fc c d = preferred fc c d"
proof -
  have "c \<in> blocks fc" "d \<in> blocks fc" using assms child_blocks [OF fork_okD(1) [OF ok]] by blast+
  then show ?thesis unfolding heavier_def preferred_def by (simp only: weight_subtree_stake [OF ok])
qed

lemma best_slot_heaviest:
  assumes ok: "fork_ok fc" and "n \<in> blocks fc" and "fi_is_candidate (node fc n)"
  shows "heaviest fc n (fi_best_slot (node fc n))"
  using fork_okD(1) [OF ok] assms(2,3)
proof (induction rule: leaf_induct)
  case (block n)
  have over: "best_over fc n (child_of fc `` {n}) (fi_best_slot (node fc n))"
    using fork_okD(3) [OF ok block(1)] block(3) unfolding settled_def child_keys_iff [OF block(1)] by blast
  show ?case
  proof (cases "open_children fc n = {}")
    case True
    then have "fi_best_slot (node fc n) = n" using over unfolding best_over_def by (simp only: if_True)
    then show ?thesis using heaviest_stop [OF True] by simp
  next
    case False
    then obtain c where c: "best_in (heavier fc) (open_children fc n) c" and b: "fi_best_slot (node fc n) = fi_best_slot (node fc c)"
      using over unfolding best_over_def if_not_P [OF False] by blast
    have "best_in (preferred fc) (open_children fc n) c"
      using c best_in_cong [of "open_children fc n" "preferred fc" "heavier fc" c] heavier_preferred [OF ok, of n] by blast
    moreover have "heaviest fc c (fi_best_slot (node fc c))" using block(2) best_in_mem [OF c] by blast
    ultimately show ?thesis unfolding b by (rule heaviest_child)
  qed
qed

lemma best_slot_heaviest_iff:
  assumes "fork_ok fc" and "is_candidate fc n = Some True"
  shows "heaviest fc n b \<longleftrightarrow> best_slot fc n = Some b"
proof -
  obtain i where i: "info fc n = Some i" "fi_is_candidate i" using assms(2) by (auto simp: is_candidate_def)
  have "heaviest fc n (fi_best_slot i)" using best_slot_heaviest [OF assms(1), of n] i by (simp add: fmlookup_dom_iff)
  then show ?thesis using heaviest_unique [of fc n "fi_best_slot i" b] i by (auto simp: best_slot_def)
qed

section \<open>Votes\<close>

lemma fork_ok_settling: "fork_ok fc \<Longrightarrow> settling fc L"
  by (simp add: fork_ok_def settling_def)

lemma votes_only_fork_ok: "votes_only fc fc' \<Longrightarrow> fork_ok fc' = fork_ok fc"
proof -
  assume only: "votes_only fc fc'"
  have infos: "fork_infos fc' = fork_infos fc" using only by (simp add: votes_only_def)
  then have "settled fc' n = settled fc n" for n
    unfolding settled_iff using settled_info_cong [of "node fc n" fc' fc n] by simp
  moreover have "sane fc' = sane fc" by (simp add: sane_def infos votes_only_child_of [OF only])
  ultimately show ?thesis
    unfolding fork_ok_def using same_shape_tree_ok [OF votes_only_shape [OF only]] by (simp add: infos)
qed

lemma process_update_operations_Ok:
  assumes "fork_ok fc" and "collecting fc {} ops" and "unconfirmed U fc" and "\<forall>x \<in> set ops. marks_ok U (fst (fst x)) (snd x)"
  obtains fc' where "process_update_operations ops fc = (Ok (), fc')" and "effect U (rev ops) fc fc'" and "fork_ok fc'"
  using apply_operations_Ok [OF fork_ok_settling [OF assms(1)] batch_ok_rev [OF assms(2)] assms(3)] assms(4)
  unfolding process_update_operations_def by auto

lemma stake_only_marks: "stake_only ops \<Longrightarrow> x \<in> set ops \<Longrightarrow> marks_ok {} (fst (fst x)) (snd x)"
  unfolding stake_only_def marks_ok_def by (drule bspec) (auto split: UpdateOperation.splits)

lemma add_votes_Ok:
  assumes ok: "fork_ok fc" and d: "distinct (map fst votes)"
  obtains fc' b where "add_votes epoch_stakes epoch_schedule votes fc = (Ok b, fc')" and "fork_ok fc'" and "same_shape fc fc'"
    and "latest_votes fc' = record_votes (fst (tree_root fc)) votes (latest_votes fc)"
    and "\<And>n. n \<in> blocks fc \<Longrightarrow> fi_stake_voted_at (node fc' n) - voted_stake epoch_stakes epoch_schedule fc' n =
           fi_stake_voted_at (node fc n) - voted_stake epoch_stakes epoch_schedule fc n"
    and "\<And>n. is_candidate fc n = Some True \<Longrightarrow> is_candidate fc' n = Some True"
    and "best_slot fc' (tree_root fc) = Some b"
proof -
  obtain ops fc1 where gen: "generate_update_operations epoch_stakes epoch_schedule votes fc = (Ok ops, fc1)"
    and only: "votes_only fc fc1" and c: "collecting fc {} ops" and s: "stake_only ops"
    and latest: "latest_votes fc1 = record_votes (fst (tree_root fc)) votes (latest_votes fc)"
    and balance: "\<forall>n. voted_stake epoch_stakes epoch_schedule fc1 n - stake_change ops n =
         voted_stake epoch_stakes epoch_schedule fc n - stake_change [] n"
    using generate_update_operations_loop_Ok [OF fork_okD(1) [OF ok] collecting_Nil _ d, of "{||}" epoch_stakes epoch_schedule]
    unfolding generate_update_operations_def by (auto simp: stake_only_def)
  have ok1: "fork_ok fc1" using votes_only_fork_ok [OF only] ok by simp
  have c1: "collecting fc1 {} ops" using c votes_only_collecting [OF only] by simp
  have "unconfirmed {} fc1" by (simp add: unconfirmed_def)
  then obtain fc' where run: "process_update_operations ops fc1 = (Ok (), fc')" and eff: "effect {} (rev ops) fc1 fc'" and ok': "fork_ok fc'"
    using process_update_operations_Ok [OF ok1 c1] stake_only_marks [OF s] by blast
  have shape: "same_shape fc fc'"
    using votes_only_shape [OF only] eff same_shape_trans unfolding effect_def by blast
  have root: "tree_root fc \<in> blocks fc'" using tree_root_block [OF fork_okD(1) [OF ok']] same_shape_simps(4) [OF shape] by simp
  then obtain r where r: "info fc' (tree_root fc) = Some r" by (auto simp: fmlookup_dom_iff)
  have infos: "fork_infos fc1 = fork_infos fc" using only by (simp add: votes_only_def)
  have node: "node_effect False (fst n) (operations_at n (rev ops)) (node fc n) (node fc' n)" if "n \<in> blocks fc" for n
    using effectD [OF eff, of n] that by (simp add: infos)
  have latest': "latest_votes fc' = latest_votes fc1" using eff by (simp add: effect_def)
  then have voted: "voted_stake epoch_stakes epoch_schedule fc' = voted_stake epoch_stakes epoch_schedule fc1"
    by (simp add: voted_stake_def voters_def fun_eq_iff)
  show ?thesis
  proof (rule that [of "fi_best_slot r" fc'])
    show "add_votes epoch_stakes epoch_schedule votes fc = (Ok (fi_best_slot r), fc')"
      using gen run r same_shape_simps(4) [OF shape] by (simp add: add_votes_def bind_exec_def best_overall_slot_def best_slot_def)
    show "latest_votes fc' = record_votes (fst (tree_root fc)) votes (latest_votes fc)" unfolding latest' latest ..
    show "best_slot fc' (tree_root fc) = Some (fi_best_slot r)" using r by (simp add: best_slot_def)
    show "fi_stake_voted_at (node fc' n) - voted_stake epoch_stakes epoch_schedule fc' n =
        fi_stake_voted_at (node fc n) - voted_stake epoch_stakes epoch_schedule fc n" if "n \<in> blocks fc" for n
    proof -
      have "fi_stake_voted_at (node fc' n) = fi_stake_voted_at (node fc n) + stake_change ops n"
        using node [OF that] unfolding node_effect_def stake_change_at by blast
      moreover have "voted_stake epoch_stakes epoch_schedule fc' n - stake_change ops n = voted_stake epoch_stakes epoch_schedule fc n"
        using balance by (simp add: voted stake_change_def)
      ultimately show ?thesis by (simp add: algebra_simps)
    qed
    show "is_candidate fc' n = Some True" if cand: "is_candidate fc n = Some True" for n
    proof -
      obtain i where i: "info fc n = Some i" "fi_is_candidate i" using cand by (auto simp: is_candidate_def)
      then have n: "n \<in> blocks fc" by (auto simp: fmlookup_dom_iff)
      obtain i' where i': "info fc' n = Some i'" using same_shape_info [OF shape i(1)] by blast
      have "fi_is_candidate i'"
        using node [OF n] i i' by (auto simp: node_effect_def fi_is_candidate_def)
      then show ?thesis using i' by (simp add: is_candidate_def)
    qed
  qed (rule ok' shape)+
qed

end
