(* ===== verification/Fork_Leaf.thy ===== *)
theory Fork_Leaf
  imports Fork_Heaviest
begin

text \<open>
  New leaves: the two walks up the tree that start at a new leaf, one for the best slots and one for the
  deepest, stop early and still leave every block settled.
\<close>

context ranking
begin

lemma best_in_iff: "b \<in> S \<Longrightarrow> best_in better S b \<longleftrightarrow> (\<forall>d \<in> S. \<not> better d b)"
  unfolding best_in_def using better_total better_trans better_irrefl by metis

end

section \<open>The parts of a settled block\<close>

lemma best_over_cong:
  assumes "\<And>c. c \<in> S \<Longrightarrow> fi_is_candidate (node fc' c) = fi_is_candidate (node fc c) \<and> weight fc' c = weight fc c \<and>
    (fi_is_candidate (node fc c) \<longrightarrow> fi_best_slot (node fc' c) = fi_best_slot (node fc c))"
  shows "best_over fc' n S x = best_over fc n S x"
proof -
  have C: "candidates fc' S = candidates fc S" using assms by blast
  have "heavier fc' c d = heavier fc c d" if "c \<in> candidates fc S" "d \<in> candidates fc S" for c d
    using that assms [of c] assms [of d] by (simp add: heavier_def)
  then have "best_in (heavier fc') (candidates fc S) b \<longleftrightarrow> best_in (heavier fc) (candidates fc S) b" for b by (rule best_in_cong)
  moreover have "fi_best_slot (node fc' b) = fi_best_slot (node fc b)" if "b \<in> candidates fc S" for b using that assms [of b] by blast
  ultimately show ?thesis unfolding best_over_def C using best_in_mem by (metis (mono_tags, lifting))
qed

lemma deepest_over_cong:
  assumes "\<And>c. c \<in> S \<Longrightarrow> fi_height (node fc' c) = fi_height (node fc c) \<and> weight fc' c = weight fc c \<and>
    fi_deepest_slot (node fc' c) = fi_deepest_slot (node fc c)"
  shows "deepest_over fc' n S x h = deepest_over fc n S x h"
proof -
  have "deeper fc' c d = deeper fc c d" if "c \<in> S" "d \<in> S" for c d
    using that assms [of c] assms [of d] by (simp add: deeper_def heavier_def)
  then have "best_in (deeper fc') S b \<longleftrightarrow> best_in (deeper fc) S b" for b by (rule best_in_cong)
  then show ?thesis unfolding deepest_over_def using assms best_in_mem by metis
qed

definition tallied :: "HeaviestSubtreeForkChoice \<Rightarrow> SlotHashKey \<Rightarrow> bool" where
  "tallied fc n \<longleftrightarrow> weight fc n = fi_stake_voted_at (node fc n) + (\<Sum>c \<in> child_keys fc n. weight fc c) \<and>
     ((\<exists>c \<in> child_keys fc n. fi_is_duplicate_confirmed (node fc c)) \<longrightarrow> fi_is_duplicate_confirmed (node fc n))"

definition best_settled :: "HeaviestSubtreeForkChoice \<Rightarrow> SlotHashKey \<Rightarrow> bool" where
  "best_settled fc n \<longleftrightarrow> (fi_is_candidate (node fc n) \<longrightarrow> best_over fc n (child_keys fc n) (fi_best_slot (node fc n)))"

definition deepest_settled :: "HeaviestSubtreeForkChoice \<Rightarrow> SlotHashKey \<Rightarrow> bool" where
  "deepest_settled fc n \<longleftrightarrow>
     (\<exists>h. fi_height (node fc n) = Suc h \<and> deepest_over fc n (child_keys fc n) (fi_deepest_slot (node fc n)) h)"

lemma settled_parts: "settled fc n \<longleftrightarrow> tallied fc n \<and> best_settled fc n \<and> deepest_settled fc n"
  unfolding settled_def tallied_def best_settled_def deepest_settled_def by blast

text \<open>Changes of the entry of one block that leave a part alone.\<close>

lemma tallied_put:
  assumes "info fc k = Some i" and "fi_stake_voted_subtree i' = fi_stake_voted_subtree i" and "fi_stake_voted_at i' = fi_stake_voted_at i"
    and "fi_children i' = fi_children i" and "fi_is_duplicate_confirmed i' = fi_is_duplicate_confirmed i"
  shows "tallied (put_info k i' fc) n = tallied fc n"
proof -
  have "weight (put_info k i' fc) m = weight fc m" "fi_is_duplicate_confirmed (node (put_info k i' fc) m) = fi_is_duplicate_confirmed (node fc m)"
    "child_keys (put_info k i' fc) m = child_keys fc m" "fi_stake_voted_at (node (put_info k i' fc) m) = fi_stake_voted_at (node fc m)" for m
    using assms by (cases "m = k"; simp)+
  then show ?thesis unfolding tallied_def by simp
qed

lemma best_settled_put:
  assumes "info fc k = Some i" and "fi_stake_voted_subtree i' = fi_stake_voted_subtree i" and "fi_best_slot i' = fi_best_slot i"
    and "fi_children i' = fi_children i" and "fi_latest_invalid_ancestor i' = fi_latest_invalid_ancestor i"
  shows "best_settled (put_info k i' fc) n = best_settled fc n"
proof -
  have "best_over (put_info k i' fc) n S x = best_over fc n S x" for S x
  proof (rule best_over_cong)
    fix c show "fi_is_candidate (node (put_info k i' fc) c) = fi_is_candidate (node fc c) \<and> weight (put_info k i' fc) c = weight fc c \<and>
      (fi_is_candidate (node fc c) \<longrightarrow> fi_best_slot (node (put_info k i' fc) c) = fi_best_slot (node fc c))"
      using assms by (cases "c = k") (simp_all add: fi_is_candidate_def)
  qed
  then show ?thesis using assms by (cases "n = k") (simp_all add: best_settled_def fi_is_candidate_def)
qed

lemma best_settled_away:
  assumes "k \<noteq> n" and "k \<notin> child_keys fc n"
  shows "best_settled (put_info k i' fc) n = best_settled fc n"
proof -
  have "best_over (put_info k i' fc) n (child_keys fc n) x = best_over fc n (child_keys fc n) x" for x
    using assms by (intro best_over_cong) auto
  then show ?thesis using assms by (simp add: best_settled_def)
qed

lemma deepest_settled_put:
  assumes "info fc k = Some i" and "fi_stake_voted_subtree i' = fi_stake_voted_subtree i" and "fi_deepest_slot i' = fi_deepest_slot i"
    and "fi_children i' = fi_children i" and "fi_height i' = fi_height i"
  shows "deepest_settled (put_info k i' fc) n = deepest_settled fc n"
proof -
  have "deepest_over (put_info k i' fc) n S x h = deepest_over fc n S x h" for S x h
  proof (rule deepest_over_cong)
    fix c show "fi_height (node (put_info k i' fc) c) = fi_height (node fc c) \<and> weight (put_info k i' fc) c = weight fc c \<and>
      fi_deepest_slot (node (put_info k i' fc) c) = fi_deepest_slot (node fc c)"
      using assms by (cases "c = k") simp_all
  qed
  then show ?thesis using assms by (cases "n = k") (simp_all add: deepest_settled_def)
qed

lemma deepest_settled_away:
  assumes "k \<noteq> n" and "k \<notin> child_keys fc n"
  shows "deepest_settled (put_info k i' fc) n = deepest_settled fc n"
proof -
  have "deepest_over (put_info k i' fc) n (child_keys fc n) x h = deepest_over fc n (child_keys fc n) x h" for x h
    using assms by (intro deepest_over_cong) auto
  then show ?thesis using assms by (simp add: deepest_settled_def)
qed

lemma not_own_child: "tree_ok fc \<Longrightarrow> info fc a = Some i \<Longrightarrow> a |\<notin>| fi_children i"
  using child_less [of fc a a] child_info [of fc a i a] by blast

lemma put_info_undo: "info fc a = Some i \<Longrightarrow> put_info a i (put_info a i' fc) = fc"
  by (cases fc) (auto intro!: fmap_ext)

section \<open>The best slots\<close>

text \<open>
  One step of the walk: a child \<open>c\<close> of \<open>a\<close> has got the new best slot \<open>key\<close> in place of \<open>old\<close>, for which
  \<open>a\<close> was settled. If \<open>a\<close> had \<open>old\<close> too, it takes \<open>key\<close>, otherwise it is settled as it is.
\<close>

lemma best_settled_step:
  assumes ok: "tree_ok fc" and sane: "sane fc" and a: "info fc a = Some i" and c: "info fc c = Some j" "c |\<in>| fi_children i"
    and was: "best_settled (put_info c (j\<lparr>fi_best_slot := old\<rparr>) fc) a" and key: "fi_best_slot j = key" and old: "(c, old) \<in> (child_of fc)\<^sup>*"
  shows "fi_best_slot i = old \<Longrightarrow> best_settled (put_info a (i\<lparr>fi_best_slot := key\<rparr>) fc) a"
    and "fi_best_slot i \<noteq> old \<Longrightarrow> best_settled fc a"
proof -
  let ?fc = "put_info c (j\<lparr>fi_best_slot := old\<rparr>) fc"
  let ?S = "fset (fi_children i)"
  have ac: "(a, c) \<in> child_of fc" using c(2) child_info [OF a] by simp
  then have less: "a < c" and ne: "c \<noteq> a" using child_less [OF ok, of a c] by auto
  have C: "candidates ?fc ?S = candidates fc ?S" using c(1) by (auto simp: fi_is_candidate_def)
  have heavier: "heavier ?fc = heavier fc" using c(1) by (auto simp: heavier_def fun_eq_iff)
  have was': "best_over ?fc a ?S (fi_best_slot i)" if "fi_is_candidate i"
    using was that a ne by (simp add: best_settled_def)
  have empty: "fi_best_slot i = a" if "fi_is_candidate i" "candidates fc ?S = {}"
    using was' [OF that(1)] that(2) unfolding best_over_def C heavier by simp
  have best: "\<exists>b. best_in (heavier fc) (candidates fc ?S) b \<and> fi_best_slot i = (if b = c then old else fi_best_slot (node fc b))"
    if "fi_is_candidate i" and ne: "candidates fc ?S \<noteq> {}"
    using was' [OF that(1)] unfolding best_over_def C heavier if_not_P [OF ne] by auto
  show "best_settled (put_info a (i\<lparr>fi_best_slot := key\<rparr>) fc) a" if same: "fi_best_slot i = old"
  proof -
    have "best_over fc a ?S key" if cand: "fi_is_candidate i"
    proof (cases "candidates fc ?S = {}")
      case True
      then have "old = a" using empty cand same by simp
      then have False using descendant_le [OF old ok] less leD by blast
      then show ?thesis ..
    next
      case False
      then obtain b where b: "best_in (heavier fc) (candidates fc ?S) b" "fi_best_slot i = (if b = c then old else fi_best_slot (node fc b))"
        using best cand by blast
      have ab: "(a, b) \<in> child_of fc" using best_in_mem [OF b(1)] child_info [OF a] by simp
      have "b = c"
      proof (rule ccontr)
        assume "b \<noteq> c"
        then have "fi_best_slot (node fc b) = old" using b(2) same by simp
        moreover have "(b, fi_best_slot (node fc b)) \<in> (child_of fc)\<^sup>*"
          using sane child_blocks [OF ok ab] by (simp add: sane_def)
        ultimately show False using children_disjoint [OF ok ab ac] old \<open>b \<noteq> c\<close> by metis
      qed
      then show ?thesis unfolding best_over_def if_not_P [OF False] using b(1) c(1) key by auto
    qed
    moreover have "best_over (put_info a (i\<lparr>fi_best_slot := key\<rparr>) fc) a ?S key = best_over fc a ?S key"
      using not_own_child [OF ok a] by (intro best_over_cong) auto
    ultimately show ?thesis by (simp add: best_settled_def fi_is_candidate_def)
  qed
  show "best_settled fc a" if other: "fi_best_slot i \<noteq> old"
  proof -
    have "best_over fc a ?S (fi_best_slot i)" if cand: "fi_is_candidate i"
    proof (cases "candidates fc ?S = {}")
      case True
      then show ?thesis using empty [OF cand True] unfolding best_over_def by simp
    next
      case False
      then obtain b where "best_in (heavier fc) (candidates fc ?S) b" "fi_best_slot i = (if b = c then old else fi_best_slot (node fc b))"
        using best cand by blast
      then show ?thesis unfolding best_over_def if_not_P [OF False] using other by auto
    qed
    then show ?thesis using a by (simp add: best_settled_def)
  qed
qed

lemma sane_put_best:
  assumes "sane fc" and i: "info fc a = Some i" and "(a, key) \<in> (child_of fc)\<^sup>*"
  shows "sane (put_info a (i\<lparr>fi_best_slot := key\<rparr>) fc)"
proof (rule sane_put [OF assms(1) i])
  show "same_shape fc (put_info a (i\<lparr>fi_best_slot := key\<rparr>) fc)" using i by (rule same_shape_put) simp_all
  show "sane_info fc a (i\<lparr>fi_best_slot := key\<rparr>)"
    using sane_nodeD [OF assms(1) i] assms(3) by (simp add: sane_info_def fi_is_candidate_def)
qed

text \<open>
  The whole walk, which starts at the parent of a block that has got the new best slot. What does not depend on
  the best slots is kept: the predicate \<open>P\<close>.
\<close>

lemma propagate_best_slot_Ok:
  assumes P: "\<And>f a i. P f \<Longrightarrow> info f a = Some i \<Longrightarrow> P (put_info a (i\<lparr>fi_best_slot := key\<rparr>) f)"
  shows "P fc \<Longrightarrow> tree_ok fc \<Longrightarrow> sane fc \<Longrightarrow> info fc c = Some j \<Longrightarrow> fi_best_slot j = key \<Longrightarrow>
    (c, old) \<in> (child_of fc)\<^sup>* \<Longrightarrow> (\<And>n. n \<in> blocks fc \<Longrightarrow> fi_parent j \<noteq> Some n \<Longrightarrow> best_settled fc n) \<Longrightarrow>
    (\<And>a. fi_parent j = Some a \<Longrightarrow> best_settled (put_info c (j\<lparr>fi_best_slot := old\<rparr>) fc) a) \<Longrightarrow> card {b \<in> blocks fc. b < c} < k \<Longrightarrow>
    \<exists>fc'. propagate_best_slot k key old (fi_parent j) fc = (Ok (), fc') \<and> P fc' \<and> same_shape fc fc' \<and> sane fc' \<and>
      (\<forall>n \<in> blocks fc. best_settled fc' n)"
proof (induction k arbitrary: fc c j)
  case (Suc k)
  note ok = Suc.prems(2) and sane = Suc.prems(3) and c = Suc.prems(4)
  have cb: "c \<in> blocks fc" using c by (auto simp: fmlookup_dom_iff)
  show ?case
  proof (cases "fi_parent j")
    case None
    then show ?thesis using Suc.prems by auto
  next
    case (Some a)
    then have parent: "fork_parent fc c = Some a" using c by (simp add: fork_parent_def)
    note up = tree_parent [OF ok cb parent]
    obtain i where i: "info fc a = Some i" using up(1) by (auto simp: fmlookup_dom_iff)
    have ac: "(a, c) \<in> child_of fc" using tree_child [OF ok] cb parent by blast
    then have child: "c |\<in>| fi_children i" using child_info [OF i] by simp
    note step = best_settled_step [OF ok sane i c child Suc.prems(8) [OF Some] Suc.prems(5,6)]
    show ?thesis
    proof (cases "fi_best_slot i = old")
      case False
      then have "best_settled fc a" by (rule step(2))
      then have "best_settled fc n" if "n \<in> blocks fc" for n using Suc.prems(7) [OF that] Some by (cases "n = a") auto
      then show ?thesis using Some i False Suc.prems(1,3) by simp
    next
      case True
      let ?i = "i\<lparr>fi_best_slot := key\<rparr>"
      let ?fc = "put_info a ?i fc"
      have shape: "same_shape fc ?fc" using i by (rule same_shape_put) simp_all
      have key: "(a, key) \<in> (child_of fc)\<^sup>*"
        using ac sane_nodeD [OF sane c] Suc.prems(5) by (auto simp: sane_info_def intro: converse_rtrancl_into_rtrancl)
      have "card {b \<in> blocks fc. b < a} < card {b \<in> blocks fc. b < c}" using up by (intro psubset_card_mono) auto
      then have fuel: "card {b \<in> blocks ?fc. b < a} < k" using Suc.prems(9) same_shape_simps(1) [OF shape] by simp
      have undo: "put_info a (?i\<lparr>fi_best_slot := old\<rparr>) ?fc = fc"
        using put_info_undo [OF i, of ?i] True by (cases i) simp
      have others: "best_settled ?fc n" if "n \<in> blocks ?fc" "fi_parent ?i \<noteq> Some n" for n
      proof (cases "n = a")
        case True
        then show ?thesis using step(1) \<open>fi_best_slot i = old\<close> by simp
      next
        case False
        have n: "n \<in> blocks fc" using that(1) False by simp
        have "a \<notin> child_keys fc n"
          using child_keys_iff [OF n] tree_child [OF ok, of n a] that(2) i by (auto simp: fork_parent_def)
        then have "best_settled ?fc n = best_settled fc n" using False by (intro best_settled_away) auto
        then show ?thesis using Suc.prems(7) [OF n] Some False by auto
      qed
      have above: "best_settled (put_info a (?i\<lparr>fi_best_slot := old\<rparr>) ?fc) b" if "fi_parent ?i = Some b" for b
      proof -
        have "b < a" using tree_parent [OF ok up(1), of b] that i by (simp add: fork_parent_def)
        moreover have "b \<in> blocks fc" using tree_parent [OF ok up(1), of b] that i by (simp add: fork_parent_def)
        ultimately show ?thesis unfolding undo using Suc.prems(7) Some by auto
      qed
      have "\<exists>fc'. propagate_best_slot k key old (fi_parent ?i) ?fc = (Ok (), fc') \<and> P fc' \<and> same_shape ?fc fc' \<and> sane fc' \<and>
          (\<forall>n \<in> blocks ?fc. best_settled fc' n)"
        using P [OF Suc.prems(1) i] same_shape_tree_ok [OF shape] ok sane_put_best [OF sane i key] fuel others above
          sane_nodeD [OF sane i] True same_shape_simps(2) [OF shape]
        by (intro Suc.IH) (simp_all add: sane_info_def)
      then show ?thesis
        using Some i True same_shape_trans [OF shape] same_shape_simps(1) [OF shape] by auto
    qed
  qed
qed simp

section \<open>The deepest slots\<close>

lemma best_inD: "best_in better S b \<Longrightarrow> d \<in> S \<Longrightarrow> d \<noteq> b \<Longrightarrow> better b d"
  by (simp add: best_in_def)

text \<open>
  A child \<open>c\<close> of \<open>a\<close> has grown, or is new, since \<open>a\<close> was settled: \<open>old\<close> is the earlier state, and \<open>S\<close>
  are the children that \<open>a\<close> had.
\<close>

definition outgrown :: "HeaviestSubtreeForkChoice \<Rightarrow> SlotHashKey \<Rightarrow> SlotHashKey \<Rightarrow> bool" where
  "outgrown fc c a \<longleftrightarrow> (\<exists>old S h. S \<subseteq> child_keys fc a \<and> child_keys fc a - {c} \<subseteq> S \<and>
     (\<forall>d \<in> S - {c}. fi_height (node fc d) = fi_height (node old d) \<and> weight fc d = weight old d \<and>
       fi_deepest_slot (node fc d) = fi_deepest_slot (node old d)) \<and>
     (c \<in> S \<longrightarrow> weight fc c = weight old c \<and> fi_height (node old c) \<le> fi_height (node fc c)) \<and>
     fi_height (node fc a) = Suc h \<and> deepest_over old a S (fi_deepest_slot (node fc a)) h)"

lemma outgrown_deepest:
  assumes "outgrown fc c a" and c: "c \<in> child_keys fc a"
  shows "best_in (deeper fc) (child_keys fc a) c \<Longrightarrow> fi_height (node fc a) \<le> Suc (fi_height (node fc c))"
    and "\<not> best_in (deeper fc) (child_keys fc a) c \<Longrightarrow> deepest_settled fc a"
proof -
  let ?K = "child_keys fc a"
  obtain old S h where S: "S \<subseteq> ?K" "?K - {c} \<subseteq> S"
    and others: "\<forall>d \<in> S - {c}. fi_height (node fc d) = fi_height (node old d) \<and> weight fc d = weight old d \<and>
       fi_deepest_slot (node fc d) = fi_deepest_slot (node old d)"
    and grown: "c \<in> S \<longrightarrow> weight fc c = weight old c \<and> fi_height (node old c) \<le> fi_height (node fc c)"
    and h: "fi_height (node fc a) = Suc h" and over: "deepest_over old a S (fi_deepest_slot (node fc a)) h"
    using assms(1) unfolding outgrown_def by (elim exE conjE) (rule that)
  have pick: "\<exists>b. best_in (deeper old) S b \<and> fi_deepest_slot (node fc a) = fi_deepest_slot (node old b) \<and> h = fi_height (node old b)"
    if "S \<noteq> {}" using over unfolding deepest_over_def if_not_P [OF that] .
  show "fi_height (node fc a) \<le> Suc (fi_height (node fc c))" if best: "best_in (deeper fc) ?K c"
  proof (cases "S = {}")
    case True
    then show ?thesis using over h by (simp add: deepest_over_def)
  next
    case False
    then obtain b where b: "best_in (deeper old) S b" "h = fi_height (node old b)" using pick by blast
    have "b \<in> S" using b(1) by (rule best_in_mem)
    have "h \<le> fi_height (node fc c)"
    proof (cases "b = c")
      case True
      then show ?thesis using grown b(2) \<open>b \<in> S\<close> by simp
    next
      case False
      then have "deeper fc c b" using best_inD [OF best] S(1) \<open>b \<in> S\<close> by blast
      then have "fi_height (node fc b) \<le> fi_height (node fc c)" by (auto simp: deeper_def)
      moreover have "fi_height (node fc b) = h" using others False b(2) \<open>b \<in> S\<close> by simp
      ultimately show ?thesis by simp
    qed
    then show ?thesis using h by simp
  qed
  show "deepest_settled fc a" if "\<not> best_in (deeper fc) ?K c"
  proof -
    obtain b where b: "best_in (deeper fc) ?K b" using deeper.best_exists [OF finite_fset, of "fi_children (node fc a)" fc] c by blast
    have "b \<noteq> c" using b that by blast
    then have bS: "b \<in> S" using best_in_mem [OF b] S(2) by blast
    then obtain b0 where b0: "best_in (deeper old) S b0" "fi_deepest_slot (node fc a) = fi_deepest_slot (node old b0)"
      "h = fi_height (node old b0)" using pick by blast
    have b0S: "b0 \<in> S" using b0(1) by (rule best_in_mem)
    have "b0 = b"
    proof (rule ccontr)
      assume ne: "b0 \<noteq> b"
      then have "deeper old b0 b" using best_inD [OF b0(1) bS] by simp
      then have "deeper fc b0 b"
        using others grown bS b0S \<open>b \<noteq> c\<close> by (cases "b0 = c") (auto simp: deeper_def heavier_def)
      moreover have "deeper fc b b0" using best_inD [OF b _ ne] b0S S(1) by blast
      ultimately show False using deeper.better_trans deeper.better_irrefl by blast
    qed
    moreover have "fi_height (node fc b) = fi_height (node old b)" "fi_deepest_slot (node fc b) = fi_deepest_slot (node old b)"
      using others bS \<open>b \<noteq> c\<close> by simp_all
    moreover have "?K \<noteq> {}" using c by blast
    ultimately have "deepest_over fc a ?K (fi_deepest_slot (node fc a)) h"
      unfolding deepest_over_def using b b0(2,3) by (simp only: if_False) metis
    then show ?thesis using h by (simp add: deepest_settled_def)
  qed
qed

lemma deepest_child_loop_iff:
  "set cs \<subseteq> blocks fc \<Longrightarrow>
    deepest_child_loop fc c (fi_height (node fc c)) (weight fc c) cs = Ok (\<forall>d \<in> set cs. \<not> deeper fc d c)"
proof (induction cs)
  case (Cons d cs)
  then obtain i where i: "info fc d = Some i" by (auto simp: fmlookup_dom_iff)
  have "deepest_child_loop fc c (fi_height (node fc c)) (weight fc c) (d # cs) =
      (if deeper fc d c then Ok False else deepest_child_loop fc c (fi_height (node fc c)) (weight fc c) cs)"
    using i by (simp add: fork_height_def stake_voted_subtree_def deeper_def heavier_def cmp_def) (blast dest: less_asym)
  then show ?case using Cons by simp
qed simp

lemma is_deepest_child_iff:
  assumes ok: "tree_ok fc" and c: "info fc c = Some j" "fi_parent j = Some a"
  shows "is_deepest_child fc c = Ok (best_in (deeper fc) (child_keys fc a) c)"
proof -
  have parent: "fork_parent fc c = Some a" using c by (simp add: fork_parent_def)
  have cb: "c \<in> blocks fc" using c(1) by (auto simp: fmlookup_dom_iff)
  obtain i where i: "info fc a = Some i" using tree_parent(1) [OF ok cb parent] by (auto simp: fmlookup_dom_iff)
  have kids: "d \<in> blocks fc" if "d |\<in>| fi_children i" for d using that child_info [OF i] child_blocks [OF ok] by blast
  have "c |\<in>| fi_children i" using child_info [OF i] tree_child [OF ok] cb parent by blast
  then have "best_in (deeper fc) (fset (fi_children i)) c \<longleftrightarrow> (\<forall>d \<in> fset (fi_children i). \<not> deeper fc d c)"
    by (intro deeper.best_in_iff)
  then show ?thesis
    using deepest_child_loop_iff [of "sorted_list_of_fset (fi_children i)" fc c] kids c(1) i parent
    by (simp add: is_deepest_child_def stake_voted_subtree_def fork_height_def fork_children_def subset_eq)
qed

lemma outgrown_put:
  assumes ok: "tree_ok fc" and a: "info fc a = Some i" and b: "b \<in> blocks fc" "a \<in> child_keys fc b" "deepest_settled fc b"
    and i': "fi_stake_voted_subtree i' = fi_stake_voted_subtree i" "fi_height i \<le> fi_height i'"
  shows "outgrown (put_info a i' fc) a b"
proof -
  have "a \<noteq> b" using b(2) not_own_child [OF ok a] a by auto
  then have node: "node (put_info a i' fc) b = node fc b" by simp
  obtain h where h: "fi_height (node fc b) = Suc h" "deepest_over fc b (child_keys fc b) (fi_deepest_slot (node fc b)) h"
    using b(3) by (auto simp: deepest_settled_def)
  show ?thesis
    unfolding outgrown_def node
    by (rule exI [of _ fc], rule exI [of _ "child_keys fc b"], rule exI [of _ h]) (use h a i' in simp)
qed

lemma deepest_settled_new:
  assumes ok: "tree_ok fc" and a: "info fc a = Some i" and c: "info fc c = Some j" and best: "best_in (deeper fc) (child_keys fc a) c"
  shows "deepest_settled (put_info a (i\<lparr>fi_deepest_slot := fi_deepest_slot j, fi_height := fi_height j + 1\<rparr>) fc) a"
proof -
  let ?fc = "put_info a (i\<lparr>fi_deepest_slot := fi_deepest_slot j, fi_height := fi_height j + 1\<rparr>) fc"
  have ne: "fset (fi_children i) \<noteq> {}" using best_in_mem [OF best] a by auto
  have "deepest_over fc a (fset (fi_children i)) (fi_deepest_slot j) (fi_height j)"
    unfolding deepest_over_def if_not_P [OF ne] using best a c by (intro exI [of _ c]) simp
  moreover have "deepest_over ?fc a (fset (fi_children i)) x h = deepest_over fc a (fset (fi_children i)) x h" for x h
    using not_own_child [OF ok a] by (intro deepest_over_cong) auto
  ultimately show ?thesis by (simp add: deepest_settled_def)
qed

lemma propagate_deepest_slot_Ok:
  assumes P: "\<And>f a i h. P f \<Longrightarrow> info f a = Some i \<Longrightarrow> P (put_info a (i\<lparr>fi_deepest_slot := key, fi_height := h\<rparr>) f)"
  shows "P fc \<Longrightarrow> tree_ok fc \<Longrightarrow> info fc c = Some j \<Longrightarrow> fi_deepest_slot j = key \<Longrightarrow>
    (\<And>n. n \<in> blocks fc \<Longrightarrow> fi_parent j \<noteq> Some n \<Longrightarrow> deepest_settled fc n) \<Longrightarrow>
    (\<And>a. fi_parent j = Some a \<Longrightarrow> outgrown fc c a) \<Longrightarrow> card {b \<in> blocks fc. b < c} < k \<Longrightarrow>
    \<exists>fc'. propagate_deepest_slot k key (fi_parent j) c (fi_height j) fc = (Ok (), fc') \<and> P fc' \<and> same_shape fc fc' \<and>
      (\<forall>n \<in> blocks fc. deepest_settled fc' n)"
proof (induction k arbitrary: fc c j)
  case (Suc k)
  note ok = Suc.prems(2) and c = Suc.prems(3)
  have cb: "c \<in> blocks fc" using c by (auto simp: fmlookup_dom_iff)
  show ?case
  proof (cases "fi_parent j")
    case None
    then show ?thesis using Suc.prems by auto
  next
    case (Some a)
    then have parent: "fork_parent fc c = Some a" using c by (simp add: fork_parent_def)
    note up = tree_parent [OF ok cb parent]
    obtain i where i: "info fc a = Some i" using up(1) by (auto simp: fmlookup_dom_iff)
    have "(a, c) \<in> child_of fc" using tree_child [OF ok] cb parent by blast
    then have child: "c \<in> child_keys fc a" using child_info [OF i] i by simp
    note out = outgrown_deepest [OF Suc.prems(6) [OF Some] child]
    note test = is_deepest_child_iff [OF ok c Some]
    show ?thesis
    proof (cases "best_in (deeper fc) (child_keys fc a) c")
      case False
      then have "deepest_settled fc a" by (rule out(2))
      then have "deepest_settled fc n" if "n \<in> blocks fc" for n using Suc.prems(5) [OF that] Some by (cases "n = a") auto
      then show ?thesis using Some False Suc.prems(1) test by simp
    next
      case True
      let ?i = "i\<lparr>fi_deepest_slot := key, fi_height := fi_height j + 1\<rparr>"
      let ?fc = "put_info a ?i fc"
      have shape: "same_shape fc ?fc" using i by (rule same_shape_put) simp_all
      have "card {b \<in> blocks fc. b < a} < card {b \<in> blocks fc. b < c}" using up by (intro psubset_card_mono) auto
      then have fuel: "card {b \<in> blocks ?fc. b < a} < k" using Suc.prems(7) same_shape_simps(1) [OF shape] by simp
      have others: "deepest_settled ?fc n" if "n \<in> blocks ?fc" "fi_parent ?i \<noteq> Some n" for n
      proof (cases "n = a")
        case True
        then show ?thesis using deepest_settled_new [OF ok i c \<open>best_in (deeper fc) (child_keys fc a) c\<close>] Suc.prems(4) by simp
      next
        case False
        have n: "n \<in> blocks fc" using that(1) False by simp
        have "a \<notin> child_keys fc n"
          using child_keys_iff [OF n] tree_child [OF ok, of n a] that(2) i by (auto simp: fork_parent_def)
        then have "deepest_settled ?fc n = deepest_settled fc n" using False by (intro deepest_settled_away) auto
        then show ?thesis using Suc.prems(5) [OF n] Some False by auto
      qed
      have above: "outgrown ?fc a b" if "fi_parent ?i = Some b" for b
      proof -
        have parent': "fork_parent fc a = Some b" using that i by (simp add: fork_parent_def)
        note b = tree_parent [OF ok up(1) parent']
        have "a \<in> child_keys fc b" using child_keys_iff [OF b(1)] tree_child [OF ok, of b a] up(1) parent' by blast
        moreover have "deepest_settled fc b" using Suc.prems(5) [OF b(1)] Some b(3) by auto
        ultimately show ?thesis using out(1) [OF True] i c by (intro outgrown_put [OF ok i b(1)]) simp_all
      qed
      have "\<exists>fc'. propagate_deepest_slot k key (fi_parent ?i) a (fi_height ?i) ?fc = (Ok (), fc') \<and> P fc' \<and> same_shape ?fc fc' \<and>
          (\<forall>n \<in> blocks ?fc. deepest_settled fc' n)"
        using P [OF Suc.prems(1) i] same_shape_tree_ok [OF shape] ok fuel others above by (intro Suc.IH) simp_all
      then show ?thesis
        using Some i True test same_shape_trans [OF shape] same_shape_simps(1) [OF shape] by auto
    qed
  qed
qed simp

end
