(* ===== verification/Fork_Grow.thy ===== *)
theory Fork_Grow
  imports Fork_Leaf
begin

text \<open>
  \<open>add_new_leaf_slot\<close> keeps the tree in order: a block that is added below a known one, or the first block.
\<close>

section \<open>The tree with the new leaf\<close>

definition grown :: "SlotHashKey \<Rightarrow> SlotHashKey \<Rightarrow> HeaviestSubtreeForkChoice \<Rightarrow> HeaviestSubtreeForkChoice" where
  "grown key p fc = put_info p ((node fc p)\<lparr>fi_children := finsert key (fi_children (node fc p))\<rparr>)
     (put_info key (leaf_info key (Some p) (fi_latest_invalid_ancestor (node fc p))) fc)"

text \<open>What is not a best or deepest slot or a height.\<close>

definition fixed_fields :: "ForkInfo \<Rightarrow> u64 \<times> u64 \<times> SlotHashKey option \<times> SlotHashKey fset \<times> Slot option \<times> bool" where
  "fixed_fields i = (fi_stake_voted_at i, fi_stake_voted_subtree i, fi_parent i, fi_children i, fi_latest_invalid_ancestor i,
     fi_is_duplicate_confirmed i)"

definition only_slots :: "HeaviestSubtreeForkChoice \<Rightarrow> HeaviestSubtreeForkChoice \<Rightarrow> bool" where
  "only_slots fc fc' \<longleftrightarrow> tree_root fc' = tree_root fc \<and> latest_votes fc' = latest_votes fc \<and>
     (\<forall>m. map_option fixed_fields (info fc' m) = map_option fixed_fields (info fc m))"

lemma only_slots_refl: "only_slots fc fc"
  by (simp add: only_slots_def)

lemma only_slots_put:
  assumes "only_slots fc f" and "info f a = Some i" and "fixed_fields i' = fixed_fields i"
  shows "only_slots fc (put_info a i' f)"
proof -
  have "map_option fixed_fields (info (put_info a i' f) m) = map_option fixed_fields (info f m)" for m
    using assms(2,3) by (cases "m = a") simp_all
  then show ?thesis using assms(1) by (simp add: only_slots_def)
qed

lemma only_slots_node:
  assumes "only_slots fc f" and "info fc m = Some i"
  obtains j where "info f m = Some j" and "fi_stake_voted_at j = fi_stake_voted_at i" and "fi_stake_voted_subtree j = fi_stake_voted_subtree i"
    and "fi_parent j = fi_parent i" and "fi_children j = fi_children i"
    and "fi_latest_invalid_ancestor j = fi_latest_invalid_ancestor i" and "fi_is_duplicate_confirmed j = fi_is_duplicate_confirmed i"
proof -
  have "map_option fixed_fields (info f m) = Some (fixed_fields i)" using assms by (simp add: only_slots_def)
  then show ?thesis using that by (auto simp: fixed_fields_def)
qed

lemma only_slots_shape:
  assumes "only_slots fc f"
  shows "same_shape fc f"
proof -
  have "map_option (\<lambda>i. (fi_parent i, fi_children i)) (info f m) = map_option (\<lambda>i. (fi_parent i, fi_children i)) (info fc m)" for m
  proof (cases "info fc m")
    case None
    then have "map_option fixed_fields (info f m) = None" using assms by (simp add: only_slots_def)
    then show ?thesis using None by simp
  next
    case (Some i)
    obtain j where "info f m = Some j" "fi_parent j = fi_parent i" "fi_children j = fi_children i"
      using only_slots_node [OF assms Some] by blast
    then show ?thesis using Some by simp
  qed
  then show ?thesis using assms by (simp add: same_shape_def only_slots_def)
qed

lemma only_slots_tallied:
  assumes "only_slots fc f" and n: "n \<in> blocks fc" and ok: "tree_ok fc" and "tallied fc n"
  shows "tallied f n"
proof -
  have node: "weight f m = weight fc m \<and> fi_stake_voted_at (node f m) = fi_stake_voted_at (node fc m) \<and> child_keys f m = child_keys fc m \<and>
      fi_is_duplicate_confirmed (node f m) = fi_is_duplicate_confirmed (node fc m)" if "m \<in> blocks fc" for m
  proof -
    obtain i where i: "info fc m = Some i" using \<open>m \<in> blocks fc\<close> by (auto simp: fmlookup_dom_iff)
    obtain j where "info f m = Some j" "fi_stake_voted_at j = fi_stake_voted_at i" "fi_stake_voted_subtree j = fi_stake_voted_subtree i"
      "fi_children j = fi_children i" "fi_is_duplicate_confirmed j = fi_is_duplicate_confirmed i"
      using only_slots_node [OF assms(1) i] by blast
    then show ?thesis using i by simp
  qed
  have kids: "c \<in> blocks fc" if "c \<in> child_keys fc n" for c using that child_keys_iff [OF n] child_blocks [OF ok] by blast
  have "(\<Sum>c \<in> child_keys fc n. weight f c) = (\<Sum>c \<in> child_keys fc n. weight fc c)" using node kids by (intro sum.cong) simp_all
  moreover have "(\<exists>c \<in> child_keys fc n. fi_is_duplicate_confirmed (node f c)) \<longleftrightarrow> (\<exists>c \<in> child_keys fc n. fi_is_duplicate_confirmed (node fc c))"
    using node kids by (intro bex_cong) simp_all
  ultimately show ?thesis using assms(4) node [OF n] unfolding tallied_def by simp
qed

section \<open>Facts of the grown tree\<close>

lemma grown_info:
  assumes "info fc p = Some i" and "key \<notin> blocks fc"
  shows "info (grown key p fc) m = (if m = p then Some (i\<lparr>fi_children := finsert key (fi_children i)\<rparr>)
      else if m = key then Some (leaf_info key (Some p) (fi_latest_invalid_ancestor i)) else info fc m)"
  using assms by (simp add: grown_def)

lemma grown_shape:
  assumes p: "info fc p = Some i" and key: "key \<notin> blocks fc" and ok: "tree_ok fc"
  shows "blocks (grown key p fc) = insert key (blocks fc)" and "child_of (grown key p fc) = insert (p, key) (child_of fc)"
    and "fork_parent (grown key p fc) = (fork_parent fc)(key := Some p)" and "tree_root (grown key p fc) = tree_root fc"
    and "latest_votes (grown key p fc) = latest_votes fc"
proof -
  have pb: "p \<in> blocks fc" using p by (auto simp: fmlookup_dom_iff)
  then have ne: "p \<noteq> key" using key by auto
  show "blocks (grown key p fc) = insert key (blocks fc)" using pb by (auto simp: grown_def)
  show "tree_root (grown key p fc) = tree_root fc" "latest_votes (grown key p fc) = latest_votes fc" by (simp_all add: grown_def)
  have "fork_parent (grown key p fc) m = ((fork_parent fc)(key := Some p)) m" for m
    using p ne by (simp add: fork_parent_def grown_info [OF p key] leaf_info_def)
  then show "fork_parent (grown key p fc) = (fork_parent fc)(key := Some p)" by (rule ext)
  have none: "(key, c) \<notin> child_of fc" for c using child_blocks [OF ok] key by blast
  have "(a, c) \<in> child_of (grown key p fc) \<longleftrightarrow> (a, c) \<in> insert (p, key) (child_of fc)" for a c
  proof -
    consider "a = p" | "a = key" "a \<noteq> p" | "a \<noteq> p" "a \<noteq> key" by blast
    then show ?thesis
      by cases (use p ne none [of c] in \<open>simp_all add: child_of_def grown_info [OF p key] leaf_info_def\<close>)
  qed
  then show "child_of (grown key p fc) = insert (p, key) (child_of fc)" by (intro set_eqI) (metis (no_types) prod.collapse)
qed

lemma grown_tree_ok:
  assumes ok: "tree_ok fc" and p: "info fc p = Some i" and key: "key \<notin> blocks fc" "fst p < fst key"
  shows "tree_ok (grown key p fc)"
proof -
  have pb: "p \<in> blocks fc" using p by (auto simp: fmlookup_dom_iff)
  then have ne: "p \<noteq> key" using key by auto
  note shape = grown_shape [OF p key(1) ok]
  show ?thesis
    unfolding tree_ok_def shape
  proof (intro conjI allI ballI)
    fix a c
    show "(a, c) \<in> insert (p, key) (child_of fc) \<longleftrightarrow>
        a \<in> insert key (blocks fc) \<and> c \<in> insert key (blocks fc) \<and> ((fork_parent fc)(key := Some p)) c = Some a"
    proof (cases "c = key")
      case True
      have "(a, key) \<notin> child_of fc" using child_blocks [OF ok, of a key] key(1) by blast
      then show ?thesis using True pb by auto
    next
      case False
      then show ?thesis using tree_child [OF ok, of a c] tree_parent(1) [OF ok, of c a] by auto
    qed
    show "c \<in> insert key (blocks fc) \<and> ((fork_parent fc)(key := Some p)) c = Some a \<longrightarrow> a \<in> insert key (blocks fc) \<and> fst a < fst c"
      using tree_parent(1,2) [OF ok, of c a] pb key(2) by (cases "c = key") auto
  next
    fix c assume "c \<in> insert key (blocks fc)"
    then show "((fork_parent fc)(key := Some p)) c = None \<longleftrightarrow> c = tree_root fc"
      using tree_root_iff [OF ok, of c] tree_root_block [OF ok] key(1) by (cases "c = key") auto
  qed (use tree_root_block [OF ok] in simp)
qed

lemma grown_sane:
  assumes ok: "tree_ok fc" and sane: "sane fc" and p: "info fc p = Some i" and key: "key \<notin> blocks fc" "fst p < fst key"
  shows "sane (grown key p fc)"
  unfolding sane_iff
proof
  fix n assume n: "n \<in> blocks (grown key p fc)"
  note shape = grown_shape [OF p key(1) ok]
  have sub: "(a, b) \<in> (child_of (grown key p fc))\<^sup>*" if "(a, b) \<in> (child_of fc)\<^sup>*" for a b
    using that rtrancl_mono [of "child_of fc" "child_of (grown key p fc)"] unfolding shape by blast
  have si: "sane_info fc p i" using sane p by (rule sane_nodeD)
  consider "n = p" | "n = key" "n \<noteq> p" | "n \<noteq> p" "n \<noteq> key" by blast
  then show "sane_info (grown key p fc) n (node (grown key p fc) n)"
  proof cases
    case 1
    then show ?thesis using si sub by (simp add: grown_info [OF p key(1)] sane_info_def fi_is_candidate_def)
  next
    case 2
    have "s \<le> fst key" if "fi_latest_invalid_ancestor i = Some s" for s
      using si that key(2) by (auto simp: sane_info_def)
    then show ?thesis using 2 by (simp add: grown_info [OF p key(1)] sane_info_def leaf_info_def)
  next
    case 3
    then obtain j where j: "info fc n = Some j" using n unfolding shape by (auto simp: fmlookup_dom_iff)
    show ?thesis using 3 j sane_nodeD [OF sane j] sub by (simp add: grown_info [OF p key(1)] sane_info_def)
  qed
qed

text \<open>The entries that other blocks read are the old ones; only the parent has another child.\<close>

lemma grown_reads:
  assumes p: "info fc p = Some i" and key: "key \<notin> blocks fc" and "c \<noteq> key"
  shows "fi_is_candidate (node (grown key p fc) c) = fi_is_candidate (node fc c)" and "weight (grown key p fc) c = weight fc c"
    and "fi_best_slot (node (grown key p fc) c) = fi_best_slot (node fc c)"
    and "fi_height (node (grown key p fc) c) = fi_height (node fc c)"
    and "fi_deepest_slot (node (grown key p fc) c) = fi_deepest_slot (node fc c)"
    and "fi_stake_voted_at (node (grown key p fc) c) = fi_stake_voted_at (node fc c)"
    and "fi_is_duplicate_confirmed (node (grown key p fc) c) = fi_is_duplicate_confirmed (node fc c)"
    and "c \<noteq> p \<Longrightarrow> child_keys (grown key p fc) c = child_keys fc c"
  using p assms(3) by (cases "c = p"; simp add: grown_info [OF p key] fi_is_candidate_def)+

lemma grown_key:
  assumes p: "info fc p = Some i" and key: "key \<notin> blocks fc" and ok: "tree_ok fc" and n: "n \<in> blocks fc"
  shows "node (grown key p fc) key = leaf_info key (Some p) (fi_latest_invalid_ancestor i)"
    and "child_keys (grown key p fc) p = insert key (child_keys fc p)" and "key \<notin> child_keys fc n"
proof -
  have "p \<noteq> key" using p key by (auto simp: fmlookup_dom_iff)
  then show "node (grown key p fc) key = leaf_info key (Some p) (fi_latest_invalid_ancestor i)"
    "child_keys (grown key p fc) p = insert key (child_keys fc p)"
    using p by (simp_all add: grown_info [OF p key])
  show "key \<notin> child_keys fc n"
    using child_keys_iff [OF n] child_blocks [OF ok, of n key] key by blast
qed

lemma grown_tallied:
  assumes ok: "fork_ok fc" and p: "info fc p = Some i" and key: "key \<notin> blocks fc" and n: "n \<in> blocks (grown key p fc)"
  shows "tallied (grown key p fc) n"
proof (cases "n = key")
  case True
  then show ?thesis using grown_key(1) [OF p key fork_okD(1) [OF ok], of p] p
    by (simp add: tallied_def leaf_info_def fmlookup_dom_iff)
next
  case False
  note tree = fork_okD(1) [OF ok]
  have nb: "n \<in> blocks fc" using n False unfolding grown_shape(1) [OF p key tree] by simp
  have t: "tallied fc n" using fork_okD(3) [OF ok nb] by (simp add: settled_parts)
  note gk = grown_key [OF p key tree nb]
  note reads = grown_reads [OF p key]
  have kids: "c \<noteq> key" if "c \<in> child_keys fc n" for c using gk(3) that by blast
  have sum: "(\<Sum>c \<in> child_keys fc n. weight (grown key p fc) c) = (\<Sum>c \<in> child_keys fc n. weight fc c)"
    using kids reads(2) by (intro sum.cong) simp_all
  have conf: "(\<exists>c \<in> child_keys fc n. fi_is_duplicate_confirmed (node (grown key p fc) c)) \<longleftrightarrow>
      (\<exists>c \<in> child_keys fc n. fi_is_duplicate_confirmed (node fc c))"
    using kids reads(7) by (intro bex_cong) simp_all
  show ?thesis
  proof (cases "n = p")
    case True
    have "weight (grown key p fc) key = 0" "\<not> fi_is_duplicate_confirmed (node (grown key p fc) key)"
      unfolding gk(1) by (simp_all add: leaf_info_def)
    then show ?thesis
      using t sum conf gk(3) True reads(2,6,7) [OF False] unfolding tallied_def True gk(2) by simp
  next
    case False
    show ?thesis
      using t sum conf reads(2,6,7) [OF \<open>n \<noteq> key\<close>] reads(8) [OF \<open>n \<noteq> key\<close> False] unfolding tallied_def by simp
  qed
qed

lemma grown_settled:
  assumes ok: "fork_ok fc" and p: "info fc p = Some i" and key: "key \<notin> blocks fc" and n: "n \<in> blocks (grown key p fc)" "n \<noteq> p"
  shows "best_settled (grown key p fc) n" and "deepest_settled (grown key p fc) n"
proof -
  note tree = fork_okD(1) [OF ok]
  have "best_settled (grown key p fc) n \<and> deepest_settled (grown key p fc) n"
  proof (cases "n = key")
    case True
    then show ?thesis
      using grown_key(1) [OF p key tree, of p] p
      by (simp add: best_settled_def deepest_settled_def best_over_def deepest_over_def leaf_info_def fmlookup_dom_iff)
  next
    case False
    have nb: "n \<in> blocks fc" using n False unfolding grown_shape(1) [OF p key tree] by simp
    have s: "best_settled fc n" "deepest_settled fc n" using fork_okD(3) [OF ok nb] by (simp_all add: settled_parts)
    note reads = grown_reads [OF p key]
    have kids: "c \<noteq> key" if "c \<in> child_keys fc n" for c using grown_key(3) [OF p key tree nb] that by blast
    have "best_over (grown key p fc) n (child_keys fc n) x = best_over fc n (child_keys fc n) x" for x
      using kids reads(1-3) by (intro best_over_cong) simp
    moreover have "deepest_over (grown key p fc) n (child_keys fc n) x h = deepest_over fc n (child_keys fc n) x h" for x h
      using kids reads(2,4,5) by (intro deepest_over_cong) simp
    ultimately show ?thesis
      using s reads(1,3,4,5) [OF False] reads(8) [OF False n(2)] by (simp add: best_settled_def deepest_settled_def)
  qed
  then show "best_settled (grown key p fc) n" "deepest_settled (grown key p fc) n" by blast+
qed

lemma grown_outgrown:
  assumes ok: "fork_ok fc" and p: "info fc p = Some i" and key: "key \<notin> blocks fc"
  shows "outgrown (grown key p fc) key p"
proof -
  have pb: "p \<in> blocks fc" and ne: "p \<noteq> key" using p key by (auto simp: fmlookup_dom_iff)
  note gk = grown_key [OF p key fork_okD(1) [OF ok] pb] and reads = grown_reads [OF p key]
  obtain h where h: "fi_height (node fc p) = Suc h" "deepest_over fc p (child_keys fc p) (fi_deepest_slot (node fc p)) h"
    using fork_okD(3) [OF ok pb] unfolding settled_parts deepest_settled_def by blast
  have "\<forall>d \<in> child_keys fc p - {key}. fi_height (node (grown key p fc) d) = fi_height (node fc d) \<and>
      weight (grown key p fc) d = weight fc d \<and> fi_deepest_slot (node (grown key p fc) d) = fi_deepest_slot (node fc d)"
    using reads(2,4,5) by simp
  moreover have "child_keys fc p \<subseteq> insert key (child_keys fc p)" "insert key (child_keys fc p) - {key} \<subseteq> child_keys fc p" by blast+
  ultimately show ?thesis
    unfolding outgrown_def gk(2) using h gk(3) reads(4,5) [OF ne]
    by (intro exI [of _ fc] exI [of _ "child_keys fc p"] exI [of _ h]) simp
qed

section \<open>The first step\<close>

lemma best_child_loop_iff:
  "set cs \<subseteq> blocks fc \<Longrightarrow>
    best_child_loop fc c (weight fc c) cs = Ok (\<forall>d \<in> set cs. fi_is_candidate (node fc d) \<longrightarrow> \<not> heavier fc d c)"
proof (induction cs)
  case (Cons d cs)
  then obtain i where i: "info fc d = Some i" by (auto simp: fmlookup_dom_iff)
  have "best_child_loop fc c (weight fc c) (d # cs) =
      (if fi_is_candidate i \<and> heavier fc d c then Ok False else best_child_loop fc c (weight fc c) cs)"
    using i by (auto simp: stake_voted_subtree_def is_candidate_def heavier_def)
  then show ?case using Cons i by simp
qed simp

lemma is_best_child_grown:
  assumes ok: "fork_ok fc" and p: "info fc p = Some i" and key: "key \<notin> blocks fc" "fst p < fst key"
  shows "is_best_child (grown key p fc) key = Ok (\<forall>d \<in> candidates fc (child_keys fc p). \<not> heavier (grown key p fc) d key)"
proof -
  let ?fc = "grown key p fc"
  note tree = fork_okD(1) [OF ok]
  have pb: "p \<in> blocks fc" and ne: "p \<noteq> key" using p key by (auto simp: fmlookup_dom_iff)
  note gk = grown_key [OF p key(1) tree pb] and reads = grown_reads [OF p key(1)]
  let ?K = "insert key (child_keys fc p)"
  have kids: "set (sorted_list_of_fset (finsert key (fi_children i))) = ?K" using p by simp
  have "d \<in> blocks ?fc" if "d \<in> ?K" for d
    unfolding grown_shape(1) [OF p key(1) tree] using that child_keys_iff [OF pb] child_blocks [OF tree] by blast
  then have "best_child_loop ?fc key (weight ?fc key) (sorted_list_of_fset (finsert key (fi_children i))) =
      Ok (\<forall>d \<in> ?K. fi_is_candidate (node ?fc d) \<longrightarrow> \<not> heavier ?fc d key)"
    using best_child_loop_iff [of "sorted_list_of_fset (finsert key (fi_children i))" ?fc key] unfolding kids by blast
  moreover have "(\<forall>d \<in> ?K. fi_is_candidate (node ?fc d) \<longrightarrow> \<not> heavier ?fc d key) \<longleftrightarrow>
      (\<forall>d \<in> candidates fc (child_keys fc p). \<not> heavier ?fc d key)"
  proof -
    have "fi_is_candidate (node ?fc d) = fi_is_candidate (node fc d)" if "d \<in> child_keys fc p" for d
      using gk(3) that by (intro reads(1)) blast
    then show ?thesis using heavier.better_irrefl [of ?fc key] by blast
  qed
  ultimately show ?thesis
    using ne by (simp add: is_best_child_def stake_voted_subtree_def fork_parent_def fork_children_def grown_info [OF p key(1)] leaf_info_def)
qed

text \<open>The parent is settled when the new leaf is not its best child, or when it takes the new leaf as best slot.\<close>

lemma grown_parent:
  assumes ok: "fork_ok fc" and p: "info fc p = Some i" and key: "key \<notin> blocks fc" "fst p < fst key"
  shows "\<not> (\<forall>d \<in> candidates fc (child_keys fc p). \<not> heavier (grown key p fc) d key) \<Longrightarrow> best_settled (grown key p fc) p"
    and "\<forall>d \<in> candidates fc (child_keys fc p). \<not> heavier (grown key p fc) d key \<Longrightarrow>
      best_settled (put_info p ((node (grown key p fc) p)\<lparr>fi_best_slot := key\<rparr>) (grown key p fc)) p"
proof -
  let ?fc = "grown key p fc"
  let ?C = "candidates fc (child_keys fc p)"
  note tree = fork_okD(1) [OF ok]
  have pb: "p \<in> blocks fc" and ne: "p \<noteq> key" using p key by (auto simp: fmlookup_dom_iff)
  note gk = grown_key [OF p key(1) tree pb] and reads = grown_reads [OF p key(1)]
  have out: "d \<noteq> key" if "d \<in> ?C" for d using that gk(3) by blast
  have same: "heavier ?fc c d = heavier fc c d" if "c \<in> ?C" "d \<in> ?C" for c d
    using reads(2) [OF out [OF that(1)]] reads(2) [OF out [OF that(2)]] by (simp add: heavier_def)
  have C: "candidates ?fc (insert key (child_keys fc p)) = insert key ?C" if "fi_is_candidate (node fc p)"
  proof -
    have "fi_is_candidate (node ?fc key)" unfolding gk(1) using that p by (simp add: leaf_info_def fi_is_candidate_def)
    moreover have "fi_is_candidate (node ?fc d) = fi_is_candidate (node fc d)" if "d \<in> child_keys fc p" for d
      using gk(3) that by (intro reads(1)) blast
    ultimately show ?thesis by blast
  qed
  have best: "best_in (heavier ?fc) (insert key ?C) (if heavier ?fc key b then key else b)" if "best_in (heavier fc) ?C b" for b
  proof (rule heavier.best_insert)
    show "best_in (heavier ?fc) ?C b" using best_in_cong [of ?C "heavier ?fc" "heavier fc" b] same that by blast
    show "key \<notin> ?C" using gk(3) by blast
  qed
  show "best_settled ?fc p" if not: "\<not> (\<forall>d \<in> ?C. \<not> heavier ?fc d key)"
    unfolding best_settled_def
  proof
    assume "fi_is_candidate (node ?fc p)"
    then have cand: "fi_is_candidate (node fc p)" using reads(1) [OF ne] by simp
    have Cne: "?C \<noteq> {}" using not by blast
    have "best_over fc p (child_keys fc p) (fi_best_slot (node fc p))"
      using fork_okD(3) [OF ok pb] cand unfolding settled_parts best_settled_def by blast
    then obtain b where b: "best_in (heavier fc) ?C b" "fi_best_slot (node fc p) = fi_best_slot (node fc b)"
      unfolding best_over_def if_not_P [OF Cne] by blast
    have "\<not> heavier ?fc key b"
    proof
      assume kb: "heavier ?fc key b"
      obtain d where d: "d \<in> ?C" "heavier ?fc d key" using not by blast
      have "heavier ?fc d b" using heavier.better_trans [OF d(2) kb] .
      then have "d \<noteq> b" using heavier.better_irrefl by blast
      then have "heavier ?fc b d" using best_inD [OF b(1) d(1)] same best_in_mem [OF b(1)] d(1) by blast
      then show False using heavier.better_trans [OF \<open>heavier ?fc d b\<close>] heavier.better_irrefl by blast
    qed
    then have "best_in (heavier ?fc) (insert key ?C) b" using best [OF b(1)] by simp
    moreover have "fi_best_slot (node ?fc p) = fi_best_slot (node ?fc b)"
      using b(2) reads(3) [OF ne] reads(3) [OF out [OF best_in_mem [OF b(1)]]] by simp
    ultimately show "best_over ?fc p (child_keys ?fc p) (fi_best_slot (node ?fc p))"
      unfolding best_over_def gk(2) C [OF cand] if_not_P [OF insert_not_empty] by blast
  qed
  show "best_settled (put_info p ((node ?fc p)\<lparr>fi_best_slot := key\<rparr>) ?fc) p" if all: "\<forall>d \<in> ?C. \<not> heavier ?fc d key"
  proof -
    have "best_over ?fc p (insert key (child_keys fc p)) key" if cand: "fi_is_candidate (node fc p)"
    proof -
      have "best_in (heavier ?fc) (insert key ?C) key"
        using all heavier.better_irrefl [of ?fc key] by (subst heavier.best_in_iff) blast+
      moreover have "fi_best_slot (node ?fc key) = key" unfolding gk(1) by (simp add: leaf_info_def)
      ultimately show ?thesis unfolding best_over_def C [OF cand] if_not_P [OF insert_not_empty] by (intro exI [of _ key]) simp
    qed
    moreover have "best_over (put_info p ((node ?fc p)\<lparr>fi_best_slot := key\<rparr>) ?fc) p (insert key (child_keys fc p)) key =
        best_over ?fc p (insert key (child_keys fc p)) key"
      using not_own_child [OF tree p] p ne by (intro best_over_cong) auto
    ultimately show ?thesis
      using gk(2) reads(1) [OF ne] by (simp add: best_settled_def fi_is_candidate_def)
  qed
qed

section \<open>New leaves\<close>

lemma outgrown_put_best:
  assumes "info f a = Some i"
  shows "outgrown (put_info a (i\<lparr>fi_best_slot := b\<rparr>) f) c d = outgrown f c d"
proof -
  have "fi_height (node (put_info a (i\<lparr>fi_best_slot := b\<rparr>) f) m) = fi_height (node f m)"
    "weight (put_info a (i\<lparr>fi_best_slot := b\<rparr>) f) m = weight f m"
    "fi_deepest_slot (node (put_info a (i\<lparr>fi_best_slot := b\<rparr>) f) m) = fi_deepest_slot (node f m)"
    "child_keys (put_info a (i\<lparr>fi_best_slot := b\<rparr>) f) m = child_keys f m" for m
    using assms by (cases "m = a"; simp)+
  then show ?thesis unfolding outgrown_def by simp
qed

text \<open>The walk for the best slots leaves the deepest slots alone.\<close>

definition leaf_pending :: "SlotHashKey \<Rightarrow> SlotHashKey \<Rightarrow> HeaviestSubtreeForkChoice \<Rightarrow> HeaviestSubtreeForkChoice \<Rightarrow> bool" where
  "leaf_pending key p fc f \<longleftrightarrow> only_slots fc f \<and> (\<forall>n \<in> blocks fc - {p}. deepest_settled f n) \<and> outgrown f key p \<and>
     fi_height (node f key) = 1 \<and> fi_deepest_slot (node f key) = key"

lemma leaf_pending_put:
  assumes "leaf_pending key p fc f" and "info f a = Some i"
  shows "leaf_pending key p fc (put_info a (i\<lparr>fi_best_slot := b\<rparr>) f)"
proof -
  have "fi_height (node (put_info a (i\<lparr>fi_best_slot := b\<rparr>) f) key) = fi_height (node f key)"
    "fi_deepest_slot (node (put_info a (i\<lparr>fi_best_slot := b\<rparr>) f) key) = fi_deepest_slot (node f key)"
    using assms(2) by (cases "key = a"; simp)+
  moreover have "deepest_settled (put_info a (i\<lparr>fi_best_slot := b\<rparr>) f) n = deepest_settled f n" for n
    by (rule deepest_settled_put [OF assms(2)]) simp_all
  ultimately show ?thesis
    using assms outgrown_put_best [OF assms(2)] only_slots_put [OF _ assms(2)] by (simp add: leaf_pending_def fixed_fields_def)
qed

lemma fuel_below: "n \<in> blocks fc \<Longrightarrow> card {b \<in> blocks fc. b < n} < fcard (fmdom (fork_infos fc))"
  unfolding fcard.rep_eq by (rule psubset_card_mono) auto

lemma propagate_best_grown:
  assumes ok: "fork_ok fc" and p: "info fc p = Some i" and key: "key \<notin> blocks fc" "fst p < fst key"
    and best: "is_best_child (grown key p fc) key = Ok best"
  obtains f where "(if best then propagate_best_slot (rounds (grown key p fc)) key (fi_best_slot i) (Some p) else ret ()) (grown key p fc) = (Ok (), f)"
    and "leaf_pending key p (grown key p fc) f" and "sane f" and "\<forall>n \<in> blocks (grown key p fc). best_settled f n"
proof -
  let ?fc = "grown key p fc"
  let ?j = "i\<lparr>fi_children := finsert key (fi_children i)\<rparr>"
  let ?j' = "?j\<lparr>fi_best_slot := key\<rparr>"
  note tree = fork_okD(1) [OF ok]
  note shape = grown_shape [OF p key(1) tree]
  have pb: "p \<in> blocks fc" and ne: "p \<noteq> key" using p key by (auto simp: fmlookup_dom_iff)
  have j: "info ?fc p = Some ?j" by (simp add: grown_info [OF p key(1)])
  have tree': "tree_ok ?fc" using tree p key by (rule grown_tree_ok)
  have sane: "sane ?fc" using tree fork_okD(2) [OF ok] p key by (rule grown_sane)
  have pending: "leaf_pending key p ?fc ?fc"
    using grown_settled(2) [OF ok p key(1)] grown_outgrown [OF ok p key(1)] grown_key(1) [OF p key(1) tree pb]
    by (simp add: leaf_pending_def only_slots_refl leaf_info_def)
  note others = grown_settled(1) [OF ok p key(1)]
  show ?thesis
  proof (cases best)
    case False
    then have "best_settled ?fc p" using grown_parent(1) [OF ok p key] best is_best_child_grown [OF ok p key] by simp
    then have "\<forall>n \<in> blocks ?fc. best_settled ?fc n" using others by blast
    then show ?thesis using False pending sane by (intro that [of ?fc]) (simp_all add: exec_simps)
  next
    case True
    let ?f = "put_info p ?j' ?fc"
    have "(p, key) \<in> (child_of ?fc)\<^sup>*" unfolding shape by blast
    then have sane': "sane ?f" by (rule sane_put_best [OF sane j])
    have shape': "same_shape ?fc ?f" using j by (rule same_shape_put) simp_all
    note simps' = same_shape_simps [OF shape']
    have parent: "best_settled ?f p"
      using grown_parent(2) [OF ok p key] best is_best_child_grown [OF ok p key] True j by simp
    have others': "best_settled ?f n" if "n \<in> blocks ?f" "fi_parent ?j' \<noteq> Some n" for n
    proof (cases "n = p")
      case False
      have n: "n \<in> blocks ?fc" using that(1) False by simp
      have "p \<notin> child_keys ?fc n"
        using child_keys_iff [OF n] tree_child [OF tree', of n p] that(2) j by (auto simp: fork_parent_def)
      then have "best_settled ?f n = best_settled ?fc n" using False by (intro best_settled_away) auto
      then show ?thesis using others [OF n False] by simp
    qed (use parent in simp)
    have undo: "put_info p (?j'\<lparr>fi_best_slot := fi_best_slot i\<rparr>) ?f = ?fc" using put_info_undo [OF j, of ?j'] by (cases i) simp
    have above: "best_settled (put_info p (?j'\<lparr>fi_best_slot := fi_best_slot i\<rparr>) ?f) a" if a: "fi_parent ?j' = Some a" for a
    proof -
      have "fork_parent ?fc p = Some a" using a j by (simp add: fork_parent_def)
      then have "a \<in> blocks ?fc" "a < p" using tree_parent [OF tree', of p a] pb unfolding shape by auto
      then show ?thesis unfolding undo using others by auto
    qed
    have "(p, fi_best_slot i) \<in> (child_of ?f)\<^sup>*" unfolding simps' using sane_nodeD [OF sane j] by (simp add: sane_info_def)
    moreover have "card {b \<in> blocks ?f. b < p} < fcard (fmdom (fork_infos ?fc))"
      unfolding simps' using pb by (intro fuel_below) (simp add: shape)
    ultimately have "\<exists>f. propagate_best_slot (fcard (fmdom (fork_infos ?fc))) key (fi_best_slot i) (fi_parent ?j') ?f = (Ok (), f) \<and>
        leaf_pending key p ?fc f \<and> same_shape ?f f \<and> sane f \<and> (\<forall>n \<in> blocks ?f. best_settled f n)"
      using others' above leaf_pending_put [OF pending j] same_shape_tree_ok [OF shape'] tree' sane'
      by (intro propagate_best_slot_Ok [where P = "leaf_pending key p ?fc" and c = p, OF leaf_pending_put]) simp_all
    then obtain f where f: "propagate_best_slot (fcard (fmdom (fork_infos ?fc))) key (fi_best_slot i) (fi_parent ?j') ?f = (Ok (), f)"
      "leaf_pending key p ?fc f" "sane f" "\<forall>n \<in> blocks ?fc. best_settled f n" unfolding simps'(1) by blast
    show ?thesis by (rule that [OF _ f(2,3,4)]) (use f(1) j True in \<open>simp add: rounds_def\<close>)
  qed
qed

lemma add_new_leaf_slot_Ok:
  assumes ok: "fork_ok fc" and p: "p \<in> blocks fc" and key: "key \<notin> blocks fc" "fst p < fst key"
  obtains fc' where "add_new_leaf_slot key (Some p) fc = (Ok (), fc')" and "only_slots (grown key p fc) fc'" and "fork_ok fc'"
proof -
  let ?fc = "grown key p fc"
  obtain i where i: "info fc p = Some i" using p by (auto simp: fmlookup_dom_iff)
  note tree = fork_okD(1) [OF ok]
  note shape = grown_shape [OF i key(1) tree]
  have ne: "p \<noteq> key" using p key(1) by blast
  have tree': "tree_ok ?fc" using tree i key by (rule grown_tree_ok)
  obtain best where best: "is_best_child ?fc key = Ok best" using is_best_child_grown [OF ok i key] by blast
  obtain f where f: "(if best then propagate_best_slot (rounds ?fc) key (fi_best_slot i) (Some p) else ret ()) ?fc = (Ok (), f)"
    and pending: "leaf_pending key p ?fc f" and sane: "sane f" and bests: "\<forall>n \<in> blocks ?fc. best_settled f n"
    using propagate_best_grown [OF ok i key best] by blast
  have only: "only_slots ?fc f" using pending by (simp add: leaf_pending_def)
  note shape' = same_shape_simps [OF only_slots_shape [OF only]]
  have keyb: "key \<in> blocks ?fc" unfolding shape by simp
  obtain j where j: "info f key = Some j" "fi_parent j = Some p"
    using only_slots_node [OF only, of key "leaf_info key (Some p) (fi_latest_invalid_ancestor i)"] ne
    by (auto simp: grown_info [OF i key(1)] leaf_info_def)
  have leaf: "fi_height j = 1" "fi_deepest_slot j = key" using pending j(1) by (simp_all add: leaf_pending_def)
  define Q where "Q g \<longleftrightarrow> only_slots ?fc g \<and> sane g \<and> (\<forall>n \<in> blocks ?fc. best_settled g n)" for g
  have step: "Q (put_info a (i\<lparr>fi_deepest_slot := key, fi_height := h\<rparr>) g)" if g: "Q g" and a: "info g a = Some i" for g a i h
  proof -
    let ?i = "i\<lparr>fi_deepest_slot := key, fi_height := h\<rparr>"
    have "sane (put_info a ?i g)"
      using g sane_nodeD [OF _ a] by (intro sane_put [OF _ a] same_shape_put [OF a]) (simp_all add: Q_def sane_info_def fi_is_candidate_def)
    moreover have "best_settled (put_info a ?i g) n = best_settled g n" for n by (rule best_settled_put [OF a]) simp_all
    ultimately show ?thesis using g only_slots_put [OF _ a, of ?fc ?i] by (simp add: Q_def fixed_fields_def)
  qed
  have "card {b \<in> blocks f. b < key} < rounds f" using fuel_below [of key f] keyb unfolding shape' rounds_def by simp
  then have "\<exists>fc'. propagate_deepest_slot (rounds f) key (fi_parent j) key (fi_height j) f = (Ok (), fc') \<and> Q fc' \<and> same_shape f fc' \<and>
      (\<forall>n \<in> blocks f. deepest_settled fc' n)"
    using pending sane bests only j leaf same_shape_tree_ok [OF only_slots_shape [OF only]] tree'
    by (intro propagate_deepest_slot_Ok [where P = Q and c = key, OF step]) (auto simp: Q_def leaf_pending_def shape')
  then obtain fc' where run: "propagate_deepest_slot (rounds f) key (Some p) key 1 f = (Ok (), fc')" and Q: "Q fc'"
    and deep: "\<forall>n \<in> blocks ?fc. deepest_settled fc' n" using j leaf unfolding shape' by auto
  have only': "only_slots ?fc fc'" using Q by (simp add: Q_def)
  have "tallied fc' n" if "n \<in> blocks ?fc" for n
    using only_slots_tallied [OF only' that tree' grown_tallied [OF ok i key(1) that]] .
  then have "fork_ok fc'"
    using Q deep same_shape_tree_ok [OF only_slots_shape [OF only']] tree' same_shape_simps(1) [OF only_slots_shape [OF only']]
    unfolding fork_ok_def settled_parts Q_def by simp
  moreover have put: "fi_children_update (finsert key) i = i\<lparr>fi_children := finsert key (fi_children i)\<rparr>" by (cases i) simp
  have "add_new_leaf_slot key (Some p) fc = propagate_new_leaf key p ?fc"
    using key(1) i ne by (simp add: add_new_leaf_slot_def contains_block_def fmlookup_dom_iff with_info_def bind_exec_def grown_def
        latest_invalid_ancestor_def Let_def put)
  moreover have "propagate_new_leaf key p ?fc = (Ok (), fc')"
    using f run best shape'(5) ne
    by (simp add: propagate_new_leaf_def bind_exec_def gets_def best_slot_def grown_info [OF i key(1)])
  ultimately show ?thesis using that only' by simp
qed

end
