(* ===== verification/Fork_Marks.thy ===== *)
theory Fork_Marks
  imports Fork_Grow
begin

text \<open>
  Marks of invalid and valid forks: all blocks of the fork are marked, the fork is no longer picked, or is
  picked again.
\<close>

section \<open>The batch of a mark\<close>

lemma filter_insert_yes: "P a \<Longrightarrow> {x \<in> insert a S. P x} = insert a {x \<in> S. P x}"
  by auto

lemma filter_insert_all: "P a \<Longrightarrow> (\<And>x. x \<in> S \<Longrightarrow> P x) \<Longrightarrow> {x \<in> insert a S. P x} = insert a S"
  by auto

lemma collecting_mark:
  assumes c: "collecting fc N ops" and n: "n \<in> N" "(n, AggregateLabel) \<notin> fst ` set ops"
    and mark: "mark = MarkValid s \<or> mark = MarkInvalid s \<and> s \<le> fst n"
  shows "collecting fc N (btree_insert (n, AggregateLabel) Aggregate (btree_insert (n, label_of mark) mark ops))" (is "collecting fc N ?ops")
proof -
  have inv: "btree_inv ops" using c by (rule collecting_inv)
  note inv' = btree_inv_insert [OF inv, of "(n, label_of mark)" mark]
  have A: "aggregates ops \<subseteq> aggregates ?ops" "n \<in> aggregates ?ops" unfolding keys_btree_insert by blast+
  have "labelled (aggregates ?ops) x \<and> (fst (fst x) \<in> N \<or> parent_aggregated fc (aggregates ?ops) (fst (fst x)))" if x: "x \<in> set ?ops" for x
  proof -
    consider "x = ((n, AggregateLabel), Aggregate)" | "x = ((n, label_of mark), mark)" | "x \<in> set ops"
      using x unfolding set_btree_insert [OF inv'] set_btree_insert [OF inv] by blast
    then show ?thesis
    proof cases
      case 3
      then have "labelled (aggregates ops) x" and "fst (fst x) \<in> N \<or> parent_aggregated fc (aggregates ops) (fst (fst x))"
        using c unfolding collecting_def by blast+
      then show ?thesis using labelled_mono [OF _ A(1)] parent_aggregated_mono [OF _ A(1)] by blast
    next
      case 2
      have "labelled A ((n, label_of mark), mark)" if "n \<in> A" for A using that mark by (auto simp: labelled_def)
      then show ?thesis using A(2) n(1) 2 by simp
    qed (use n(1) in \<open>simp add: labelled_def\<close>)
  qed
  then show ?thesis using btree_inv_insert [OF inv'] unfolding collecting_def by blast
qed

lemma insert_for_subtree_Ok:
  assumes "collecting fc N ops" and "set keys \<subseteq> N" and "distinct keys" and "set keys \<inter> aggregates ops = {}"
    and "\<forall>k \<in> set keys. mark = MarkValid s \<or> mark = MarkInvalid s \<and> s \<le> fst k"
  shows "collecting fc N (insert_for_subtree mark keys ops) \<and> aggregates (insert_for_subtree mark keys ops) = aggregates ops \<union> set keys \<and>
    {x \<in> set (insert_for_subtree mark keys ops). snd x \<noteq> Aggregate} =
      {x \<in> set ops. snd x \<noteq> Aggregate} \<union> (\<lambda>k. ((k, label_of mark), mark)) ` set keys"
  using assms
proof (induction keys arbitrary: ops)
  case (Cons k keys)
  let ?mid = "btree_insert (k, label_of mark) mark ops"
  let ?ops = "btree_insert (k, AggregateLabel) Aggregate ?mid"
  have inv: "btree_inv ops" using Cons.prems(1) by (rule collecting_inv)
  note inv' = btree_inv_insert [OF inv, of "(k, label_of mark)" mark]
  have mark: "mark = MarkValid s \<or> mark = MarkInvalid s \<and> s \<le> fst k" using Cons.prems(5) list.set_intros(1) by (rule bspec)
  have away: "(k, AggregateLabel) \<notin> fst ` set ops" using Cons.prems(4) by auto
  have new: "(k, label_of mark) \<notin> fst ` set ops"
  proof
    assume "(k, label_of mark) \<in> fst ` set ops"
    then obtain operation where o: "((k, label_of mark), operation) \<in> set ops" by auto
    then have "labelled (aggregates ops) ((k, label_of mark), operation)" using Cons.prems(1) unfolding collecting_def by blast
    then have "k \<in> aggregates ops" using mark by (cases operation) (auto simp: labelled_def)
    then show False using Cons.prems(4) by auto
  qed
  have step: "insert_for_subtree mark (k # keys) ops = insert_for_subtree mark keys ?ops"
    using mark away by (auto simp: do_insert_aggregate_operation_def btree_get_key)
  have c: "collecting fc N ?ops" using Cons.prems(1,2) away mark by (intro collecting_mark) auto
  have different: "label_of mark \<noteq> AggregateLabel" "mark \<noteq> Aggregate" using mark by auto
  have others: "fst x \<noteq> (k, AggregateLabel)" "fst x \<noteq> (k, label_of mark)" if "x \<in> set ops" for x
    using away new imageI [OF that, of fst] by metis+
  have "{x \<in> set ops. fst x \<noteq> (k, label_of mark)} = set ops" using others(2) by blast
  moreover have "{x \<in> insert ((k, label_of mark), mark) (set ops). fst x \<noteq> (k, AggregateLabel)} = insert ((k, label_of mark), mark) (set ops)"
    using others(1) different(1) by (intro filter_insert_all) simp_all
  ultimately have sets: "set ?ops = insert ((k, AggregateLabel), Aggregate) (insert ((k, label_of mark), mark) (set ops))"
    unfolding set_btree_insert [OF inv'] set_btree_insert [OF inv] by simp
  have A: "aggregates ?ops = insert k (aggregates ops)" unfolding keys_btree_insert using different(1) by blast
  have M: "{x \<in> set ?ops. snd x \<noteq> Aggregate} = insert ((k, label_of mark), mark) {x \<in> set ops. snd x \<noteq> Aggregate}"
    unfolding sets using different(2) by (simp only: filter_insert_not filter_insert_yes snd_conv simp_thms not_True_eq_False)
  have "set keys \<inter> aggregates ?ops = {}" unfolding A using Cons.prems(3,4) by auto
  then show ?case
    unfolding step using Cons.IH [OF c] Cons.prems(2,3,5) unfolding A M by auto
qed simp

lemma mark_operations_Ok:
  assumes ok: "tree_ok fc" and key: "key \<in> blocks fc" "key \<noteq> (0, 0)" and mark: "mark = MarkValid (fst key) \<or> mark = MarkInvalid (fst key)"
  obtains ops where "mark_operations mark key fc = Ok ops" and "collecting fc {} ops"
    and "{x \<in> set ops. snd x \<noteq> Aggregate} = (\<lambda>k. ((k, label_of mark), mark)) ` subtree fc key"
proof -
  obtain r where r: "subtree_diff fc key (0, 0) = Ok r" "fset r = spared fc (0, 0) key" using subtree_diff_Ok [OF ok key(1)] by blast
  have "(key, (0, 0)) \<notin> (child_of fc)\<^sup>*"
  proof
    assume "(key, (0, 0)) \<in> (child_of fc)\<^sup>*"
    then have "fst key < fst (0, 0 :: Hash)" using descendant_le [OF _ ok, of key "(0, 0)"] key(2) [symmetric] by blast
    then show False by simp
  qed
  then have rset: "fset r = subtree fc key" unfolding r(2) spared_def by blast
  let ?keys = "sorted_list_of_fset r"
  have keys: "set ?keys = subtree fc key" "distinct ?keys" using rset by (simp_all add: sorted_list_of_fset.rep_eq)
  let ?ops = "insert_for_subtree mark ?keys []"
  have below: "fst key \<le> fst k" if "k \<in> set ?keys" for k
    using that descendant_le [OF _ ok, of key k] unfolding keys(1) by (cases "k = key") auto
  have marks: "\<forall>k \<in> set ?keys. mark = MarkValid (fst key) \<or> mark = MarkInvalid (fst key) \<and> fst key \<le> fst k"
    using mark below by blast
  have "set ?keys \<subseteq> subtree fc key" "set ?keys \<inter> aggregates [] = {}" using keys(1) by simp_all
  note inserted = insert_for_subtree_Ok [OF collecting_Nil this(1) keys(2) this(2) marks, of fc]
  have ops: "collecting fc (subtree fc key) ?ops" "aggregates ?ops = subtree fc key"
    "{x \<in> set ?ops. snd x \<noteq> Aggregate} = (\<lambda>k. ((k, label_of mark), mark)) ` subtree fc key"
    using inserted unfolding keys(1) by simp_all
  have inner: "parent_aggregated fc (aggregates ?ops) k" if "k \<in> subtree fc key" "k \<noteq> key" for k
    unfolding parent_aggregated_def ops(2)
  proof (intro allI impI)
    fix p assume p: "(p, k) \<in> child_of fc"
    have "(key, k) \<in> (child_of fc)\<^sup>*" using that(1) by simp
    then show "p \<in> subtree fc key"
    proof (cases rule: rtranclE)
      case (step q)
      then show ?thesis using child_unique [OF ok p step(2)] by simp
    qed (use that(2) in simp)
  qed
  have "fst (fst x) \<in> {key} \<or> parent_aggregated fc (aggregates ?ops) (fst (fst x))" if x: "x \<in> set ?ops" for x
  proof -
    have "fst (fst x) \<in> subtree fc key \<or> parent_aggregated fc (aggregates ?ops) (fst (fst x))"
      using ops(1) x unfolding collecting_def by blast
    then show ?thesis using inner [of "fst (fst x)"] by (cases "fst (fst x) = key") blast+
  qed
  then have c: "collecting fc {key} ?ops" using ops(1) unfolding collecting_def by blast
  obtain ops' where "insert_aggregate_operations fc key ?ops = Ok ops'" "collecting fc {} ops'" "same_but_aggregates ?ops ops'"
    using insert_aggregate_operations_Ok [OF ok c] by blast
  then show ?thesis using that [of ops'] r(1) ops(3) by (simp add: mark_operations_def same_but_aggregates_def)
qed

section \<open>The effect of a mark\<close>

lemma marks_at:
  assumes marks: "{x \<in> set ops. snd x \<noteq> Aggregate} = (\<lambda>k. ((k, label_of mark), mark)) ` K" and mark: "mark = MarkValid s \<or> mark = MarkInvalid s"
  shows "(\<Sum>operation \<leftarrow> operations_at n (rev ops). stake_delta operation) = 0"
    and "operation \<in> set (operations_at n (rev ops)) \<Longrightarrow> operation = Aggregate \<or> operation = mark"
    and "n \<in> K \<Longrightarrow> mark \<in> set (operations_at n (rev ops))"
proof -
  have other: "snd x = Aggregate \<or> snd x = mark \<and> fst (fst x) \<in> K" if "x \<in> set ops" for x
  proof (rule ccontr)
    assume no: "\<not> ?thesis"
    then have "x \<in> {x \<in> set ops. snd x \<noteq> Aggregate}" using that by blast
    then show False using no unfolding marks by auto
  qed
  have "stake_delta operation = 0" if at: "operation \<in> set (operations_at n (rev ops))" for operation
  proof -
    obtain x where "x \<in> set ops" "operation = snd x" using at by auto
    then show ?thesis using other [of x] mark by auto
  qed
  then have "map stake_delta (operations_at n (rev ops)) = map (\<lambda>_. 0) (operations_at n (rev ops))" by (intro map_cong refl)
  then show "(\<Sum>operation \<leftarrow> operations_at n (rev ops). stake_delta operation) = 0" by (simp only: sum_list_0)
  show "operation \<in> set (operations_at n (rev ops)) \<Longrightarrow> operation = Aggregate \<or> operation = mark"
    using other by auto
  assume "n \<in> K"
  then have "((n, label_of mark), mark) \<in> {x \<in> set ops. snd x \<noteq> Aggregate}" unfolding marks by blast
  then have "((n, label_of mark), mark) \<in> set (filter (\<lambda>x. fst (fst x) = n) (rev ops))" by simp
  then show "mark \<in> set (operations_at n (rev ops))" using image_eqI [of mark snd "((n, label_of mark), mark)"] by (simp only: set_map snd_conv)
qed

lemma confirmed_up:
  assumes ok: "fork_ok fc" and "(n, m) \<in> (child_of fc)\<^sup>*" and "fi_is_duplicate_confirmed (node fc m)"
  shows "fi_is_duplicate_confirmed (node fc n)"
  using assms(2,3)
proof (induction rule: converse_rtrancl_induct)
  case (step n c)
  have nb: "n \<in> blocks fc" using child_blocks [OF fork_okD(1) [OF ok] step(1)] by blast
  then have "c \<in> child_keys fc n" using step(1) child_keys_iff by blast
  then show ?case using fork_okD(3) [OF ok nb] step unfolding settled_def by blast
qed

lemma confirmed_candidate: "fork_ok fc \<Longrightarrow> n \<in> blocks fc \<Longrightarrow> fi_is_duplicate_confirmed (node fc n) \<Longrightarrow> fi_is_candidate (node fc n)"
  using fork_okD(2) unfolding sane_def by blast

lemma heaviest_is_candidate: "heaviest fc n b \<Longrightarrow> fi_is_candidate (node fc n) \<Longrightarrow> fi_is_candidate (node fc b)"
proof (induction rule: heaviest.induct)
  case (heaviest_child n c b)
  then show ?case using best_in_mem [OF heaviest_child(1)] by blast
qed

lemma heaviest_descends: "heaviest fc n b \<Longrightarrow> (n, b) \<in> (child_of fc)\<^sup>*"
proof (induction rule: heaviest.induct)
  case (heaviest_child n c b)
  have "(n, c) \<in> child_of fc" using best_in_mem [OF heaviest_child(1)] by blast
  then show ?case using heaviest_child(3) by (rule converse_rtrancl_into_rtrancl)
qed simp

lemma mark_fork_invalid_candidate_Ok:
  assumes ok: "fork_ok fc" and key: "key \<in> blocks fc" "key \<noteq> (0, 0)" and not: "\<not> fi_is_duplicate_confirmed (node fc key)"
  obtains fc' where "mark_fork_invalid_candidate key fc = (Ok (), fc')" and "fork_ok fc'" and "same_shape fc fc'"
    and "latest_votes fc' = latest_votes fc"
    and "\<And>n. n \<in> blocks fc \<Longrightarrow> fi_stake_voted_at (node fc' n) = fi_stake_voted_at (node fc n)"
    and "\<And>n. n \<in> subtree fc key \<Longrightarrow> \<not> fi_is_candidate (node fc' n)"
    and "\<And>n. n \<in> blocks fc \<Longrightarrow> n \<notin> subtree fc key \<Longrightarrow> fi_is_candidate (node fc n) \<Longrightarrow> fi_is_candidate (node fc' n)"
proof -
  let ?mark = "MarkInvalid (fst key)"
  let ?U = "subtree fc key"
  note tree = fork_okD(1) [OF ok]
  obtain ops where ops: "mark_operations ?mark key fc = Ok ops" "collecting fc {} ops"
    and marks: "{x \<in> set ops. snd x \<noteq> Aggregate} = (\<lambda>k. ((k, label_of ?mark), ?mark)) ` ?U"
    using mark_operations_Ok [OF tree key disjI2 [OF refl]] by blast
  have "child_of fc `` ?U \<subseteq> ?U" by (auto intro: rtrancl_into_rtrancl)
  moreover have conf: "\<not> fi_is_duplicate_confirmed (node fc n)" if "n \<in> ?U" for n
    using confirmed_up [OF ok, of key n] that not by blast
  ultimately have unconf: "unconfirmed ?U fc" unfolding unconfirmed_def by blast
  have "\<forall>x \<in> set ops. marks_ok ?U (fst (fst x)) (snd x)"
  proof
    fix x assume x: "x \<in> set ops"
    show "marks_ok ?U (fst (fst x)) (snd x)"
    proof (cases "snd x = Aggregate")
      case False
      then have "x \<in> (\<lambda>k. ((k, label_of ?mark), ?mark)) ` ?U" using x marks by blast
      then show ?thesis by (auto simp: marks_ok_def)
    qed (simp add: marks_ok_def)
  qed
  then obtain fc' where run: "process_update_operations ops fc = (Ok (), fc')" and eff: "effect ?U (rev ops) fc fc'" and ok': "fork_ok fc'"
    using process_update_operations_Ok [OF ok ops(2) unconf] by blast
  note at = marks_at [OF marks disjI2 [OF refl]]
  show ?thesis
  proof (rule that [of fc'])
    show "mark_fork_invalid_candidate key fc = (Ok (), fc')"
      using key(1) not ops(1) run by (auto simp: mark_fork_invalid_candidate_def fmlookup_dom_iff bind_exec_def)
    show "same_shape fc fc'" "latest_votes fc' = latest_votes fc" using eff by (simp_all add: effect_def)
    show "fi_stake_voted_at (node fc' n) = fi_stake_voted_at (node fc n)" if "n \<in> blocks fc" for n
      using effectD [OF eff that] unfolding node_effect_def at(1) by simp
    show "\<not> fi_is_candidate (node fc' n)" if n: "n \<in> ?U" for n
    proof -
      have "n \<in> blocks fc" using descendant_block [OF tree key(1)] n by blast
      then show ?thesis using effectD [OF eff, of n] conf [OF n] at(3) [OF n] n unfolding node_effect_def by auto
    qed
    show "fi_is_candidate (node fc' n)" if "n \<in> blocks fc" "n \<notin> ?U" "fi_is_candidate (node fc n)" for n
      using effectD [OF eff that(1)] that(2,3) unfolding node_effect_def fi_is_candidate_def by auto
  qed (rule ok')
qed

section \<open>Valid forks\<close>

lemma not_confirmed_Ok: "set keys \<subseteq> blocks fc \<Longrightarrow> not_confirmed fc keys = Ok (filter (\<lambda>k. \<not> fi_is_duplicate_confirmed (node fc k)) keys)"
proof (induction keys)
  case (Cons k keys)
  then obtain i where "info fc k = Some i" by (auto simp: fmlookup_dom_iff)
  then show ?case using Cons by (simp add: is_duplicate_confirmed_def)
qed simp

lemma mark_fork_valid_candidate_Ok:
  assumes ok: "fork_ok fc" and key: "key \<in> blocks fc" "key \<noteq> (0, 0)"
  obtains fc' ancestors where "mark_fork_valid_candidate key fc =
      (Ok (filter (\<lambda>n. \<not> fi_is_duplicate_confirmed (node fc n)) (key # ancestors)), fc')"
    and "set ancestors = {n. (n, key) \<in> (child_of fc)\<^sup>+}" and "fork_ok fc'" and "same_shape fc fc'"
    and "latest_votes fc' = latest_votes fc"
    and "\<And>n. n \<in> blocks fc \<Longrightarrow> fi_stake_voted_at (node fc' n) = fi_stake_voted_at (node fc n)"
    and "\<And>n. (n, key) \<in> (child_of fc)\<^sup>* \<Longrightarrow> fi_is_duplicate_confirmed (node fc' n) \<and> fi_is_candidate (node fc' n)"
    and "\<And>n s. n \<in> subtree fc key \<Longrightarrow> fi_latest_invalid_ancestor (node fc n) = Some s \<Longrightarrow> s \<le> fst key \<Longrightarrow> fi_is_candidate (node fc' n)"
    and "\<And>n. n \<in> blocks fc \<Longrightarrow> fi_is_candidate (node fc n) \<Longrightarrow> fi_is_candidate (node fc' n)"
proof -
  let ?mark = "MarkValid (fst key)"
  note tree = fork_okD(1) [OF ok]
  obtain as where as: "ancestor_iterator fc key = Ok as" "set as = {n. (n, key) \<in> (child_of fc)\<^sup>+}"
    using ancestor_iterator_Ok [OF tree key(1)] by blast
  have up: "n \<in> blocks fc" if "(n, key) \<in> (child_of fc)\<^sup>*" for n
    using that by (cases rule: converse_rtranclE) (use key(1) child_blocks [OF tree] in blast)+
  have "set (key # as) \<subseteq> blocks fc" using as(2) up key(1) by (auto dest: trancl_into_rtrancl)
  note newly = not_confirmed_Ok [OF this]
  obtain ops where ops: "mark_operations ?mark key fc = Ok ops" "collecting fc {} ops"
    and marks: "{x \<in> set ops. snd x \<noteq> Aggregate} = (\<lambda>k. ((k, label_of ?mark), ?mark)) ` subtree fc key"
    using mark_operations_Ok [OF tree key disjI1 [OF refl]] by blast
  have "\<forall>x \<in> set ops. marks_ok {} (fst (fst x)) (snd x)"
  proof
    fix x assume x: "x \<in> set ops"
    show "marks_ok {} (fst (fst x)) (snd x)"
    proof (cases "snd x = Aggregate")
      case False
      then have "x \<in> (\<lambda>k. ((k, label_of ?mark), ?mark)) ` subtree fc key" using x marks by blast
      then show ?thesis by (auto simp: marks_ok_def)
    qed (simp add: marks_ok_def)
  qed
  moreover have "unconfirmed {} fc" by (simp add: unconfirmed_def)
  ultimately obtain fc' where run: "process_update_operations ops fc = (Ok (), fc')" and eff: "effect {} (rev ops) fc fc'" and ok': "fork_ok fc'"
    using process_update_operations_Ok [OF ok ops(2)] by blast
  have shape: "same_shape fc fc'" using eff by (simp add: effect_def)
  note at = marks_at [OF marks disjI1 [OF refl]]
  have node: "node_effect False (fst n) (operations_at n (rev ops)) (node fc n) (node fc' n)" if "n \<in> blocks fc" for n
    using effectD [OF eff that] by simp
  have self: "fi_is_duplicate_confirmed (node fc' key)" using node [OF key(1)] at(3) [of key] unfolding node_effect_def by blast
  show ?thesis
  proof (rule that [of as fc'])
    show "mark_fork_valid_candidate key fc = (Ok (filter (\<lambda>n. \<not> fi_is_duplicate_confirmed (node fc n)) (key # as)), fc')"
      using as(1) newly ops(1) run by (simp add: mark_fork_valid_candidate_def bind_exec_def ret_def del: not_confirmed.simps filter.simps)
    show "latest_votes fc' = latest_votes fc" using eff by (simp add: effect_def)
    show "fi_stake_voted_at (node fc' n) = fi_stake_voted_at (node fc n)" if "n \<in> blocks fc" for n
      using node [OF that] unfolding node_effect_def at(1) by simp
    show "fi_is_duplicate_confirmed (node fc' n) \<and> fi_is_candidate (node fc' n)" if n: "(n, key) \<in> (child_of fc)\<^sup>*" for n
    proof -
      have "fi_is_duplicate_confirmed (node fc' n)"
        using confirmed_up [OF ok', of n key] n self unfolding same_shape_simps(2) [OF shape] by blast
      moreover have "n \<in> blocks fc'" using up [OF n] unfolding same_shape_simps(1) [OF shape] .
      ultimately show ?thesis using confirmed_candidate [OF ok'] by blast
    qed
    show "fi_is_candidate (node fc' n)"
      if n: "n \<in> subtree fc key" and s: "fi_latest_invalid_ancestor (node fc n) = Some s" "s \<le> fst key" for n s
    proof -
      have "n \<in> blocks fc" using descendant_block [OF tree key(1)] n by blast
      then show ?thesis using node [of n] at(3) [OF n] s unfolding node_effect_def fi_is_candidate_def by auto
    qed
    show "fi_is_candidate (node fc' n)" if "n \<in> blocks fc" "fi_is_candidate (node fc n)" for n
      using node [OF that(1)] that(2) unfolding node_effect_def fi_is_candidate_def by auto
  qed (rule as(2) ok' shape)+
qed

end
