(* ===== verification/Fork_Roots.thy ===== *)
theory Fork_Roots
  imports Fork_Marks
begin

text \<open>
  The first block of a tree, and \<open>set_tree_root\<close>, which keeps the subtree of the new root and drops the rest.
\<close>

lemma fork_choice_new_Ok:
  obtains fc where "fork_choice_new root = (Ok (), fc)" and "fork_ok fc" and "latest_votes fc = fmempty" and "tree_root fc = root"
    and "info fc root = Some (leaf_info root None None)" and "blocks fc = {root}"
proof -
  let ?fc = "\<lparr>fork_infos = fmupd root (leaf_info root None None) fmempty, latest_votes = fmempty, tree_root = root\<rparr>"
  have info: "info ?fc m = (if m = root then Some (leaf_info root None None) else None)" for m by simp
  have no_child: "child_of ?fc = {}" by (auto simp: child_of_def leaf_info_def split: if_splits)
  have "tree_ok ?fc"
    unfolding tree_ok_def no_child by (simp add: fork_parent_def leaf_info_def)
  moreover have "sane ?fc" unfolding sane_def no_child by (simp add: leaf_info_def fi_is_candidate_def)
  moreover have "settled ?fc root" by (simp add: settled_def leaf_info_def best_over_def deepest_over_def)
  ultimately have "fork_ok ?fc" by (simp add: fork_ok_def)
  then show ?thesis
    by (intro that [of ?fc]) (simp_all add: fork_choice_new_def add_new_leaf_slot_def contains_block_def)
qed

section \<open>A new root\<close>

lemma remove_blocks_Ok:
  "distinct keys \<Longrightarrow> set keys \<subseteq> blocks fc \<Longrightarrow> \<exists>fc'. remove_blocks keys fc = (Ok (), fc') \<and>
     (\<forall>n. info fc' n = (if n \<in> set keys then None else info fc n)) \<and> latest_votes fc' = latest_votes fc \<and> tree_root fc' = tree_root fc"
proof (induction keys arbitrary: fc)
  case (Cons k keys)
  let ?fc = "fork_infos_update (fmdrop k) fc"
  have "set keys \<subseteq> blocks ?fc" using Cons.prems by auto
  then obtain fc' where fc': "remove_blocks keys ?fc = (Ok (), fc')" "\<forall>n. info fc' n = (if n \<in> set keys then None else info ?fc n)"
    "latest_votes fc' = latest_votes ?fc" "tree_root fc' = tree_root ?fc"
    using Cons.IH [of ?fc] Cons.prems(1) by auto
  moreover have "contains_block fc k" using Cons.prems(2) by (auto simp: contains_block_def fmlookup_dom_iff)
  ultimately show ?case by (intro exI [of _ fc']) simp
qed (simp add: exec_simps)

text \<open>The part of a tree below a block.\<close>

definition rerooted :: "SlotHashKey \<Rightarrow> HeaviestSubtreeForkChoice \<Rightarrow> HeaviestSubtreeForkChoice \<Rightarrow> bool" where
  "rerooted r fc fc' \<longleftrightarrow> tree_root fc' = r \<and> latest_votes fc' = latest_votes fc \<and>
     (\<forall>n. info fc' n = (if n = r then map_option (\<lambda>i. i\<lparr>fi_parent := None\<rparr>) (info fc r) else if n \<in> subtree fc r then info fc n else None))"

lemma set_tree_root_Ok:
  assumes ok: "tree_ok fc" and r: "r \<in> blocks fc"
  obtains fc' where "set_tree_root r fc = (Ok (), fc')" and "rerooted r fc fc'"
proof -
  let ?root = "tree_root fc"
  obtain d where d: "subtree_diff fc ?root r = Ok d" "fset d = spared fc r ?root"
    using subtree_diff_Ok [OF ok tree_root_block [OF ok]] by blast
  let ?keys = "sorted_list_of_fset d"
  have keys: "set ?keys = blocks fc - subtree fc r"
  proof -
    have "spared fc r ?root = {m. (?root, m) \<in> (child_of fc)\<^sup>* \<and> (r, m) \<notin> (child_of fc)\<^sup>*}"
      unfolding spared_def using root_reaches [OF ok r] by blast
    moreover have "(?root, m) \<in> (child_of fc)\<^sup>* \<longleftrightarrow> m \<in> blocks fc" for m
      using root_reaches [OF ok, of m] descendant_block [OF ok tree_root_block [OF ok], of m] by blast
    ultimately have "spared fc r ?root = {m. m \<in> blocks fc \<and> (r, m) \<notin> (child_of fc)\<^sup>*}" by simp
    then show ?thesis using d(2) by auto
  qed
  then obtain fc1 where fc1: "remove_blocks ?keys fc = (Ok (), fc1)" "latest_votes fc1 = latest_votes fc"
    and "\<forall>n. info fc1 n = (if n \<in> set ?keys then None else info fc n)"
    using remove_blocks_Ok [of ?keys fc] by (auto simp: sorted_list_of_fset.rep_eq)
  then have info: "info fc1 n = (if n \<in> subtree fc r then info fc n else None)" for n
    unfolding keys by (cases "n \<in> blocks fc") (simp_all add: fmlookup_dom_iff)
  obtain i where i: "info fc r = Some i" using r by (auto simp: fmlookup_dom_iff)
  then have i1: "info fc1 r = Some i" using info [of r] by simp
  let ?fc' = "(put_info r (i\<lparr>fi_parent := None\<rparr>) fc1)\<lparr>tree_root := r\<rparr>"
  have "set_tree_root r fc = (Ok (), ?fc')"
    using d(1) fc1(1) i1 by (simp add: set_tree_root_def bind_exec_def with_info_def modify_def)
  moreover have "rerooted r fc ?fc'" using fc1(2) i info by (simp add: rerooted_def)
  ultimately show ?thesis by (rule that)
qed

lemma rerooted_shape:
  assumes ok: "tree_ok fc" and r: "r \<in> blocks fc" and new: "rerooted r fc fc'"
  shows "blocks fc' = subtree fc r" and "child_of fc' = {(p, c) \<in> child_of fc. p \<in> subtree fc r}"
    and "tree_root fc' = r" and "fork_parent fc' n = (if n = r then None else if n \<in> subtree fc r then fork_parent fc n else None)"
proof -
  obtain i where i: "info fc r = Some i" using r by (auto simp: fmlookup_dom_iff)
  have info: "info fc' n = (if n = r then Some (i\<lparr>fi_parent := None\<rparr>) else if n \<in> subtree fc r then info fc n else None)" for n
    using new i by (simp add: rerooted_def)
  have known: "n \<in> blocks fc" if "n \<in> subtree fc r" for n using descendant_block [OF ok r] that by blast
  have "n \<in> blocks fc' \<longleftrightarrow> n \<in> subtree fc r" for n
    using info [of n] known [of n] by (cases "n = r") (auto simp: fmlookup_dom_iff)
  then show "blocks fc' = subtree fc r" by blast
  show "tree_root fc' = r" using new by (simp add: rerooted_def)
  show "fork_parent fc' n = (if n = r then None else if n \<in> subtree fc r then fork_parent fc n else None)"
    using info [of n] by (simp add: fork_parent_def)
  have "(p, c) \<in> child_of fc' \<longleftrightarrow> (p, c) \<in> child_of fc \<and> p \<in> subtree fc r" for p c
    using info [of p] i by (cases "p = r") (simp_all add: child_of_def)
  then show "child_of fc' = {(p, c) \<in> child_of fc. p \<in> subtree fc r}" by blast
qed

lemma rerooted_rtrancl:
  assumes ok: "tree_ok fc" and r: "r \<in> blocks fc" and new: "rerooted r fc fc'" and n: "n \<in> subtree fc r" and "(n, m) \<in> (child_of fc)\<^sup>*"
  shows "(n, m) \<in> (child_of fc')\<^sup>*"
  using assms(5)
proof (induction rule: rtrancl_induct)
  case (step y z)
  have "y \<in> subtree fc r" using n step(1) by (auto intro: rtrancl_trans)
  then have "(y, z) \<in> child_of fc'" using step(2) unfolding rerooted_shape(2) [OF ok r new] by blast
  then show ?case using step(3) by (rule rtrancl_into_rtrancl [rotated])
qed simp

lemma rerooted_tree_ok:
  assumes ok: "tree_ok fc" and r: "r \<in> blocks fc" and new: "rerooted r fc fc'"
  shows "tree_ok fc'"
proof -
  note shape = rerooted_shape [OF ok r new]
  have up: "p \<in> subtree fc r" if "c \<in> subtree fc r" "c \<noteq> r" "(p, c) \<in> child_of fc" for p c
  proof -
    have "(r, c) \<in> (child_of fc)\<^sup>*" using that(1) by simp
    then show ?thesis
    proof (cases rule: rtranclE)
      case (step q)
      then show ?thesis using child_unique [OF ok that(3) step(2)] by simp
    qed (use that(2) in simp)
  qed
  have down: "c \<in> subtree fc r \<and> c \<noteq> r" if "p \<in> subtree fc r" "(p, c) \<in> child_of fc" for p c
  proof -
    have "r \<le> p" using descendant_le [OF _ ok, of r p] that(1) by blast
    moreover have "p < c" using child_less [OF ok that(2)] by blast
    ultimately show ?thesis using that by (auto intro: rtrancl_into_rtrancl)
  qed
  have known: "n \<in> blocks fc" if "n \<in> subtree fc r" for n using descendant_block [OF ok r] that by blast
  have parent: "fork_parent fc c = Some p \<longleftrightarrow> (p, c) \<in> child_of fc" if "c \<in> subtree fc r" for p c
    using tree_child [OF ok] known [OF that] by blast
  show ?thesis
    unfolding tree_ok_def shape
  proof (intro conjI allI ballI)
    fix p c
    show "(p, c) \<in> {(p, c) \<in> child_of fc. p \<in> subtree fc r} \<longleftrightarrow> p \<in> subtree fc r \<and> c \<in> subtree fc r \<and>
        (if c = r then None else if c \<in> subtree fc r then fork_parent fc c else None) = Some p"
      using down [of p c] parent [of c p] by auto
    show "c \<in> subtree fc r \<and> (if c = r then None else if c \<in> subtree fc r then fork_parent fc c else None) = Some p \<longrightarrow>
        p \<in> subtree fc r \<and> fst p < fst c"
      using up [of c p] parent [of c p] child_less [OF ok, of p c] by auto
  next
    fix c assume c: "c \<in> subtree fc r"
    have "fork_parent fc c \<noteq> None" if "c \<noteq> r"
    proof
      assume "fork_parent fc c = None"
      then have "c = tree_root fc" using tree_root_iff [OF ok known [OF c]] by simp
      then have "c \<le> r" using descendant_le [OF root_reaches [OF ok r] ok] by blast
      moreover have "r \<le> c" using descendant_le [OF _ ok, of r c] c by blast
      ultimately show False using that by simp
    qed
    then show "((if c = r then None else if c \<in> subtree fc r then fork_parent fc c else None) = None) = (c = r)" using c by simp
  qed simp
qed

lemma rerooted_fork_ok:
  assumes ok: "fork_ok fc" and r: "r \<in> blocks fc" and new: "rerooted r fc fc'"
  shows "fork_ok fc'"
proof -
  note tree = fork_okD(1) [OF ok]
  note shape = rerooted_shape [OF tree r new]
  have tree': "tree_ok fc'" using tree r new by (rule rerooted_tree_ok)
  obtain i where i: "info fc r = Some i" using r by (auto simp: fmlookup_dom_iff)
  have info: "info fc' n = (if n = r then Some (i\<lparr>fi_parent := None\<rparr>) else if n \<in> subtree fc r then info fc n else None)" for n
    using new i by (simp add: rerooted_def)
  have node: "sane_info fc n (node fc' n) = sane_info fc n (node fc n)" "settled_info fc n (node fc' n) = settled_info fc n (node fc n)"
    "fi_children (node fc' n) = fi_children (node fc n)" if "n \<in> subtree fc r" for n
    using info [of n] i that by (cases "n = r"; simp add: sane_info_def settled_info_def fi_is_candidate_def)+
  have known: "n \<in> blocks fc" if "n \<in> subtree fc r" for n using descendant_block [OF tree r] that by blast
  have "sane_info fc' n (node fc' n)" if n: "n \<in> subtree fc r" for n
  proof -
    have "sane_info fc n (node fc' n)" using fork_okD(2) [OF ok] known [OF n] node(1) [OF n] by (simp add: sane_iff)
    then show ?thesis using rerooted_rtrancl [OF tree r new n] by (simp add: sane_info_def)
  qed
  then have "sane fc'" unfolding sane_iff shape(1) by blast
  moreover have "settled fc' n" if n: "n \<in> subtree fc r" for n
  proof -
    have "info fc' c = info fc c" if c: "c |\<in>| fi_children (node fc' n)" for c
    proof -
      have nc: "(n, c) \<in> child_of fc" using c child_keys_iff [OF known [OF n]] node(3) [OF n] by auto
      then have "n < c" using child_less [OF tree] by blast
      moreover have "r \<le> n" using descendant_le [OF _ tree, of r n] n by blast
      moreover have "c \<in> subtree fc r" using n nc by (auto intro: rtrancl_into_rtrancl)
      ultimately show ?thesis using info [of c] by auto
    qed
    then have "settled_info fc' n (node fc' n) = settled_info fc n (node fc' n)" by (rule settled_info_cong)
    then show ?thesis using fork_okD(3) [OF ok known [OF n]] node(2) [OF n] by (simp add: settled_iff)
  qed
  ultimately show ?thesis using tree' unfolding fork_ok_def shape(1) by blast
qed

end
