(* ===== verification/Fork_Properties.thy ===== *)
theory Fork_Properties
  imports Fork_Roots
begin

text \<open>
  The fork choice as a state machine, and the properties of its reachable states: the cached stakes and best
  slots are those of the latest votes, and votes and marks change the choice as they should.
\<close>

section \<open>Reachable states\<close>

text \<open>
  A leaf goes below a known block with an earlier slot and has no votes yet; a batch of votes has one vote for
  each voter at most; a block that is marked is known and not the default key, which the traversal of the
  subtree takes for the end of it, and one that is marked invalid is not confirmed.
\<close>

inductive fork_reach :: "EpochStakes \<Rightarrow> EpochSchedule \<Rightarrow> HeaviestSubtreeForkChoice \<Rightarrow> bool" for epoch_stakes epoch_schedule where
  reach_new: "fork_reach epoch_stakes epoch_schedule (snd (fork_choice_new root))"
| reach_leaf: "fork_reach epoch_stakes epoch_schedule fc \<Longrightarrow> contains_block fc p \<Longrightarrow> fst p < fst key \<Longrightarrow> voters fc key = {} \<Longrightarrow>
    fork_reach epoch_stakes epoch_schedule (snd (add_new_leaf_slot key (Some p) fc))"
| reach_votes: "fork_reach epoch_stakes epoch_schedule fc \<Longrightarrow> distinct (map fst votes) \<Longrightarrow>
    fork_reach epoch_stakes epoch_schedule (snd (add_votes epoch_stakes epoch_schedule votes fc))"
| reach_invalid: "fork_reach epoch_stakes epoch_schedule fc \<Longrightarrow> is_duplicate_confirmed fc key = Some False \<Longrightarrow> key \<noteq> (0, 0) \<Longrightarrow>
    fork_reach epoch_stakes epoch_schedule (snd (mark_fork_invalid_candidate key fc))"
| reach_valid: "fork_reach epoch_stakes epoch_schedule fc \<Longrightarrow> contains_block fc key \<Longrightarrow> key \<noteq> (0, 0) \<Longrightarrow>
    fork_reach epoch_stakes epoch_schedule (snd (mark_fork_valid_candidate key fc))"
| reach_root: "fork_reach epoch_stakes epoch_schedule fc \<Longrightarrow> contains_block fc r \<Longrightarrow>
    fork_reach epoch_stakes epoch_schedule (snd (set_tree_root r fc))"

definition votes_counted :: "EpochStakes \<Rightarrow> EpochSchedule \<Rightarrow> HeaviestSubtreeForkChoice \<Rightarrow> bool" where
  "votes_counted epoch_stakes epoch_schedule fc \<longleftrightarrow>
     (\<forall>n \<in> blocks fc. fi_stake_voted_at (node fc n) = voted_stake epoch_stakes epoch_schedule fc n)"

lemma contains_block_iff: "contains_block fc n \<longleftrightarrow> n \<in> blocks fc"
  by (auto simp: contains_block_def fmlookup_dom_iff)

lemma voted_stake_cong: "latest_votes fc' = latest_votes fc \<Longrightarrow> voted_stake epoch_stakes epoch_schedule fc' = voted_stake epoch_stakes epoch_schedule fc"
  by (simp add: voted_stake_def voters_def fun_eq_iff)

lemma leaf_votes_counted:
  assumes ok: "fork_ok fc" and counted: "votes_counted epoch_stakes epoch_schedule fc" and i: "info fc p = Some i"
    and key: "key \<notin> blocks fc" "voters fc key = {}" and only: "only_slots (grown key p fc) fc'"
  shows "votes_counted epoch_stakes epoch_schedule fc'"
proof -
  let ?fc = "grown key p fc"
  note tree = fork_okD(1) [OF ok]
  note shape = grown_shape [OF i key(1) tree]
  have p: "p \<in> blocks fc" using i by (auto simp: fmlookup_dom_iff)
  have "latest_votes fc' = latest_votes fc" using only shape(5) by (simp add: only_slots_def)
  then have voted: "voted_stake epoch_stakes epoch_schedule fc' = voted_stake epoch_stakes epoch_schedule fc" by (rule voted_stake_cong)
  have "blocks fc' = blocks ?fc" using same_shape_simps(1) [OF only_slots_shape [OF only]] by simp
  then have "blocks fc' = insert key (blocks fc)" unfolding shape(1) .
  moreover have "fi_stake_voted_at (node fc' n) = voted_stake epoch_stakes epoch_schedule fc n" if n: "n \<in> insert key (blocks fc)" for n
  proof -
    have "n \<in> blocks ?fc" using n unfolding shape(1) .
    then obtain j where j: "info ?fc n = Some j" by (auto simp: fmlookup_dom_iff)
    obtain j' where "info fc' n = Some j'" "fi_stake_voted_at j' = fi_stake_voted_at j" using only_slots_node [OF only j] by blast
    then have same: "fi_stake_voted_at (node fc' n) = fi_stake_voted_at (node ?fc n)" using j by simp
    show ?thesis
    proof (cases "n = key")
      case True
      then show ?thesis using grown_key(1) [OF i key(1) tree p] key(2) unfolding same by (simp add: leaf_info_def voted_stake_def)
    next
      case False
      then show ?thesis using grown_reads(6) [OF i key(1) False] counted n unfolding same votes_counted_def by simp
    qed
  qed
  ultimately show ?thesis unfolding votes_counted_def voted by blast
qed

lemma shape_votes_counted:
  assumes "votes_counted epoch_stakes epoch_schedule fc" and "same_shape fc fc'" and "latest_votes fc' = latest_votes fc"
    and "\<And>n. n \<in> blocks fc \<Longrightarrow> fi_stake_voted_at (node fc' n) = fi_stake_voted_at (node fc n)"
  shows "votes_counted epoch_stakes epoch_schedule fc'"
proof -
  have "blocks fc' = blocks fc" using same_shape_simps(1) [OF assms(2)] by simp
  then show ?thesis using assms(1,4) voted_stake_cong [OF assms(3), of epoch_stakes epoch_schedule] unfolding votes_counted_def by simp
qed

lemma root_votes_counted:
  assumes ok: "tree_ok fc" and "votes_counted epoch_stakes epoch_schedule fc" and r: "r \<in> blocks fc" and new: "rerooted r fc fc'"
  shows "votes_counted epoch_stakes epoch_schedule fc'"
proof -
  obtain i where i: "info fc r = Some i" using r by (auto simp: fmlookup_dom_iff)
  have "latest_votes fc' = latest_votes fc" using new by (simp add: rerooted_def)
  then have voted: "voted_stake epoch_stakes epoch_schedule fc' = voted_stake epoch_stakes epoch_schedule fc" by (rule voted_stake_cong)
  have "fi_stake_voted_at (node fc' n) = voted_stake epoch_stakes epoch_schedule fc n" if n: "n \<in> subtree fc r" for n
  proof -
    have "n \<in> blocks fc" using descendant_block [OF ok r] n by blast
    then have "fi_stake_voted_at (node fc n) = voted_stake epoch_stakes epoch_schedule fc n" using assms(2) by (simp add: votes_counted_def)
    moreover have "fi_stake_voted_at (node fc' n) = fi_stake_voted_at (node fc n)"
      using n new i by (cases "n = r") (simp_all add: rerooted_def)
    ultimately show ?thesis by simp
  qed
  then show ?thesis unfolding votes_counted_def rerooted_shape(1) [OF ok r new] voted by blast
qed

lemma fork_reach_ok: "fork_reach epoch_stakes epoch_schedule fc \<Longrightarrow> fork_ok fc \<and> votes_counted epoch_stakes epoch_schedule fc"
proof (induction rule: fork_reach.induct)
  case (reach_new root)
  obtain fc where "fork_choice_new root = (Ok (), fc)" "fork_ok fc" "latest_votes fc = fmempty"
    "info fc root = Some (leaf_info root None None)" "blocks fc = {root}" using fork_choice_new_Ok [of root] by blast
  then show ?case by (simp add: votes_counted_def voted_stake_def voters_def leaf_info_def)
next
  case (reach_leaf fc p key)
  have ok: "fork_ok fc" and p: "p \<in> blocks fc" using reach_leaf.IH reach_leaf.hyps(2) by (simp_all add: contains_block_iff)
  show ?case
  proof (cases "key \<in> blocks fc")
    case True
    then show ?thesis using reach_leaf.IH by (simp add: add_new_leaf_slot_def contains_block_iff)
  next
    case False
    obtain i where i: "info fc p = Some i" using p by (auto simp: fmlookup_dom_iff)
    obtain fc' where "add_new_leaf_slot key (Some p) fc = (Ok (), fc')" "only_slots (grown key p fc) fc'" "fork_ok fc'"
      by (rule add_new_leaf_slot_Ok [OF ok p False reach_leaf.hyps(3)])
    then show ?thesis using leaf_votes_counted [OF ok _ i False reach_leaf.hyps(4)] reach_leaf.IH by simp
  qed
next
  case (reach_votes fc votes)
  have ok: "fork_ok fc" and counted: "votes_counted epoch_stakes epoch_schedule fc" using reach_votes.IH by simp_all
  show ?case
  proof (rule add_votes_Ok [OF ok reach_votes.hyps(2), of epoch_stakes epoch_schedule])
    fix fc' b
    assume run: "add_votes epoch_stakes epoch_schedule votes fc = (Ok b, fc')" and "fork_ok fc'" and shape: "same_shape fc fc'"
      and moved: "\<And>n. n \<in> blocks fc \<Longrightarrow> fi_stake_voted_at (node fc' n) - voted_stake epoch_stakes epoch_schedule fc' n =
           fi_stake_voted_at (node fc n) - voted_stake epoch_stakes epoch_schedule fc n"
    have "fi_stake_voted_at (node fc' n) = voted_stake epoch_stakes epoch_schedule fc' n" if "n \<in> blocks fc" for n
      using moved [OF that] counted that by (simp add: votes_counted_def)
    then have "votes_counted epoch_stakes epoch_schedule fc'"
      unfolding votes_counted_def same_shape_simps(1) [OF shape] by blast
    then show ?thesis using run \<open>fork_ok fc'\<close> by simp
  qed
next
  case (reach_invalid fc key)
  have ok: "fork_ok fc" and key: "key \<in> blocks fc" "\<not> fi_is_duplicate_confirmed (node fc key)"
    using reach_invalid by (auto simp: is_duplicate_confirmed_def fmlookup_dom_iff)
  have counted: "votes_counted epoch_stakes epoch_schedule fc" using reach_invalid.IH by simp
  show ?case
  proof (rule mark_fork_invalid_candidate_Ok [OF ok key(1) reach_invalid.hyps(3) key(2)])
    fix fc' assume run: "mark_fork_invalid_candidate key fc = (Ok (), fc')" "fork_ok fc'" and "same_shape fc fc'" "latest_votes fc' = latest_votes fc"
      "\<And>n. n \<in> blocks fc \<Longrightarrow> fi_stake_voted_at (node fc' n) = fi_stake_voted_at (node fc n)"
    from shape_votes_counted [OF counted this(3-5)] run show ?thesis by simp
  qed
next
  case (reach_valid fc key)
  have ok: "fork_ok fc" and key: "key \<in> blocks fc" using reach_valid by (simp_all add: contains_block_iff)
  have counted: "votes_counted epoch_stakes epoch_schedule fc" using reach_valid.IH by simp
  show ?case
  proof (rule mark_fork_valid_candidate_Ok [OF ok key reach_valid.hyps(3)])
    fix fc' as assume run: "mark_fork_valid_candidate key fc = (Ok (filter (\<lambda>n. \<not> fi_is_duplicate_confirmed (node fc n)) (key # as)), fc')" "fork_ok fc'"
      and "same_shape fc fc'" "latest_votes fc' = latest_votes fc" "\<And>n. n \<in> blocks fc \<Longrightarrow> fi_stake_voted_at (node fc' n) = fi_stake_voted_at (node fc n)"
    from shape_votes_counted [OF counted this(3-5)] run show ?thesis by simp
  qed
next
  case (reach_root fc r)
  have ok: "fork_ok fc" and r: "r \<in> blocks fc" using reach_root by (simp_all add: contains_block_iff)
  obtain fc' where "set_tree_root r fc = (Ok (), fc')" "rerooted r fc fc'" by (rule set_tree_root_Ok [OF fork_okD(1) [OF ok] r])
  then show ?case
    using rerooted_fork_ok [OF ok r] root_votes_counted [OF fork_okD(1) [OF ok] _ r] reach_root.IH by simp
qed

lemma is_candidate_node: "n \<in> blocks fc \<Longrightarrow> is_candidate fc n = Some (fi_is_candidate (node fc n))"
  by (auto simp: is_candidate_def fmlookup_dom_iff)

lemma is_confirmed_node: "n \<in> blocks fc \<Longrightarrow> is_duplicate_confirmed fc n = Some (fi_is_duplicate_confirmed (node fc n))"
  by (auto simp: is_duplicate_confirmed_def fmlookup_dom_iff)

lemma stake_at_node: "n \<in> blocks fc \<Longrightarrow> stake_voted_at fc n = Some (fi_stake_voted_at (node fc n))"
  by (auto simp: stake_voted_at_def fmlookup_dom_iff)

lemma is_confirmed_block: "is_duplicate_confirmed fc n = Some x \<Longrightarrow> n \<in> blocks fc"
  by (auto simp: is_duplicate_confirmed_def fmlookup_dom_iff)

lemma same_blocks: "same_shape fc fc' \<Longrightarrow> n \<in> blocks fc' \<longleftrightarrow> n \<in> blocks fc"
  using same_shape_simps(1) by simp

section \<open>A tree of two blocks\<close>

text \<open>A concrete state, at which the properties are applied below.\<close>

definition two_blocks :: HeaviestSubtreeForkChoice where
  "two_blocks = snd (add_new_leaf_slot (2, 2) (Some (1, 1)) (snd (fork_choice_new (1, 1))))"

lemma one_block: "snd (fork_choice_new root) =
    \<lparr>fork_infos = fmupd root (leaf_info root None None) fmempty, latest_votes = fmempty, tree_root = root\<rparr>"
  by (simp add: fork_choice_new_def add_new_leaf_slot_def contains_block_def)

lemma two_blocks_eval:
  "info two_blocks (1, 1) = Some ((leaf_info (1, 1) None None)\<lparr>fi_height := 2, fi_best_slot := (2, 2), fi_deepest_slot := (2, 2),
     fi_children := {|(2, 2)|}\<rparr>)"
  "info two_blocks (2, 2) = Some (leaf_info (2, 2) (Some (1, 1)) None)" "latest_votes two_blocks = fmempty" "tree_root two_blocks = (1, 1)"
  unfolding two_blocks_def one_block
  by (simp_all add: add_new_leaf_slot_def contains_block_def with_info_def bind_exec_def latest_invalid_ancestor_def leaf_info_def
      propagate_new_leaf_def best_slot_def gets_def is_best_child_def stake_voted_subtree_def fork_parent_def fork_children_def
      is_candidate_def fi_is_candidate_def rounds_def ret_def is_deepest_child_def fork_height_def cmp_def card_insert_if
      sorted_list_of_fset.rep_eq fcard.rep_eq)

lemma two_blocks_reach: "fork_reach epoch_stakes epoch_schedule two_blocks"
  unfolding two_blocks_def
  by (intro reach_leaf reach_new) (simp_all add: one_block contains_block_def voters_def)

abbreviation equal_stakes :: EpochStakes where
  "equal_stakes \<equiv> \<lambda>_. Some (\<lambda>_. 10)"

abbreviation short_epochs :: EpochSchedule where
  "short_epochs \<equiv> \<lparr>slots_per_epoch = 32, leader_schedule_slot_offset = 32, warmup = False, first_normal_epoch = 0, first_normal_slot = 0\<rparr>"

section \<open>Properties\<close>

text \<open>
  C6: In every reachable state of the fork choice, the cached stake of a block is the stake of the latest votes
  for the blocks of its subtree, the cached best slot of a candidate is the block that the reference definition
  of the heaviest fork gives, a confirmed block is a candidate, and the walks to the ancestors of a block and
  through its subtree come to an end within as many rounds as there are blocks, and one more.
\<close>

theorem fork_choice_reachable:
  assumes "fork_reach epoch_stakes epoch_schedule fc"
  shows "(\<forall>n. contains_block fc n \<longrightarrow>
      stake_voted_subtree fc n = Some (\<Sum>m \<in> subtree fc n. voted_stake epoch_stakes epoch_schedule fc m)) \<and>
    (\<forall>n b. is_candidate fc n = Some True \<longrightarrow> (best_slot fc n = Some b \<longleftrightarrow> heaviest fc n b)) \<and>
    (\<forall>n. is_duplicate_confirmed fc n = Some True \<longrightarrow> is_candidate fc n = Some True) \<and>
    (\<forall>n. contains_block fc n \<longrightarrow> (\<exists>as. ancestor_iterator fc n = Ok as \<and> set as = {a. (a, n) \<in> (child_of fc)\<^sup>+})) \<and>
    (\<forall>n m. contains_block fc n \<longrightarrow> (\<exists>d. subtree_diff fc n m = Ok d))"
proof -
  have ok: "fork_ok fc" and counted: "votes_counted epoch_stakes epoch_schedule fc" using fork_reach_ok [OF assms] by simp_all
  note tree = fork_okD(1) [OF ok]
  have stake: "stake_voted_subtree fc n = Some (\<Sum>m \<in> subtree fc n. voted_stake epoch_stakes epoch_schedule fc m)" if n: "n \<in> blocks fc" for n
  proof -
    have "subtree_stake fc n = (\<Sum>m \<in> subtree fc n. voted_stake epoch_stakes epoch_schedule fc m)"
      unfolding subtree_stake_def using counted descendant_block [OF tree n] by (intro sum.cong) (simp_all add: votes_counted_def)
    then show ?thesis using weight_subtree_stake [OF ok n] n by (auto simp: stake_voted_subtree_def fmlookup_dom_iff)
  qed
  have best: "best_slot fc n = Some b \<longleftrightarrow> heaviest fc n b" if "is_candidate fc n = Some True" for n b
    using best_slot_heaviest_iff [OF ok that, of b] by blast
  have cand: "is_candidate fc n = Some True" if "is_duplicate_confirmed fc n = Some True" for n
    using that is_confirmed_node [OF is_confirmed_block [OF that]] is_candidate_node [OF is_confirmed_block [OF that]]
      confirmed_candidate [OF ok is_confirmed_block [OF that]] by simp
  have up: "\<exists>as. ancestor_iterator fc n = Ok as \<and> set as = {a. (a, n) \<in> (child_of fc)\<^sup>+}" if "n \<in> blocks fc" for n
    by (rule ancestor_iterator_Ok [OF tree that]) (intro exI conjI)
  have down: "\<exists>d. subtree_diff fc n m = Ok d" if "n \<in> blocks fc" for n m
    by (rule subtree_diff_Ok [OF tree that, of m]) (rule exI)
  show ?thesis
    unfolding contains_block_iff by (intro conjI allI impI; (rule stake best cand up down)?; assumption)
qed

theorem fork_choice_reachable_witness:
  "fork_reach equal_stakes short_epochs two_blocks \<and> contains_block two_blocks (1, 1) \<and> is_candidate two_blocks (1, 1) = Some True \<and>
   heaviest two_blocks (1, 1) (2, 2) \<and> is_duplicate_confirmed two_blocks (1, 1) = Some True \<and>
   stake_voted_subtree two_blocks (1, 1) = Some (\<Sum>m \<in> subtree two_blocks (1, 1). voted_stake equal_stakes short_epochs two_blocks m)"
proof -
  have eval: "contains_block two_blocks (1, 1)" "is_candidate two_blocks (1, 1) = Some True" "best_slot two_blocks (1, 1) = Some (2, 2)"
    "is_duplicate_confirmed two_blocks (1, 1) = Some True"
    by (simp_all add: contains_block_def is_candidate_def best_slot_def is_duplicate_confirmed_def two_blocks_eval leaf_info_def fi_is_candidate_def)
  from fork_choice_reachable [OF two_blocks_reach, of equal_stakes short_epochs] eval two_blocks_reach show ?thesis by blast
qed

text \<open>
  C2: A batch of votes with one vote for each voter at most is processed without a panic. The latest vote of a
  voter is replaced by its new vote unless that is older than the root or outdated, the stake at each block is
  that of the latest votes for it, and the answer is the one block that the reference definition of the heaviest
  fork gives, if the root is a candidate.
\<close>

theorem add_votes_heaviest:
  assumes "fork_reach epoch_stakes epoch_schedule fc" and "is_candidate fc (tree_root fc) = Some True" and "distinct (map fst votes)"
  shows "\<exists>fc' b. add_votes epoch_stakes epoch_schedule votes fc = (Ok b, fc') \<and> tree_root fc' = tree_root fc \<and>
    (\<forall>b'. heaviest fc' (tree_root fc) b' \<longleftrightarrow> b' = b) \<and>
    (\<forall>pubkey. fmlookup (latest_votes fc') pubkey =
       (case map_of votes pubkey of
          Some v \<Rightarrow> if fst v < fst (tree_root fc) \<or> is_outdated_vote (fmlookup (latest_votes fc) pubkey) v
                     then fmlookup (latest_votes fc) pubkey else Some v
        | None \<Rightarrow> fmlookup (latest_votes fc) pubkey)) \<and>
    (\<forall>n. contains_block fc n \<longrightarrow> stake_voted_at fc' n = Some (voted_stake epoch_stakes epoch_schedule fc' n))"
proof -
  have ok: "fork_ok fc" using fork_reach_ok [OF assms(1)] by simp
  show ?thesis
  proof (rule add_votes_Ok [OF ok assms(3), of epoch_stakes epoch_schedule])
    fix fc' b
    assume run: "add_votes epoch_stakes epoch_schedule votes fc = (Ok b, fc')" and ok': "fork_ok fc'" and shape: "same_shape fc fc'"
      and latest: "latest_votes fc' = record_votes (fst (tree_root fc)) votes (latest_votes fc)"
      and cand: "\<And>n. is_candidate fc n = Some True \<Longrightarrow> is_candidate fc' n = Some True" and best: "best_slot fc' (tree_root fc) = Some b"
    have "votes_counted epoch_stakes epoch_schedule fc'" using fork_reach_ok [OF reach_votes [OF assms(1,3)]] run by simp
    then have "stake_voted_at fc' n = Some (voted_stake epoch_stakes epoch_schedule fc' n)" if "n \<in> blocks fc" for n
      using that same_blocks [OF shape, of n] stake_at_node [of n fc'] by (simp add: votes_counted_def)
    moreover have "heaviest fc' (tree_root fc) b' \<longleftrightarrow> b' = b" for b'
      using best_slot_heaviest_iff [OF ok' cand [OF assms(2)]] best by auto
    ultimately show ?thesis
      using run same_shape_simps(4) [OF shape] by (intro exI [of _ fc'] exI [of _ b]) (simp add: contains_block_iff latest record_votes_get [OF assms(3)])
  qed
qed

theorem add_votes_heaviest_witness:
  "fork_reach equal_stakes short_epochs two_blocks \<and> is_candidate two_blocks (tree_root two_blocks) = Some True \<and>
   distinct (map fst [(7 :: Pubkey, (2 :: Slot, 2 :: Hash))]) \<and>
   (\<exists>fc' b. add_votes equal_stakes short_epochs [(7, (2, 2))] two_blocks = (Ok b, fc') \<and> heaviest fc' (1, 1) b \<and>
      fmlookup (latest_votes fc') 7 = Some (2, 2))"
proof -
  have hyps: "is_candidate two_blocks (tree_root two_blocks) = Some True" "distinct (map fst [(7 :: Pubkey, (2 :: Slot, 2 :: Hash))])"
    by (simp_all add: is_candidate_def two_blocks_eval leaf_info_def fi_is_candidate_def)
  from add_votes_heaviest [OF two_blocks_reach hyps, of equal_stakes short_epochs] obtain fc' b where
    run: "add_votes equal_stakes short_epochs [(7, (2, 2))] two_blocks = (Ok b, fc')" and "\<forall>b'. heaviest fc' (tree_root two_blocks) b' \<longleftrightarrow> b' = b"
    and "\<forall>pubkey. fmlookup (latest_votes fc') pubkey =
       (case map_of [(7, (2, 2))] pubkey of
          Some v \<Rightarrow> if fst v < fst (tree_root two_blocks) \<or> is_outdated_vote (fmlookup (latest_votes two_blocks) pubkey) v
                     then fmlookup (latest_votes two_blocks) pubkey else Some v
        | None \<Rightarrow> fmlookup (latest_votes two_blocks) pubkey)" by (elim exE conjE) (rule that)
  then have "heaviest fc' (1, 1) b" "fmlookup (latest_votes fc') 7 = Some (2, 2)"
    by (simp_all add: two_blocks_eval is_outdated_vote_def)
  then show ?thesis using run hyps two_blocks_reach by blast
qed

text \<open>
  C9: A block that is not confirmed can be marked as invalid without a panic. No block of its subtree is then a
  candidate, all other candidates stay candidates, and the fork choice is the heaviest fork outside of the
  subtree, if the root is still a candidate.
\<close>

theorem mark_invalid_avoided:
  assumes "fork_reach epoch_stakes epoch_schedule fc" and "is_duplicate_confirmed fc key = Some False" and "key \<noteq> (0, 0)"
  shows "\<exists>fc'. mark_fork_invalid_candidate key fc = (Ok (), fc') \<and>
    (\<forall>n \<in> subtree fc key. is_candidate fc' n = Some False) \<and>
    (\<forall>n. n \<notin> subtree fc key \<and> is_candidate fc n = Some True \<longrightarrow> is_candidate fc' n = Some True) \<and>
    (is_candidate fc' (tree_root fc') = Some True \<longrightarrow>
      (\<exists>b. best_overall_slot fc' = Ok b \<and> heaviest fc' (tree_root fc') b \<and> contains_block fc b \<and> b \<notin> subtree fc key))"
proof -
  have ok: "fork_ok fc" using fork_reach_ok [OF assms(1)] by simp
  have key: "key \<in> blocks fc" "\<not> fi_is_duplicate_confirmed (node fc key)"
    using assms(2) is_confirmed_block [OF assms(2)] by (simp_all add: is_confirmed_node)
  show ?thesis
  proof (rule mark_fork_invalid_candidate_Ok [OF ok key(1) assms(3) key(2)])
    fix fc'
    assume run: "mark_fork_invalid_candidate key fc = (Ok (), fc')" and ok': "fork_ok fc'" and shape: "same_shape fc fc'"
      and marked: "\<And>n. n \<in> subtree fc key \<Longrightarrow> \<not> fi_is_candidate (node fc' n)"
      and others: "\<And>n. n \<in> blocks fc \<Longrightarrow> n \<notin> subtree fc key \<Longrightarrow> fi_is_candidate (node fc n) \<Longrightarrow> fi_is_candidate (node fc' n)"
    have known: "n \<in> blocks fc'" if "n \<in> subtree fc key" for n
      using descendant_block [OF fork_okD(1) [OF ok] key(1), of n] that same_blocks [OF shape] by blast
    have gone: "is_candidate fc' n = Some False" if "n \<in> subtree fc key" for n
      using marked [OF that] is_candidate_node [OF known [OF that]] by simp
    have stay: "is_candidate fc' n = Some True" if "n \<notin> subtree fc key" "is_candidate fc n = Some True" for n
    proof -
      have n: "n \<in> blocks fc" "fi_is_candidate (node fc n)" using that(2) by (auto simp: is_candidate_def fmlookup_dom_iff)
      then show ?thesis using others [OF n(1) that(1) n(2)] is_candidate_node [of n fc'] same_blocks [OF shape] by simp
    qed
    have pick: "\<exists>b. best_overall_slot fc' = Ok b \<and> heaviest fc' (tree_root fc') b \<and> contains_block fc b \<and> b \<notin> subtree fc key"
      if cand: "is_candidate fc' (tree_root fc') = Some True"
    proof -
      obtain i where i: "info fc' (tree_root fc') = Some i" "fi_is_candidate i" using cand by (auto simp: is_candidate_def)
      let ?b = "fi_best_slot i"
      have b: "heaviest fc' (tree_root fc') ?b" using best_slot_heaviest_iff [OF ok' cand, of ?b] i(1) by (simp add: best_slot_def)
      have "?b \<in> blocks fc"
        using descendant_block [OF fork_okD(1) [OF ok'] tree_root_block [OF fork_okD(1) [OF ok']] heaviest_descends [OF b]]
        unfolding same_shape_simps(1) [OF shape] .
      moreover have "fi_is_candidate (node fc' ?b)" using heaviest_is_candidate [OF b] i by simp
      then have "?b \<notin> subtree fc key" using marked by blast
      ultimately show ?thesis using b i(1) by (intro exI [of _ ?b]) (simp add: best_overall_slot_def best_slot_def contains_block_iff)
    qed
    show ?thesis
      by (intro exI [of _ fc'] conjI ballI allI impI run) (erule gone, erule conjE, erule stay, assumption, erule pick)
  qed
qed

theorem mark_invalid_avoided_witness:
  "fork_reach equal_stakes short_epochs two_blocks \<and> is_duplicate_confirmed two_blocks (2, 2) = Some False \<and>
   ((2, 2) :: SlotHashKey) \<noteq> (0, 0) \<and>
   (\<exists>fc'. mark_fork_invalid_candidate (2, 2) two_blocks = (Ok (), fc') \<and> is_candidate fc' (2, 2) = Some False)"
proof -
  have hyps: "is_duplicate_confirmed two_blocks (2, 2) = Some False" "((2, 2) :: SlotHashKey) \<noteq> (0, 0)"
    by (simp_all add: is_duplicate_confirmed_def two_blocks_eval leaf_info_def)
  from mark_invalid_avoided [OF two_blocks_reach hyps] obtain fc' where
    "mark_fork_invalid_candidate (2, 2) two_blocks = (Ok (), fc')" and "\<forall>n \<in> subtree two_blocks (2, 2). is_candidate fc' n = Some False"
    by (elim exE conjE) (rule that)
  then have "mark_fork_invalid_candidate (2, 2) two_blocks = (Ok (), fc') \<and> is_candidate fc' (2, 2) = Some False" by simp
  then show ?thesis using hyps two_blocks_reach by blast
qed

text \<open>
  C12: A known block can always be marked as valid. It and all its ancestors are then confirmed and candidates,
  whatever had been marked invalid before, and so is every block below it that had no invalid ancestor later
  than it; no candidate is lost, and the answer names the blocks that are newly confirmed.
\<close>

theorem mark_valid_restores:
  assumes "fork_reach epoch_stakes epoch_schedule fc" and "contains_block fc key" and "key \<noteq> (0, 0)"
  shows "\<exists>newly fc'. mark_fork_valid_candidate key fc = (Ok newly, fc') \<and>
    set newly = {n. (n, key) \<in> (child_of fc)\<^sup>* \<and> is_duplicate_confirmed fc n = Some False} \<and>
    (\<forall>n. (n, key) \<in> (child_of fc)\<^sup>* \<longrightarrow> is_duplicate_confirmed fc' n = Some True \<and> is_candidate fc' n = Some True) \<and>
    (\<forall>n \<in> subtree fc key. \<forall>s. latest_invalid_ancestor fc n = Some s \<and> s \<le> fst key \<longrightarrow> is_candidate fc' n = Some True) \<and>
    (\<forall>n. is_candidate fc n = Some True \<longrightarrow> is_candidate fc' n = Some True)"
proof -
  have ok: "fork_ok fc" using fork_reach_ok [OF assms(1)] by simp
  have key: "key \<in> blocks fc" using assms(2) by (simp add: contains_block_iff)
  note tree = fork_okD(1) [OF ok]
  have up: "n \<in> blocks fc" if "(n, key) \<in> (child_of fc)\<^sup>*" for n
    using that by (cases rule: converse_rtranclE) (use key child_blocks [OF tree] in blast)+
  show ?thesis
  proof (rule mark_fork_valid_candidate_Ok [OF ok key assms(3)])
    fix fc' as
    let ?newly = "filter (\<lambda>n. \<not> fi_is_duplicate_confirmed (node fc n)) (key # as)"
    assume run: "mark_fork_valid_candidate key fc = (Ok ?newly, fc')" and as: "set as = {n. (n, key) \<in> (child_of fc)\<^sup>+}"
      and shape: "same_shape fc fc'"
      and conf: "\<And>n. (n, key) \<in> (child_of fc)\<^sup>* \<Longrightarrow> fi_is_duplicate_confirmed (node fc' n) \<and> fi_is_candidate (node fc' n)"
      and below: "\<And>n s. n \<in> subtree fc key \<Longrightarrow> fi_latest_invalid_ancestor (node fc n) = Some s \<Longrightarrow> s \<le> fst key \<Longrightarrow> fi_is_candidate (node fc' n)"
      and kept: "\<And>n. n \<in> blocks fc \<Longrightarrow> fi_is_candidate (node fc n) \<Longrightarrow> fi_is_candidate (node fc' n)"
    have "set (key # as) = {n. (n, key) \<in> (child_of fc)\<^sup>*}" using as by (auto simp: rtrancl_eq_or_trancl)
    then have new: "set ?newly = {n. (n, key) \<in> (child_of fc)\<^sup>* \<and> is_duplicate_confirmed fc n = Some False}"
      unfolding set_filter using up is_confirmed_node by auto
    have upward: "is_duplicate_confirmed fc' n = Some True \<and> is_candidate fc' n = Some True" if "(n, key) \<in> (child_of fc)\<^sup>*" for n
      using conf [OF that] up [OF that] same_blocks [OF shape] by (simp add: is_confirmed_node is_candidate_node)
    have downward: "is_candidate fc' n = Some True"
      if "n \<in> subtree fc key" "latest_invalid_ancestor fc n = Some s" "s \<le> fst key" for n s
    proof -
      have n: "n \<in> blocks fc" using descendant_block [OF tree key] that(1) by blast
      then have "fi_latest_invalid_ancestor (node fc n) = Some s" using that(2) by (auto simp: latest_invalid_ancestor_def fmlookup_dom_iff)
      then show ?thesis using below [OF that(1) _ that(3)] n same_blocks [OF shape] by (simp add: is_candidate_node)
    qed
    have stay: "is_candidate fc' n = Some True" if "is_candidate fc n = Some True" for n
    proof -
      have "n \<in> blocks fc" "fi_is_candidate (node fc n)" using that by (auto simp: is_candidate_def fmlookup_dom_iff)
      then show ?thesis using kept same_blocks [OF shape] by (simp add: is_candidate_node)
    qed
    show ?thesis
      using run new upward downward stay by (intro exI [of _ ?newly] exI [of _ fc']) simp
  qed
qed

theorem mark_valid_restores_witness:
  "fork_reach equal_stakes short_epochs two_blocks \<and> contains_block two_blocks (2, 2) \<and> ((2, 2) :: SlotHashKey) \<noteq> (0, 0) \<and>
   (\<exists>newly fc'. mark_fork_valid_candidate (2, 2) two_blocks = (Ok newly, fc') \<and> is_duplicate_confirmed fc' (2, 2) = Some True)"
proof -
  have hyps: "contains_block two_blocks (2, 2)" "((2, 2) :: SlotHashKey) \<noteq> (0, 0)" by (simp_all add: contains_block_def two_blocks_eval)
  from mark_valid_restores [OF two_blocks_reach hyps] obtain newly fc' where
    "mark_fork_valid_candidate (2, 2) two_blocks = (Ok newly, fc')"
    and "\<forall>n. (n, (2, 2)) \<in> (child_of two_blocks)\<^sup>* \<longrightarrow> is_duplicate_confirmed fc' n = Some True \<and> is_candidate fc' n = Some True"
    by (elim exE conjE) (rule that)
  then have "mark_fork_valid_candidate (2, 2) two_blocks = (Ok newly, fc') \<and> is_duplicate_confirmed fc' (2, 2) = Some True" by simp
  then show ?thesis using hyps two_blocks_reach by blast
qed

end
