(* ===== verification/Spec2Isabelle.thy ===== *)
theory Spec2Isabelle
  imports Short_Vec Varint Program_Error Vote_Authority Vote_Proposal Nonce_Properties System_Properties Vote_Process_Authority Fork_Properties
begin

text \<open>
  A verification development for the execution and voting core of the validator (all paths below are
  relative to \<open>src/\<close>).

  \<^bold>\<open>The program.\<close> A validator executes the messages of transactions: the runtime loads the accounts of
  a transaction into a transaction context, pushes one instruction after the other on its stack, lets a
  program change accounts through borrowed handles, and checks on the way back that the instruction did
  not create or destroy lamports. Two of the builtin programs are modelled: the system program, with its
  durable nonces, and the vote program, which keeps the tower of lockouts of a validator. Around them are
  the sysvars they read, the schedule of epochs, the compute budget, the rent, and the compact encodings
  of messages. From the votes of all validators, the fork choice picks the block that the validator builds
  on: it keeps the tree of the blocks with the stake that voted for each of them.

  \<^bold>\<open>Conventions\<close> (theory \<open>Prelude\<close>). A machine integer is a word of its width; \<open>usize\<close> values that
  count or index a collection in memory are natural numbers. A function that can fail returns
  \<open>('a, 'e) result\<close>, which is \<open>Ok\<close>, \<open>Err\<close> or \<open>Panic\<close>; one that changes a state is an \<open>exec\<close>, a function
  from a state to its result and the state after it, which is also given when it fails. \<open>bind_exec\<close> is the
  \<open>?\<close> operator. A structure is a record, an enumeration a datatype with the constructors of the source,
  renamed only where two of them clash. Keys and hashes are words of 256 bits, strings and seeds are
  lists of bytes. Logging, metrics and timings are left out; a lookup that is made only for a log message
  is kept where it can fail.

  \<^bold>\<open>Theories and sources.\<close>

  \<^item> \<open>Codec\<close>, \<open>Short_Vec\<close>, \<open>Varint\<close>: \<open>sdk/program/src/short_vec.rs\<close> and \<open>serde_varint.rs\<close>. The locales
    \<open>stream_codec\<close> and \<open>canonical_codec\<close> state what an encoding promises; both encodings are
    interpretations. Decoding is exact: it accepts the encodings and nothing else.
  \<^item> \<open>Sdk_Types\<close>, \<open>Program_Error\<close>: the errors of \<open>sdk/program/src/instruction.rs\<close> and
    \<open>program_error.rs\<close>, and their way from a program to the runtime and back.
  \<^item> \<open>BTree_Map\<close> (locale \<open>ordered_map\<close>), \<open>Search\<close>: the parts of the standard library that the vote state uses.
  \<^item> \<open>Authorized_Voters\<close>, \<open>Vote_State\<close>: \<open>sdk/program/src/vote/authorized_voters.rs\<close> and
    \<open>vote/state/mod.rs\<close>. \<open>Vote_Tower\<close> shows that no lockout is broken and that the root only moves
    forward, \<open>Vote_Rewards\<close> what credits and commission amount to, \<open>Vote_Authority\<close> who may vote.
  \<^item> \<open>Slot_Sysvars\<close>: \<open>slot_hashes.rs\<close> and \<open>slot_history.rs\<close>; the ring of bits refines the set of slots.
  \<^item> \<open>Vote_Update\<close>: \<open>programs/vote/src/vote_state/mod.rs\<close>, the processing of votes and of proposed towers.
    \<open>Vote_Checks\<close> relates the two-pointer checks to the slot hashes, \<open>Vote_Replace\<close> and \<open>Vote_Proposal\<close>
    show that an accepted tower is well formed and breaks no lockout.
  \<^item> \<open>Vote_Versions\<close>, \<open>Vote_Account\<close>, \<open>Vote_Program\<close>: the stored versions of a vote state
    (\<open>vote/state/vote_state_versions.rs\<close>), the operations on vote accounts and the entrypoint
    (\<open>programs/vote/src/vote_processor.rs\<close>). \<open>Vote_Guarantees\<close> places the program within the guarantees of
    the runtime, \<open>Vote_Process_Authority\<close> shows whose signature each change needs; the locales
    \<open>vote_handler\<close> and \<open>vote_withdrawal\<close> carry the proof through the handlers.
  \<^item> \<open>Epoch_Schedule\<close>, \<open>Rent\<close>: \<open>epoch_schedule.rs\<close> and \<open>rent.rs\<close>; floating point numbers are rationals
    that are rounded to 53 bits after every operation.
  \<^item> \<open>Account\<close>, \<open>Transaction_Context\<close>, \<open>Borrowed_Account\<close>: \<open>sdk/src/account.rs\<close> and
    \<open>sdk/src/transaction_context.rs\<close>. \<open>Runtime_Guarantees\<close> collects, in the locales
    \<open>transition_guarantee\<close>, \<open>borrow_guarantee\<close> and \<open>account_guarantee\<close>, what a relation between the
    transactions before and after a step needs so that every program keeps it; \<open>Instruction_Stack\<close> shows
    that the stack stays well formed.
  \<^item> \<open>Sysvar_Cache\<close>, \<open>Compute_Budget\<close>: \<open>program-runtime/src/sysvar_cache.rs\<close> and
    \<open>compute_budget_processor.rs\<close>, with the prioritization fee.
  \<^item> \<open>Invoke_Context\<close>: \<open>program-runtime/src/invoke_context.rs\<close>. \<open>Invocation\<close> shows that an invocation
    escalates no privilege, \<open>Cross_Program\<close> that runs of programs conserve lamports and change only
    writable accounts, to any depth of invocations, \<open>Reentrancy\<close> that no program is reentered through
    another one.
  \<^item> \<open>Message_Processor\<close>: \<open>program-runtime/src/message_processor.rs\<close>; the property of whole messages is in
    this theory.
  \<^item> \<open>Pubkey_Seed\<close>: \<open>sdk/program/src/hash.rs\<close> and \<open>pubkey.rs\<close>, derived addresses.
  \<^item> \<open>Nonce\<close>, \<open>System_Program\<close>: \<open>sdk/program/src/nonce\<close>, \<open>programs/system/src\<close>. \<open>Account_Authority\<close>,
    \<open>System_Guarantees\<close>, \<open>System_Authority\<close>, \<open>System_Transfer\<close>, \<open>System_Properties\<close> and
    \<open>Nonce_Properties\<close> show whose signature each change needs and the exact effect of transfers and of
    advancing a nonce; \<open>Account_Runs\<close> has the exact runs of the account operations.
  \<^item> \<open>Fork_Choice\<close>, \<open>Fork_Updates\<close>: \<open>core/src/consensus/heaviest_subtree_fork_choice.rs\<close> and
    \<open>tree_diff.rs\<close>. \<open>Fork_Tree\<close> has the facts of the tree; \<open>Fork_Aggregate\<close>, with the locale \<open>ranking\<close>,
    and \<open>Fork_Process\<close> show that a batch of operations settles all blocks again, \<open>Fork_Batch\<close> that the
    batches that are collected are of the right form, \<open>Fork_Votes\<close> what votes add and subtract,
    \<open>Fork_Heaviest\<close> that the cached best slots are those of the reference definition. \<open>Fork_Leaf\<close> and
    \<open>Fork_Grow\<close> treat new leaves, \<open>Fork_Marks\<close> valid and invalid forks, \<open>Fork_Roots\<close> new roots, and
    \<open>Fork_Properties\<close> the reachable states and the properties. Sets and maps that the code goes through in
    the order of their hashes are gone through in the order of their keys, where the order does not matter.

  \<^bold>\<open>Parameters.\<close> Code of other packages is an argument of the definitions that use it: the bincode
  formats (record \<open>bincode\<close> with the laws \<open>bincode_laws\<close>) and the decoders of instructions and sysvars, the
  borsh decoder of compute budget requests, SHA-256, the test whether a point is on the curve, the bit
  vector of the slot history, the set of enabled features, and the builtin programs that a message calls.
  The laws that a property assumes are satisfied by a concrete function in its witness.

  \<^bold>\<open>Bounds and fuel.\<close> Loops are structural or have a termination proof, so most functions are total. The
  decoder of short lengths reads at most three bytes and the search for a program address tries the 255
  bump seeds from 255 down to 1, as the code does. The walks through the tree of blocks have
  as many rounds as there are blocks, and one more; running out of them counts as a panic, and the
  properties show that it does not happen. Splitting and pruning of trees have the same fuel, and no
  property is stated about them.

  \<^bold>\<open>Not modelled.\<close> The virtual machine and the programs that run in it (rbpf is another package), the
  verification of precompiled signatures, and the loaders, stake, config and address lookup table programs.
  Of the vote state, the hand-written parser and the compact serde form of updates; of the accounts, the
  sharing of data vectors, which is not observable. The bank, the accounts database, the ledger, the
  networking, gossip, repair and RPC services, the command line tools and the clients are concurrent code
  around I/O, and are not part of this development.
\<close>

text \<open>
  C10: A message that is processed successfully leaves the lamports of its transaction as they were and
  the stack of instructions as it was, if every builtin program stays within the interface of the
  runtime; the system program does.
\<close>

theorem process_message_conserves_lamports:
  assumes "programs_ok programs" and "transaction_ok tc"
    and "\<forall>entry \<in> set (zip (sm_program_instructions message) program_indices). entry_small entry"
    and "process_message programs is_active message program_indices compute_budget sysvar_cache blockhash lamports_per_signature
           (tc, units) = (Ok (), tc', units')"
  shows "total_lamports tc' = total_lamports tc \<and> tc_instruction_stack tc' = tc_instruction_stack tc"
proof -
  let ?ivc = "invoke_context_new tc sysvar_cache compute_budget blockhash lamports_per_signature"
  obtain ivc' where loop: "process_message_loop programs is_active message 0
      (zip (sm_program_instructions message) program_indices) (?ivc, units) = (Ok (), ivc', units')"
    and tc': "tc' = ivc_transaction_context ivc'"
    using assms(4) by (auto simp: process_message_def split: prod.splits)
  have "ivc_transaction_context ?ivc = tc" by (simp add: invoke_context_new_def)
  then show ?thesis using message_loop_transaction [OF loop assms(1) _ assms(3)] assms(2) tc' by simp
qed

theorem process_message_conserves_lamports_witness:
  "\<exists>tc' units'. process_message payment_programs (\<lambda>_. False) payment_message [[2]] compute_budget_default sysvar_cache_default 0 0
     (payment 100 5, 0) = (Ok (), tc', units') \<and> total_lamports tc' = total_lamports (payment 100 5)"
proof -
  obtain tc' units' where run: "process_message payment_programs (\<lambda>_. False) payment_message [[2]] compute_budget_default
      sysvar_cache_default 0 0 (payment 100 5, 0) = (Ok (), tc', units')"
    using payment_message_run by (metis prod.collapse)
  have small: "\<forall>entry \<in> set (zip (sm_program_instructions payment_message) [[2]]). entry_small entry"
    by (simp add: payment_message_def entry_small_def)
  show ?thesis
    using run process_message_conserves_lamports [OF payment_programs_ok payment_ok small run] by blast
qed

end
